(* ===== verification/Prelude.thy ===== *)
theory Prelude
  imports Main "HOL-Library.Word" "HOL-Library.Finite_Map"
begin

text \<open>
  What every component of the development shares.

  \<^item> \<open>failure\<close>: the two ways a Rust function can fail to return its value, an
    \<^verbatim>\<open>Err\<close> that the caller can inspect and a panic
    (\<^verbatim>\<open>panic!\<close>, \<^verbatim>\<open>unreachable!\<close>, a failed \<^verbatim>\<open>assert!\<close>).
    A function that can only return \<^verbatim>\<open>Err\<close> uses a plain sum type.
  \<^item> hash maps of the source are finite maps (\<^verbatim>\<open>Finite_Map\<close>), with the lemmas that let the
    simplifier decide emptiness tests and updates.
  \<^item> \<open>model_defs\<close> collects the definitions that the component proofs unfold.
\<close>

named_theorems model_defs \<open>definitions of the model that component proofs unfold\<close>

section \<open>Failures\<close>

datatype 'e failure =
    Failed 'e
  | Panicked string

type_synonym ('e, 'a) result = "'e failure + 'a"

fun map_failed :: "('e \<Rightarrow> 'f) \<Rightarrow> 'e failure \<Rightarrow> 'f failure" where
  "map_failed f (Failed e) = Failed (f e)"
| "map_failed f (Panicked m) = Panicked m"

fun panicked :: "('e, 'a) result \<Rightarrow> bool" where
  "panicked (Inl (Panicked m)) = True"
| "panicked (Inl (Failed e)) = False"
| "panicked (Inr x) = False"

lemma not_panicked_iff:
  "\<not> panicked r \<longleftrightarrow> (\<exists>x. r = Inr x) \<or> (\<exists>e. r = Inl (Failed e))"
  by (cases r rule: panicked.cases) auto

section \<open>Finite maps\<close>

lemma fmdrop_absent [simp]: "fmlookup m k = None \<Longrightarrow> fmdrop k m = m"
  by (rule fmap_ext) auto

lemma fmupd_same [simp]: "fmlookup m k = Some v \<Longrightarrow> fmupd k v m = m"
  by (rule fmap_ext) auto

lemma fmlookup_fmupd: "fmlookup (fmupd k v m) = (fmlookup m)(k \<mapsto> v)"
  by (rule ext) auto

lemma fmlookup_fmdrop: "fmlookup (fmdrop k m) = (fmlookup m)(k := None)"
  by (rule ext) auto

lemma fmlookup_fmempty: "fmlookup fmempty = (\<lambda>_. None)"
  by (rule ext) simp

lemmas fmlookup_simps = fmlookup_fmupd fmlookup_fmdrop fmlookup_fmempty

lemma fmupd_nonempty [simp]: "fmupd k v m \<noteq> fmempty" "fmempty \<noteq> fmupd k v m"
  by (metis fmlookup_simps fmempty_lookup fmupd_lookup option.distinct(1))+

section \<open>Write-once cells\<close>

text \<open>
  \<^verbatim>\<open>std::cell::OnceCell\<close>: reading gives an option; \<^verbatim>\<open>set\<close> writes an
  empty cell and reports an error (here the value \<open>False\<close>) on a full one, which keeps its
  content. The initialised cell and the result flag are both returned.
\<close>

fun once_set :: "'a \<Rightarrow> 'a option \<Rightarrow> bool \<times> 'a option" where
  "once_set x None = (True, Some x)"
| "once_set x (Some y) = (False, Some y)"

lemma once_set_keeps: "snd (once_set x (snd (once_set y c))) = snd (once_set y c)"
  by (cases c) auto

section \<open>Sets in insertion order\<close>

text \<open>
  \<^verbatim>\<open>indexmap::IndexSet\<close>, as the list of its elements in insertion order; the code uses
  it as a set that is iterated over in that order.
\<close>

definition index_insert :: "'a \<Rightarrow> 'a list \<Rightarrow> 'a list" where
  "index_insert x xs = (if x \<in> set xs then xs else xs @ [x])"

definition index_remove :: "'a \<Rightarrow> 'a list \<Rightarrow> 'a list" where
  "index_remove x xs = filter (\<lambda>y. y \<noteq> x) xs"

lemma index_insert_set [simp]: "set (index_insert x xs) = insert x (set xs)"
  by (auto simp: index_insert_def)

lemma index_remove_set [simp]: "set (index_remove x xs) = set xs - {x}"
  by (auto simp: index_remove_def)

section \<open>Decimal numbers\<close>

text \<open>What \<^verbatim>\<open>format!("{n}")\<close> writes for an unsigned integer.\<close>

definition digit_char :: "nat \<Rightarrow> char" where
  "digit_char n = char_of (48 + n)"

fun show_nat :: "nat \<Rightarrow> string" where
  "show_nat n = (if n < 10 then [digit_char n] else show_nat (n div 10) @ [digit_char (n mod 10)])"

declare show_nat.simps [simp del]

definition digits_value :: "string \<Rightarrow> nat" where
  "digits_value s = foldl (\<lambda>acc c. acc * 10 + (of_char c - 48)) 0 s"

lemma of_char_digit: "n < 10 \<Longrightarrow> of_char (digit_char n) = 48 + n"
  by (simp add: digit_char_def)

lemma digits_value_show_nat: "digits_value (show_nat n) = n"
proof (induction n rule: show_nat.induct)
  case (1 n)
  then show ?case
    by (cases "n < 10") (simp_all add: show_nat.simps [of n] digits_value_def of_char_digit)
qed

lemma show_nat_inject [simp]: "show_nat m = show_nat n \<longleftrightarrow> m = n"
  by (metis digits_value_show_nat)

end
