(* ===== verification/Session_Store.thy ===== *)
theory Session_Store
  imports Prelude
begin

text \<open>
  The session store of \<^verbatim>\<open>pavex_session\<close> (\<^verbatim>\<open>store_.rs\<close>, \<^verbatim>\<open>id.rs\<close>):
  identifiers, records, the errors of every operation, the trait
  \<^verbatim>\<open>SessionStorageBackend\<close> as a record of state-passing functions, and the contract
  that the session code relies on, as the locale \<open>storage_backend\<close>.

  JSON values (\<^verbatim>\<open>serde_json::Value\<close>) are the type parameter \<open>'v\<close>; durations are
  nanoseconds.
\<close>

section \<open>Identifiers, records and errors\<close>

datatype session_id = SessionId "128 word"

fun sid_word :: "session_id \<Rightarrow> 128 word" where
  "sid_word (SessionId u) = u"

lemma sid_word_inject: "sid_word a = sid_word b \<longleftrightarrow> a = b"
  by (cases a; cases b) simp

instantiation session_id :: linorder
begin

definition less_eq_session_id :: "session_id \<Rightarrow> session_id \<Rightarrow> bool" where
  "less_eq_session_id a b \<longleftrightarrow> sid_word a \<le> sid_word b"

definition less_session_id :: "session_id \<Rightarrow> session_id \<Rightarrow> bool" where
  "less_session_id a b \<longleftrightarrow> sid_word a < sid_word b"

instance
  by standard
    (auto simp: less_eq_session_id_def less_session_id_def sid_word_inject [symmetric])

end

type_synonym 'v state = "(string, 'v) fmap"
type_synonym duration = nat

record 'v session_record =
  rec_state :: "'v state"
  rec_ttl :: duration

definition empty_record :: "duration \<Rightarrow> 'v session_record" where
  "empty_record ttl = \<lparr>rec_state = fmempty, rec_ttl = ttl\<rparr>"

lemma empty_record_simps [simp]:
  "rec_state (empty_record ttl) = fmempty" "rec_ttl (empty_record ttl) = ttl"
  by (simp_all add: empty_record_def)

datatype create_error =
    CreateSerializationError string
  | CreateDuplicateId session_id
  | CreateOther string

datatype update_error =
    UpdateSerializationError string
  | UpdateUnknownId session_id
  | UpdateOther string

datatype update_ttl_error =
    UpdateTtlUnknownId session_id
  | UpdateTtlOther string

datatype load_error =
    LoadDeserializationError string
  | LoadOther string

datatype delete_error =
    DeleteUnknownId session_id
  | DeleteOther string

datatype change_id_error =
    ChangeIdUnknownId session_id
  | ChangeIdDuplicateId session_id
  | ChangeIdOther string

datatype delete_expired_error = DeleteExpiredError string

section \<open>The storage interface\<close>

text \<open>
  A backend operation takes the state of the storage and returns its result together with
  the new state, also when the result is an error.
\<close>

record ('s, 'v) backend =
  b_create :: "session_id \<Rightarrow> 'v session_record \<Rightarrow> 's \<Rightarrow> (create_error + unit) \<times> 's"
  b_update :: "session_id \<Rightarrow> 'v session_record \<Rightarrow> 's \<Rightarrow> (update_error + unit) \<times> 's"
  b_update_ttl :: "session_id \<Rightarrow> duration \<Rightarrow> 's \<Rightarrow> (update_ttl_error + unit) \<times> 's"
  b_load :: "session_id \<Rightarrow> 's \<Rightarrow> (load_error + 'v session_record option) \<times> 's"
  b_delete :: "session_id \<Rightarrow> 's \<Rightarrow> (delete_error + unit) \<times> 's"
  b_change_id :: "session_id \<Rightarrow> session_id \<Rightarrow> 's \<Rightarrow> (change_id_error + unit) \<times> 's"
  b_delete_expired :: "nat option \<Rightarrow> 's \<Rightarrow> (delete_expired_error + nat) \<times> 's"

text \<open>
  \<^verbatim>\<open>SessionStore\<close> boxes a backend and forwards every call to it.
\<close>

datatype ('s, 'v) session_store = SessionStore "('s, 'v) backend"

fun store_create :: "('s, 'v) session_store \<Rightarrow> session_id \<Rightarrow> 'v session_record \<Rightarrow> 's
    \<Rightarrow> (create_error + unit) \<times> 's" where
  "store_create (SessionStore b) i r = b_create b i r"

fun store_update :: "('s, 'v) session_store \<Rightarrow> session_id \<Rightarrow> 'v session_record \<Rightarrow> 's
    \<Rightarrow> (update_error + unit) \<times> 's" where
  "store_update (SessionStore b) i r = b_update b i r"

fun store_update_ttl :: "('s, 'v) session_store \<Rightarrow> session_id \<Rightarrow> duration \<Rightarrow> 's
    \<Rightarrow> (update_ttl_error + unit) \<times> 's" where
  "store_update_ttl (SessionStore b) i ttl = b_update_ttl b i ttl"

fun store_load :: "('s, 'v) session_store \<Rightarrow> session_id \<Rightarrow> 's
    \<Rightarrow> (load_error + 'v session_record option) \<times> 's" where
  "store_load (SessionStore b) i = b_load b i"

fun store_delete :: "('s, 'v) session_store \<Rightarrow> session_id \<Rightarrow> 's
    \<Rightarrow> (delete_error + unit) \<times> 's" where
  "store_delete (SessionStore b) i = b_delete b i"

fun store_change_id :: "('s, 'v) session_store \<Rightarrow> session_id \<Rightarrow> session_id \<Rightarrow> 's
    \<Rightarrow> (change_id_error + unit) \<times> 's" where
  "store_change_id (SessionStore b) old new = b_change_id b old new"

fun store_delete_expired :: "('s, 'v) session_store \<Rightarrow> nat option \<Rightarrow> 's
    \<Rightarrow> (delete_expired_error + nat) \<times> 's" where
  "store_delete_expired (SessionStore b) batch = b_delete_expired b batch"

section \<open>The contract of a backend\<close>

text \<open>
  \<open>content s i\<close> is the state held for \<open>i\<close>, expired or not, and
  \<open>live s i\<close> says that a load of \<open>i\<close> would return a record. The laws say what
  each outcome of an operation tells the caller about the storage. \<open>ok\<close> is what the
  backend needs of its environment for expired records to stay expired.
\<close>

locale storage_backend =
  fixes store :: "('s, 'v) session_store"
    and content :: "'s \<Rightarrow> session_id \<Rightarrow> 'v state option"
    and live :: "'s \<Rightarrow> session_id \<Rightarrow> bool"
    and ok :: "'s \<Rightarrow> bool"
  assumes create_ok:
      "store_create store i r s = (Inr (), s') \<Longrightarrow> content s' = (content s)(i \<mapsto> rec_state r)"
    and create_err: "store_create store i r s = (Inl ce, s') \<Longrightarrow> content s' = content s"
    and update_ok:
      "store_update store i r s = (Inr (), s') \<Longrightarrow> content s' = (content s)(i \<mapsto> rec_state r)"
    and update_err: "store_update store i r s = (Inl ue, s') \<Longrightarrow> content s' = content s"
    and update_ttl_content: "store_update_ttl store i t s = (x, s') \<Longrightarrow> content s' = content s"
    and load_content: "store_load store i s = (y, s') \<Longrightarrow> content s' = content s"
    and load_some:
      "store_load store i s = (Inr (Some r), s') \<Longrightarrow> content s i = Some (rec_state r)"
    and load_none: "store_load store i s = (Inr None, s') \<Longrightarrow> \<not> live s i"
    and live_content: "live s i \<Longrightarrow> content s i \<noteq> None"
    and delete_ok: "store_delete store i s = (Inr (), s') \<Longrightarrow> content s' = (content s)(i := None)"
    and delete_unknown:
      "store_delete store i s = (Inl (DeleteUnknownId j), s')
        \<Longrightarrow> \<not> live s' i \<and> (\<forall>k. k \<noteq> i \<longrightarrow> content s' k = content s k)"
    and delete_other:
      "store_delete store i s = (Inl (DeleteOther m), s') \<Longrightarrow> content s' = content s"
    and change_id_ok:
      "old \<noteq> new \<Longrightarrow> store_change_id store old new s = (Inr (), s')
        \<Longrightarrow> content s old \<noteq> None \<and> content s' = (content s)(new := content s old, old := None)"
    and change_id_unknown:
      "store_change_id store old new s = (Inl (ChangeIdUnknownId j), s')
        \<Longrightarrow> \<not> live s' old \<and> (\<forall>k. k \<noteq> old \<longrightarrow> content s' k = content s k)"
    and change_id_duplicate:
      "store_change_id store old new s = (Inl (ChangeIdDuplicateId j), s')
        \<Longrightarrow> content s' = content s"
    and change_id_other:
      "store_change_id store old new s = (Inl (ChangeIdOther m), s') \<Longrightarrow> content s' = content s"
    and delete_env: "ok s \<Longrightarrow> store_delete store i s = (dr, s') \<Longrightarrow> ok s'"
    and change_id_env: "ok s \<Longrightarrow> store_change_id store old new s = (ci, s') \<Longrightarrow> ok s'"
    and create_live: "ok s \<Longrightarrow> store_create store i r s = (cr, s') \<Longrightarrow> k \<noteq> i
      \<Longrightarrow> \<not> live s k \<Longrightarrow> \<not> live s' k"
begin

lemma delete_gone:
  assumes "store_delete store i s = (r, s')" and "r = Inr () \<or> r = Inl (DeleteUnknownId j)"
  shows "\<not> live s' i \<and> (\<forall>k. k \<noteq> i \<longrightarrow> content s' k = content s k)"
  using assms delete_ok delete_unknown live_content by fastforce

text \<open>No operation touches an identifier that it was not given.\<close>

lemma delete_frame:
  "store_delete store i s = (r, s') \<Longrightarrow> \<forall>k. k \<noteq> i \<longrightarrow> content s' k = content s k"
  by (cases r; cases "projl r") (auto dest: delete_ok delete_unknown delete_other)

lemma create_frame:
  "store_create store i r s = (x, s') \<Longrightarrow> \<forall>k. k \<noteq> i \<longrightarrow> content s' k = content s k"
  by (cases x) (auto dest: create_ok create_err)

lemma update_frame:
  "store_update store i r s = (x, s') \<Longrightarrow> \<forall>k. k \<noteq> i \<longrightarrow> content s' k = content s k"
  by (cases x) (auto dest: update_ok update_err)

lemma change_id_frame:
  "store_change_id store old new s = (x, s')
    \<Longrightarrow> \<forall>k. old \<noteq> new \<longrightarrow> k \<noteq> old \<longrightarrow> k \<noteq> new \<longrightarrow> content s' k = content s k"
  by (cases x; cases "projl x")
    (auto dest: change_id_ok change_id_unknown change_id_duplicate change_id_other)

end

end
