(* ===== verification/Session_Config.thy ===== *)
theory Session_Config
  imports Session_Store
begin

text \<open>
  Configuration of sessions (\<^verbatim>\<open>config/state.rs\<close>, \<^verbatim>\<open>config/cookie.rs\<close>,
  \<^verbatim>\<open>SessionConfig\<close> in \<^verbatim>\<open>lib.rs\<close>), with the defaults of the source.

  The TTL extension threshold is an \<^verbatim>\<open>f32\<close> in the source. Floating-point numbers are
  the type parameter \<open>'f\<close>, of which only the comparisons and the constants zero and
  one are used; the product of a duration and a ratio
  (\<^verbatim>\<open>Duration::mul_f32\<close>) is an argument of the operations that need it.
\<close>

section \<open>Server-side state\<close>

datatype ttl_extension_trigger = OnStateLoadsAndChanges | OnStateChanges

datatype server_state_creation = SkipIfEmpty | NeverSkip

datatype missing_server_state = Allow | Reject

datatype 'f ttl_extension_threshold = TtlExtensionThreshold 'f

datatype 'f invalid_ttl_extension_threshold = InvalidTtlExtensionThreshold 'f

definition threshold_new :: "'f::{ord,zero,one}
    \<Rightarrow> 'f invalid_ttl_extension_threshold + 'f ttl_extension_threshold" where
  "threshold_new v =
     (if \<not> (0 \<le> v \<and> v \<le> 1) then Inl (InvalidTtlExtensionThreshold v)
      else Inr (TtlExtensionThreshold v))"

fun threshold_inner :: "'f ttl_extension_threshold \<Rightarrow> 'f" where
  "threshold_inner (TtlExtensionThreshold v) = v"

record 'f session_state_config =
  ssc_ttl :: duration
  ssc_extend_ttl :: ttl_extension_trigger
  ssc_ttl_extension_threshold :: "'f ttl_extension_threshold option"
  ssc_server_state_creation :: server_state_creation
  ssc_missing_server_state :: missing_server_state

text \<open>One day, in nanoseconds.\<close>

definition default_ttl :: duration where
  "default_ttl = 60 * 60 * 24 * 1000000000"

text \<open>
  The threshold of a default configuration is built from the literal \<open>0.8\<close>, an
  argument here; \<^verbatim>\<open>unwrap\<close> panics if it is not a ratio.
\<close>

definition default_ttl_extension_threshold :: "'f::{ord,zero,one}
    \<Rightarrow> (unit, 'f ttl_extension_threshold option) result" where
  "default_ttl_extension_threshold eight_tenths =
     (case threshold_new eight_tenths of
        Inr t \<Rightarrow> Inr (Some t)
      | Inl e \<Rightarrow> Inl (Panicked ''called `Result::unwrap()` on an `Err` value''))"

definition session_state_config_default :: "'f::{ord,zero,one}
    \<Rightarrow> (unit, 'f session_state_config) result" where
  "session_state_config_default eight_tenths =
     (case default_ttl_extension_threshold eight_tenths of
        Inl e \<Rightarrow> Inl e
      | Inr t \<Rightarrow> Inr
          \<lparr>ssc_ttl = default_ttl,
           ssc_extend_ttl = OnStateLoadsAndChanges,
           ssc_ttl_extension_threshold = t,
           ssc_server_state_creation = NeverSkip,
           ssc_missing_server_state = Reject\<rparr>)"

text \<open>
  Deserializing the TTL: the span is a parameter type of which only the sign is inspected;
  its conversion to a duration is the argument \<open>try_into\<close>, which can fail.
\<close>

definition deserialize_ttl :: "('span \<Rightarrow> int) \<Rightarrow> ('span \<Rightarrow> string + duration)
    \<Rightarrow> 'span \<Rightarrow> string + duration" where
  "deserialize_ttl signum try_into span =
     (if signum span < 0 then Inl ''The session state TTL cannot be negative''
      else if signum span = 0 then Inl ''The session state TTL cannot be zero''
      else try_into span)"

section \<open>Session cookie\<close>

datatype same_site = Strict | Lax | SameSiteNone

datatype session_cookie_kind = Persistent | SessionKind

record session_cookie_config =
  scc_name :: string
  scc_domain :: "string option"
  scc_path :: "string option"
  scc_secure :: bool
  scc_http_only :: bool
  scc_same_site :: "same_site option"
  scc_kind :: session_cookie_kind

definition session_cookie_config_default :: session_cookie_config where
  "session_cookie_config_default =
     \<lparr>scc_name = ''id'', scc_domain = None, scc_path = Some ''/'', scc_secure = True,
      scc_http_only = True, scc_same_site = Some Lax, scc_kind = Persistent\<rparr>"

record 'f session_config =
  cfg_cookie :: session_cookie_config
  cfg_state :: "'f session_state_config"

lemma threshold_new_Inr:
  "threshold_new v = Inr t \<Longrightarrow> 0 \<le> threshold_inner t \<and> threshold_inner t \<le> 1"
  by (auto simp: threshold_new_def split: if_splits)

lemma deserialize_ttl_Inr:
  "deserialize_ttl signum try_into span = Inr d \<Longrightarrow> 0 < signum span \<and> try_into span = Inr d"
  by (auto simp: deserialize_ttl_def split: if_splits)

end
