(* ===== verification/Session.thy ===== *)
theory Session
  imports Session_Config
begin

text \<open>
  The session object of \<^verbatim>\<open>pavex_session/src/session_.rs\<close>: its state, loading,
  the operations on the server-side and the client-side state, identifier cycling and
  invalidation. Synchronisation and finalisation are in \<^verbatim>\<open>Session_Sync\<close>.

  Operations take the session and the state of the storage and return their result with
  both. \<^verbatim>\<open>serde_json\<close> conversions and the random generator of identifiers are
  arguments of the operations that use them.
\<close>

section \<open>State\<close>

datatype current_session_id =
    Existing session_id
  | ToBeRenamed (renamed_old: session_id) (renamed_new: session_id)
  | NewlyGenerated session_id

fun new_id :: "current_session_id \<Rightarrow> session_id" where
  "new_id (Existing i) = i"
| "new_id (ToBeRenamed old new) = new"
| "new_id (NewlyGenerated i) = i"

fun old_id :: "current_session_id \<Rightarrow> session_id option" where
  "old_id (Existing i) = Some i"
| "old_id (ToBeRenamed old new) = Some old"
| "old_id (NewlyGenerated i) = None"

datatype 'v client_state =
    ClientUnchanged "'v state"
  | ClientUpdated "'v state"

datatype 'v server_state =
    Unchanged "'v state" duration
  | DoesNotExist
  | MarkedForDeletion
  | Changed "'v state"

text \<open>
  \<open>ses_server_state\<close> is a write-once cell, empty until the state is loaded;
  \<open>ses_invalidated\<close> is the cell of \<^verbatim>\<open>InvalidationFlag\<close>.
\<close>

record ('f, 'v) session =
  ses_id :: current_session_id
  ses_server_state :: "'v server_state option"
  ses_client_state :: "'v client_state"
  ses_invalidated :: "unit option"
  ses_config :: "'f session_config"

record 'v incoming_session =
  inc_id :: session_id
  inc_client_state :: "'v state"

definition flag_new :: "unit option" where
  "flag_new = None"

definition flag_invalidate :: "unit option \<Rightarrow> unit option" where
  "flag_invalidate c = snd (once_set () c)"

definition flag_is_invalidated :: "unit option \<Rightarrow> bool" where
  "flag_is_invalidated c \<longleftrightarrow> c \<noteq> None"

lemma flag_simps [simp]:
  "\<not> flag_is_invalidated flag_new"
  "flag_is_invalidated (flag_invalidate c)"
  by (cases c; simp add: flag_new_def flag_is_invalidated_def flag_invalidate_def)+

text \<open>A new session: \<open>random\<close> is the identifier drawn when there is no incoming one.\<close>

definition session_new :: "'f session_config \<Rightarrow> session_id \<Rightarrow> 'v incoming_session option
    \<Rightarrow> ('f, 'v) session" where
  "session_new config random incoming =
     (let (client, previous) =
            (case incoming of Some s \<Rightarrow> (inc_client_state s, Some (inc_id s)) | None \<Rightarrow> (fmempty, None));
          (i, server) =
            (case previous of
               Some i \<Rightarrow> (Existing i, None)
             | None \<Rightarrow> (NewlyGenerated random, Some DoesNotExist))
      in \<lparr>ses_id = i, ses_server_state = server, ses_client_state = ClientUnchanged client,
          ses_invalidated = flag_new, ses_config = config\<rparr>)"

definition is_invalidated :: "('f, 'v) session \<Rightarrow> bool" where
  "is_invalidated ses \<longleftrightarrow> flag_is_invalidated (ses_invalidated ses)"

section \<open>Loading the server-side state\<close>

text \<open>
  \<open>force_load\<close> awaits the storage between reading the cell and writing it. The two
  halves are separate definitions, so that interleaved loads can be stated.
\<close>

definition load_target :: "('f, 'v) session \<Rightarrow> session_id option" where
  "load_target ses =
     (case old_id (ses_id ses) of
        None \<Rightarrow> None
      | Some i \<Rightarrow> if ses_server_state ses \<noteq> None then None else Some i)"

definition load_commit :: "'v session_record option \<Rightarrow> ('f, 'v) session \<Rightarrow> ('f, 'v) session" where
  "load_commit record ses =
     (let (server, must_invalidate) =
            (case record of
               Some r \<Rightarrow> (Unchanged (rec_state r) (rec_ttl r), False)
             | None \<Rightarrow>
                 (case ssc_missing_server_state (cfg_state (ses_config ses)) of
                    Allow \<Rightarrow> (DoesNotExist, False)
                  | Reject \<Rightarrow> (MarkedForDeletion, True)));
          (was_set, cell) = once_set server (ses_server_state ses);
          ses = ses\<lparr>ses_server_state := cell\<rparr>
      in if was_set \<and> must_invalidate
         then ses\<lparr>ses_invalidated := flag_invalidate (ses_invalidated ses)\<rparr>
         else ses)"

definition force_load :: "('s, 'v) session_store \<Rightarrow> ('f, 'v) session \<Rightarrow> 's
    \<Rightarrow> (load_error + unit) \<times> ('f, 'v) session \<times> 's" where
  "force_load store ses st =
     (case load_target ses of
        None \<Rightarrow> (Inr (), ses, st)
      | Some i \<Rightarrow>
          (case store_load store i st of
             (Inl e, st) \<Rightarrow> (Inl e, ses, st)
           | (Inr record, st) \<Rightarrow> (Inr (), load_commit record ses, st)))"

text \<open>
  \<^verbatim>\<open>force_load_ref\<close> and \<^verbatim>\<open>force_load_mut\<close> differ in the kind of
  reference they return.
\<close>

definition force_load_ref :: "('s, 'v) session_store \<Rightarrow> ('f, 'v) session \<Rightarrow> 's
    \<Rightarrow> (load_error, 'v server_state) result \<times> ('f, 'v) session \<times> 's" where
  "force_load_ref store ses st =
     (case force_load store ses st of
        (Inl e, ses, st) \<Rightarrow> (Inl (Failed e), ses, st)
      | (Inr _, ses, st) \<Rightarrow>
          (case ses_server_state ses of
             None \<Rightarrow> (Inl (Panicked ''Server-side state should have been loaded by now!''), ses, st)
           | Some state \<Rightarrow> (Inr state, ses, st)))"

definition force_load_mut :: "('s, 'v) session_store \<Rightarrow> ('f, 'v) session \<Rightarrow> 's
    \<Rightarrow> (load_error, 'v server_state) result \<times> ('f, 'v) session \<times> 's" where
  "force_load_mut store ses st =
     (case force_load store ses st of
        (Inl e, ses, st) \<Rightarrow> (Inl (Failed e), ses, st)
      | (Inr _, ses, st) \<Rightarrow>
          (case ses_server_state ses of
             None \<Rightarrow> (Inl (Panicked ''Server-side state should have been loaded by now!''), ses, st)
           | Some state \<Rightarrow> (Inr state, ses, st)))"

section \<open>Errors of typed accesses\<close>

datatype value_location = Server | Client

datatype 'e value_deserialization_error = ValueDeserializationError string value_location 'e

datatype 'e value_serialization_error = ValueSerializationError string value_location 'e

datatype 'e server_get_error =
    GetLoadError load_error
  | GetDeserializationError "'e value_deserialization_error"

datatype 'e server_remove_error =
    RemoveLoadError load_error
  | RemoveDeserializationError "'e value_deserialization_error"

datatype 'e server_insert_error =
    InsertLoadError load_error
  | InsertSerializationError "'e value_serialization_error"

section \<open>Server-side operations\<close>

definition session_is_empty :: "('s, 'v) session_store \<Rightarrow> ('f, 'v) session \<Rightarrow> 's
    \<Rightarrow> (load_error, bool) result \<times> ('f, 'v) session \<times> 's" where
  "session_is_empty store ses st =
     (case force_load_ref store ses st of
        (Inl e, ses, st) \<Rightarrow> (Inl e, ses, st)
      | (Inr server, ses, st) \<Rightarrow>
          (Inr (case server of
                  Unchanged state ttl \<Rightarrow> state = fmempty
                | Changed state \<Rightarrow> state = fmempty
                | DoesNotExist \<Rightarrow> True
                | MarkedForDeletion \<Rightarrow> True), ses, st))"

definition get_raw :: "('s, 'v) session_store \<Rightarrow> string \<Rightarrow> ('f, 'v) session \<Rightarrow> 's
    \<Rightarrow> (load_error, 'v option) result \<times> ('f, 'v) session \<times> 's" where
  "get_raw store key ses st =
     (case force_load_ref store ses st of
        (Inl e, ses, st) \<Rightarrow> (Inl e, ses, st)
      | (Inr server, ses, st) \<Rightarrow>
          (Inr (case server of
                  Unchanged state ttl \<Rightarrow> fmlookup state key
                | Changed state \<Rightarrow> fmlookup state key
                | DoesNotExist \<Rightarrow> None
                | MarkedForDeletion \<Rightarrow> None), ses, st))"

definition insert_raw :: "('s, 'v) session_store \<Rightarrow> string \<Rightarrow> 'v \<Rightarrow> ('f, 'v) session \<Rightarrow> 's
    \<Rightarrow> (load_error, 'v option) result \<times> ('f, 'v) session \<times> 's" where
  "insert_raw store key v ses st =
     (let put = (\<lambda>existing ses.
            (Inr (fmlookup existing key),
             ses\<lparr>ses_server_state := Some (Changed (fmupd key v existing))\<rparr>))
      in case force_load_mut store ses st of
           (Inl e, ses, st) \<Rightarrow> (Inl e, ses, st)
         | (Inr server, ses, st) \<Rightarrow>
             (case server of
                MarkedForDeletion \<Rightarrow> (Inr None, ses, st)
              | Unchanged state ttl \<Rightarrow> (let (r, ses) = put state ses in (r, ses, st))
              | Changed state \<Rightarrow> (let (r, ses) = put state ses in (r, ses, st))
              | DoesNotExist \<Rightarrow> (let (r, ses) = put fmempty ses in (r, ses, st))))"

text \<open>The value is removed from the loaded map in place.\<close>

definition remove_raw :: "('s, 'v) session_store \<Rightarrow> string \<Rightarrow> ('f, 'v) session \<Rightarrow> 's
    \<Rightarrow> (load_error, 'v option) result \<times> ('f, 'v) session \<times> 's" where
  "remove_raw store key ses st =
     (case force_load_mut store ses st of
        (Inl e, ses, st) \<Rightarrow> (Inl e, ses, st)
      | (Inr server, ses, st) \<Rightarrow>
          (case server of
             MarkedForDeletion \<Rightarrow> (Inr None, ses, st)
           | DoesNotExist \<Rightarrow> (Inr None, ses, st)
           | Unchanged state ttl \<Rightarrow>
               (Inr (fmlookup state key),
                ses\<lparr>ses_server_state := Some (Unchanged (fmdrop key state) ttl)\<rparr>, st)
           | Changed state \<Rightarrow>
               (Inr (fmlookup state key),
                ses\<lparr>ses_server_state := Some (Changed (fmdrop key state))\<rparr>, st)))"

definition session_delete :: "('f, 'v) session \<Rightarrow> ('f, 'v) session" where
  "session_delete ses = ses\<lparr>ses_server_state := Some MarkedForDeletion\<rparr>"

definition session_clear :: "('s, 'v) session_store \<Rightarrow> ('f, 'v) session \<Rightarrow> 's
    \<Rightarrow> (load_error, unit) result \<times> ('f, 'v) session \<times> 's" where
  "session_clear store ses st =
     (case force_load_mut store ses st of
        (Inl e, ses, st) \<Rightarrow> (Inl e, ses, st)
      | (Inr server, ses, st) \<Rightarrow>
          (Inr (),
           (case server of
              MarkedForDeletion \<Rightarrow> ses
            | DoesNotExist \<Rightarrow> ses
            | Unchanged state ttl \<Rightarrow>
                if state \<noteq> fmempty then ses\<lparr>ses_server_state := Some (Changed fmempty)\<rparr> else ses
            | Changed state \<Rightarrow> ses\<lparr>ses_server_state := Some (Changed fmempty)\<rparr>), st))"

text \<open>Typed accesses go through a JSON conversion that can fail.\<close>

definition session_get :: "('v \<Rightarrow> 'e + 't) \<Rightarrow> ('s, 'v) session_store \<Rightarrow> string
    \<Rightarrow> ('f, 'v) session \<Rightarrow> 's
    \<Rightarrow> ('e server_get_error, 't option) result \<times> ('f, 'v) session \<times> 's" where
  "session_get from_value store key ses st =
     (case get_raw store key ses st of
        (Inl e, ses, st) \<Rightarrow> (Inl (map_failed GetLoadError e), ses, st)
      | (Inr None, ses, st) \<Rightarrow> (Inr None, ses, st)
      | (Inr (Some v), ses, st) \<Rightarrow>
          (case from_value v of
             Inr t \<Rightarrow> (Inr (Some t), ses, st)
           | Inl e \<Rightarrow>
               (Inl (Failed (GetDeserializationError (ValueDeserializationError key Server e))),
                ses, st)))"

definition session_insert :: "('t \<Rightarrow> 'e + 'v) \<Rightarrow> ('s, 'v) session_store \<Rightarrow> string \<Rightarrow> 't
    \<Rightarrow> ('f, 'v) session \<Rightarrow> 's
    \<Rightarrow> ('e server_insert_error, 'v option) result \<times> ('f, 'v) session \<times> 's" where
  "session_insert to_value store key t ses st =
     (case to_value t of
        Inl e \<Rightarrow>
          (Inl (Failed (InsertSerializationError (ValueSerializationError key Server e))), ses, st)
      | Inr v \<Rightarrow>
          (case insert_raw store key v ses st of
             (Inl e, ses, st) \<Rightarrow> (Inl (map_failed InsertLoadError e), ses, st)
           | (Inr r, ses, st) \<Rightarrow> (Inr r, ses, st)))"

definition session_remove :: "('v \<Rightarrow> 'e + 't) \<Rightarrow> ('s, 'v) session_store \<Rightarrow> string
    \<Rightarrow> ('f, 'v) session \<Rightarrow> 's
    \<Rightarrow> ('e server_remove_error, 't option) result \<times> ('f, 'v) session \<times> 's" where
  "session_remove from_value store key ses st =
     (case remove_raw store key ses st of
        (Inl e, ses, st) \<Rightarrow> (Inl (map_failed RemoveLoadError e), ses, st)
      | (Inr None, ses, st) \<Rightarrow> (Inr None, ses, st)
      | (Inr (Some v), ses, st) \<Rightarrow>
          (case from_value v of
             Inr t \<Rightarrow> (Inr (Some t), ses, st)
           | Inl e \<Rightarrow>
               (Inl (Failed (RemoveDeserializationError (ValueDeserializationError key Server e))),
                ses, st)))"

section \<open>Identifier cycling and invalidation\<close>

text \<open>\<open>draw i\<close> is the identifier that the \<open>i\<close>-th call of the generator returns.\<close>

definition max_n_attempts :: nat where
  "max_n_attempts = 16"

function cycle_loop :: "(nat \<Rightarrow> session_id) \<Rightarrow> session_id option \<Rightarrow> nat
    \<Rightarrow> (unit, session_id) result" where
  "cycle_loop draw old i =
     (if max_n_attempts \<le> i then
        Inl (Panicked ''Failed to generate a new session ID that does not collide with the pre-existing one'')
      else if Some (draw i) \<noteq> old then Inr (draw i)
      else cycle_loop draw old (Suc i))"
  by pat_completeness auto

termination
  by (relation "measure (\<lambda>(draw, old, i). max_n_attempts - i)") auto

declare cycle_loop.simps [simp del]

definition cycle_id :: "(nat \<Rightarrow> session_id) \<Rightarrow> ('f, 'v) session
    \<Rightarrow> (unit, unit) result \<times> ('f, 'v) session" where
  "cycle_id draw ses =
     (let old = (case ses_id ses of
                   Existing i \<Rightarrow> Some i
                 | ToBeRenamed old new \<Rightarrow> Some old
                 | NewlyGenerated i \<Rightarrow> None)
      in case cycle_loop draw old 0 of
           Inl e \<Rightarrow> (Inl e, ses)
         | Inr new \<Rightarrow>
             (Inr (), ses\<lparr>ses_id := (case old of
                                     Some old \<Rightarrow> ToBeRenamed old new
                                   | None \<Rightarrow> NewlyGenerated new)\<rparr>))"

definition invalidate :: "('f, 'v) session \<Rightarrow> ('f, 'v) session" where
  "invalidate ses =
     ses\<lparr>ses_invalidated := flag_invalidate (ses_invalidated ses),
         ses_server_state := Some MarkedForDeletion\<rparr>"

end
