(* ===== verification/Session_Client.thy ===== *)
theory Session_Client
  imports Session
begin

text \<open>
  The client-side state of a session (\<^verbatim>\<open>ClientSessionState\<close> and
  \<^verbatim>\<open>ClientSessionStateMut\<close> in \<^verbatim>\<open>session_.rs\<close>): the key-value
  pairs that travel in the session cookie. A mutable view holds the client state and the
  invalidation flag of its session; \<open>client_mut\<close> runs an operation on that view and
  writes the state back.
\<close>

section \<open>Reads\<close>

definition client_get_raw :: "'v client_state \<Rightarrow> unit option \<Rightarrow> string \<Rightarrow> 'v option" where
  "client_get_raw c flag key =
     (if flag_is_invalidated flag then None
      else case c of
             ClientUnchanged state \<Rightarrow> fmlookup state key
           | ClientUpdated state \<Rightarrow> fmlookup state key)"

definition client_is_empty :: "'v client_state \<Rightarrow> unit option \<Rightarrow> bool" where
  "client_is_empty c flag \<longleftrightarrow>
     (if flag_is_invalidated flag then True
      else case c of
             ClientUpdated state \<Rightarrow> state = fmempty
           | ClientUnchanged state \<Rightarrow> state = fmempty)"

definition client_get :: "('v \<Rightarrow> 'e + 't) \<Rightarrow> 'v client_state \<Rightarrow> unit option \<Rightarrow> string
    \<Rightarrow> 'e value_deserialization_error + 't option" where
  "client_get from_value c flag key =
     (case client_get_raw c flag key of
        None \<Rightarrow> Inr None
      | Some v \<Rightarrow>
          (case from_value v of
             Inr t \<Rightarrow> Inr (Some t)
           | Inl e \<Rightarrow> Inl (ValueDeserializationError key Client e)))"

section \<open>Writes\<close>

definition client_insert_raw :: "string \<Rightarrow> 'v \<Rightarrow> 'v client_state \<Rightarrow> unit option
    \<Rightarrow> 'v option \<times> 'v client_state" where
  "client_insert_raw key v c flag =
     (if flag_is_invalidated flag then (None, c)
      else case c of
             ClientUpdated state \<Rightarrow> (fmlookup state key, ClientUpdated (fmupd key v state))
           | ClientUnchanged state \<Rightarrow> (fmlookup state key, ClientUpdated (fmupd key v state)))"

definition client_insert :: "('t \<Rightarrow> 'e + 'v) \<Rightarrow> string \<Rightarrow> 't \<Rightarrow> 'v client_state
    \<Rightarrow> unit option \<Rightarrow> ('e value_serialization_error + 'v option) \<times> 'v client_state" where
  "client_insert to_value key t c flag =
     (case to_value t of
        Inl e \<Rightarrow> (Inl (ValueSerializationError key Client e), c)
      | Inr v \<Rightarrow> (let (old, c) = client_insert_raw key v c flag in (Inr old, c)))"

definition client_remove_raw :: "string \<Rightarrow> 'v client_state \<Rightarrow> unit option
    \<Rightarrow> 'v option \<times> 'v client_state" where
  "client_remove_raw key c flag =
     (if flag_is_invalidated flag then (None, c)
      else case c of
             ClientUpdated state \<Rightarrow> (fmlookup state key, ClientUpdated (fmdrop key state))
           | ClientUnchanged state \<Rightarrow>
               (case fmlookup state key of
                  None \<Rightarrow> (None, ClientUnchanged (fmdrop key state))
                | Some v \<Rightarrow> (Some v, ClientUpdated (fmdrop key state))))"

definition client_remove :: "('v \<Rightarrow> 'e + 't) \<Rightarrow> string \<Rightarrow> 'v client_state \<Rightarrow> unit option
    \<Rightarrow> ('e value_deserialization_error + 't option) \<times> 'v client_state" where
  "client_remove from_value key c flag =
     (case client_remove_raw key c flag of
        (None, c) \<Rightarrow> (Inr None, c)
      | (Some v, c) \<Rightarrow>
          (case from_value v of
             Inr t \<Rightarrow> (Inr (Some t), c)
           | Inl e \<Rightarrow> (Inl (ValueDeserializationError key Client e), c)))"

definition client_clear :: "'v client_state \<Rightarrow> unit option \<Rightarrow> unit \<times> 'v client_state" where
  "client_clear c flag =
     (if flag_is_invalidated flag then ((), c)
      else case c of
             ClientUpdated state \<Rightarrow> ((), ClientUpdated fmempty)
           | ClientUnchanged state \<Rightarrow>
               if state \<noteq> fmempty then ((), ClientUpdated fmempty) else ((), c))"

definition client_mut :: "('v client_state \<Rightarrow> unit option \<Rightarrow> 'r \<times> 'v client_state)
    \<Rightarrow> ('f, 'v) session \<Rightarrow> 'r \<times> ('f, 'v) session" where
  "client_mut operation ses =
     (let (r, c) = operation (ses_client_state ses) (ses_invalidated ses)
      in (r, ses\<lparr>ses_client_state := c\<rparr>))"

section \<open>The client state as a map\<close>

text \<open>What the client state means: the key-value pairs that reads can see.\<close>

fun client_map :: "'v client_state \<Rightarrow> 'v state" where
  "client_map (ClientUnchanged state) = state"
| "client_map (ClientUpdated state) = state"

fun is_updated :: "'v client_state \<Rightarrow> bool" where
  "is_updated (ClientUpdated state) = True"
| "is_updated (ClientUnchanged state) = False"

lemmas client_op_defs = client_get_raw_def client_is_empty_def client_insert_raw_def
  client_remove_raw_def client_clear_def

end
