(* ===== verification/Session_Sync.thy ===== *)
theory Session_Sync
  imports Session_Client
begin

text \<open>
  Synchronising a session with its storage, and finalising it into the cookie of the
  response (\<^verbatim>\<open>sync\<close> and \<^verbatim>\<open>finalize\<close> in \<^verbatim>\<open>session_.rs\<close>,
  \<^verbatim>\<open>middleware.rs\<close>, \<^verbatim>\<open>wire.rs\<close>), and reading that cookie back from the
  next request (\<^verbatim>\<open>incoming.rs\<close>).

  \<open>sync\<close> is one function in the source. Here \<open>sync_store\<close> is its match on the
  server state and the identifier, which talks to the storage, and \<open>sync_state\<close> the
  update of the in-memory state that follows when nothing failed. \<open>mul\<close> stands for
  \<^verbatim>\<open>Duration::mul_f32\<close>.
\<close>

section \<open>Synchronisation\<close>

datatype sync_error =
    SyncCreateError create_error
  | SyncUpdateError update_error
  | SyncDeleteError delete_error
  | SyncUpdateTtlError update_ttl_error
  | SyncChangeIdError change_id_error

fun lift_err :: "('e \<Rightarrow> sync_error) \<Rightarrow> ('e + unit) \<times> 's \<Rightarrow> (sync_error, unit) result \<times> 's" where
  "lift_err f (Inl e, st) = (Inl (Failed (f e)), st)"
| "lift_err f (Inr u, st) = (Inr (), st)"

definition fresh_ttl :: "('f, 'v) session \<Rightarrow> duration" where
  "fresh_ttl ses = ssc_ttl (cfg_state (ses_config ses))"

definition create_if_empty :: "('f, 'v) session \<Rightarrow> bool" where
  "create_if_empty ses \<longleftrightarrow>
     (old_id (ses_id ses) \<noteq> None \<or> is_updated (ses_client_state ses)) \<and>
     ssc_server_state_creation (cfg_state (ses_config ses)) = NeverSkip"

definition must_extend_ttl :: "(duration \<Rightarrow> 'f \<Rightarrow> duration) \<Rightarrow> ('f, 'v) session \<Rightarrow> duration \<Rightarrow> bool" where
  "must_extend_ttl mul ses remaining \<longleftrightarrow>
     ssc_extend_ttl (cfg_state (ses_config ses)) = OnStateLoadsAndChanges \<and>
     (case ssc_ttl_extension_threshold (cfg_state (ses_config ses)) of
        None \<Rightarrow> True
      | Some ratio \<Rightarrow> remaining < mul (fresh_ttl ses) (threshold_inner ratio))"

definition sync_store :: "(duration \<Rightarrow> 'f \<Rightarrow> duration) \<Rightarrow> ('s, 'v) session_store
    \<Rightarrow> ('f, 'v) session \<Rightarrow> 's \<Rightarrow> (sync_error, unit) result \<times> 's" where
  "sync_store mul store ses st =
     (let fresh = fresh_ttl ses;
          create = (\<lambda>i r st. lift_err SyncCreateError (store_create store i r st))
      in case ses_server_state ses of
           Some DoesNotExist \<Rightarrow>
             (case ses_id ses of
                NewlyGenerated i \<Rightarrow>
                  if create_if_empty ses then create i (empty_record fresh) st else (Inr (), st)
              | Existing i \<Rightarrow>
                  if create_if_empty ses then create i (empty_record fresh) st else (Inr (), st)
              | ToBeRenamed old new \<Rightarrow> (Inr (), st))
         | None \<Rightarrow>
             (case ses_id ses of
                Existing i \<Rightarrow> (Inr (), st)
              | ToBeRenamed old new \<Rightarrow> lift_err SyncChangeIdError (store_change_id store old new st)
              | NewlyGenerated i \<Rightarrow>
                  (Inl (Panicked ''A newly generated session cannot have a NotLoaded server state''), st))
         | Some (Unchanged state remaining) \<Rightarrow>
             (case ses_id ses of
                Existing old \<Rightarrow>
                  if must_extend_ttl mul ses remaining
                  then lift_err SyncUpdateTtlError (store_update_ttl store old fresh st)
                  else (Inr (), st)
              | ToBeRenamed old new \<Rightarrow>
                  (case store_change_id store old new st of
                     (Inr _, st) \<Rightarrow> (Inr (), st)
                   | (Inl (ChangeIdUnknownId j), st) \<Rightarrow>
                       create new \<lparr>rec_state = state, rec_ttl = fresh\<rparr> st
                   | (Inl e, st) \<Rightarrow> (Inl (Failed (SyncChangeIdError e)), st))
              | NewlyGenerated new \<Rightarrow>
                  (case (if create_if_empty ses then create new (empty_record fresh) st
                         else (Inr (), st)) of
                     (Inl e, st) \<Rightarrow> (Inl e, st)
                   | (Inr _, st) \<Rightarrow>
                       if state = fmempty then (Inr (), st)
                       else (Inl (Panicked ''Server state is not empty on a new session''), st)))
         | Some MarkedForDeletion \<Rightarrow>
             (case old_id (ses_id ses) of
                Some i \<Rightarrow>
                  (case store_delete store i st of
                     (Inr _, st) \<Rightarrow> (Inr (), st)
                   | (Inl (DeleteUnknownId j), st) \<Rightarrow> (Inr (), st)
                   | (Inl e, st) \<Rightarrow> (Inl (Failed (SyncDeleteError e)), st))
              | None \<Rightarrow> (Inr (), st))
         | Some (Changed state) \<Rightarrow>
             (let record = \<lparr>rec_state = state, rec_ttl = fresh\<rparr>
              in case ses_id ses of
                   Existing i \<Rightarrow> lift_err SyncUpdateError (store_update store i record st)
                 | ToBeRenamed old new \<Rightarrow>
                     (case store_delete store old st of
                        (Inr _, st) \<Rightarrow> create new record st
                      | (Inl (DeleteUnknownId j), st) \<Rightarrow> create new record st
                      | (Inl e, st) \<Rightarrow> (Inl (Failed (SyncDeleteError e)), st))
                 | NewlyGenerated i \<Rightarrow> create i record st))"

definition sync_state :: "('f, 'v) session \<Rightarrow> ('f, 'v) session" where
  "sync_state ses =
     ses\<lparr>ses_server_state :=
       map_option (\<lambda>server. case server of
           Changed state \<Rightarrow> Unchanged state (fresh_ttl ses)
         | Unchanged state ttl \<Rightarrow> Unchanged state ttl
         | MarkedForDeletion \<Rightarrow> if is_invalidated ses then MarkedForDeletion else DoesNotExist
         | DoesNotExist \<Rightarrow>
             if create_if_empty ses then Unchanged fmempty (fresh_ttl ses) else DoesNotExist)
       (ses_server_state ses)\<rparr>"

definition sync :: "(duration \<Rightarrow> 'f \<Rightarrow> duration) \<Rightarrow> ('s, 'v) session_store
    \<Rightarrow> ('f, 'v) session \<Rightarrow> 's
    \<Rightarrow> (sync_error, unit) result \<times> ('f, 'v) session \<times> 's" where
  "sync mul store ses st =
     (case sync_store mul store ses st of
        (Inl e, st) \<Rightarrow> (Inl e, ses, st)
      | (Inr _, st) \<Rightarrow> (Inr (), sync_state ses, st))"

section \<open>Finalisation\<close>

text \<open>
  The value of the session cookie: field \<open>0\<close> is the identifier, field \<open>1\<close> the
  client state, left out when empty.
\<close>

record 'v wire_client_state =
  session_id :: session_id
  user_values :: "'v state"

type_synonym 'v wire_json = "session_id \<times> 'v state option"

definition wire_fields :: "'v wire_client_state \<Rightarrow> 'v wire_json" where
  "wire_fields w =
     (session_id w, if user_values w = fmempty then None else Some (user_values w))"

definition wire_of_fields :: "'v wire_json \<Rightarrow> 'v wire_client_state" where
  "wire_of_fields f =
     \<lparr>session_id = fst f,
      user_values = (case snd f of None \<Rightarrow> fmempty | Some state \<Rightarrow> state)\<rparr>"

text \<open>The attributes that the code sets on a cookie; \<open>None\<close> is an attribute left unset.\<close>

record response_cookie =
  ck_name :: string
  ck_value :: string
  ck_domain :: "string option"
  ck_path :: "string option"
  ck_same_site :: "same_site option"
  ck_secure :: "bool option"
  ck_http_only :: "bool option"
  ck_max_age :: "int option"

datatype session_cookie =
    ResponseCookie response_cookie
  | RemovalCookie (removed_name: string) (removed_domain: "string option")
      (removed_path: "string option")

datatype 'e finalize_error =
    FinalizeSerializationError 'e
  | FinalizeSyncErr sync_error

text \<open>\<^verbatim>\<open>SignedDuration::MAX\<close>, in nanoseconds.\<close>

definition signed_duration_max :: int where
  "signed_duration_max = (2 ^ 63 - 1) * 1000000000 + 999999999"

definition signed_duration :: "duration \<Rightarrow> int" where
  "signed_duration d = (if int d \<le> signed_duration_max then int d else signed_duration_max)"

definition build_session_cookie :: "session_cookie_config \<Rightarrow> duration \<Rightarrow> string \<Rightarrow> response_cookie" where
  "build_session_cookie cc ttl v =
     \<lparr>ck_name = scc_name cc, ck_value = v,
      ck_domain = scc_domain cc, ck_path = scc_path cc, ck_same_site = scc_same_site cc,
      ck_secure = (if scc_secure cc then Some True else None),
      ck_http_only = (if scc_http_only cc then Some True else None),
      ck_max_age = (if scc_kind cc = Persistent then Some (signed_duration ttl) else None)\<rparr>"

definition finalize_cookie :: "('v wire_json \<Rightarrow> 'e + string) \<Rightarrow> ('f, 'v) session
    \<Rightarrow> ('e finalize_error, session_cookie option) result" where
  "finalize_cookie to_json ses =
     (let cc = cfg_cookie (ses_config ses)
      in if is_invalidated ses then
           (if old_id (ses_id ses) = None then Inr None
            else Inr (Some (RemovalCookie (scc_name cc) (scc_domain cc) (scc_path cc))))
         else
           (let client = client_map (ses_client_state ses);
                record_exists =
                  (case ses_server_state ses of
                     None \<Rightarrow> Inr None
                   | Some (Unchanged state ttl) \<Rightarrow> Inr (Some True)
                   | Some DoesNotExist \<Rightarrow> Inr (Some False)
                   | Some MarkedForDeletion \<Rightarrow>
                       Inl (Panicked ''The server state has just been synchronized.'')
                   | Some (Changed state) \<Rightarrow>
                       Inl (Panicked ''The server state has just been synchronized.''))
            in case record_exists of
                 Inl e \<Rightarrow> Inl e
               | Inr exists \<Rightarrow>
                   if client = fmempty \<and> old_id (ses_id ses) = None
                      \<and> \<not> (case exists of None \<Rightarrow> True | Some b \<Rightarrow> b)
                   then Inr None
                   else
                     (case to_json (wire_fields
                              \<lparr>session_id = new_id (ses_id ses), user_values = client\<rparr>) of
                        Inl e \<Rightarrow> Inl (Failed (FinalizeSerializationError e))
                      | Inr v \<Rightarrow>
                          Inr (Some (ResponseCookie (build_session_cookie cc (fresh_ttl ses) v))))))"

definition finalize :: "(duration \<Rightarrow> 'f \<Rightarrow> duration) \<Rightarrow> ('v wire_json \<Rightarrow> 'e + string)
    \<Rightarrow> ('s, 'v) session_store \<Rightarrow> ('f, 'v) session \<Rightarrow> 's
    \<Rightarrow> ('e finalize_error, session_cookie option) result \<times> ('f, 'v) session \<times> 's" where
  "finalize mul to_json store ses st =
     (case sync mul store ses st of
        (Inl e, ses, st) \<Rightarrow> (Inl (map_failed FinalizeSyncErr e), ses, st)
      | (Inr _, ses, st) \<Rightarrow> (finalize_cookie to_json ses, ses, st))"

text \<open>
  The post-processing middleware: \<open>add\<close> inserts a cookie in the response cookies.
\<close>

definition finalize_session :: "(session_cookie \<Rightarrow> 'c \<Rightarrow> 'c) \<Rightarrow> (duration \<Rightarrow> 'f \<Rightarrow> duration)
    \<Rightarrow> ('v wire_json \<Rightarrow> 'e + string) \<Rightarrow> ('s, 'v) session_store \<Rightarrow> 'r \<Rightarrow> 'c
    \<Rightarrow> ('f, 'v) session \<Rightarrow> 's \<Rightarrow> ('e finalize_error, 'r) result \<times> 'c \<times> 's" where
  "finalize_session add mul to_json store response cookies ses st =
     (case finalize mul to_json store ses st of
        (Inl e, ses, st) \<Rightarrow> (Inl e, cookies, st)
      | (Inr None, ses, st) \<Rightarrow> (Inr response, cookies, st)
      | (Inr (Some c), ses, st) \<Rightarrow> (Inr response, add c cookies, st))"

text \<open>Reading the cookie of the next request back.\<close>

definition incoming_extract :: "(string \<Rightarrow> 'e + 'v wire_json) \<Rightarrow> (string \<Rightarrow> string option)
    \<Rightarrow> session_cookie_config \<Rightarrow> 'v incoming_session option" where
  "incoming_extract from_json cookies cc =
     (case cookies (scc_name cc) of
        None \<Rightarrow> None
      | Some v \<Rightarrow>
          (case from_json v of
             Inr f \<Rightarrow>
               (let w = wire_of_fields f
                in Some \<lparr>inc_id = session_id w, inc_client_state = user_values w\<rparr>)
           | Inl e \<Rightarrow> None))"

lemma wire_roundtrip [simp]: "wire_of_fields (wire_fields w) = w"
  by (simp add: wire_of_fields_def wire_fields_def)

end
