(* ===== verification/Memory_Store.thy ===== *)
theory Memory_Store
  imports Session_Store
begin

text \<open>
  The in-memory backend (\<^verbatim>\<open>pavex_session_memory_store/src/lib.rs\<close>): a hash map
  from identifiers to records with a deadline, behind a lock that every operation holds from
  start to end.

  The clock is part of the state: \<open>ms_clock\<close> lists the readings that the next
  calls of \<^verbatim>\<open>Timestamp::now()\<close> return (nanoseconds since the epoch), so an operation
  that reads the clock twice sees two readings, as the code does. The order in which a hash
  map is iterated over is not specified by the language: it is the parameter \<open>iter\<close> of
  \<open>mem_delete_expired\<close>.
\<close>

section \<open>State\<close>

type_synonym timestamp = int

record 'v store_record =
  sr_state :: "'v state"
  sr_deadline :: timestamp

record 'v mem_store =
  ms_records :: "(session_id, 'v store_record) fmap"
  ms_clock :: "nat \<Rightarrow> timestamp"

definition mem_new :: "(nat \<Rightarrow> timestamp) \<Rightarrow> 'v mem_store" where
  "mem_new clock = \<lparr>ms_records = fmempty, ms_clock = clock\<rparr>"

definition timestamp_now :: "'v mem_store \<Rightarrow> timestamp \<times> 'v mem_store" where
  "timestamp_now s = (ms_clock s 0, s\<lparr>ms_clock := \<lambda>n. ms_clock s (Suc n)\<rparr>)"

definition is_stale :: "timestamp \<Rightarrow> 'v store_record \<Rightarrow> bool" where
  "is_stale now r \<longleftrightarrow> sr_deadline r \<le> now"

section \<open>Operations\<close>

text \<open>The clock is only read when the record exists.\<close>

definition get_mut_if_fresh :: "session_id \<Rightarrow> 'v mem_store
    \<Rightarrow> (session_id + 'v store_record) \<times> 'v mem_store" where
  "get_mut_if_fresh i s =
     (case fmlookup (ms_records s) i of
        None \<Rightarrow> (Inl i, s)
      | Some r \<Rightarrow>
          (let (now, s) = timestamp_now s
           in if is_stale now r then (Inl i, s) else (Inr r, s)))"

definition mem_remove :: "session_id \<Rightarrow> 'v mem_store
    \<Rightarrow> (session_id + 'v store_record) \<times> 'v mem_store" where
  "mem_remove i s =
     (case fmlookup (ms_records s) i of
        None \<Rightarrow> (Inl i, s)
      | Some r \<Rightarrow>
          (let s = s\<lparr>ms_records := fmdrop i (ms_records s)\<rparr>;
               (now, s) = timestamp_now s
           in if is_stale now r then (Inl i, s) else (Inr r, s)))"

definition mem_put :: "session_id \<Rightarrow> 'v store_record \<Rightarrow> 'v mem_store \<Rightarrow> 'v mem_store" where
  "mem_put i r s = s\<lparr>ms_records := fmupd i r (ms_records s)\<rparr>"

definition mem_create :: "session_id \<Rightarrow> 'v session_record \<Rightarrow> 'v mem_store
    \<Rightarrow> (create_error + unit) \<times> 'v mem_store" where
  "mem_create i rec s =
     (case get_mut_if_fresh i s of
        (Inr _, s) \<Rightarrow> (Inl (CreateDuplicateId i), s)
      | (Inl _, s) \<Rightarrow>
          (let (now, s) = timestamp_now s
           in (Inr (), mem_put i
                 \<lparr>sr_state = rec_state rec, sr_deadline = now + int (rec_ttl rec)\<rparr> s)))"

definition mem_update :: "session_id \<Rightarrow> 'v session_record \<Rightarrow> 'v mem_store
    \<Rightarrow> (update_error + unit) \<times> 'v mem_store" where
  "mem_update i rec s =
     (case get_mut_if_fresh i s of
        (Inl j, s) \<Rightarrow> (Inl (UpdateUnknownId j), s)
      | (Inr _, s) \<Rightarrow>
          (let (now, s) = timestamp_now s
           in (Inr (), mem_put i
                 \<lparr>sr_state = rec_state rec, sr_deadline = now + int (rec_ttl rec)\<rparr> s)))"

definition mem_update_ttl :: "session_id \<Rightarrow> duration \<Rightarrow> 'v mem_store
    \<Rightarrow> (update_ttl_error + unit) \<times> 'v mem_store" where
  "mem_update_ttl i ttl s =
     (case get_mut_if_fresh i s of
        (Inl j, s) \<Rightarrow> (Inl (UpdateTtlUnknownId j), s)
      | (Inr r, s) \<Rightarrow>
          (let (now, s) = timestamp_now s
           in (Inr (), mem_put i (r\<lparr>sr_deadline := now + int ttl\<rparr>) s)))"

text \<open>
  \<^verbatim>\<open>nat\<close> gives zero on a negative argument, as
  \<^verbatim>\<open>try_into().unwrap_or(Duration::from_millis(0))\<close> does.
\<close>

definition mem_load :: "session_id \<Rightarrow> 'v mem_store
    \<Rightarrow> (load_error + 'v session_record option) \<times> 'v mem_store" where
  "mem_load i s =
     (case get_mut_if_fresh i s of
        (Inl _, s) \<Rightarrow> (Inr None, s)
      | (Inr r, s) \<Rightarrow>
          (let (now, s) = timestamp_now s
           in (Inr (Some \<lparr>rec_state = sr_state r, rec_ttl = nat (sr_deadline r - now)\<rparr>), s)))"

definition mem_delete :: "session_id \<Rightarrow> 'v mem_store
    \<Rightarrow> (delete_error + unit) \<times> 'v mem_store" where
  "mem_delete i s =
     (case mem_remove i s of
        (Inl j, s) \<Rightarrow> (Inl (DeleteUnknownId j), s)
      | (Inr _, s) \<Rightarrow> (Inr (), s))"

definition mem_change_id :: "session_id \<Rightarrow> session_id \<Rightarrow> 'v mem_store
    \<Rightarrow> (change_id_error + unit) \<times> 'v mem_store" where
  "mem_change_id old new s =
     (case get_mut_if_fresh new s of
        (Inr _, s) \<Rightarrow> (Inl (ChangeIdDuplicateId new), s)
      | (Inl _, s) \<Rightarrow>
          (case mem_remove old s of
             (Inl j, s) \<Rightarrow> (Inl (ChangeIdUnknownId j), s)
           | (Inr r, s) \<Rightarrow> (Inr (), mem_put new r s)))"

text \<open>The scan for expired records, which stops once the batch is full.\<close>

fun stale_ids :: "timestamp \<Rightarrow> nat option \<Rightarrow> (session_id, 'v store_record) fmap
    \<Rightarrow> session_id list \<Rightarrow> session_id list \<Rightarrow> session_id list" where
  "stale_ids now batch m [] acc = acc"
| "stale_ids now batch m (i # is) acc =
     (case fmlookup m i of
        None \<Rightarrow> stale_ids now batch m is acc
      | Some r \<Rightarrow>
          if sr_deadline r \<le> now then
            (let acc = acc @ [i]
             in case batch of
                  Some n \<Rightarrow> if n \<le> length acc then acc else stale_ids now batch m is acc
                | None \<Rightarrow> stale_ids now batch m is acc)
          else stale_ids now batch m is acc)"

definition mem_delete_expired ::
    "((session_id, 'v store_record) fmap \<Rightarrow> session_id list) \<Rightarrow> nat option \<Rightarrow> 'v mem_store
     \<Rightarrow> (delete_expired_error + nat) \<times> 'v mem_store" where
  "mem_delete_expired iter batch s =
     (let (now, s) = timestamp_now s;
          ids = stale_ids now batch (ms_records s) (iter (ms_records s)) []
      in (Inr (length ids), s\<lparr>ms_records := fold fmdrop ids (ms_records s)\<rparr>))"

definition mem_backend :: "((session_id, 'v store_record) fmap \<Rightarrow> session_id list)
    \<Rightarrow> ('v mem_store, 'v) backend" where
  "mem_backend iter =
     \<lparr>b_create = mem_create, b_update = mem_update, b_update_ttl = mem_update_ttl,
      b_load = mem_load, b_delete = mem_delete, b_change_id = mem_change_id,
      b_delete_expired = mem_delete_expired iter\<rparr>"

section \<open>The contract\<close>

definition mem_content :: "'v mem_store \<Rightarrow> session_id \<Rightarrow> 'v state option" where
  "mem_content s i = map_option sr_state (fmlookup (ms_records s) i)"

definition mem_live :: "'v mem_store \<Rightarrow> session_id \<Rightarrow> bool" where
  "mem_live s i \<longleftrightarrow>
     (case fmlookup (ms_records s) i of None \<Rightarrow> False | Some r \<Rightarrow> \<not> is_stale (ms_clock s 0) r)"

lemmas mem_op_defs = mem_create_def mem_update_def mem_update_ttl_def mem_load_def
  mem_delete_def mem_change_id_def get_mut_if_fresh_def mem_remove_def mem_put_def
  timestamp_now_def

lemmas mem_view_defs = mem_content_def mem_live_def

lemma mem_store_simps [simp]:
  "store_create (SessionStore (mem_backend iter)) = mem_create"
  "store_update (SessionStore (mem_backend iter)) = mem_update"
  "store_update_ttl (SessionStore (mem_backend iter)) = mem_update_ttl"
  "store_load (SessionStore (mem_backend iter)) = mem_load"
  "store_delete (SessionStore (mem_backend iter)) = mem_delete"
  "store_change_id (SessionStore (mem_backend iter)) = mem_change_id"
  "store_delete_expired (SessionStore (mem_backend iter)) = mem_delete_expired iter"
  by (simp_all add: mem_backend_def fun_eq_iff)

lemma get_mut_if_fresh_records:
  "get_mut_if_fresh i s = (r, s') \<Longrightarrow> ms_records s' = ms_records s"
  by (auto simp: get_mut_if_fresh_def timestamp_now_def Let_def split: option.splits if_splits)

lemma get_mut_if_fresh_Inr:
  "get_mut_if_fresh i s = (Inr r, s') \<Longrightarrow> fmlookup (ms_records s) i = Some r \<and> mem_live s i
    \<and> ms_records s' = ms_records s"
  by (auto simp: get_mut_if_fresh_def timestamp_now_def Let_def mem_live_def
      split: option.splits if_splits)

lemma get_mut_if_fresh_Inl:
  "get_mut_if_fresh i s = (Inl j, s')
    \<Longrightarrow> j = i \<and> \<not> mem_live s i \<and> ms_records s' = ms_records s"
  by (auto simp: get_mut_if_fresh_def timestamp_now_def Let_def mem_live_def
      split: option.splits if_splits)

lemma mem_remove_records:
  "mem_remove i s = (r, s') \<Longrightarrow> ms_records s' = fmdrop i (ms_records s)"
  by (auto simp: mem_remove_def timestamp_now_def Let_def split: option.splits if_splits)

lemma mem_remove_Inr:
  "mem_remove i s = (Inr r, s') \<Longrightarrow> fmlookup (ms_records s) i = Some r"
  by (auto simp: mem_remove_def timestamp_now_def Let_def split: option.splits if_splits)

lemmas mem_step = get_mut_if_fresh_records get_mut_if_fresh_Inr get_mut_if_fresh_Inl
  mem_remove_records mem_remove_Inr

lemma mem_content_records: "mem_content s = (\<lambda>i. map_option sr_state (fmlookup (ms_records s) i))"
  by (simp add: mem_content_def fun_eq_iff)

lemma mem_live_content: "mem_live s i \<Longrightarrow> mem_content s i \<noteq> None"
  by (auto simp: mem_live_def mem_content_def split: option.splits)

lemma mem_content_None_not_live: "mem_content s i = None \<Longrightarrow> \<not> mem_live s i"
  using mem_live_content by blast

lemma mem_create_content:
  "mem_create i r s = (x, s') \<Longrightarrow> mem_content s' =
     (case x of Inl _ \<Rightarrow> mem_content s | Inr _ \<Rightarrow> (mem_content s)(i \<mapsto> rec_state r))"
  by (auto simp: mem_create_def timestamp_now_def Let_def mem_put_def mem_content_records fun_eq_iff
      split: prod.splits sum.splits dest!: get_mut_if_fresh_records)

lemma mem_update_content:
  "mem_update i r s = (x, s') \<Longrightarrow> mem_content s' =
     (case x of Inl _ \<Rightarrow> mem_content s | Inr _ \<Rightarrow> (mem_content s)(i \<mapsto> rec_state r))"
  by (auto simp: mem_update_def timestamp_now_def Let_def mem_put_def mem_content_records fun_eq_iff
      split: prod.splits sum.splits dest!: get_mut_if_fresh_records)

lemma mem_update_ttl_content:
  "mem_update_ttl i t s = (x, s') \<Longrightarrow> mem_content s' = mem_content s"
  by (auto simp: mem_update_ttl_def timestamp_now_def Let_def mem_put_def mem_content_records
      fun_eq_iff split: prod.splits sum.splits dest!: get_mut_if_fresh_Inr get_mut_if_fresh_Inl)

lemma mem_load_content: "mem_load i s = (x, s') \<Longrightarrow> mem_content s' = mem_content s"
  by (auto simp: mem_load_def timestamp_now_def Let_def mem_content_records
      split: prod.splits sum.splits dest!: get_mut_if_fresh_records)

lemma mem_load_some:
  "mem_load i s = (Inr (Some r), s') \<Longrightarrow> mem_content s i = Some (rec_state r)"
  by (auto simp: mem_load_def timestamp_now_def Let_def mem_content_def
      split: prod.splits sum.splits dest: get_mut_if_fresh_Inr)

lemma mem_load_none: "mem_load i s = (Inr None, s') \<Longrightarrow> \<not> mem_live s i"
  by (auto simp: mem_load_def timestamp_now_def Let_def
      split: prod.splits sum.splits dest: get_mut_if_fresh_Inl)

lemma mem_delete_content:
  "mem_delete i s = (x, s') \<Longrightarrow> mem_content s' = (mem_content s)(i := None)"
  by (auto simp: mem_delete_def mem_content_records fun_eq_iff fmlookup_fmdrop
      split: prod.splits sum.splits dest!: mem_remove_records)

lemma mem_delete_not_other: "mem_delete i s \<noteq> (Inl (DeleteOther m), s')"
  by (auto simp: mem_delete_def split: prod.splits sum.splits)

lemma mem_change_id_content:
  assumes "mem_change_id old new s = (x, s')"
  shows "case x of
      Inr _ \<Rightarrow> old \<noteq> new \<longrightarrow> mem_content s old \<noteq> None
        \<and> mem_content s' = (mem_content s)(new := mem_content s old, old := None)
    | Inl (ChangeIdUnknownId j) \<Rightarrow> mem_content s' = (mem_content s)(old := None)
    | Inl (ChangeIdDuplicateId j) \<Rightarrow> mem_content s' = mem_content s
    | Inl (ChangeIdOther m) \<Rightarrow> False"
proof -
  obtain g s1 where g: "get_mut_if_fresh new s = (g, s1)" by fastforce
  obtain d s2 where d: "mem_remove old s1 = (d, s2)" by fastforce
  have r1: "ms_records s1 = ms_records s" using g by (rule get_mut_if_fresh_records)
  have r2: "ms_records s2 = fmdrop old (ms_records s)"
    using d r1 by (simp add: mem_remove_records)
  show ?thesis
    using assms g d r1 r2 mem_remove_Inr [of old s1]
    by (auto simp: mem_change_id_def mem_put_def mem_content_records fun_eq_iff fmlookup_fmdrop
        split: sum.splits)
qed

lemma mem_delete_unknown:
  assumes "mem_delete i s = (Inl (DeleteUnknownId j), s')"
  shows "\<not> mem_live s' i \<and> (\<forall>k. k \<noteq> i \<longrightarrow> mem_content s' k = mem_content s k)"
  using mem_delete_content [OF assms] mem_content_None_not_live [of s' i] by auto

lemma mem_change_id_unknown:
  assumes "mem_change_id old new s = (Inl (ChangeIdUnknownId j), s')"
  shows "\<not> mem_live s' old \<and> (\<forall>k. k \<noteq> old \<longrightarrow> mem_content s' k = mem_content s k)"
  using mem_change_id_content [OF assms] mem_content_None_not_live [of s' old] by auto

text \<open>
  Expired records stay expired as long as the wall clock does not go back.
\<close>

definition mem_ok :: "'v mem_store \<Rightarrow> bool" where
  "mem_ok s \<longleftrightarrow> (\<forall>m n. m \<le> n \<longrightarrow> ms_clock s m \<le> ms_clock s n)"

definition clock_after :: "nat \<Rightarrow> 'v mem_store \<Rightarrow> 'v mem_store \<Rightarrow> bool" where
  "clock_after n s s' \<longleftrightarrow> ms_clock s' = (\<lambda>m. ms_clock s (m + n))"

lemma clock_after_ok: "clock_after n s s' \<Longrightarrow> mem_ok s \<Longrightarrow> mem_ok s'"
  by (auto simp: clock_after_def mem_ok_def)

lemma get_mut_if_fresh_clock:
  "get_mut_if_fresh i s = (r, s') \<Longrightarrow> \<exists>n. clock_after n s s'"
  by (auto simp: get_mut_if_fresh_def timestamp_now_def Let_def clock_after_def fun_eq_iff
      split: option.splits if_splits intro: exI [of _ 0] exI [of _ 1])

lemma mem_remove_clock: "mem_remove i s = (r, s') \<Longrightarrow> \<exists>n. clock_after n s s'"
  by (auto simp: mem_remove_def timestamp_now_def Let_def clock_after_def fun_eq_iff
      split: option.splits if_splits intro: exI [of _ 0] exI [of _ 1])

lemma clock_after_trans:
  "clock_after n s s' \<Longrightarrow> clock_after m s' s'' \<Longrightarrow> clock_after (m + n) s s''"
  by (auto simp: clock_after_def fun_eq_iff add.assoc)

lemma clock_after_ex:
  "clock_after n s s' \<Longrightarrow> clock_after m s' s'' \<Longrightarrow> \<exists>k. clock_after k s s''"
  by (blast intro: clock_after_trans)

lemma clock_after_put [simp]: "clock_after n s (mem_put i r s') = clock_after n s s'"
  by (simp add: clock_after_def mem_put_def)

lemma clock_after_now: "timestamp_now s = (t, s') \<Longrightarrow> clock_after 1 s s'"
  by (auto simp: clock_after_def timestamp_now_def)

lemma mem_create_clock: "mem_create i r s = (x, s') \<Longrightarrow> \<exists>n. clock_after n s s'"
  by (auto simp: mem_create_def Let_def split: prod.splits sum.splits
      dest!: get_mut_if_fresh_clock clock_after_now intro: clock_after_ex)

lemma mem_delete_clock: "mem_delete i s = (x, s') \<Longrightarrow> \<exists>n. clock_after n s s'"
  by (auto simp: mem_delete_def split: prod.splits sum.splits dest: mem_remove_clock)

lemma mem_change_id_clock: "mem_change_id old new s = (x, s') \<Longrightarrow> \<exists>n. clock_after n s s'"
  by (auto simp: mem_change_id_def split: prod.splits sum.splits
      dest!: get_mut_if_fresh_clock mem_remove_clock intro: clock_after_ex)

lemma mem_create_lookup:
  "mem_create i r s = (x, s') \<Longrightarrow> k \<noteq> i \<Longrightarrow> fmlookup (ms_records s') k = fmlookup (ms_records s) k"
  by (auto simp: mem_create_def timestamp_now_def Let_def mem_put_def
      split: prod.splits sum.splits dest!: get_mut_if_fresh_records)

lemma mem_create_live:
  assumes "mem_ok s" and "mem_create i r s = (x, s')" and "k \<noteq> i" and "\<not> mem_live s k"
  shows "\<not> mem_live s' k"
proof -
  obtain n where "clock_after n s s'" using mem_create_clock [OF assms(2)] by blast
  then have "ms_clock s 0 \<le> ms_clock s' 0"
    using assms(1) by (simp add: clock_after_def mem_ok_def)
  then show ?thesis
    using assms(4) mem_create_lookup [OF assms(2,3)]
    by (auto simp: mem_live_def is_stale_def split: option.splits)
qed

interpretation mem: storage_backend "SessionStore (mem_backend iter)" mem_content mem_live mem_ok
proof unfold_locales
qed (auto simp: mem_delete_not_other
    dest: mem_create_content mem_update_content mem_update_ttl_content mem_load_content
      mem_load_some mem_load_none mem_live_content mem_delete_content mem_delete_unknown
      mem_change_id_content mem_change_id_unknown mem_delete_clock mem_change_id_clock
      mem_create_live clock_after_ok)

end
