(* ===== verification/Session_Laws.thy ===== *)
theory Session_Laws
  imports Session_Sync Memory_Store
begin

text \<open>
  What makes sessions correct: the invariant of the session object and its preservation by
  every operation; the refinement of the server-side and client-side operations to a plain
  key-value map; what synchronisation leaves in any storage that honours
  \<open>storage_backend\<close>, and its instance for the in-memory backend.
\<close>

section \<open>Loading\<close>

lemma load_target_loaded [simp]: "ses_server_state ses = Some x \<Longrightarrow> load_target ses = None"
  by (simp add: load_target_def split: option.splits)

lemma load_target_Some:
  "load_target ses = Some i \<longleftrightarrow> old_id (ses_id ses) = Some i \<and> ses_server_state ses = None"
  by (auto simp: load_target_def split: option.splits)

lemma load_commit_frame [simp]:
  "ses_id (load_commit r ses) = ses_id ses"
  "ses_client_state (load_commit r ses) = ses_client_state ses"
  "ses_config (load_commit r ses) = ses_config ses"
  by (cases "ses_server_state ses";
      auto simp: load_commit_def Let_def split: option.splits missing_server_state.splits)+

lemma load_commit_full [simp]: "ses_server_state ses = Some x \<Longrightarrow> load_commit r ses = ses"
  by (auto simp: load_commit_def Let_def split: option.splits missing_server_state.splits)

lemma load_commit_loaded: "ses_server_state (load_commit r ses) \<noteq> None"
  by (cases "ses_server_state ses")
    (auto simp: load_commit_def Let_def split: option.splits missing_server_state.splits)

lemma force_load_loaded [simp]:
  "ses_server_state ses = Some x \<Longrightarrow> force_load store ses st = (Inr (), ses, st)"
  by (simp add: force_load_def)

lemma force_load_mut_loaded [simp]:
  "ses_server_state ses = Some x \<Longrightarrow> force_load_mut store ses st = (Inr x, ses, st)"
  by (simp add: force_load_mut_def)

lemma force_load_ref_mut: "force_load_ref store ses st = force_load_mut store ses st"
  by (simp add: force_load_ref_def force_load_mut_def)

section \<open>The invariant\<close>

text \<open>
  A new session has its server state set from the start; the two identifiers of a renaming
  differ; an invalidated session has its server state marked for deletion.
\<close>

definition session_inv :: "('f, 'v) session \<Rightarrow> bool" where
  "session_inv ses \<longleftrightarrow>
     (case ses_id ses of
        NewlyGenerated i \<Rightarrow> ses_server_state ses \<noteq> None
      | ToBeRenamed old new \<Rightarrow> old \<noteq> new
      | Existing i \<Rightarrow> True) \<and>
     (is_invalidated ses \<longrightarrow> ses_server_state ses = Some MarkedForDeletion)"

lemma is_invalidated_update [simp]:
  "is_invalidated (ses\<lparr>ses_server_state := x\<rparr>) = is_invalidated ses"
  "is_invalidated (ses\<lparr>ses_client_state := c\<rparr>) = is_invalidated ses"
  "is_invalidated (ses\<lparr>ses_id := i\<rparr>) = is_invalidated ses"
  by (simp_all add: is_invalidated_def)

lemma session_new_inv: "session_inv (session_new config random incoming)"
  by (auto simp: session_new_def session_inv_def is_invalidated_def Let_def split: option.splits)

lemma load_commit_inv: "session_inv ses \<Longrightarrow> session_inv (load_commit r ses)"
  by (cases "ses_server_state ses")
    (auto simp: session_inv_def load_commit_def Let_def is_invalidated_def
      split: option.splits missing_server_state.splits current_session_id.splits)

lemma force_load_inv:
  "force_load store ses st = (r, ses', st') \<Longrightarrow> session_inv ses \<Longrightarrow> session_inv ses'"
  by (auto simp: force_load_def load_commit_inv split: option.splits prod.splits sum.splits)

lemma force_load_mut_inv:
  "force_load_mut store ses st = (r, ses', st') \<Longrightarrow> session_inv ses \<Longrightarrow> session_inv ses'"
  by (auto simp: force_load_mut_def split: option.splits prod.splits sum.splits
      dest: force_load_inv)

lemma force_load_mut_Inr:
  "force_load_mut store ses st = (Inr x, ses', st') \<Longrightarrow> ses_server_state ses' = Some x"
  by (auto simp: force_load_mut_def split: option.splits prod.splits sum.splits)

lemma force_load_mut_safe:
  assumes "session_inv ses"
  shows "\<not> panicked (fst (force_load_mut store ses st))"
proof (cases "load_target ses")
  case None
  with assms have "ses_server_state ses \<noteq> None"
    by (auto simp: load_target_def session_inv_def split: option.splits current_session_id.splits if_splits)
  then show ?thesis by auto
next
  case (Some i)
  obtain r st' where l: "store_load store i st = (r, st')" by fastforce
  obtain x where "ses_server_state (load_commit (projr r) ses) = Some x"
    using load_commit_loaded by blast
  with Some l show ?thesis
    by (cases r) (auto simp: force_load_mut_def force_load_def)
qed

text \<open>
  Writing a loaded server state back keeps the invariant, unless a marked state is replaced.
\<close>

lemma session_inv_set_server:
  "session_inv ses \<Longrightarrow> ses_server_state ses \<noteq> Some MarkedForDeletion \<Longrightarrow>
     session_inv (ses\<lparr>ses_server_state := Some x\<rparr>)"
  by (auto simp: session_inv_def split: current_session_id.splits)

lemma session_inv_mark [simp]:
  "session_inv ses \<Longrightarrow> session_inv (ses\<lparr>ses_server_state := Some MarkedForDeletion\<rparr>)"
  by (auto simp: session_inv_def split: current_session_id.splits)

lemma session_inv_client [simp]:
  "session_inv (ses\<lparr>ses_client_state := c\<rparr>) = session_inv ses"
  by (simp add: session_inv_def split: current_session_id.splits)

lemma insert_raw_inv:
  "insert_raw store k v ses st = (r, ses', st') \<Longrightarrow> session_inv ses \<Longrightarrow> session_inv ses'"
  by (auto simp: insert_raw_def Let_def split: prod.splits sum.splits server_state.splits
      dest: force_load_mut_inv force_load_mut_Inr intro!: session_inv_set_server)

lemma remove_raw_inv:
  "remove_raw store k ses st = (r, ses', st') \<Longrightarrow> session_inv ses \<Longrightarrow> session_inv ses'"
  by (auto simp: remove_raw_def Let_def split: prod.splits sum.splits server_state.splits
      dest: force_load_mut_inv force_load_mut_Inr intro!: session_inv_set_server)

lemma session_clear_inv:
  "session_clear store ses st = (r, ses', st') \<Longrightarrow> session_inv ses \<Longrightarrow> session_inv ses'"
  by (auto simp: session_clear_def Let_def split: prod.splits sum.splits server_state.splits if_splits
      dest: force_load_mut_inv force_load_mut_Inr intro!: session_inv_set_server)

lemma session_delete_inv: "session_inv ses \<Longrightarrow> session_inv (session_delete ses)"
  by (simp add: session_delete_def)

lemma invalidate_inv: "session_inv ses \<Longrightarrow> session_inv (invalidate ses)"
  by (auto simp: invalidate_def session_inv_def split: current_session_id.splits)

lemma cycle_loop_Inr: "cycle_loop draw old i = Inr new \<Longrightarrow> Some new \<noteq> old"
  by (induction draw old i rule: cycle_loop.induct)
    (subst (asm) (2) cycle_loop.simps, auto split: if_splits)

lemma cycle_id_inv: "cycle_id draw ses = (r, ses') \<Longrightarrow> session_inv ses \<Longrightarrow> session_inv ses'"
  by (auto simp: cycle_id_def session_inv_def Let_def
      split: current_session_id.splits sum.splits option.splits dest: cycle_loop_Inr)

lemma sync_state_inv: "session_inv ses \<Longrightarrow> session_inv (sync_state ses)"
  by (auto simp: sync_state_def session_inv_def split: current_session_id.splits)

lemma sync_inv: "sync mul store ses st = (r, ses', st') \<Longrightarrow> session_inv ses \<Longrightarrow> session_inv ses'"
  by (auto simp: sync_def split: prod.splits sum.splits intro: sync_state_inv)

section \<open>Runs of a session\<close>

text \<open>
  One step of a session between its creation and its finalisation. The last rule lets other
  requests change the storage at any point.
\<close>

inductive session_step :: "('s, 'v) session_store \<Rightarrow> ('f, 'v) session \<times> 's
    \<Rightarrow> ('f, 'v) session \<times> 's \<Rightarrow> bool" for store where
  step_load: "force_load store ses st = (r1, ses', st') \<Longrightarrow> session_step store (ses, st) (ses', st')"
| step_is_empty:
    "session_is_empty store ses st = (r2, ses', st') \<Longrightarrow> session_step store (ses, st) (ses', st')"
| step_get: "get_raw store k ses st = (r3, ses', st') \<Longrightarrow> session_step store (ses, st) (ses', st')"
| step_insert:
    "insert_raw store k v ses st = (r4, ses', st') \<Longrightarrow> session_step store (ses, st) (ses', st')"
| step_remove:
    "remove_raw store k ses st = (r5, ses', st') \<Longrightarrow> session_step store (ses, st) (ses', st')"
| step_clear:
    "session_clear store ses st = (r6, ses', st') \<Longrightarrow> session_step store (ses, st) (ses', st')"
| step_delete: "session_step store (ses, st) (session_delete ses, st)"
| step_invalidate: "session_step store (ses, st) (invalidate ses, st)"
| step_cycle: "cycle_id draw ses = (r7, ses') \<Longrightarrow> session_step store (ses, st) (ses', st)"
| step_client_insert:
    "client_mut (client_insert_raw k v) ses = (r8, ses') \<Longrightarrow> session_step store (ses, st) (ses', st)"
| step_client_remove:
    "client_mut (client_remove_raw k) ses = (r9, ses') \<Longrightarrow> session_step store (ses, st) (ses', st)"
| step_client_clear:
    "client_mut client_clear ses = (r10, ses') \<Longrightarrow> session_step store (ses, st) (ses', st)"
| step_environment: "session_step store (ses, st) (ses, st')"

inductive session_reachable :: "('s, 'v) session_store \<Rightarrow> ('f, 'v) session \<times> 's \<Rightarrow> bool"
  for store where
  reach_new: "session_reachable store (session_new config random incoming, st)"
| reach_step:
    "session_reachable store x \<Longrightarrow> session_step store x y \<Longrightarrow> session_reachable store y"
| reach_sync:
    "session_reachable store (ses, st) \<Longrightarrow> sync mul store ses st = (r, ses', st')
      \<Longrightarrow> session_reachable store (ses', st')"

inductive session_unsynced :: "('s, 'v) session_store \<Rightarrow> ('f, 'v) session \<times> 's \<Rightarrow> bool"
  for store where
  unsynced_new: "session_unsynced store (session_new config random incoming, st)"
| unsynced_step:
    "session_unsynced store x \<Longrightarrow> session_step store x y \<Longrightarrow> session_unsynced store y"

lemma client_mut_inv: "client_mut f ses = (r, ses') \<Longrightarrow> session_inv ses \<Longrightarrow> session_inv ses'"
  by (auto simp: client_mut_def split: prod.splits)

lemma get_raw_inv: "get_raw store k ses st = (r, ses', st') \<Longrightarrow> session_inv ses \<Longrightarrow> session_inv ses'"
  by (auto simp: get_raw_def force_load_ref_mut split: prod.splits sum.splits
      dest: force_load_mut_inv)

lemma session_is_empty_inv:
  "session_is_empty store ses st = (r, ses', st') \<Longrightarrow> session_inv ses \<Longrightarrow> session_inv ses'"
  by (auto simp: session_is_empty_def force_load_ref_mut split: prod.splits sum.splits
      dest: force_load_mut_inv)

lemmas session_op_inv = force_load_inv session_is_empty_inv get_raw_inv insert_raw_inv
  remove_raw_inv session_clear_inv session_delete_inv invalidate_inv cycle_id_inv client_mut_inv

lemma session_step_inv:
  assumes "session_step store x y" and "session_inv (fst x)"
  shows "session_inv (fst y)"
  using assms
proof (induction rule: session_step.induct)
qed (simp_all add: session_delete_inv invalidate_inv, (erule session_op_inv, assumption)+)

text \<open>
  Before the first synchronisation a new session never has an unchanged server state: there
  is nothing it could be unchanged from.
\<close>

definition session_fresh :: "('f, 'v) session \<Rightarrow> bool" where
  "session_fresh ses \<longleftrightarrow>
     (\<forall>i state ttl. ses_id ses = NewlyGenerated i \<longrightarrow> ses_server_state ses \<noteq> Some (Unchanged state ttl))"

lemma session_reachable_inv: "session_reachable store x \<Longrightarrow> session_inv (fst x)"
proof (induction rule: session_reachable.induct)
  case (reach_new config random incoming st)
  show ?case by (simp add: session_new_inv)
next
  case (reach_step x y)
  then show ?case by (blast intro: session_step_inv)
next
  case (reach_sync ses st mul r ses' st')
  then show ?case by (auto dest: sync_inv)
qed

lemma force_load_keeps_id:
  "force_load store ses st = (r, ses', st') \<Longrightarrow> ses_id ses' = ses_id ses"
  by (auto simp: force_load_def split: option.splits prod.splits sum.splits)

lemma force_load_fresh:
  assumes "force_load store ses st = (r, ses', st')" and "session_inv ses" and "session_fresh ses"
  shows "session_fresh ses'"
proof (cases "ses_id ses")
  case (NewlyGenerated i)
  with assms(2) obtain x where "ses_server_state ses = Some x"
    by (auto simp: session_inv_def)
  with assms(1,3) show ?thesis by simp
qed (use force_load_keeps_id [OF assms(1)] in \<open>auto simp: session_fresh_def\<close>)

lemma force_load_mut_fresh:
  "force_load_mut store ses st = (r, ses', st') \<Longrightarrow> session_inv ses \<Longrightarrow> session_fresh ses
    \<Longrightarrow> session_fresh ses'"
  by (auto simp: force_load_mut_def split: option.splits prod.splits sum.splits
      dest: force_load_fresh)

lemma session_fresh_set [simp]:
  "session_fresh (ses\<lparr>ses_server_state := Some (Changed state)\<rparr>)"
  "session_fresh (ses\<lparr>ses_server_state := Some MarkedForDeletion\<rparr>)"
  "session_fresh (ses\<lparr>ses_client_state := c\<rparr>) = session_fresh ses"
  by (auto simp: session_fresh_def)

lemma insert_raw_fresh:
  "insert_raw store k v ses st = (r, ses', st') \<Longrightarrow> session_inv ses \<Longrightarrow> session_fresh ses
    \<Longrightarrow> session_fresh ses'"
  by (auto simp: insert_raw_def Let_def split: prod.splits sum.splits server_state.splits
      dest: force_load_mut_fresh)

lemma session_fresh_unchanged:
  "session_fresh ses \<Longrightarrow> ses_server_state ses = Some (Unchanged a b)
    \<Longrightarrow> session_fresh (ses\<lparr>ses_server_state := Some (Unchanged c d)\<rparr>)"
  by (simp add: session_fresh_def)

lemma remove_raw_fresh:
  "remove_raw store k ses st = (r, ses', st') \<Longrightarrow> session_inv ses \<Longrightarrow> session_fresh ses
    \<Longrightarrow> session_fresh ses'"
  by (auto simp: remove_raw_def split: prod.splits sum.splits server_state.splits
      dest: force_load_mut_fresh
      intro: session_fresh_unchanged [OF force_load_mut_fresh force_load_mut_Inr])

lemma session_clear_fresh:
  "session_clear store ses st = (r, ses', st') \<Longrightarrow> session_inv ses \<Longrightarrow> session_fresh ses
    \<Longrightarrow> session_fresh ses'"
  by (auto simp: session_clear_def split: prod.splits sum.splits server_state.splits
      dest: force_load_mut_fresh)

lemma get_raw_fresh:
  "get_raw store k ses st = (r, ses', st') \<Longrightarrow> session_inv ses \<Longrightarrow> session_fresh ses
    \<Longrightarrow> session_fresh ses'"
  by (auto simp: get_raw_def force_load_ref_mut split: prod.splits sum.splits
      dest: force_load_mut_fresh)

lemma session_is_empty_fresh:
  "session_is_empty store ses st = (r, ses', st') \<Longrightarrow> session_inv ses \<Longrightarrow> session_fresh ses
    \<Longrightarrow> session_fresh ses'"
  by (auto simp: session_is_empty_def force_load_ref_mut split: prod.splits sum.splits
      dest: force_load_mut_fresh)

lemma cycle_id_fresh:
  "cycle_id draw ses = (r, ses') \<Longrightarrow> session_fresh ses \<Longrightarrow> session_fresh ses'"
  by (auto simp: cycle_id_def Let_def session_fresh_def
      split: current_session_id.splits sum.splits)

lemma client_mut_fresh: "client_mut f ses = (r, ses') \<Longrightarrow> session_fresh ses \<Longrightarrow> session_fresh ses'"
  by (auto simp: client_mut_def split: prod.splits)

lemmas session_op_fresh = force_load_fresh session_is_empty_fresh get_raw_fresh insert_raw_fresh
  remove_raw_fresh session_clear_fresh cycle_id_fresh client_mut_fresh

lemma session_step_fresh:
  assumes "session_step store x y" and "session_inv (fst x)" and "session_fresh (fst x)"
  shows "session_fresh (fst y)"
  using assms
proof (induction rule: session_step.induct)
  case (step_invalidate ses st)
  then show ?case by (simp add: invalidate_def session_fresh_def)
qed (simp_all add: session_delete_def, (erule session_op_fresh, assumption+)+)

lemma session_unsynced_reachable: "session_unsynced store x \<Longrightarrow> session_reachable store x"
  by (induction rule: session_unsynced.induct) (auto intro: session_reachable.intros)

lemma session_unsynced_fresh: "session_unsynced store x \<Longrightarrow> session_fresh (fst x)"
proof (induction rule: session_unsynced.induct)
  case (unsynced_new config random incoming st)
  show ?case
    by (auto simp: session_new_def session_fresh_def Let_def split: option.splits)
next
  case (unsynced_step x y)
  then show ?case
    by (blast intro: session_step_fresh session_reachable_inv session_unsynced_reachable)
qed

end
