(* ===== verification/Session_Contract.thy ===== *)
theory Session_Contract
  imports Session_Laws
begin

text \<open>
  What synchronising a session leaves in the storage, proved once for every backend that
  honours \<open>storage_backend\<close>.
\<close>

fun server_map :: "('f, 'v) session \<Rightarrow> 'v state" where
  "server_map ses =
     (case ses_server_state ses of
        Some (Unchanged state ttl) \<Rightarrow> state
      | Some (Changed state) \<Rightarrow> state
      | _ \<Rightarrow> fmempty)"

declare server_map.simps [simp del]

lemma lift_err_Inr [simp]: "lift_err f x = (Inr u, st) \<longleftrightarrow> x = (Inr (), st)"
  by (cases "(f, x)" rule: lift_err.cases) auto

lemma lift_err_Inl [simp]: "lift_err f x = (Inl e, st) \<longleftrightarrow> (\<exists>e'. x = (Inl e', st) \<and> e = Failed (f e'))"
  by (cases "(f, x)" rule: lift_err.cases) auto

lemma sync_Inr:
  "sync mul store ses st = (Inr u, ses', st') \<Longrightarrow>
     sync_store mul store ses st = (Inr (), st') \<and> ses' = sync_state ses"
  by (auto simp: sync_def split: prod.splits sum.splits)

lemma sync_store_of_sync:
  "sync mul store ses st = (r, ses', st') \<Longrightarrow> \<exists>x. sync_store mul store ses st = (x, st')"
  by (auto simp: sync_def split: prod.splits sum.splits)

context storage_backend
begin

lemma sync_changed_content:
  assumes "ses_server_state ses = Some (Changed state)"
    and "sync_store mul store ses st = (Inr (), st')"
  shows "content st' (new_id (ses_id ses)) = Some state"
  using assms
  by (auto simp: sync_store_def Let_def create_ok update_ok
      split: current_session_id.splits prod.splits sum.splits delete_error.splits)

lemma sync_marked_gone:
  assumes "ses_server_state ses = Some MarkedForDeletion" and "old_id (ses_id ses) = Some i"
    and "sync_store mul store ses st = (Inr (), st')"
  shows "\<not> live st' i"
  using assms delete_gone [of i st]
  by (auto simp: sync_store_def split: prod.splits sum.splits delete_error.splits)

lemma sync_unloaded_rename:
  assumes "ses_server_state ses = None" and "ses_id ses = ToBeRenamed old new" and "old \<noteq> new"
    and "sync_store mul store ses st = (Inr (), st')"
  shows "content st old \<noteq> None \<and> content st' = (content st)(new := content st old, old := None)"
  using assms by (auto simp: sync_store_def dest: change_id_ok)

lemma sync_changed_rename_gone:
  assumes "ok st" and "ses_server_state ses = Some (Changed state)"
    and "ses_id ses = ToBeRenamed old new" and "old \<noteq> new"
    and "sync_store mul store ses st = (Inr (), st')"
  shows "\<not> live st' old"
proof -
  obtain r st1 where d: "store_delete store old st = (r, st1)" by fastforce
  have r: "r = Inr () \<or> (\<exists>j. r = Inl (DeleteUnknownId j))"
    and c: "\<exists>x. store_create store new \<lparr>rec_state = state, rec_ttl = fresh_ttl ses\<rparr> st1 = (x, st')"
    using assms d
    by (auto simp: sync_store_def Let_def split: prod.splits sum.splits delete_error.splits)
  have "\<not> live st1 old" using delete_gone [OF d] r by blast
  moreover have "ok st1" using delete_env [OF assms(1) d] .
  ultimately show ?thesis using c create_live assms(4) by blast
qed

lemma sync_unchanged_rename_gone:
  assumes "ok st" and "ses_server_state ses = Some (Unchanged state ttl)"
    and "ses_id ses = ToBeRenamed old new" and "old \<noteq> new"
    and "sync_store mul store ses st = (Inr (), st')"
  shows "\<not> live st' old"
proof -
  obtain r st1 where c: "store_change_id store old new st = (r, st1)" by fastforce
  show ?thesis
  proof (cases r)
    case (Inr u)
    with assms c have "st' = st1" by (auto simp: sync_store_def)
    moreover have "content st1 old = None" using Inr c change_id_ok [OF assms(4)] by auto
    ultimately show ?thesis using live_content by blast
  next
    case (Inl e)
    with assms c obtain j where e: "e = ChangeIdUnknownId j"
      and cr: "\<exists>x. store_create store new \<lparr>rec_state = state, rec_ttl = fresh_ttl ses\<rparr> st1 = (x, st')"
      by (auto simp: sync_store_def Let_def split: change_id_error.splits)
    have "\<not> live st1 old" using change_id_unknown c Inl e by blast
    moreover have "ok st1" using change_id_env [OF assms(1) c] .
    ultimately show ?thesis using cr create_live assms(4) by blast
  qed
qed

lemma sync_rename_gone:
  assumes "ok st" and "session_inv ses" and "ses_id ses = ToBeRenamed old new"
    and "ses_server_state ses \<noteq> Some DoesNotExist"
    and "sync_store mul store ses st = (Inr (), st')"
  shows "\<not> live st' old"
proof (cases "ses_server_state ses")
  case None
  have neq: "old \<noteq> new" using assms(2,3) by (simp add: session_inv_def)
  show ?thesis
    using sync_unloaded_rename [OF None assms(3) neq assms(5)] live_content [of st' old] by auto
next
  case (Some x)
  have neq: "old \<noteq> new" using assms(2,3) by (simp add: session_inv_def)
  show ?thesis
    using Some assms(3,4) sync_marked_gone [OF _ _ assms(5), of old]
      sync_changed_rename_gone [OF assms(1) _ assms(3) neq assms(5)]
      sync_unchanged_rename_gone [OF assms(1) _ assms(3) neq assms(5)]
    by (cases x) auto
qed

lemma sync_unchanged_existing_content:
  assumes "ses_server_state ses = Some (Unchanged state ttl)" and "ses_id ses = Existing i"
    and "sync_store mul store ses st = (x, st')"
  shows "content st' = content st"
proof -
  have "st' = st \<or> (\<exists>y. store_update_ttl store i (fresh_ttl ses) st = (y, st'))"
    using assms
    by (cases "store_update_ttl store i (fresh_ttl ses) st"; cases "fst (store_update_ttl store i (fresh_ttl ses) st)")
      (auto simp: sync_store_def Let_def split: if_splits)
  then show ?thesis using update_ttl_content by blast
qed

lemma sync_frame:
  assumes "session_inv ses" and "sync_store mul store ses st = (x, st')"
    and "k \<noteq> new_id (ses_id ses)" and "old_id (ses_id ses) \<noteq> Some k"
  shows "content st' k = content st k"
proof -
  have lift: "\<exists>y. op = (y, st')" if "lift_err f op = (x, st')" for f and op :: "('e + unit) \<times> 's"
    using that by (cases "(f, op)" rule: lift_err.cases) auto
  show ?thesis
    using assms
    by (auto simp: sync_store_def Let_def session_inv_def
        split: option.splits server_state.splits current_session_id.splits prod.splits sum.splits
          if_splits delete_error.splits change_id_error.splits
        dest!: lift create_frame update_frame delete_frame change_id_frame update_ttl_content)
qed

end

end
