(* ===== verification/Session_Properties.thy ===== *)
theory Session_Properties
  imports Session_Contract
begin

text \<open>
  The properties of sessions: the specification of the server-side operations as operations
  on a key-value map, and the theorems about runs, synchronisation and finalisation of a
  session on the in-memory backend.
\<close>

section \<open>The server-side state as a map\<close>

datatype 'v server_op =
    OpGet string
  | OpInsert string 'v
  | OpRemove string
  | OpClear
  | OpIsEmpty

datatype 'v server_ret =
    RetValue "'v option"
  | RetUnit
  | RetBool bool

text \<open>What an operation means on a map.\<close>

fun spec_op :: "'v server_op \<Rightarrow> 'v state \<Rightarrow> 'v server_ret \<times> 'v state" where
  "spec_op (OpGet k) m = (RetValue (fmlookup m k), m)"
| "spec_op (OpInsert k v) m = (RetValue (fmlookup m k), fmupd k v m)"
| "spec_op (OpRemove k) m = (RetValue (fmlookup m k), fmdrop k m)"
| "spec_op OpClear m = (RetUnit, fmempty)"
| "spec_op OpIsEmpty m = (RetBool (m = fmempty), m)"

fun spec_ops :: "'v server_op list \<Rightarrow> 'v state \<Rightarrow> 'v server_ret list \<times> 'v state" where
  "spec_ops [] m = ([], m)"
| "spec_ops (a # as) m =
     (let (r, m) = spec_op a m; (rs, m) = spec_ops as m in (r # rs, m))"

text \<open>The same operations on a session, stopping at the first failure.\<close>

fun map_result :: "('a \<Rightarrow> 'b) \<Rightarrow> 'e + 'a \<Rightarrow> 'e + 'b" where
  "map_result f (Inl e) = Inl e"
| "map_result f (Inr a) = Inr (f a)"

fun run_op :: "('s, 'v) session_store \<Rightarrow> 'v server_op \<Rightarrow> ('f, 'v) session \<Rightarrow> 's
    \<Rightarrow> (load_error, 'v server_ret) result \<times> ('f, 'v) session \<times> 's" where
  "run_op store (OpGet k) ses st = apfst (map_result RetValue) (get_raw store k ses st)"
| "run_op store (OpInsert k v) ses st = apfst (map_result RetValue) (insert_raw store k v ses st)"
| "run_op store (OpRemove k) ses st = apfst (map_result RetValue) (remove_raw store k ses st)"
| "run_op store OpClear ses st =
     apfst (map_result (\<lambda>u. RetUnit)) (session_clear store ses st)"
| "run_op store OpIsEmpty ses st = apfst (map_result RetBool) (session_is_empty store ses st)"

fun run_ops :: "('s, 'v) session_store \<Rightarrow> 'v server_op list \<Rightarrow> ('f, 'v) session \<Rightarrow> 's
    \<Rightarrow> (load_error, 'v server_ret list) result \<times> ('f, 'v) session \<times> 's" where
  "run_ops store [] ses st = (Inr [], ses, st)"
| "run_ops store (a # as) ses st =
     (case run_op store a ses st of
        (Inl e, ses, st) \<Rightarrow> (Inl e, ses, st)
      | (Inr r, ses, st) \<Rightarrow>
          (case run_ops store as ses st of
             (Inl e, ses, st) \<Rightarrow> (Inl e, ses, st)
           | (Inr rs, ses, st) \<Rightarrow> (Inr (r # rs), ses, st)))"

lemma server_map_set [simp]:
  "server_map (ses\<lparr>ses_server_state := Some (Changed m)\<rparr>) = m"
  "server_map (ses\<lparr>ses_server_state := Some (Unchanged m ttl)\<rparr>) = m"
  "ses_server_state ses = Some (Changed m) \<Longrightarrow> server_map ses = m"
  "ses_server_state ses = Some (Unchanged m ttl) \<Longrightarrow> server_map ses = m"
  "ses_server_state ses = Some DoesNotExist \<Longrightarrow> server_map ses = fmempty"
  "ses_server_state ses = Some MarkedForDeletion \<Longrightarrow> server_map ses = fmempty"
  by (simp_all add: server_map.simps)

lemmas server_op_defs = get_raw_def insert_raw_def remove_raw_def session_clear_def
  session_is_empty_def force_load_ref_mut

lemma run_op_loaded:
  assumes "ses_server_state ses = Some x" and "x \<noteq> MarkedForDeletion"
  shows "\<exists>ses' y. run_op store a ses st = (Inr (fst (spec_op a (server_map ses))), ses', st)
    \<and> ses_server_state ses' = Some y \<and> y \<noteq> MarkedForDeletion
    \<and> server_map ses' = snd (spec_op a (server_map ses))"
  using assms
  by (cases a; cases x) (auto simp: server_op_defs Let_def server_map.simps)

lemma run_ops_loaded:
  assumes "ses_server_state ses = Some x" and "x \<noteq> MarkedForDeletion"
  shows "\<exists>ses'. run_ops store as ses st = (Inr (fst (spec_ops as (server_map ses))), ses', st)
    \<and> server_map ses' = snd (spec_ops as (server_map ses))"
  using assms
proof (induction as arbitrary: ses x)
  case Nil
  then show ?case by simp
next
  case (Cons a as)
  from run_op_loaded [OF Cons.prems, of store a st] obtain ses1 y where
    r: "run_op store a ses st = (Inr (fst (spec_op a (server_map ses))), ses1, st)"
    and y: "ses_server_state ses1 = Some y" "y \<noteq> MarkedForDeletion"
    and m: "server_map ses1 = snd (spec_op a (server_map ses))"
    by blast
  from Cons.IH [OF y] obtain ses' where
    "run_ops store as ses1 st = (Inr (fst (spec_ops as (server_map ses1))), ses', st)"
    "server_map ses' = snd (spec_ops as (server_map ses1))"
    by blast
  with r m show ?case by (auto simp: split_beta Let_def)
qed

text \<open>An operation on a session that is not loaded yet is the same operation after the load.\<close>

lemma force_load_mut_after_load:
  "force_load store ses st = (Inr u, ses1, st1) \<Longrightarrow>
     force_load_mut store ses st = force_load_mut store ses1 st1"
proof (cases "load_target ses")
  case None
  then show "force_load store ses st = (Inr u, ses1, st1) \<Longrightarrow> ?thesis"
    by (simp add: force_load_def)
next
  case (Some i)
  assume "force_load store ses st = (Inr u, ses1, st1)"
  with Some obtain r where "ses1 = load_commit r ses"
    and "force_load_mut store ses st = (case ses_server_state ses1 of
      None \<Rightarrow> (Inl (Panicked ''Server-side state should have been loaded by now!''), ses1, st1)
      | Some x \<Rightarrow> (Inr x, ses1, st1))"
    by (auto simp: force_load_def force_load_mut_def split: sum.splits prod.splits)
  then show ?thesis using load_commit_loaded [of r ses] by auto
qed

lemma run_op_after_load:
  assumes "force_load store ses st = (Inr u, ses1, st1)"
  shows "run_op store a ses st = run_op store a ses1 st1"
  using force_load_mut_after_load [OF assms] by (cases a) (simp_all add: server_op_defs)

lemma run_ops_after_load:
  "force_load store ses st = (Inr u, ses1, st1) \<Longrightarrow> as \<noteq> [] \<Longrightarrow>
     run_ops store as ses st = run_ops store as ses1 st1"
  by (cases as) (simp_all add: run_op_after_load)

text \<open>C2: Any sequence of server-side operations behaves, in what it returns and in the map it
  leaves, as the same sequence of operations on the map that the load produced; the storage
  is touched by the first load only.\<close>

theorem server_ops_refine_map:
  assumes "force_load store ses st = (Inr u, ses1, st1)" and "as \<noteq> []"
    and "ses_server_state ses1 = Some x" and "x \<noteq> MarkedForDeletion"
  shows "\<exists>ses'. run_ops store as ses st = (Inr (fst (spec_ops as (server_map ses1))), ses', st1)
    \<and> server_map ses' = snd (spec_ops as (server_map ses1))"
  using run_ops_after_load [OF assms(1,2)] run_ops_loaded [OF assms(3,4)] by simp

section \<open>Concrete sessions for the witnesses\<close>

definition ex_id :: "nat \<Rightarrow> session_id" where
  "ex_id n = SessionId (word_of_nat n)"

definition ex_config :: "nat session_config" where
  "ex_config =
     \<lparr>cfg_cookie = session_cookie_config_default,
      cfg_state =
        \<lparr>ssc_ttl = 100, ssc_extend_ttl = OnStateLoadsAndChanges,
         ssc_ttl_extension_threshold = Some (TtlExtensionThreshold 1),
         ssc_server_state_creation = NeverSkip, ssc_missing_server_state = Reject\<rparr>\<rparr>"

definition ex_iter :: "(session_id, 'v store_record) fmap \<Rightarrow> session_id list" where
  "ex_iter m = sorted_list_of_set (fset (fmdom m))"

definition ex_store :: "(nat mem_store, nat) session_store" where
  "ex_store = SessionStore (mem_backend ex_iter)"

text \<open>A storage with one record, whose clock advances by one at every reading.\<close>

definition ex_mem :: "nat mem_store" where
  "ex_mem =
     \<lparr>ms_records = fmupd (ex_id 3) \<lparr>sr_state = fmupd ''a'' 5 fmempty, sr_deadline = 50\<rparr> fmempty,
      ms_clock = int\<rparr>"

definition ex_incoming :: "nat incoming_session" where
  "ex_incoming = \<lparr>inc_id = ex_id 3, inc_client_state = fmupd ''c'' 7 fmempty\<rparr>"

definition ex_session :: "(nat, nat) session" where
  "ex_session = session_new ex_config (ex_id 9) (Some ex_incoming)"

definition ex_fresh_session :: "(nat, nat) session" where
  "ex_fresh_session = session_new ex_config (ex_id 9) None"

definition ex_mul :: "duration \<Rightarrow> nat \<Rightarrow> duration" where
  "ex_mul d f = d * f"

lemma ex_id_inject [simp]:
  "(ex_id 3 = ex_id 2) = False" "(ex_id 2 = ex_id 3) = False"
  "(ex_id 3 = ex_id 9) = False" "(ex_id 9 = ex_id 3) = False"
  by (simp_all add: ex_id_def)

lemma ex_mem_ok: "mem_ok ex_mem"
  by (simp add: ex_mem_def mem_ok_def)

lemmas ex_defs = ex_config_def ex_store_def ex_mem_def ex_incoming_def ex_session_def
  ex_fresh_session_def session_new_def session_cookie_config_default_def

lemmas run_defs = force_load_def load_target_def load_commit_def Let_def mem_op_defs is_stale_def
  server_op_defs force_load_mut_def is_invalidated_def

lemma ex_session_load:
  "force_load ex_store ex_session ex_mem =
     (Inr (), ex_session\<lparr>ses_server_state := Some (Unchanged (fmupd ''a'' 5 fmempty) 49)\<rparr>,
      ex_mem\<lparr>ms_clock := \<lambda>n. int (n + 2)\<rparr>)"
  by (simp add: ex_defs run_defs)

theorem server_ops_refine_map_witness:
  "\<exists>ses'. run_ops ex_store [OpInsert ''b'' 2, OpGet ''a'', OpRemove ''a'', OpGet ''a''] ex_session ex_mem =
      (Inr [RetValue None, RetValue (Some 5), RetValue (Some 5), RetValue None], ses',
       ex_mem\<lparr>ms_clock := \<lambda>n. int (n + 2)\<rparr>)
    \<and> fmlookup (server_map ses') ''b'' = Some 2"
  using server_ops_refine_map [OF ex_session_load,
      of "[OpInsert ''b'' 2, OpGet ''a'', OpRemove ''a'', OpGet ''a'']"
         "Unchanged (fmupd ''a'' 5 fmempty) 49"]
  by auto

section \<open>Safety of runs\<close>

lemma run_op_inv:
  "run_op store a ses st = (r, ses', st') \<Longrightarrow> session_inv ses \<Longrightarrow> session_inv ses'"
  by (cases a)
    (auto simp: apfst_def map_prod_def split: prod.splits
      dest: get_raw_inv insert_raw_inv remove_raw_inv session_clear_inv session_is_empty_inv)

lemma run_op_safe:
  assumes "session_inv ses"
  shows "\<not> panicked (fst (run_op store a ses st))"
proof -
  obtain r ses' st' where m: "force_load_mut store ses st = (r, ses', st')"
    by (cases "force_load_mut store ses st") auto
  with force_load_mut_safe [OF assms, of store st] show ?thesis
    by (cases a; cases r rule: panicked.cases)
      (auto simp: server_op_defs Let_def split: server_state.splits)
qed

text \<open>C7: In every reachable session, a generated identifier comes with a server state, the two
  identifiers of a renaming differ, and an invalidated session has its server state marked
  for deletion.\<close>

theorem session_invariant:
  assumes "session_reachable store (ses, st)"
  shows "(\<forall>i. ses_id ses = NewlyGenerated i \<longrightarrow> ses_server_state ses \<noteq> None)
    \<and> (\<forall>old new. ses_id ses = ToBeRenamed old new \<longrightarrow> old \<noteq> new)
    \<and> (is_invalidated ses \<longrightarrow> ses_server_state ses = Some MarkedForDeletion)"
  using session_reachable_inv [OF assms] by (auto simp: session_inv_def)

lemma ex_session_reachable:
  "session_reachable ex_store (ex_session, st)"
  "session_unsynced ex_store (ex_session, st)"
  by (simp_all add: ex_session_def session_reachable.reach_new session_unsynced.unsynced_new)

theorem session_invariant_witness:
  "ses_server_state (invalidate ex_session) = Some MarkedForDeletion"
  using session_invariant [OF session_reachable.reach_step
      [OF ex_session_reachable(1) step_invalidate]]
  by (simp add: invalidate_def is_invalidated_def)

text \<open>C29: No server-side operation on a reachable session panics: whatever the storage answers, the
  state that \<^verbatim>\<open>force_load_mut\<close> promises to have loaded is there.\<close>

theorem server_ops_never_panic:
  assumes "session_reachable store (ses, st)"
  shows "\<not> panicked (fst (run_ops store as ses st))"
proof -
  have "session_inv ses \<Longrightarrow> \<not> panicked (fst (run_ops store as ses st))" for ses st
  proof (induction as arbitrary: ses st)
    case Nil
    then show ?case by simp
  next
    case (Cons a as)
    obtain r ses1 st1 where r: "run_op store a ses st = (r, ses1, st1)"
      by (cases "run_op store a ses st") auto
    with Cons.prems run_op_safe [of ses store a st] run_op_inv [OF r]
      Cons.IH [of ses1 st1]
    show ?case
      by (cases r rule: panicked.cases; cases "fst (run_ops store as ses1 st1)" rule: panicked.cases)
        (auto split: prod.splits sum.splits)
  qed
  with session_reachable_inv [OF assms] show ?thesis by simp
qed

theorem server_ops_never_panic_witness:
  "\<not> panicked (fst (run_ops ex_store [OpClear, OpInsert ''b'' 2, OpIsEmpty] ex_session ex_mem))"
  by (rule server_ops_never_panic [OF ex_session_reachable(1)])

end
