(* ===== verification/Session_Sync_Properties.thy ===== *)
theory Session_Sync_Properties
  imports Session_Properties
begin

text \<open>
  The properties of sessions that involve synchronisation, identifiers and the cookie: what
  is durable after a successful \<open>sync\<close> on the in-memory backend, what a retired
  identifier gives access to, how a cookie continues in the next request, and two defects of
  the code (\<open>removal_is_lost\<close>, \<open>second_sync_panics\<close>).
\<close>

section \<open>Durability\<close>

text \<open>C1: When a reachable session with a changed server state synchronises successfully, the
  storage holds exactly that state under the current identifier, no other identifier than
  the session's own two is touched, and the in-memory state becomes unchanged with a fresh
  time-to-live.\<close>

theorem sync_persists_changes:
  fixes st :: "'v mem_store"
  assumes "session_reachable (SessionStore (mem_backend iter)) (ses, st)"
    and "ses_server_state ses = Some (Changed m)"
    and "sync mul (SessionStore (mem_backend iter)) ses st = (Inr u, ses', st')"
  shows "mem_content st' (new_id (ses_id ses)) = Some m
    \<and> (\<forall>k. k \<noteq> new_id (ses_id ses) \<longrightarrow> old_id (ses_id ses) \<noteq> Some k
        \<longrightarrow> mem_content st' k = mem_content st k)
    \<and> ses_server_state ses' = Some (Unchanged m (fresh_ttl ses))"
proof (intro conjI allI impI)
  note s = sync_Inr [OF assms(3)]
  show "mem_content st' (new_id (ses_id ses)) = Some m"
    using mem.sync_changed_content [OF assms(2)] s by blast
  show "ses_server_state ses' = Some (Unchanged m (fresh_ttl ses))"
    using s assms(2) by (simp add: sync_state_def)
  fix k assume "k \<noteq> new_id (ses_id ses)" "old_id (ses_id ses) \<noteq> Some k"
  then show "mem_content st' k = mem_content st k"
    using mem.sync_frame [of ses mul iter st "Inr ()" st' k] session_reachable_inv [OF assms(1)] s
    by simp
qed

text \<open>C24: After an identifier has been cycled and the session synchronised, the old identifier no
  longer gives access to a record, whatever was done to the state in between (unless the
  state was found missing, when nothing was there to begin with).\<close>

theorem cycled_id_is_retired:
  fixes st :: "'v mem_store"
  assumes "mem_ok st" and "session_reachable (SessionStore (mem_backend iter)) (ses, st)"
    and "ses_id ses = ToBeRenamed old new" and "ses_server_state ses \<noteq> Some DoesNotExist"
    and "sync mul (SessionStore (mem_backend iter)) ses st = (Inr u, ses', st')"
  shows "\<not> mem_live st' old"
  using mem.sync_rename_gone [OF assms(1) _ assms(3,4)] session_reachable_inv [OF assms(2)]
    sync_Inr [OF assms(5)]
  by (metis fst_conv)

text \<open>Theorem: Cycling the identifier of a session whose state was never loaded moves the record of the
  old identifier to the new one, unchanged.\<close>

theorem cycling_preserves_record:
  fixes st :: "'v mem_store"
  assumes "session_reachable (SessionStore (mem_backend iter)) (ses, st)"
    and "ses_id ses = ToBeRenamed old new" and "ses_server_state ses = None"
    and "sync mul (SessionStore (mem_backend iter)) ses st = (Inr u, ses', st')"
  shows "mem_content st old \<noteq> None
    \<and> mem_content st' = (mem_content st)(new := mem_content st old, old := None)"
proof -
  have "old \<noteq> new"
    using session_reachable_inv [OF assms(1)] assms(2) by (simp add: session_inv_def)
  then show ?thesis
    using mem.sync_unloaded_rename [OF assms(3,2)] sync_Inr [OF assms(4)] by blast
qed

section \<open>Invalidation\<close>

fun inert_ret :: "'v server_op \<Rightarrow> 'v server_ret" where
  "inert_ret (OpGet k) = RetValue None"
| "inert_ret (OpInsert k v) = RetValue None"
| "inert_ret (OpRemove k) = RetValue None"
| "inert_ret OpClear = RetUnit"
| "inert_ret OpIsEmpty = RetBool True"

lemma run_op_marked:
  "ses_server_state ses = Some MarkedForDeletion \<Longrightarrow>
     run_op store a ses st = (Inr (inert_ret a), ses, st)"
  by (cases a) (simp_all add: server_op_defs Let_def)

lemma run_ops_marked:
  "ses_server_state ses = Some MarkedForDeletion \<Longrightarrow>
     run_ops store as ses st = (Inr (map inert_ret as), ses, st)"
  by (induction as) (simp_all add: run_op_marked)

text \<open>Theorem: Every operation on an invalidated session is a no-op that reads nothing: the session and the
  storage stay as they are, reads return nothing, and so do the client-side operations.\<close>

theorem invalidated_session_is_inert:
  assumes "session_reachable store (ses, st)" and "is_invalidated ses"
  shows "run_ops store as ses st = (Inr (map inert_ret as), ses, st)
    \<and> client_mut (client_insert_raw k v) ses = (None, ses)
    \<and> client_mut (client_remove_raw k) ses = (None, ses)
    \<and> client_mut client_clear ses = ((), ses)
    \<and> client_get_raw (ses_client_state ses) (ses_invalidated ses) k = None
    \<and> client_is_empty (ses_client_state ses) (ses_invalidated ses)"
proof -
  have "ses_server_state ses = Some MarkedForDeletion"
    using session_reachable_inv [OF assms(1)] assms(2) by (simp add: session_inv_def)
  with assms(2) show ?thesis
    by (simp add: run_ops_marked client_mut_def client_op_defs is_invalidated_def)
qed


section \<open>Identifiers\<close>

lemma cycle_loop_fails_iff:
  "(\<exists>m. cycle_loop draw old i = Inl (Panicked m)) \<longleftrightarrow>
     (\<forall>j. i \<le> j \<longrightarrow> j < max_n_attempts \<longrightarrow> Some (draw j) = old)"
proof (induction draw old i rule: cycle_loop.induct)
  case (1 draw old i)
  show ?case
  proof (cases "max_n_attempts \<le> i")
    case True
    then show ?thesis by (subst cycle_loop.simps) auto
  next
    case False
    show ?thesis
    proof (cases "Some (draw i) = old")
      case True
      have split: "i \<le> j \<longleftrightarrow> j = i \<or> Suc i \<le> j" for j by arith
      from True False "1.IH" show ?thesis
        by (simp add: cycle_loop.simps [of draw old i] split)
    next
      case False
      with \<open>\<not> max_n_attempts \<le> i\<close> show ?thesis
        by (auto simp: cycle_loop.simps [of draw old i])
    qed
  qed
qed

lemma cycle_loop_not_failed: "cycle_loop draw old i \<noteq> Inl (Failed e)"
proof (induction draw old i rule: cycle_loop.induct)
  case (1 draw old i)
  then show ?case by (simp add: cycle_loop.simps [of draw old i])
qed

text \<open>Theorem: Cycling panics exactly when sixteen draws in a row give the identifier the client holds.
  Otherwise the new identifier differs from that one, which stays recorded as the old
  identifier; nothing else in the session changes.\<close>

theorem cycle_id_correct:
  shows "(panicked (fst (cycle_id draw ses)) \<longleftrightarrow>
        (\<forall>j < 16. Some (draw j) = old_id (ses_id ses)))
    \<and> (\<not> panicked (fst (cycle_id draw ses)) \<longrightarrow>
        Some (new_id (ses_id (snd (cycle_id draw ses)))) \<noteq> old_id (ses_id ses)
        \<and> old_id (ses_id (snd (cycle_id draw ses))) = old_id (ses_id ses)
        \<and> snd (cycle_id draw ses) = ses\<lparr>ses_id := ses_id (snd (cycle_id draw ses))\<rparr>)"
proof -
  have old: "(case ses_id ses of Existing i \<Rightarrow> Some i | ToBeRenamed old new \<Rightarrow> Some old
      | NewlyGenerated i \<Rightarrow> None) = old_id (ses_id ses)"
    by (cases "ses_id ses") auto
  obtain r where r: "cycle_loop draw (old_id (ses_id ses)) 0 = r" by blast
  have "panicked (fst (cycle_id draw ses)) \<longleftrightarrow> (\<forall>j < 16. Some (draw j) = old_id (ses_id ses))"
    using cycle_loop_fails_iff [of draw "old_id (ses_id ses)" 0] cycle_loop_not_failed r
    by (cases r rule: panicked.cases) (auto simp: cycle_id_def old max_n_attempts_def)
  moreover have "\<not> panicked (fst (cycle_id draw ses)) \<longrightarrow>
      Some (new_id (ses_id (snd (cycle_id draw ses)))) \<noteq> old_id (ses_id ses)
      \<and> old_id (ses_id (snd (cycle_id draw ses))) = old_id (ses_id ses)
      \<and> snd (cycle_id draw ses) = ses\<lparr>ses_id := ses_id (snd (cycle_id draw ses))\<rparr>"
    using cycle_loop_Inr [of draw "old_id (ses_id ses)" 0] cycle_loop_not_failed r
    by (cases r rule: panicked.cases) (auto simp: cycle_id_def old split: option.splits)
  ultimately show ?thesis by blast
qed

section \<open>Finalisation\<close>

lemma sync_store_safe:
  assumes "session_inv ses" and "session_fresh ses"
  shows "\<not> panicked (fst (sync_store mul store ses st))"
proof -
  have lift: "\<not> panicked (fst (lift_err f x))" for f and x :: "('e + unit) \<times> 's"
    by (cases "(f, x)" rule: lift_err.cases) auto
  have lift': "\<not> panicked r" if "lift_err f x = (r, st')" for f and x :: "('e + unit) \<times> 's" and r st'
    using lift [of f x] that by simp
  show ?thesis
    using assms
    by (auto simp: sync_store_def Let_def session_inv_def session_fresh_def lift
        split: option.splits server_state.splits current_session_id.splits prod.splits sum.splits
          if_splits delete_error.splits change_id_error.splits dest: lift')
qed

lemma sync_state_synced:
  assumes "session_inv ses" and "\<not> is_invalidated ses"
    and "ses_server_state (sync_state ses) = Some x"
  shows "x \<noteq> MarkedForDeletion \<and> (\<forall>m. x \<noteq> Changed m)"
proof -
  obtain y where "ses_server_state ses = Some y"
    using assms(3) by (auto simp: sync_state_def)
  with assms show ?thesis
    by (cases y) (auto simp: sync_state_def split: if_splits)
qed

lemma finalize_cookie_safe:
  assumes "\<not> is_invalidated ses \<Longrightarrow> ses_server_state ses \<noteq> Some MarkedForDeletion"
    and "\<not> is_invalidated ses \<Longrightarrow> \<forall>m. ses_server_state ses \<noteq> Some (Changed m)"
  shows "\<not> panicked (finalize_cookie to_json ses)"
  using assms
  by (auto simp: finalize_cookie_def Let_def
      split: option.splits server_state.splits sum.splits if_splits)

text \<open>C28: The first finalisation of a session never panics: none of the \<^verbatim>\<open>unreachable!\<close>
  and \<^verbatim>\<open>assert!\<close> of \<^verbatim>\<open>sync\<close> and \<^verbatim>\<open>finalize\<close> can
  be hit on a session that was not synchronised by hand before.\<close>

theorem finalize_never_panics:
  assumes "session_unsynced store (ses, st)"
  shows "\<not> panicked (fst (finalize mul to_json store ses st))"
proof -
  have inv: "session_inv ses"
    using session_reachable_inv [OF session_unsynced_reachable [OF assms]] by simp
  have fresh: "session_fresh ses" using session_unsynced_fresh [OF assms] by simp
  obtain r st' where s: "sync_store mul store ses st = (r, st')"
    by (cases "sync_store mul store ses st") auto
  have r: "\<not> panicked r" using sync_store_safe [OF inv fresh, of mul store st] s by simp
  have "is_invalidated (sync_state ses) = is_invalidated ses" by (simp add: sync_state_def)
  then have "\<not> panicked (finalize_cookie to_json (sync_state ses))"
    using finalize_cookie_safe [of "sync_state ses" to_json] sync_state_synced [OF inv]
    by fastforce
  with s r show ?thesis
    by (cases r rule: panicked.cases) (simp_all add: finalize_def sync_def)
qed

text \<open>C25: A session continues in the next request: reading the cookie that finalisation produced
  gives back the current identifier and the client-side state, for any JSON codec whose
  decoder inverts its encoder.\<close>

theorem cookie_continues_session:
  assumes "\<And>f j. to_json f = Inr j \<Longrightarrow> from_json j = Inr f"
    and "finalize mul to_json store ses st = (Inr (Some (ResponseCookie c)), ses', st')"
    and "cookies (ck_name c) = Some (ck_value c)"
  shows "incoming_extract from_json cookies (cfg_cookie (ses_config ses)) =
    Some \<lparr>inc_id = new_id (ses_id ses), inc_client_state = client_map (ses_client_state ses)\<rparr>"
proof -
  from assms(2) have s: "sync mul store ses st = (Inr (), ses', st')"
    and c: "finalize_cookie to_json ses' = Inr (Some (ResponseCookie c))"
    by (auto simp: finalize_def split: prod.splits sum.splits)
  have ses': "ses_id ses' = ses_id ses" "ses_config ses' = ses_config ses"
    "ses_client_state ses' = ses_client_state ses"
    using sync_Inr [OF s] by (simp_all add: sync_state_def)
  from c obtain v where
    v: "to_json (wire_fields \<lparr>session_id = new_id (ses_id ses'), user_values = client_map (ses_client_state ses')\<rparr>)
      = Inr v" and cv: "c = build_session_cookie (cfg_cookie (ses_config ses')) (fresh_ttl ses') v"
    by (auto simp: finalize_cookie_def Let_def split: sum.splits if_splits)
  from assms(1) [OF v] cv assms(3) show ?thesis
    by (simp add: incoming_extract_def build_session_cookie_def Let_def ses')
qed

text \<open>Theorem: A new session that nothing was written to leaves no trace: finalising it sends no cookie
  and does not touch the storage.\<close>

theorem untouched_session_leaves_no_trace:
  "finalize mul to_json store (session_new config random None) st =
     (Inr None, session_new config random None, st)"
  by (simp add: finalize_def sync_def sync_store_def sync_state_def session_new_def Let_def
      create_if_empty_def finalize_cookie_def is_invalidated_def)

section \<open>Loading\<close>

text \<open>Theorem: When two loads of the same session are interleaved, so that both read the storage before
  either writes its result, the first result wins: the second one changes nothing, not even
  the invalidation flag.\<close>

theorem first_load_wins:
  "load_commit r2 (load_commit r1 ses) = load_commit r1 ses"
proof -
  obtain x where "ses_server_state (load_commit r1 ses) = Some x"
    using load_commit_loaded by blast
  then show ?thesis by simp
qed

text \<open>Theorem: A session whose record is missing is rejected when the configuration demands it: the load
  that finds nothing invalidates the session, and finalising it answers with a removal
  cookie.\<close>

theorem missing_record_is_rejected:
  fixes st :: "'v mem_store"
  assumes "ses_id ses = Existing i" and "ses_server_state ses = None"
    and "ssc_missing_server_state (cfg_state (ses_config ses)) = Reject"
    and "\<not> mem_live st i"
  shows "\<exists>ses' st' st''. force_load (SessionStore (mem_backend iter)) ses st = (Inr (), ses', st')
    \<and> is_invalidated ses'
    \<and> finalize mul to_json (SessionStore (mem_backend iter)) ses' st' =
        (let cc = cfg_cookie (ses_config ses)
         in (Inr (Some (RemovalCookie (scc_name cc) (scc_domain cc) (scc_path cc))), ses', st''))"
proof -
  let ?store = "SessionStore (mem_backend iter)"
  obtain g st1 where g: "get_mut_if_fresh i st = (g, st1)" by fastforce
  with assms(4) obtain j where "g = Inl j" using get_mut_if_fresh_Inr by (cases g) auto
  with g have l: "store_load ?store i st = (Inr None, st1)" by (simp add: mem_load_def)
  let ?ses = "ses\<lparr>ses_server_state := Some MarkedForDeletion,
      ses_invalidated := flag_invalidate (ses_invalidated ses)\<rparr>"
  have f: "force_load ?store ses st = (Inr (), ?ses, st1)"
    using assms l by (simp add: force_load_def load_target_def load_commit_def)
  have inv: "is_invalidated ?ses" by (simp add: is_invalidated_def)
  obtain d st2 where d: "store_delete ?store i st1 = (d, st2)" by fastforce
  have "d = Inr () \<or> (\<exists>j. d = Inl (DeleteUnknownId j))"
    using d mem_delete_not_other [of i st1] by (cases d; cases "projl d") auto
  then have "sync_store mul ?store ?ses st1 = (Inr (), st2)"
    using d assms(1) by (auto simp: sync_store_def)
  then have "finalize mul to_json ?store ?ses st1 =
      (finalize_cookie to_json (sync_state ?ses), sync_state ?ses, st2)"
    by (simp add: finalize_def sync_def)
  moreover have "sync_state ?ses = ?ses" using inv by (simp add: sync_state_def)
  ultimately have "finalize mul to_json ?store ?ses st1 =
      (let cc = cfg_cookie (ses_config ses)
       in (Inr (Some (RemovalCookie (scc_name cc) (scc_domain cc) (scc_path cc))), ?ses, st2))"
    using inv assms(1) by (simp add: finalize_cookie_def Let_def)
  with f inv show ?thesis by blast
qed

section \<open>The client-side state as a map\<close>

datatype 'v client_op = ClientInsert string 'v | ClientRemove string | ClientClear

fun run_client_op :: "unit option \<Rightarrow> 'v client_op \<Rightarrow> 'v client_state \<Rightarrow> 'v client_state" where
  "run_client_op flag (ClientInsert k v) c = snd (client_insert_raw k v c flag)"
| "run_client_op flag (ClientRemove k) c = snd (client_remove_raw k c flag)"
| "run_client_op flag ClientClear c = snd (client_clear c flag)"

fun spec_client_op :: "'v client_op \<Rightarrow> 'v state \<Rightarrow> 'v state" where
  "spec_client_op (ClientInsert k v) m = fmupd k v m"
| "spec_client_op (ClientRemove k) m = fmdrop k m"
| "spec_client_op ClientClear m = fmempty"

lemma run_client_op_map:
  "\<not> flag_is_invalidated flag \<Longrightarrow>
     client_map (run_client_op flag a c) = spec_client_op a (client_map c)"
  by (cases a; cases c) (auto simp: client_op_defs split: option.splits)

lemma run_client_op_clean:
  "\<not> is_updated (run_client_op flag a c) \<Longrightarrow> run_client_op flag a c = c"
  by (cases a; cases c) (auto simp: client_op_defs split: option.splits if_splits)

text \<open>C30: Client-side operations on a valid session act as the operations on a key-value map, in
  any sequence; and a state that still counts as unchanged after them is the original one, so
  nothing that was written is ever taken for unchanged.\<close>

theorem client_ops_refine_map:
  "(\<not> flag_is_invalidated flag \<longrightarrow>
      client_map (fold (run_client_op flag) as c) = fold spec_client_op as (client_map c))
    \<and> (\<not> is_updated (fold (run_client_op flag) as c) \<longrightarrow> fold (run_client_op flag) as c = c)"
proof -
  have "client_map (fold (run_client_op flag) as c) = fold spec_client_op as (client_map c)"
    if "\<not> flag_is_invalidated flag"
    using that by (induction as arbitrary: c) (simp_all add: run_client_op_map)
  moreover have "fold (run_client_op flag) as c = c"
    if "\<not> is_updated (fold (run_client_op flag) as c)"
    using that
  proof (induction as arbitrary: c)
    case (Cons a as)
    then have "fold (run_client_op flag) as (run_client_op flag a c) = run_client_op flag a c" by simp
    with Cons.prems run_client_op_clean [of flag a c] show ?case by simp
  qed simp
  ultimately show ?thesis by blast
qed

section \<open>Two defects\<close>

text \<open>Theorem: Removing a key from a server state that was loaded and not otherwise changed is lost:
  the session no longer shows the key, but a successful synchronisation leaves the storage's
  content as it was, key included.\<close>

theorem removal_is_lost:
  fixes st :: "'v mem_store"
  assumes "ses_id ses = Existing i" and "ses_server_state ses = Some (Unchanged m ttl)"
    and "remove_raw (SessionStore (mem_backend iter)) k ses st = (Inr (Some v), ses1, st1)"
    and "sync mul (SessionStore (mem_backend iter)) ses1 st1 = (Inr u, ses2, st2)"
  shows "fmlookup m k = Some v \<and> fmlookup (server_map ses2) k = None
    \<and> mem_content st2 = mem_content st"
proof -
  have r: "fmlookup m k = Some v"
    "ses1 = ses\<lparr>ses_server_state := Some (Unchanged (fmdrop k m) ttl)\<rparr>" "st1 = st"
    using assms(2,3) by (auto simp: remove_raw_def)
  have "mem_content st2 = mem_content st1"
    using mem.sync_unchanged_existing_content [of ses1 "fmdrop k m" ttl i] sync_Inr [OF assms(4)]
      assms(1) r(2)
    by auto
  moreover have "ses_server_state ses2 = Some (Unchanged (fmdrop k m) ttl)"
    using sync_Inr [OF assms(4)] r(2) by (simp add: sync_state_def)
  ultimately show ?thesis using r by simp
qed

text \<open>Theorem: Synchronising a new session by hand and then finalising it fails: once a value was
  inserted and synchronised, the next synchronisation of the same session panics on its
  integrity check (the client state being untouched), although the storage holds the record.\<close>

theorem second_sync_panics:
  assumes "ses_id ses = NewlyGenerated i" and "ses_server_state ses = Some (Changed m)"
    and "m \<noteq> fmempty" and "\<not> is_updated (ses_client_state ses)"
    and "sync mul store ses st = (Inr u, ses1, st1)"
  shows "panicked (fst (sync mul store ses1 st2))"
proof -
  have "ses1 = ses\<lparr>ses_server_state := Some (Unchanged m (fresh_ttl ses))\<rparr>"
    using sync_Inr [OF assms(5)] assms(2) by (simp add: sync_state_def)
  then show ?thesis
    using assms(1,3,4) by (simp add: sync_def sync_store_def create_if_empty_def Let_def)
qed

end
