(* ===== verification/Session_Witnesses.thy ===== *)
theory Session_Witnesses
  imports Session_Sync_Properties
begin

text \<open>
  The session properties at concrete inputs: the session and storage of
  \<^verbatim>\<open>Session_Properties\<close>, evaluated step by step.
\<close>

definition ex_mem2 :: "nat mem_store" where
  "ex_mem2 = ex_mem\<lparr>ms_clock := \<lambda>n. int (n + 2)\<rparr>"

definition ex_changed :: "(nat, nat) session" where
  "ex_changed =
     ex_session\<lparr>ses_server_state := Some (Changed (fmupd ''b'' 2 (fmupd ''a'' 5 fmempty)))\<rparr>"

definition ex_cycled :: "(nat, nat) session" where
  "ex_cycled = ex_session\<lparr>ses_id := ToBeRenamed (ex_id 3) (ex_id 2)\<rparr>"

lemma ex_mem2_ok: "mem_ok ex_mem2"
  by (simp add: ex_mem2_def ex_mem_def mem_ok_def)

lemma ex_mem_content: "mem_content ex_mem (ex_id 3) = Some (fmupd ''a'' 5 fmempty)"
  by (simp add: mem_content_def ex_mem_def)

lemma ex_insert: "insert_raw ex_store ''b'' 2 ex_session ex_mem = (Inr None, ex_changed, ex_mem2)"
  using ex_session_load
  by (simp add: insert_raw_def force_load_mut_def ex_changed_def ex_mem2_def)

lemma ex_changed_reachable: "session_reachable ex_store (ex_changed, ex_mem2)"
  by (rule session_reachable.reach_step [OF ex_session_reachable(1) step_insert [OF ex_insert]])

lemma ex_cycle: "cycle_id (\<lambda>i. ex_id 2) ex_session = (Inr (), ex_cycled)"
  by (simp add: cycle_id_def Let_def cycle_loop.simps [of _ _ 0] max_n_attempts_def ex_cycled_def
      ex_session_def session_new_def ex_incoming_def)

lemma ex_cycled_reachable: "session_reachable ex_store (ex_cycled, ex_mem)"
  by (rule session_reachable.reach_step [OF ex_session_reachable(1) step_cycle [OF ex_cycle]])

lemmas sync_defs = sync_def sync_store_def fresh_ttl_def create_if_empty_def must_extend_ttl_def
  ex_mul_def

lemma ex_sync_changed:
  "\<exists>st'. sync ex_mul ex_store ex_changed ex_mem2 = (Inr (), sync_state ex_changed, st')"
  by (simp add: sync_defs ex_changed_def ex_mem2_def ex_defs run_defs)

lemma ex_sync_cycled:
  "\<exists>st'. sync ex_mul ex_store ex_cycled ex_mem = (Inr (), sync_state ex_cycled, st')"
  by (simp add: sync_defs ex_cycled_def ex_defs run_defs)

theorem sync_persists_changes_witness:
  "\<exists>ses' st'. sync ex_mul ex_store ex_changed ex_mem2 = (Inr (), ses', st')
    \<and> mem_content st' (ex_id 3) = Some (fmupd ''b'' 2 (fmupd ''a'' 5 fmempty))"
proof -
  obtain st' where s: "sync ex_mul ex_store ex_changed ex_mem2 = (Inr (), sync_state ex_changed, st')"
    using ex_sync_changed by blast
  have "ses_server_state ex_changed = Some (Changed (fmupd ''b'' 2 (fmupd ''a'' 5 fmempty)))"
    by (simp add: ex_changed_def)
  from sync_persists_changes [OF ex_changed_reachable [unfolded ex_store_def] this
      s [unfolded ex_store_def]] s
  show ?thesis by (auto simp: ex_changed_def ex_session_def session_new_def ex_incoming_def)
qed

theorem cycled_id_is_retired_witness:
  "\<exists>ses' st'. sync ex_mul ex_store ex_cycled ex_mem = (Inr (), ses', st')
    \<and> mem_live ex_mem (ex_id 3) \<and> \<not> mem_live st' (ex_id 3)"
proof -
  obtain st' where s: "sync ex_mul ex_store ex_cycled ex_mem = (Inr (), sync_state ex_cycled, st')"
    using ex_sync_cycled by blast
  have "ses_id ex_cycled = ToBeRenamed (ex_id 3) (ex_id 2)"
    and "ses_server_state ex_cycled \<noteq> Some DoesNotExist"
    by (simp_all add: ex_cycled_def ex_session_def session_new_def ex_incoming_def)
  from cycled_id_is_retired [OF ex_mem_ok ex_cycled_reachable [unfolded ex_store_def] this
      s [unfolded ex_store_def]] s
  show ?thesis by (auto simp: mem_live_def ex_mem_def is_stale_def)
qed

theorem cycling_preserves_record_witness:
  "\<exists>ses' st'. sync ex_mul ex_store ex_cycled ex_mem = (Inr (), ses', st')
    \<and> mem_content st' (ex_id 2) = Some (fmupd ''a'' 5 fmempty)"
proof -
  obtain st' where s: "sync ex_mul ex_store ex_cycled ex_mem = (Inr (), sync_state ex_cycled, st')"
    using ex_sync_cycled by blast
  have "ses_id ex_cycled = ToBeRenamed (ex_id 3) (ex_id 2)" and "ses_server_state ex_cycled = None"
    by (simp_all add: ex_cycled_def ex_session_def session_new_def ex_incoming_def)
  from cycling_preserves_record [OF ex_cycled_reachable [unfolded ex_store_def] this
      s [unfolded ex_store_def]]
  have "mem_content st' (ex_id 2) = Some (fmupd ''a'' 5 fmempty)"
    by (simp add: ex_mem_content)
  with s show ?thesis by blast
qed

theorem invalidated_session_is_inert_witness:
  "run_ops ex_store [OpInsert ''b'' 2, OpGet ''a''] (invalidate ex_session) ex_mem =
     (Inr [RetValue None, RetValue None], invalidate ex_session, ex_mem)"
proof -
  have "session_reachable ex_store (invalidate ex_session, ex_mem)"
    by (rule session_reachable.reach_step [OF ex_session_reachable(1) step_invalidate])
  moreover have "is_invalidated (invalidate ex_session)"
    by (simp add: invalidate_def is_invalidated_def)
  ultimately show ?thesis
    using invalidated_session_is_inert
      [of ex_store "invalidate ex_session" ex_mem "[OpInsert ''b'' 2, OpGet ''a'']"]
    by simp
qed

definition ex_to_json :: "nat wire_json \<Rightarrow> unit + string" where
  "ex_to_json f = (if f = (ex_id 3, Some (fmupd ''c'' 7 fmempty)) then Inr ''v'' else Inl ())"

definition ex_from_json :: "string \<Rightarrow> unit + nat wire_json" where
  "ex_from_json j =
     (if j = ''v'' then Inr (ex_id 3, Some (fmupd ''c'' 7 fmempty)) else Inl ())"


theorem cycle_id_correct_witness:
  "panicked (fst (cycle_id (\<lambda>i. ex_id 3) ex_session))
    \<and> new_id (ses_id (snd (cycle_id (\<lambda>i. ex_id 2) ex_session))) = ex_id 2"
proof -
  have "old_id (ses_id ex_session) = Some (ex_id 3)"
    by (simp add: ex_session_def session_new_def ex_incoming_def)
  then have "panicked (fst (cycle_id (\<lambda>i. ex_id 3) ex_session))"
    using cycle_id_correct [of "\<lambda>i. ex_id 3" ex_session] by simp
  then show ?thesis by (simp add: ex_cycle ex_cycled_def)
qed

theorem finalize_never_panics_witness:
  "\<not> panicked (fst (finalize ex_mul ex_to_json ex_store ex_changed ex_mem2))"
  by (rule finalize_never_panics [OF session_unsynced.unsynced_step
        [OF ex_session_reachable(2) step_insert [OF ex_insert]]])

theorem cookie_continues_session_witness:
  "incoming_extract ex_from_json (\<lambda>n. if n = ''id'' then Some ''v'' else None)
      session_cookie_config_default =
    Some \<lparr>inc_id = ex_id 3, inc_client_state = fmupd ''c'' 7 fmempty\<rparr>"
proof -
  have codec: "\<And>f j. ex_to_json f = Inr j \<Longrightarrow> ex_from_json j = Inr f"
    by (auto simp: ex_to_json_def ex_from_json_def split: if_splits)
  obtain c ses' st' where
    f: "finalize ex_mul ex_to_json ex_store ex_session ex_mem = (Inr (Some (ResponseCookie c)), ses', st')"
    and c: "ck_name c = ''id''" "ck_value c = ''v''"
    by (auto simp: finalize_def sync_defs finalize_cookie_def sync_state_def wire_fields_def
        ex_to_json_def build_session_cookie_def ex_defs run_defs)
  from cookie_continues_session [OF codec f,
      where cookies = "\<lambda>n. if n = ''id'' then Some ''v'' else None"] c
  show ?thesis
    by (simp add: ex_session_def session_new_def ex_incoming_def ex_config_def)
qed

theorem missing_record_is_rejected_witness:
  "\<exists>ses' st'. force_load ex_store ex_session (mem_new int) = (Inr (), ses', st')
    \<and> is_invalidated ses'"
proof -
  have "ses_id ex_session = Existing (ex_id 3)" "ses_server_state ex_session = None"
    "ssc_missing_server_state (cfg_state (ses_config ex_session)) = Reject"
    "\<not> mem_live (mem_new int) (ex_id 3)"
    by (simp_all add: ex_session_def session_new_def ex_incoming_def ex_config_def mem_new_def
        mem_live_def)
  from missing_record_is_rejected [OF this, of ex_iter ex_mul ex_to_json] show ?thesis
    by (auto simp: ex_store_def)
qed

theorem client_ops_refine_map_witness:
  "client_map (fold (run_client_op None) [ClientInsert ''x'' (1 :: nat), ClientRemove ''c'']
      (ClientUnchanged (fmupd ''c'' 7 fmempty))) = fmdrop ''c'' (fmupd ''x'' 1 (fmupd ''c'' 7 fmempty))"
  using client_ops_refine_map [of None "[ClientInsert ''x'' (1 :: nat), ClientRemove ''c'']"
      "ClientUnchanged (fmupd ''c'' 7 fmempty)"]
  by (simp add: flag_is_invalidated_def)

definition ex_loaded :: "(nat, nat) session" where
  "ex_loaded = ex_session\<lparr>ses_server_state := Some (Unchanged (fmupd ''a'' 5 fmempty) 49)\<rparr>"

theorem removal_is_lost_witness:
  "\<exists>ses1 st1 ses2 st2. remove_raw ex_store ''a'' ex_loaded ex_mem = (Inr (Some 5), ses1, st1)
    \<and> sync ex_mul ex_store ses1 st1 = (Inr (), ses2, st2)
    \<and> mem_content st2 (ex_id 3) = Some (fmupd ''a'' 5 fmempty)"
proof -
  obtain ses1 st1 where
    r: "remove_raw ex_store ''a'' ex_loaded ex_mem = (Inr (Some 5), ses1, st1)"
    and s1: "ses1 = ex_loaded\<lparr>ses_server_state := Some (Unchanged fmempty 49)\<rparr>" "st1 = ex_mem"
    by (simp add: remove_raw_def ex_loaded_def fmdrop_fmupd_same)
  obtain ses2 st2 where s: "sync ex_mul ex_store ses1 st1 = (Inr (), ses2, st2)"
    by (simp add: s1 ex_loaded_def sync_defs ex_defs run_defs)
  have "ses_id ex_loaded = Existing (ex_id 3)"
    "ses_server_state ex_loaded = Some (Unchanged (fmupd ''a'' 5 fmempty) 49)"
    by (simp_all add: ex_loaded_def ex_session_def session_new_def ex_incoming_def)
  from removal_is_lost [OF this r [unfolded ex_store_def] s [unfolded ex_store_def]]
  have "mem_content st2 (ex_id 3) = Some (fmupd ''a'' 5 fmempty)"
    by (simp add: ex_mem_content)
  with r s show ?thesis by blast
qed

definition ex_started :: "(nat, nat) session" where
  "ex_started = ex_fresh_session\<lparr>ses_server_state := Some (Changed (fmupd ''b'' 2 fmempty))\<rparr>"

theorem second_sync_panics_witness:
  "\<exists>ses1 st1. sync ex_mul ex_store ex_started (mem_new int) = (Inr (), ses1, st1)
    \<and> panicked (fst (sync ex_mul ex_store ses1 st1))"
proof -
  obtain ses1 st1 where s: "sync ex_mul ex_store ex_started (mem_new int) = (Inr (), ses1, st1)"
    by (simp add: ex_started_def sync_defs ex_defs run_defs mem_new_def)
  have "ses_id ex_started = NewlyGenerated (ex_id 9)"
    "ses_server_state ex_started = Some (Changed (fmupd ''b'' 2 fmempty))"
    "fmupd ''b'' 2 (fmempty :: nat state) \<noteq> fmempty"
    "\<not> is_updated (ses_client_state ex_started)"
    by (simp_all add: ex_started_def ex_fresh_session_def session_new_def)
  from second_sync_panics [OF this s] s show ?thesis by blast
qed

end
