(* ===== verification/Memory_Properties.thy ===== *)
theory Memory_Properties
  imports Session_Properties
begin

text \<open>
  The in-memory storage on its own: what the batch deletion of expired records removes, and
  what a load returns for a record that was created, as a function of the clock.
\<close>

section \<open>Deleting expired records\<close>

definition expired_at :: "timestamp \<Rightarrow> (session_id, 'v store_record) fmap \<Rightarrow> session_id \<Rightarrow> bool" where
  "expired_at now m i \<longleftrightarrow> (\<exists>r. fmlookup m i = Some r \<and> is_stale now r)"

definition cap :: "nat option \<Rightarrow> 'a list \<Rightarrow> 'a list" where
  "cap batch xs = (case batch of None \<Rightarrow> xs | Some n \<Rightarrow> take n xs)"

text \<open>The scan is the filter of the iteration, cut at the batch size.\<close>

lemma stale_ids_filter:
  assumes "\<And>n. batch = Some n \<Longrightarrow> length acc < n"
  shows "stale_ids now batch m is acc = cap batch (acc @ filter (expired_at now m) is)"
  using assms
proof (induction "is" arbitrary: acc)
  case Nil
  then show ?case by (cases batch) (auto simp: cap_def)
next
  case (Cons i "is")
  show ?case
  proof (cases "expired_at now m i")
    case False
    with Cons show ?thesis
      by (auto simp: expired_at_def is_stale_def split: option.splits)
  next
    case True
    then obtain r where r: "fmlookup m i = Some r" "sr_deadline r \<le> now"
      by (auto simp: expired_at_def is_stale_def)
    show ?thesis
    proof (cases batch)
      case None
      then show ?thesis using r True Cons.IH [of "acc @ [i]"] by simp
    next
      case (Some n)
      then have "length acc < n" using Cons.prems by simp
      then show ?thesis
        using r True Some Cons.IH [of "acc @ [i]"]
        by (auto simp: cap_def Let_def Suc_diff_Suc [symmetric])
    qed
  qed
qed

lemma fmlookup_fold_fmdrop:
  "fmlookup (fold fmdrop ks m) k = (if k \<in> set ks then None else fmlookup m k)"
  by (induction ks arbitrary: m) (auto simp: fmlookup_fmdrop)

lemma cap_set: "set (cap batch xs) \<subseteq> set xs"
  by (auto simp: cap_def split: option.splits dest: in_set_takeD)

lemma cap_whole: "(\<And>n. batch = Some n \<Longrightarrow> length (cap batch xs) < n) \<Longrightarrow> cap batch xs = xs"
  by (auto simp: cap_def split: option.splits)

text \<open>C33: One run of the expiry job removes, for an iteration that lists every record, only
  records that have expired, at most as many as the batch size allows, leaves every other record as
  it was, and has removed every expired record unless it reached the batch size.\<close>

theorem delete_expired_correct:
  fixes s :: "'v mem_store"
  assumes "mem_delete_expired iter batch s = (Inr n, s')"
    and "set (iter (ms_records s)) = fset (fmdom (ms_records s))"
    and "batch \<noteq> Some 0"
  shows "(\<forall>b. batch = Some b \<longrightarrow> n \<le> b)
    \<and> (\<forall>i. fmlookup (ms_records s') i \<noteq> fmlookup (ms_records s) i \<longrightarrow>
          expired_at (ms_clock s 0) (ms_records s) i \<and> fmlookup (ms_records s') i = None)
    \<and> ((\<forall>b. batch = Some b \<longrightarrow> n < b) \<longrightarrow>
          (\<forall>i. \<not> expired_at (ms_clock s 0) (ms_records s') i))"
proof -
  let ?m = "ms_records s"
  let ?stale = "filter (expired_at (ms_clock s 0) ?m) (iter ?m)"
  have c: "stale_ids (ms_clock s 0) batch ?m (iter ?m) [] = cap batch ?stale"
    using assms(3) by (subst stale_ids_filter) auto
  have n: "n = length (cap batch ?stale)"
    and m: "ms_records s' = fold fmdrop (cap batch ?stale) ?m"
    using assms(1) c by (auto simp: mem_delete_expired_def timestamp_now_def Let_def)
  have lookup: "fmlookup (ms_records s') i =
      (if i \<in> set (cap batch ?stale) then None else fmlookup ?m i)" for i
    by (simp add: m fmlookup_fold_fmdrop)
  have bound: "\<forall>b. batch = Some b \<longrightarrow> n \<le> b" by (simp add: n cap_def)
  have only: "i \<in> set (cap batch ?stale) \<Longrightarrow> expired_at (ms_clock s 0) ?m i" for i
    using cap_set [of batch ?stale] by auto
  have all: "\<not> expired_at (ms_clock s 0) (ms_records s') i"
    if "\<forall>b. batch = Some b \<longrightarrow> n < b" for i
  proof
    assume e: "expired_at (ms_clock s 0) (ms_records s') i"
    have "cap batch ?stale = ?stale" using that by (intro cap_whole) (simp add: n)
    with e lookup [of i] have "fmlookup ?m i \<noteq> None" "i \<notin> set ?stale" "expired_at (ms_clock s 0) ?m i"
      by (auto simp: expired_at_def split: if_splits)
    with assms(2) show False by (auto simp: fmlookup_dom_iff)
  qed
  show ?thesis using bound only all by (auto simp: lookup)
qed

theorem delete_expired_correct_witness:
  "\<not> expired_at 60 (ms_records (snd (mem_delete_expired ex_iter (Some 4)
      (ex_mem\<lparr>ms_clock := \<lambda>n. 60\<rparr>)))) (ex_id 3)"
proof -
  let ?s = "ex_mem\<lparr>ms_clock := \<lambda>n. 60\<rparr>"
  have i: "ex_iter (ms_records ?s) = [ex_id 3]"
    by (simp add: ex_iter_def ex_mem_def)
  have "stale_ids 60 (Some 4) (ms_records ?s) [ex_id 3] [] = [ex_id 3]"
    by (simp add: ex_mem_def)
  then obtain s' where d: "mem_delete_expired ex_iter (Some 4) ?s = (Inr 1, s')"
    using i by (simp add: mem_delete_expired_def Let_def timestamp_now_def)
  have "set (ex_iter (ms_records ?s)) = fset (fmdom (ms_records ?s))"
    by (simp add: ex_iter_def)
  from delete_expired_correct [OF d this] d show ?thesis by simp
qed

section \<open>The life of a record\<close>

text \<open>C36: A record that was created is loaded back with its state and its remaining time-to-live
  until its deadline, measured from the reading of the clock at its creation, and not at all from
  the deadline on; creating it again is refused exactly until then.\<close>

theorem created_record_lives_until_deadline:
  fixes s :: "'v mem_store"
  assumes "mem_create i rec s = (Inr u, s1)"
  shows "\<exists>j t. t = ms_clock s j \<and>
    (if ms_clock s1 0 < t + int (rec_ttl rec)
     then fst (mem_load i s1) = Inr (Some \<lparr>rec_state = rec_state rec,
            rec_ttl = nat (t + int (rec_ttl rec) - ms_clock s1 1)\<rparr>)
       \<and> fst (mem_create i rec' s1) = Inl (CreateDuplicateId i)
     else fst (mem_load i s1) = Inr None
       \<and> fst (mem_create i rec' s1) = Inr ())"
proof -
  obtain g s0 where g: "get_mut_if_fresh i s = (Inl g, s0)"
    and s1: "s1 = mem_put i \<lparr>sr_state = rec_state rec,
        sr_deadline = ms_clock s0 0 + int (rec_ttl rec)\<rparr> (s0\<lparr>ms_clock := \<lambda>n. ms_clock s0 (Suc n)\<rparr>)"
    using assms by (auto simp: mem_create_def timestamp_now_def Let_def split: prod.splits sum.splits)
  obtain n where "clock_after n s s0" using get_mut_if_fresh_clock [OF g] by blast
  then have "ms_clock s0 0 = ms_clock s n" by (simp add: clock_after_def)
  then show ?thesis
    by (intro exI [of _ n] exI [of _ "ms_clock s n"])
      (auto simp: s1 mem_op_defs is_stale_def)
qed

theorem created_record_lives_until_deadline_witness:
  "\<exists>s1. mem_create (ex_id 3) \<lparr>rec_state = fmupd ''a'' (5 :: nat) fmempty, rec_ttl = 9\<rparr>
        (mem_new (\<lambda>n. int n)) = (Inr (), s1)
     \<and> (\<exists>r. fst (mem_load (ex_id 3) s1) = Inr (Some r))"
proof -
  let ?r = "\<lparr>rec_state = fmupd ''a'' (5 :: nat) fmempty, rec_ttl = 9\<rparr>"
  obtain s1 where c: "mem_create (ex_id 3) ?r (mem_new (\<lambda>n. int n)) = (Inr (), s1)"
    and t: "ms_clock s1 0 = 1"
    by (auto simp: mem_op_defs mem_new_def)
  from created_record_lives_until_deadline [OF c, of ?r] t c show ?thesis
    by (auto simp: mem_new_def split: if_splits)
qed

end
