(* ===== verification/Method_Guard.thy ===== *)
theory Method_Guard
  imports Prelude "HOL-Library.List_Lexorder" "HOL-Library.Char_ord"
begin

unbundle bit_operations_syntax

text \<open>
  Method guards (\<^verbatim>\<open>pavex/src/blueprint/router/method_guard.rs\<close>) and the
  \<^verbatim>\<open>Allow\<close> header (\<^verbatim>\<open>pavex/src/router/allowed_methods.rs\<close>).

  \<^verbatim>\<open>http::Method\<close> comes from another crate: a value is represented by the name
  that its \<^verbatim>\<open>as_str\<close> returns, and its parser \<^verbatim>\<open>from_str\<close> is the
  parameter \<open>parse\<close> of the definitions that use it. The validation of header values
  by \<^verbatim>\<open>HeaderValue::from_str\<close> is the parameter \<open>header_ok\<close>. A
  \<^verbatim>\<open>BTreeSet\<close> is a finite set that is iterated over in ascending order.
\<close>

section \<open>Methods\<close>

datatype http_method = HttpMethod (as_str: string)

datatype guard_method =
    GET
  | POST
  | PATCH
  | OPTIONS
  | PUT
  | DELETE
  | TRACE
  | HEAD
  | CONNECT
  | Custom string

text \<open>The derived order: by position of the variant, then by name.\<close>

fun method_rank :: "guard_method \<Rightarrow> nat" where
  "method_rank GET = 0"
| "method_rank POST = 1"
| "method_rank PATCH = 2"
| "method_rank OPTIONS = 3"
| "method_rank PUT = 4"
| "method_rank DELETE = 5"
| "method_rank TRACE = 6"
| "method_rank HEAD = 7"
| "method_rank CONNECT = 8"
| "method_rank (Custom c) = 9"

fun method_payload :: "guard_method \<Rightarrow> string" where
  "method_payload (Custom c) = c"
| "method_payload m = []"

lemma method_eqI: "method_rank m = method_rank n \<Longrightarrow> method_payload m = method_payload n \<Longrightarrow> m = n"
  by (cases m; cases n) auto

instantiation guard_method :: linorder
begin

definition less_eq_guard_method :: "guard_method \<Rightarrow> guard_method \<Rightarrow> bool" where
  "less_eq_guard_method m n \<longleftrightarrow>
     method_rank m < method_rank n \<or>
     method_rank m = method_rank n \<and> method_payload m \<le> method_payload n"

definition less_guard_method :: "guard_method \<Rightarrow> guard_method \<Rightarrow> bool" where
  "less_guard_method m n \<longleftrightarrow> m \<le> n \<and> \<not> n \<le> (m :: guard_method)"

instance
  by standard
    (auto simp: less_eq_guard_method_def less_guard_method_def intro: method_eqI)

end

definition from_http :: "http_method \<Rightarrow> guard_method" where
  "from_http m =
     (if m = HttpMethod ''GET'' then GET
      else if m = HttpMethod ''POST'' then POST
      else if m = HttpMethod ''PATCH'' then PATCH
      else if m = HttpMethod ''OPTIONS'' then OPTIONS
      else if m = HttpMethod ''PUT'' then PUT
      else if m = HttpMethod ''DELETE'' then DELETE
      else if m = HttpMethod ''TRACE'' then TRACE
      else if m = HttpMethod ''HEAD'' then HEAD
      else if m = HttpMethod ''CONNECT'' then CONNECT
      else Custom (as_str m))"

fun to_http :: "(string \<Rightarrow> http_method option) \<Rightarrow> guard_method \<Rightarrow> (unit, http_method) result" where
  "to_http parse GET = Inr (HttpMethod ''GET'')"
| "to_http parse POST = Inr (HttpMethod ''POST'')"
| "to_http parse PATCH = Inr (HttpMethod ''PATCH'')"
| "to_http parse OPTIONS = Inr (HttpMethod ''OPTIONS'')"
| "to_http parse PUT = Inr (HttpMethod ''PUT'')"
| "to_http parse DELETE = Inr (HttpMethod ''DELETE'')"
| "to_http parse TRACE = Inr (HttpMethod ''TRACE'')"
| "to_http parse HEAD = Inr (HttpMethod ''HEAD'')"
| "to_http parse CONNECT = Inr (HttpMethod ''CONNECT'')"
| "to_http parse (Custom c) =
     (case parse c of
        None \<Rightarrow> Inl (Panicked ''called `Result::unwrap()` on an `Err` value'')
      | Some m \<Rightarrow> Inr m)"

fun raw_method_to_bitset :: "guard_method \<Rightarrow> (unit, 16 word) result" where
  "raw_method_to_bitset GET = Inr 0b100000000"
| "raw_method_to_bitset POST = Inr 0b010000000"
| "raw_method_to_bitset PATCH = Inr 0b001000000"
| "raw_method_to_bitset OPTIONS = Inr 0b000100000"
| "raw_method_to_bitset PUT = Inr 0b000010000"
| "raw_method_to_bitset DELETE = Inr 0b000001000"
| "raw_method_to_bitset TRACE = Inr 0b000000100"
| "raw_method_to_bitset HEAD = Inr 0b000000010"
| "raw_method_to_bitset CONNECT = Inr 0b000000001"
| "raw_method_to_bitset (Custom c) = Inl (Panicked ''explicit panic'')"

text \<open>Outside of the custom methods the raw function does not panic.\<close>

definition method_to_bitset :: "guard_method \<Rightarrow> 16 word option" where
  "method_to_bitset m =
     (case m of
        Custom c \<Rightarrow> None
      | _ \<Rightarrow> (case raw_method_to_bitset m of Inl e \<Rightarrow> None | Inr b \<Rightarrow> Some b))"

section \<open>Guards\<close>

record some_method_guard =
  bitset :: "16 word"
  extensions :: "guard_method fset"

datatype method_guard =
    AnyMethod
  | SomeMethods some_method_guard

definition some_or :: "some_method_guard \<Rightarrow> some_method_guard \<Rightarrow> some_method_guard" where
  "some_or this other =
     this\<lparr>bitset := bitset this OR bitset other, extensions := extensions this |\<union>| extensions other\<rparr>"

fun guard_or :: "method_guard \<Rightarrow> method_guard \<Rightarrow> method_guard" where
  "guard_or AnyMethod g = AnyMethod"
| "guard_or (SomeMethods a) AnyMethod = AnyMethod"
| "guard_or (SomeMethods this) (SomeMethods other) = SomeMethods (some_or this other)"

fun collect_methods :: "http_method list \<Rightarrow> some_method_guard \<Rightarrow> some_method_guard" where
  "collect_methods [] g = g"
| "collect_methods (m # ms) g =
     (let m = from_http m
      in collect_methods ms
           (case method_to_bitset m of
              Some b \<Rightarrow> g\<lparr>bitset := bitset g OR b\<rparr>
            | None \<Rightarrow> g\<lparr>extensions := finsert m (extensions g)\<rparr>))"

definition guard_from_iter :: "http_method list \<Rightarrow> method_guard" where
  "guard_from_iter ms = SomeMethods (collect_methods ms \<lparr>bitset = 0, extensions = {||}\<rparr>)"

definition guard_from_method :: "http_method \<Rightarrow> method_guard" where
  "guard_from_method m =
     (let m = from_http m
      in case method_to_bitset m of
           Some b \<Rightarrow> SomeMethods \<lparr>bitset = b, extensions = {||}\<rparr>
         | None \<Rightarrow> SomeMethods \<lparr>bitset = 0, extensions = {|m|}\<rparr>)"

fun allows_inner :: "method_guard \<Rightarrow> guard_method \<Rightarrow> bool" where
  "allows_inner AnyMethod m = True"
| "allows_inner (SomeMethods g) m =
     (case method_to_bitset m of
        Some b \<Rightarrow> bitset g AND b \<noteq> 0
      | None \<Rightarrow> m |\<in>| extensions g)"

definition allows :: "method_guard \<Rightarrow> http_method \<Rightarrow> bool" where
  "allows g m = allows_inner g (from_http m)"

definition guard_from_bits :: "16 word \<Rightarrow> method_guard" where
  "guard_from_bits bits = SomeMethods \<lparr>bitset = bits, extensions = {||}\<rparr>"

definition guard_any :: method_guard where
  "guard_any = guard_from_bits 0b111111111"

definition guard_any_with_extensions :: method_guard where
  "guard_any_with_extensions = AnyMethod"

text \<open>The constants \<^verbatim>\<open>GET\<close>, \<^verbatim>\<open>POST\<close>, \dots of the public interface.\<close>

definition guard_const :: "guard_method \<Rightarrow> method_guard" where
  "guard_const m =
     guard_from_bits (case raw_method_to_bitset m of Inl e \<Rightarrow> 0 | Inr b \<Rightarrow> b)"

section \<open>Allowed methods and the header\<close>

datatype method_allow_list = MethodAllowList (allowed_list: "http_method list")

datatype allowed_methods_value =
    AllowedSome method_allow_list
  | AllowedAll

fun map_results :: "('a \<Rightarrow> ('e, 'b) result) \<Rightarrow> 'a list \<Rightarrow> ('e, 'b list) result" where
  "map_results f [] = Inr []"
| "map_results f (x # xs) =
     (case f x of
        Inl e \<Rightarrow> Inl e
      | Inr y \<Rightarrow> (case map_results f xs of Inl e \<Rightarrow> Inl e | Inr ys \<Rightarrow> Inr (y # ys)))"

definition standard_methods :: "guard_method list" where
  "standard_methods = [GET, POST, PATCH, OPTIONS, PUT, DELETE, TRACE, HEAD, CONNECT]"

definition allowed_methods :: "(string \<Rightarrow> http_method option) \<Rightarrow> method_guard
    \<Rightarrow> (unit, allowed_methods_value) result" where
  "allowed_methods parse g =
     (case g of
        AnyMethod \<Rightarrow> Inr AllowedAll
      | SomeMethods s \<Rightarrow>
          (case map_results (to_http parse)
                  (sorted_list_of_fset (extensions s) @ filter (allows_inner g) standard_methods) of
             Inl e \<Rightarrow> Inl e
           | Inr ms \<Rightarrow> Inr (AllowedSome (MethodAllowList ms))))"

text \<open>The names, separated by commas.\<close>

fun join :: "string list \<Rightarrow> string \<Rightarrow> string" where
  "join [] sep = []"
| "join (first # rest) sep = fold (\<lambda>element result. (result @ sep) @ element) rest first"

definition list_allow_header_value :: "(string \<Rightarrow> bool) \<Rightarrow> method_allow_list
    \<Rightarrow> (unit, string option) result" where
  "list_allow_header_value header_ok l =
     (if allowed_list l = [] then Inr None
      else
        (let header = join (map as_str (allowed_list l)) '',''
         in if header_ok header then Inr (Some header)
            else Inl (Panicked ''Failed to assemble `Allow` header value'')))"

fun allow_header_value :: "(string \<Rightarrow> bool) \<Rightarrow> allowed_methods_value
    \<Rightarrow> (unit, string option) result" where
  "allow_header_value header_ok (AllowedSome l) = list_allow_header_value header_ok l"
| "allow_header_value header_ok AllowedAll = Inr None"

end
