(* ===== verification/Method_Guard_Properties.thy ===== *)
theory Method_Guard_Properties
  imports Method_Guard
begin

text \<open>
  What the operations on method guards mean: a guard is the set of the methods it was built
  for, the list of allowed methods is that set, and the \<^verbatim>\<open>Allow\<close> header
  can be read back.
\<close>

section \<open>Bits\<close>

definition is_custom :: "guard_method \<Rightarrow> bool" where
  "is_custom m \<longleftrightarrow> (\<exists>c. m = Custom c)"

lemma standard_methods_iff: "m \<in> set standard_methods \<longleftrightarrow> \<not> is_custom m"
  by (cases m) (auto simp: standard_methods_def is_custom_def)

lemma method_to_bitset_None: "method_to_bitset m = None \<longleftrightarrow> is_custom m"
  by (cases m) (auto simp: method_to_bitset_def is_custom_def)

lemma method_to_bitset_inj:
  "method_to_bitset m = Some a \<Longrightarrow> method_to_bitset n = Some b \<Longrightarrow> a AND b \<noteq> 0 \<longleftrightarrow> m = n"
  by (cases m; cases n) (auto simp: method_to_bitset_def)

lemma method_to_bitset_any:
  "method_to_bitset m = Some b \<Longrightarrow> 0b111111111 AND b \<noteq> 0"
  by (cases m) (auto simp: method_to_bitset_def)

lemma and_or_nonzero: "(a OR b) AND c \<noteq> 0 \<longleftrightarrow> a AND c \<noteq> 0 \<or> b AND (c :: 16 word) \<noteq> 0"
proof -
  have "(a OR b) AND c = (a AND c) OR (b AND c)" by (rule bit.conj_disj_distrib2)
  then show ?thesis by (simp add: or_eq_0_iff)
qed

lemma from_http_Custom: "from_http m = Custom c \<Longrightarrow> m = HttpMethod c"
  by (cases m) (auto simp: from_http_def split: if_splits)

lemma from_http_inj: "from_http m = from_http n \<longleftrightarrow> m = n"
  by (cases m; cases n) (auto simp: from_http_def split: if_splits)

lemma to_from_http: "\<not> is_custom (from_http m) \<Longrightarrow> to_http parse (from_http m) = Inr m"
  by (auto simp: from_http_def is_custom_def split: if_splits)

lemma from_to_http: "\<not> is_custom m \<Longrightarrow> \<exists>h. to_http parse m = Inr h \<and> from_http h = m"
  by (cases m) (auto simp: from_http_def is_custom_def)

section \<open>Guards as sets\<close>

text \<open>The ways to build a guard, and the set of methods each stands for.\<close>

datatype guard_expr =
    GuardOf http_method
  | GuardOfAll "http_method list"
  | GuardConst guard_method
  | GuardAny
  | GuardAnyWithExtensions
  | GuardOr guard_expr guard_expr

fun build_guard :: "guard_expr \<Rightarrow> method_guard" where
  "build_guard (GuardOf m) = guard_from_method m"
| "build_guard (GuardOfAll ms) = guard_from_iter ms"
| "build_guard (GuardConst m) = guard_const m"
| "build_guard GuardAny = guard_any"
| "build_guard GuardAnyWithExtensions = guard_any_with_extensions"
| "build_guard (GuardOr a b) = guard_or (build_guard a) (build_guard b)"

fun guard_meaning :: "guard_expr \<Rightarrow> http_method \<Rightarrow> bool" where
  "guard_meaning (GuardOf m) h = (h = m)"
| "guard_meaning (GuardOfAll ms) h = (h \<in> set ms)"
| "guard_meaning (GuardConst m) h = (\<not> is_custom m \<and> from_http h = m)"
| "guard_meaning GuardAny h = (\<not> is_custom (from_http h))"
| "guard_meaning GuardAnyWithExtensions h = True"
| "guard_meaning (GuardOr a b) h = (guard_meaning a h \<or> guard_meaning b h)"

lemma allows_inner_or:
  "allows_inner (guard_or a b) m \<longleftrightarrow> allows_inner a m \<or> allows_inner b m"
  by (cases a; cases b; cases "method_to_bitset m") (auto simp: some_or_def and_or_nonzero)

lemma collect_methods_allows:
  "allows_inner (SomeMethods (collect_methods ms g)) m \<longleftrightarrow>
     m \<in> from_http ` set ms \<or> allows_inner (SomeMethods g) m"
proof (induction ms arbitrary: g)
  case Nil
  then show ?case by simp
next
  case (Cons h ms)
  show ?case
  proof (cases "method_to_bitset (from_http h)")
    case None
    then have "is_custom (from_http h)" by (simp add: method_to_bitset_None)
    then show ?thesis
      using None Cons.IH [of "g\<lparr>extensions := finsert (from_http h) (extensions g)\<rparr>"]
      by (auto simp: Let_def split: option.splits)
  next
    case (Some b)
    have "allows_inner (SomeMethods (g\<lparr>bitset := bitset g OR b\<rparr>)) m \<longleftrightarrow>
        m = from_http h \<or> allows_inner (SomeMethods g) m"
      using Some method_to_bitset_inj [OF Some, of m]
      by (auto simp: and_or_nonzero split: option.splits)
    then show ?thesis
      using Some Cons.IH [of "g\<lparr>bitset := bitset g OR b\<rparr>"]
      by (auto simp: Let_def)
  qed
qed

lemma allows_any: "allows AnyMethod m"
  by (simp add: allows_def)

lemma empty_guard_allows [simp]: "\<not> allows_inner (SomeMethods \<lparr>bitset = 0, extensions = {||}\<rparr>) m"
  by (auto split: option.splits)

lemma guard_from_method_iter: "guard_from_method m = guard_from_iter [m]"
  by (auto simp: guard_from_method_def guard_from_iter_def Let_def split: option.splits)

lemma guard_from_iter_allows: "allows_inner (guard_from_iter ms) m \<longleftrightarrow> m \<in> from_http ` set ms"
  using collect_methods_allows [of ms "\<lparr>bitset = 0, extensions = {||}\<rparr>" m]
  by (simp add: guard_from_iter_def del: allows_inner.simps)

lemma guard_const_allows: "allows_inner (guard_const m) n \<longleftrightarrow> \<not> is_custom m \<and> n = m"
  by (cases m; cases n)
    (auto simp: guard_const_def guard_from_bits_def is_custom_def method_to_bitset_def)

lemma guard_any_allows: "allows_inner guard_any m \<longleftrightarrow> \<not> is_custom m"
  using method_to_bitset_any [of m] method_to_bitset_None [of m]
  by (cases "method_to_bitset m") (auto simp: guard_any_def guard_from_bits_def)

text \<open>Theorem: A method guard allows exactly the methods it was built for: the listed methods for the
  conversions, the standard method of a constant, the nine standard methods for
  \<^verbatim>\<open>ANY\<close>, every method for \<^verbatim>\<open>ANY_WITH_EXTENSIONS\<close>, and the
  union for \<^verbatim>\<open>or\<close>.\<close>

theorem guard_allows_exactly:
  "allows (build_guard e) m = guard_meaning e m"
proof (induction e)
  case (GuardOf h)
  then show ?case
    by (simp add: allows_def guard_from_method_iter guard_from_iter_allows from_http_inj)
next
  case (GuardOfAll ms)
  then show ?case
    by (auto simp: allows_def guard_from_iter_allows from_http_inj)
next
  case (GuardOr a b)
  then show ?case by (simp add: allows_def allows_inner_or)
qed (auto simp: allows_def guard_const_allows guard_any_allows guard_any_with_extensions_def)

section \<open>The list of allowed methods\<close>

text \<open>The custom methods of a guard were methods given to it.\<close>

fun guard_names :: "guard_expr \<Rightarrow> http_method set" where
  "guard_names (GuardOf m) = {m}"
| "guard_names (GuardOfAll ms) = set ms"
| "guard_names (GuardOr a b) = guard_names a \<union> guard_names b"
| "guard_names e = {}"

lemma collect_methods_extensions:
  "m |\<in>| extensions (collect_methods ms g) \<longleftrightarrow>
     m |\<in>| extensions g \<or> is_custom m \<and> m \<in> from_http ` set ms"
proof (induction ms arbitrary: g)
  case (Cons h ms)
  show ?case
    using method_to_bitset_None [of "from_http h"]
    by (cases "method_to_bitset (from_http h)") (auto simp: Let_def Cons.IH)
qed simp

lemma guard_extensions:
  "build_guard e = SomeMethods g \<Longrightarrow> m |\<in>| extensions g \<Longrightarrow>
     is_custom m \<and> m \<in> from_http ` guard_names e"
proof (induction e arbitrary: g)
  case (GuardOr a b)
  then show ?case
    by (cases "build_guard a"; cases "build_guard b") (auto simp: some_or_def image_Un)
qed (auto simp: guard_from_method_iter guard_from_iter_def collect_methods_extensions guard_const_def
    guard_any_def guard_any_with_extensions_def guard_from_bits_def simp del: collect_methods.simps)

lemma map_results_Inr:
  assumes "\<And>x. x \<in> set xs \<Longrightarrow> f x = Inr (g x)"
  shows "map_results f xs = Inr (map g xs)"
  using assms by (induction xs) auto

text \<open>The method that a name converts to.\<close>

definition to_http_value :: "(string \<Rightarrow> http_method option) \<Rightarrow> guard_method \<Rightarrow> http_method" where
  "to_http_value parse m = (case to_http parse m of Inl e \<Rightarrow> undefined | Inr h \<Rightarrow> h)"

lemma to_http_std: "\<not> is_custom m \<Longrightarrow> to_http parse m = Inr (to_http_value parse m) \<and> from_http (to_http_value parse m) = m"
  using from_to_http [of m parse] by (auto simp: to_http_value_def)

lemma to_http_custom:
  "from_http h = m \<Longrightarrow> is_custom m \<Longrightarrow> parse (as_str h) = Some h \<Longrightarrow>
     to_http parse m = Inr (to_http_value parse m) \<and> to_http_value parse m = h"
proof -
  assume h: "from_http h = m" "is_custom m" "parse (as_str h) = Some h"
  then obtain c where "m = Custom c" "h = HttpMethod c"
    using from_http_Custom by (auto simp: is_custom_def)
  with h show ?thesis by (simp add: to_http_value_def)
qed

text \<open>Theorem: When every method that was given to a guard can be parsed back from its name,
  \<^verbatim>\<open>allowed_methods\<close> does not panic and lists, without repetition, exactly the
  methods that the guard allows, or says that all of them are.\<close>

theorem allowed_methods_exact:
  assumes "\<And>m. m \<in> guard_names e \<Longrightarrow> parse (as_str m) = Some m"
  shows "\<exists>r. allowed_methods parse (build_guard e) = Inr r
    \<and> (case r of
         AllowedAll \<Rightarrow> \<forall>m. allows (build_guard e) m
       | AllowedSome l \<Rightarrow> distinct (allowed_list l)
           \<and> set (allowed_list l) = {m. allows (build_guard e) m})"
proof (cases "build_guard e")
  case AnyMethod
  then show ?thesis by (auto simp: allowed_methods_def allows_any)
next
  case (SomeMethods g)
  define ms where
    "ms = sorted_list_of_fset (extensions g) @ filter (allows_inner (SomeMethods g)) standard_methods"
  have ext: "is_custom m \<and> (\<exists>h. from_http h = m \<and> parse (as_str h) = Some h)"
    if "m |\<in>| extensions g" for m
    using guard_extensions [OF SomeMethods that] assms by auto
  have mem: "m \<in> set ms \<longleftrightarrow> allows_inner (SomeMethods g) m" for m
    using ext [of m] method_to_bitset_None [of m]
    by (cases "method_to_bitset m") (auto simp: ms_def standard_methods_iff)
  have ok: "to_http parse m = Inr (to_http_value parse m) \<and> from_http (to_http_value parse m) = m"
    if "m \<in> set ms" for m
  proof (cases "is_custom m")
    case True
    with that have "m |\<in>| extensions g" by (auto simp: ms_def standard_methods_iff)
    with ext to_http_custom [of _ m parse] True show ?thesis by metis
  qed (rule to_http_std)
  have r: "map_results (to_http parse) ms = Inr (map (to_http_value parse) ms)"
    using ok by (intro map_results_Inr) blast
  have "distinct standard_methods" by (simp add: standard_methods_def)
  moreover have "set (sorted_list_of_fset (extensions g)) \<inter> set standard_methods = {}"
    using ext by (auto simp: standard_methods_iff)
  ultimately have "distinct ms" by (auto simp: ms_def sorted_list_of_fset.rep_eq)
  then have d: "distinct (map (to_http_value parse) ms)"
    by (metis distinct_map inj_on_inverseI ok)
  have "h \<in> to_http_value parse ` set ms \<longleftrightarrow> allows (build_guard e) h" for h
  proof
    assume "h \<in> to_http_value parse ` set ms"
    then show "allows (build_guard e) h" using ok mem SomeMethods
      by (auto simp: allows_def simp del: allows_inner.simps)
  next
    assume "allows (build_guard e) h"
    then have m: "from_http h \<in> set ms" using mem SomeMethods by (simp add: allows_def)
    then have "from_http (to_http_value parse (from_http h)) = from_http h" using ok by blast
    then have "to_http_value parse (from_http h) = h" by (simp only: from_http_inj)
    with m show "h \<in> to_http_value parse ` set ms" by (metis imageI)
  qed
  then show ?thesis using r d SomeMethods by (auto simp: allowed_methods_def ms_def [symmetric])
qed

theorem allowed_methods_exact_witness:
  "\<exists>r. allowed_methods (\<lambda>c. Some (HttpMethod c))
      (build_guard (GuardOr (GuardOf (HttpMethod ''PURGE'')) (GuardConst GET))) = Inr r"
  using allowed_methods_exact [of "GuardOr (GuardOf (HttpMethod ''PURGE'')) (GuardConst GET)"
      "\<lambda>c. Some (HttpMethod c)"] by auto

section \<open>The header\<close>

fun split_on :: "char \<Rightarrow> string \<Rightarrow> string list" where
  "split_on c [] = [[]]"
| "split_on c (x # xs) =
     (if x = c then [] # split_on c xs
      else case split_on c xs of [] \<Rightarrow> [[x]] | y # ys \<Rightarrow> (x # y) # ys)"

lemma split_on_plain: "c \<notin> set s \<Longrightarrow> split_on c s = [s]"
  by (induction s) auto

lemma split_on_nonempty: "split_on c s \<noteq> []"
  by (cases s) (auto split: list.splits)

lemma split_on_snoc: "c \<notin> set s \<Longrightarrow> split_on c (t @ [c] @ s) = split_on c t @ [s]"
proof (induction t)
  case (Cons a t)
  then show ?case using split_on_nonempty [of c t] by (auto split: list.splits)
qed (simp add: split_on_plain)

lemma split_on_join:
  assumes "\<And>s. s \<in> set rest \<Longrightarrow> c \<notin> set s"
  shows "split_on c (fold (\<lambda>element result. (result @ [c]) @ element) rest first) = split_on c first @ rest"
  using assms
proof (induction rest arbitrary: first)
  case (Cons s rest)
  then show ?case using split_on_snoc [of c s first] by simp
qed simp

text \<open>Theorem: The \<^verbatim>\<open>Allow\<close> header, when there is one, splits at its commas into the
  names of the allowed methods, in order; there is none exactly when the list is empty.\<close>

theorem allow_header_roundtrip:
  assumes "allow_header_value header_ok (AllowedSome l) = Inr v"
    and "\<And>m. m \<in> set (allowed_list l) \<Longrightarrow> CHR '','' \<notin> set (as_str m)"
  shows "case v of
      None \<Rightarrow> allowed_list l = []
    | Some h \<Rightarrow> allowed_list l \<noteq> [] \<and> split_on (CHR '','') h = map as_str (allowed_list l)"
proof (cases "allowed_list l")
  case Nil
  then show ?thesis using assms(1) by (simp add: list_allow_header_value_def)
next
  case (Cons m ms)
  have "split_on (CHR '','') (fold (\<lambda>element result. (result @ '','') @ element) (map as_str ms) (as_str m))
      = map as_str (m # ms)"
    using assms(2) Cons split_on_join [of "map as_str ms" "CHR '',''" "as_str m"]
    by (auto simp: split_on_plain)
  then show ?thesis
    using assms(1) Cons by (auto simp: list_allow_header_value_def Let_def split: if_splits)
qed

theorem allow_header_roundtrip_witness:
  "split_on (CHR '','') ''GET,POST'' = [''GET'', ''POST'']"
  using allow_header_roundtrip
    [of "\<lambda>h. True" "MethodAllowList [HttpMethod ''GET'', HttpMethod ''POST'']" "Some ''GET,POST''"]
  by (simp add: list_allow_header_value_def)

end
