(* ===== verification/Path_Params.thy ===== *)
theory Path_Params
  imports Prelude
begin

text \<open>
  Extraction of path parameters
  (\<^verbatim>\<open>pavex/src/request/path/{raw_path_params,path_params,deserializer,errors}.rs\<close>).

  A serde deserializer answers a request of the type that is deserialized (one of the
  methods of the trait) by exactly one call of a visitor method, or by an error. Here a
  deserializer is a function from the method (\<open>de_method\<close>) to an error or to the visitor
  call it makes (\<open>visit\<close>), and the generated \<^verbatim>\<open>Deserialize\<close>
  implementations, which are not part of the program, are arguments (\<open>seed\<close>,
  \<open>deser\<close>). Percent-decoding and the parsing of floating-point numbers are
  parameters too; the standard library's parsing of integers, booleans and characters is
  written out. Text is a list of characters.
\<close>

section \<open>Errors\<close>

datatype error_kind =
    ParseErrorAtKey (error_key: string) (error_value: string) (expected_type: string)
  | ParseError (error_value: string) (expected_type: string)
  | UnsupportedType (type_name: string)
  | ErrorMessage string

datatype 'u extract_path_params_error =
    InvalidUtf8InPathParameter (invalid_key: string) (invalid_raw_segment: string) (utf8_source: 'u)
  | PathDeserializationError error_kind

datatype 'u decode_error = DecodeError string 'u

fun error_kind_text :: "error_kind \<Rightarrow> string" where
  "error_kind_text (ErrorMessage m) = m"
| "error_kind_text (UnsupportedType name) =
     ''`'' @ name @ ''` is not a supported type for the `PathParams` extractor. '' @
     ''The type `T` in `Path<T>` must be a struct (with one public field for each '' @
     ''templated path segment) or a map (e.g. `HashMap<&'' @ [CHR 0x27] @ ''a str, Cow<'' @ [CHR 0x27] @
     ''a str>>`).''"
| "error_kind_text (ParseErrorAtKey key v ty) =
     ''`'' @ key @ ''` is set to `'' @ v @ ''`, which we can'' @ [CHR 0x27] @ ''t parse as a `'' @ ty @ ''`''"
| "error_kind_text (ParseError v ty) =
     ''We can'' @ [CHR 0x27] @ ''t parse `'' @ v @ ''` as a `'' @ ty @ ''`''"

text \<open>A response, as far as the error handler sets it: the status code and the body.\<close>

record error_response =
  status_code :: nat
  body_text :: string

definition newline :: string where
  "newline = [CHR 0x0A]"

fun into_response :: "'u extract_path_params_error \<Rightarrow> error_response" where
  "into_response (InvalidUtf8InPathParameter key segment src) =
     \<lparr>status_code = 400,
      body_text = ''Invalid URL.'' @ newline @ ''`'' @ segment @ ''` cannot be used as `'' @ key @
        ''` since it is not a well-formed UTF8 string when percent-decoded''\<rparr>"
| "into_response (PathDeserializationError kind) =
     (case kind of
        ParseErrorAtKey key v ty \<Rightarrow>
          \<lparr>status_code = 400, body_text = ''Invalid URL.'' @ newline @ error_kind_text kind\<rparr>
      | ParseError v ty \<Rightarrow>
          \<lparr>status_code = 400, body_text = ''Invalid URL.'' @ newline @ error_kind_text kind\<rparr>
      | ErrorMessage m \<Rightarrow>
          \<lparr>status_code = 500, body_text = ''Something went wrong when trying to process the request''\<rparr>
      | UnsupportedType name \<Rightarrow>
          \<lparr>status_code = 500, body_text = ''Something went wrong when trying to process the request''\<rparr>)"

section \<open>Standard library parsers\<close>

datatype int_type = I8 | I16 | I32 | I64 | I128 | U8 | U16 | U32 | U64 | U128

fun int_name :: "int_type \<Rightarrow> string" where
  "int_name I8 = ''i8''" | "int_name I16 = ''i16''" | "int_name I32 = ''i32''"
| "int_name I64 = ''i64''" | "int_name I128 = ''i128''" | "int_name U8 = ''u8''"
| "int_name U16 = ''u16''" | "int_name U32 = ''u32''" | "int_name U64 = ''u64''"
| "int_name U128 = ''u128''"

fun int_bits :: "int_type \<Rightarrow> nat" where
  "int_bits I8 = 8" | "int_bits I16 = 16" | "int_bits I32 = 32" | "int_bits I64 = 64"
| "int_bits I128 = 128" | "int_bits U8 = 8" | "int_bits U16 = 16" | "int_bits U32 = 32"
| "int_bits U64 = 64" | "int_bits U128 = 128"

fun int_signed :: "int_type \<Rightarrow> bool" where
  "int_signed I8 = True" | "int_signed I16 = True" | "int_signed I32 = True"
| "int_signed I64 = True" | "int_signed I128 = True" | "int_signed U8 = False"
| "int_signed U16 = False" | "int_signed U32 = False" | "int_signed U64 = False"
| "int_signed U128 = False"

definition int_in_range :: "int_type \<Rightarrow> int \<Rightarrow> bool" where
  "int_in_range t n \<longleftrightarrow>
     (if int_signed t then - (2 ^ (int_bits t - 1)) \<le> n \<and> n < 2 ^ (int_bits t - 1)
      else 0 \<le> n \<and> n < 2 ^ int_bits t)"

definition digit_value :: "char \<Rightarrow> int option" where
  "digit_value c =
     (let n = int (of_char c) in if 48 \<le> n \<and> n \<le> 57 then Some (n - 48) else None)"

fun parse_digits :: "int \<Rightarrow> string \<Rightarrow> int option" where
  "parse_digits acc [] = Some acc"
| "parse_digits acc (c # cs) =
     (case digit_value c of None \<Rightarrow> None | Some d \<Rightarrow> parse_digits (acc * 10 + d) cs)"

definition parse_unsigned :: "string \<Rightarrow> int option" where
  "parse_unsigned s = (if s = [] then None else parse_digits 0 s)"

definition parse_int :: "int_type \<Rightarrow> string \<Rightarrow> int option" where
  "parse_int t s =
     (case (case s of
              [] \<Rightarrow> None
            | c # cs \<Rightarrow>
                if c = CHR ''+'' then parse_unsigned cs
                else if c = CHR ''-'' \<and> int_signed t then map_option uminus (parse_unsigned cs)
                else parse_unsigned s) of
        None \<Rightarrow> None
      | Some n \<Rightarrow> if int_in_range t n then Some n else None)"

definition parse_bool :: "string \<Rightarrow> bool option" where
  "parse_bool s = (if s = ''true'' then Some True else if s = ''false'' then Some False else None)"

definition parse_char :: "string \<Rightarrow> char option" where
  "parse_char s = (case s of [c] \<Rightarrow> Some c | _ \<Rightarrow> None)"

section \<open>Deserializers\<close>

text \<open>Borrowed or owned text.\<close>

datatype cow = Borrowed (cow_str: string) | Owned (cow_str: string)

text \<open>The methods of \<^verbatim>\<open>serde::Deserializer\<close>.\<close>

datatype de_method =
    DeAny | DeBool | DeInt int_type | DeF32 | DeF64 | DeChar | DeStr | DeString | DeBytes
  | DeByteBuf | DeOption | DeUnit | DeUnitStruct string | DeNewtypeStruct string | DeSeq
  | DeTuple nat | DeTupleStruct string nat | DeMap | DeStruct string "string list"
  | DeEnum string "string list" | DeIdentifier | DeIgnoredAny

text \<open>
  The value deserializer of \<^verbatim>\<open>deserializer.rs\<close>: the key is there for error
  messages.
\<close>

record value_deserializer =
  vd_key :: "string option"
  vd_value :: cow

datatype 'f visit =
    VisitBool bool
  | VisitInt int_type int
  | VisitF32 'f
  | VisitF64 'f
  | VisitChar char
  | VisitString string
  | VisitStr string
  | VisitBorrowedStr string
  | VisitBytes string
  | VisitBorrowedBytes string
  | VisitSome value_deserializer
  | VisitUnit
  | VisitNewtypeStruct value_deserializer
  | VisitEnum cow

definition parse_value :: "(string \<Rightarrow> 't option) \<Rightarrow> string \<Rightarrow> ('t \<Rightarrow> 'f visit) \<Rightarrow> value_deserializer
    \<Rightarrow> error_kind + 'f visit" where
  "parse_value parse ty visit_fn d =
     (case parse (cow_str (vd_value d)) of
        Some v \<Rightarrow> Inr (visit_fn v)
      | None \<Rightarrow>
          Inl (case vd_key d of
                 Some key \<Rightarrow> ParseErrorAtKey key (cow_str (vd_value d)) ty
               | None \<Rightarrow> ParseError (cow_str (vd_value d)) ty))"

definition deserialize_str :: "value_deserializer \<Rightarrow> 'f visit" where
  "deserialize_str d =
     (case vd_value d of Borrowed s \<Rightarrow> VisitBorrowedStr s | Owned s \<Rightarrow> VisitStr s)"

text \<open>\<open>tyn\<close> is the name of the type that is being deserialized.\<close>

fun value_deserialize :: "(string \<Rightarrow> 'f option) \<Rightarrow> (string \<Rightarrow> 'f option) \<Rightarrow> string \<Rightarrow> de_method
    \<Rightarrow> value_deserializer \<Rightarrow> error_kind + 'f visit" where
  "value_deserialize f32 f64 tyn DeMap d = Inl (UnsupportedType tyn)"
| "value_deserialize f32 f64 tyn DeIdentifier d = Inl (UnsupportedType tyn)"
| "value_deserialize f32 f64 tyn DeBool d = parse_value parse_bool ''bool'' VisitBool d"
| "value_deserialize f32 f64 tyn (DeInt t) d = parse_value (parse_int t) (int_name t) (VisitInt t) d"
| "value_deserialize f32 f64 tyn DeF32 d = parse_value f32 ''f32'' VisitF32 d"
| "value_deserialize f32 f64 tyn DeF64 d = parse_value f64 ''f64'' VisitF64 d"
| "value_deserialize f32 f64 tyn DeString d = parse_value Some ''String'' VisitString d"
| "value_deserialize f32 f64 tyn DeByteBuf d = parse_value Some ''String'' VisitString d"
| "value_deserialize f32 f64 tyn DeChar d = parse_value parse_char ''char'' VisitChar d"
| "value_deserialize f32 f64 tyn DeAny d = Inr (deserialize_str d)"
| "value_deserialize f32 f64 tyn DeStr d = Inr (deserialize_str d)"
| "value_deserialize f32 f64 tyn DeBytes d =
     Inr (case vd_value d of Borrowed s \<Rightarrow> VisitBorrowedBytes s | Owned s \<Rightarrow> VisitBytes s)"
| "value_deserialize f32 f64 tyn DeOption d = Inr (VisitSome d)"
| "value_deserialize f32 f64 tyn DeUnit d = Inr VisitUnit"
| "value_deserialize f32 f64 tyn (DeUnitStruct n) d = Inr VisitUnit"
| "value_deserialize f32 f64 tyn (DeNewtypeStruct n) d = Inr (VisitNewtypeStruct d)"
| "value_deserialize f32 f64 tyn (DeTuple k) d = Inl (UnsupportedType tyn)"
| "value_deserialize f32 f64 tyn DeSeq d = Inl (UnsupportedType tyn)"
| "value_deserialize f32 f64 tyn (DeTupleStruct n k) d = Inl (UnsupportedType tyn)"
| "value_deserialize f32 f64 tyn (DeStruct n fs) d = Inl (UnsupportedType tyn)"
| "value_deserialize f32 f64 tyn (DeEnum n vs) d = Inr (VisitEnum (vd_value d))"
| "value_deserialize f32 f64 tyn DeIgnoredAny d = Inr VisitUnit"

text \<open>Keys, and the names of enum variants.\<close>

fun key_deserialize :: "cow \<Rightarrow> de_method \<Rightarrow> error_kind + 'f visit" where
  "key_deserialize key DeIdentifier = Inr (VisitStr (cow_str key))"
| "key_deserialize key DeStr = Inr (VisitStr (cow_str key))"
| "key_deserialize key DeString = Inr (VisitStr (cow_str key))"
| "key_deserialize key m = Inl (ErrorMessage ''Unexpected key type'')"

text \<open>An enum is accessed by the seed of its variant name, then as a unit variant only.\<close>

definition variant_seed :: "((de_method \<Rightarrow> error_kind + 'f visit) \<Rightarrow> error_kind + 'v) \<Rightarrow> cow
    \<Rightarrow> error_kind + 'v" where
  "variant_seed seed v = seed (key_deserialize v)"

datatype variant_method = UnitVariant | NewtypeVariant | TupleVariant nat | StructVariant "string list"

fun variant_access :: "variant_method \<Rightarrow> error_kind + unit" where
  "variant_access UnitVariant = Inr ()"
| "variant_access NewtypeVariant = Inl (UnsupportedType ''newtype enum variant'')"
| "variant_access (TupleVariant k) = Inl (UnsupportedType ''tuple enum variant'')"
| "variant_access (StructVariant fs) = Inl (UnsupportedType ''struct enum variant'')"

section \<open>Map access\<close>

record map_deserializer =
  md_params :: "(string \<times> cow) list"
  md_key :: "string option"
  md_value :: "cow option"

definition next_key_seed :: "((de_method \<Rightarrow> error_kind + 'f visit) \<Rightarrow> error_kind + 'k)
    \<Rightarrow> map_deserializer \<Rightarrow> (error_kind + 'k option) \<times> map_deserializer" where
  "next_key_seed seed md =
     (case md_params md of
        (key, v) # tail \<Rightarrow>
          (let md = md\<lparr>md_value := Some v, md_params := tail, md_key := Some key\<rparr>
           in (case seed (key_deserialize (Borrowed key)) of
                 Inl e \<Rightarrow> (Inl e, md)
               | Inr k \<Rightarrow> (Inr (Some k), md)))
      | [] \<Rightarrow> (Inr None, md))"

definition next_value_seed :: "(value_deserializer \<Rightarrow> error_kind + 'v) \<Rightarrow> map_deserializer
    \<Rightarrow> (error_kind + 'v) \<times> map_deserializer" where
  "next_value_seed seed md =
     (case md_value md of
        Some v \<Rightarrow>
          (seed \<lparr>vd_key = md_key md, vd_value = v\<rparr>, md\<lparr>md_value := None, md_key := None\<rparr>)
      | None \<Rightarrow> (Inl (ErrorMessage ''value is missing''), md))"

text \<open>The only method that the top-level deserializer supports is the one of structs.\<close>

fun path_deserialize :: "(string \<times> cow) list \<Rightarrow> string \<Rightarrow> de_method \<Rightarrow> error_kind + map_deserializer" where
  "path_deserialize params tyn (DeStruct n fs) =
     Inr \<lparr>md_params = params, md_key = None, md_value = None\<rparr>"
| "path_deserialize params tyn m = Inl (UnsupportedType tyn)"

section \<open>Extraction\<close>

definition decode_param :: "(string \<Rightarrow> 'u + cow) \<Rightarrow> string \<Rightarrow> 'u decode_error + cow" where
  "decode_param percent_decode s =
     (case percent_decode s of Inl e \<Rightarrow> Inl (DecodeError s e) | Inr v \<Rightarrow> Inr v)"

fun decode_params :: "(string \<Rightarrow> 'u + cow) \<Rightarrow> (string \<times> string) list
    \<Rightarrow> 'u extract_path_params_error + (string \<times> cow) list" where
  "decode_params percent_decode [] = Inr []"
| "decode_params percent_decode ((i, v) # params) =
     (case decode_param percent_decode v of
        Inl (DecodeError segment src) \<Rightarrow> Inl (InvalidUtf8InPathParameter i segment src)
      | Inr decoded \<Rightarrow>
          (case decode_params percent_decode params of
             Inl e \<Rightarrow> Inl e
           | Inr rest \<Rightarrow> Inr ((i, decoded) # rest)))"

definition extract_path_params :: "(string \<Rightarrow> 'u + cow)
    \<Rightarrow> ((string \<Rightarrow> de_method \<Rightarrow> error_kind + map_deserializer) \<Rightarrow> error_kind + 't)
    \<Rightarrow> (string \<times> string) list \<Rightarrow> 'u extract_path_params_error + 't" where
  "extract_path_params percent_decode deser params =
     (case decode_params percent_decode params of
        Inl e \<Rightarrow> Inl e
      | Inr decoded \<Rightarrow>
          (case deser (path_deserialize decoded) of
             Inl e \<Rightarrow> Inl (PathDeserializationError e)
           | Inr t \<Rightarrow> Inr t))"

end
