(* ===== verification/Path_Params_Properties.thy ===== *)
theory Path_Params_Properties
  imports Path_Params
begin

text \<open>
  Extraction of path parameters into structs. The \<^verbatim>\<open>Deserialize\<close>
  implementations that serde generates for a struct and its field types are written down as
  \<open>deser_struct\<close> and \<open>deser_field\<close>: they are clients of the model, against which its
  round trip and its errors are stated.
\<close>

section \<open>Printing and parsing integers\<close>

definition show_int :: "int \<Rightarrow> string" where
  "show_int n = (if n < 0 then CHR ''-'' # show_nat (nat (- n)) else show_nat (nat n))"

lemma digit_value_char [simp]: "n < 10 \<Longrightarrow> digit_value (digit_char n) = Some (int n)"
  by (auto simp: digit_value_def digit_char_def Let_def)

lemma parse_digits_append:
  "parse_digits acc (xs @ ys) =
     (case parse_digits acc xs of None \<Rightarrow> None | Some a \<Rightarrow> parse_digits a ys)"
  by (induction xs arbitrary: acc) (auto split: option.splits)

lemma parse_show_nat: "parse_digits 0 (show_nat n) = Some (int n)"
proof (induction n rule: show_nat.induct)
  case (1 n)
  show ?case
  proof (cases "n < 10")
    case True
    then show ?thesis by (simp add: show_nat.simps [of n])
  next
    case False
    then have "parse_digits 0 (show_nat n) = Some (int (n div 10) * 10 + int (n mod 10))"
      using 1 by (simp add: show_nat.simps [of n] parse_digits_append)
    moreover have "int (n div 10) * 10 + int (n mod 10) = int n"
      by presburger
    ultimately show ?thesis by simp
  qed
qed

lemma show_nat_head: "\<exists>d cs. show_nat n = digit_char d # cs \<and> d < 10"
proof (induction n rule: show_nat.induct)
  case (1 n)
  show ?case
  proof (cases "n < 10")
    case True
    then show ?thesis by (auto simp: show_nat.simps [of n])
  next
    case False
    with 1 obtain d cs where "show_nat (n div 10) = digit_char d # cs" "d < 10" by blast
    with False show ?thesis by (auto simp: show_nat.simps [of n])
  qed
qed

lemma digit_char_sign: "d < 10 \<Longrightarrow> digit_char d \<noteq> CHR ''+'' \<and> digit_char d \<noteq> CHR ''-''"
proof -
  assume d: "d < 10"
  have "digit_value (CHR ''+'') = None" "digit_value (CHR ''-'') = None"
    by (simp_all add: digit_value_def)
  with digit_value_char [OF d] show ?thesis by auto
qed

lemma parse_show_int:
  assumes "int_in_range t n"
  shows "parse_int t (show_int n) = Some n"
proof -
  obtain d cs where h: "show_nat m = digit_char d # cs" "d < 10" if "m = nat \<bar>n\<bar>" for m
    using show_nat_head [of "nat \<bar>n\<bar>"] by blast
  have p: "parse_unsigned (show_nat m) = Some (int m)" for m
    using show_nat_head [of m] parse_show_nat [of m] by (auto simp: parse_unsigned_def)
  show ?thesis
  proof (cases "n < 0")
    case True
    then have "int_signed t" using assms by (auto simp: int_in_range_def split: if_splits)
    with True assms p [of "nat (- n)"] show ?thesis by (simp add: parse_int_def show_int_def)
  next
    case False
    then obtain d cs where "show_nat (nat n) = digit_char d # cs" "d < 10"
      using show_nat_head by blast
    with False assms p [of "nat n"] digit_char_sign [of d] show ?thesis
      by (simp add: parse_int_def show_int_def)
  qed
qed

text \<open>Theorem: Every integer of a type is read back from its decimal representation, whatever its
  width and sign, and what an integer visitor receives is always in the range of its type; on any
  other text the error names the parameter, the text and the type.\<close>

theorem integer_parameter_roundtrip:
  assumes "vd_key d = Some key"
  shows "(int_in_range t n \<longrightarrow> cow_str (vd_value d) = show_int n \<longrightarrow>
            value_deserialize f32 f64 tyn (DeInt t) d = Inr (VisitInt t n))
    \<and> (case value_deserialize f32 f64 tyn (DeInt t) d of
         Inr v \<Rightarrow> \<exists>m. v = VisitInt t m \<and> int_in_range t m
       | Inl e \<Rightarrow> e = ParseErrorAtKey key (cow_str (vd_value d)) (int_name t))"
proof -
  have range: "int_in_range t m" if "parse_int t s = Some m" for s m
    using that by (auto simp: parse_int_def split: option.splits if_splits)
  show ?thesis
    using assms range parse_show_int by (auto simp: parse_value_def split: option.splits)
qed

theorem integer_parameter_roundtrip_witness:
  "value_deserialize (\<lambda>s. None) (\<lambda>s. None) ''T'' (DeInt I8)
      \<lparr>vd_key = Some ''id'', vd_value = Borrowed ''-128''\<rparr> = Inr (VisitInt I8 (- 128))"
proof -
  have "show_int (- 128) = ''-128''"
    by code_simp
  then show ?thesis
    using integer_parameter_roundtrip
      [of "\<lparr>vd_key = Some ''id'', vd_value = Borrowed ''-128''\<rparr>" "''id''" I8 "- 128"]
    by (auto simp: int_in_range_def)
qed

section \<open>Structs\<close>

datatype field_ty =
    TBool
  | TInt int_type
  | TChar
  | TString
  | TOption field_ty
  | TNewtype string field_ty
  | TEnum string "string list"

datatype field_val =
    FBool bool
  | FInt int
  | FChar char
  | FString string
  | FNone
  | FSome field_val
  | FNewtype field_val
  | FVariant string

definition invalid_type :: error_kind where
  "invalid_type = ErrorMessage ''invalid type''"

definition unknown_variant :: error_kind where
  "unknown_variant = ErrorMessage ''unknown variant''"

abbreviation field_deserialize :: "de_method \<Rightarrow> value_deserializer \<Rightarrow> error_kind + unit visit" where
  "field_deserialize \<equiv> value_deserialize (\<lambda>s. None) (\<lambda>s. None) ''field''"

definition variant_name :: "string list \<Rightarrow> (de_method \<Rightarrow> error_kind + unit visit) \<Rightarrow> error_kind + string" where
  "variant_name variants de =
     (case de DeIdentifier of
        Inl e \<Rightarrow> Inl e
      | Inr (VisitStr s) \<Rightarrow> if s \<in> set variants then Inr s else Inl unknown_variant
      | Inr _ \<Rightarrow> Inl invalid_type)"

fun deser_field :: "field_ty \<Rightarrow> value_deserializer \<Rightarrow> error_kind + field_val" where
  "deser_field TBool d =
     (case field_deserialize DeBool d of
        Inl e \<Rightarrow> Inl e | Inr (VisitBool b) \<Rightarrow> Inr (FBool b) | Inr _ \<Rightarrow> Inl invalid_type)"
| "deser_field (TInt t) d =
     (case field_deserialize (DeInt t) d of
        Inl e \<Rightarrow> Inl e | Inr (VisitInt t' n) \<Rightarrow> Inr (FInt n) | Inr _ \<Rightarrow> Inl invalid_type)"
| "deser_field TChar d =
     (case field_deserialize DeChar d of
        Inl e \<Rightarrow> Inl e | Inr (VisitChar c) \<Rightarrow> Inr (FChar c) | Inr _ \<Rightarrow> Inl invalid_type)"
| "deser_field TString d =
     (case field_deserialize DeString d of
        Inl e \<Rightarrow> Inl e | Inr (VisitString s) \<Rightarrow> Inr (FString s) | Inr _ \<Rightarrow> Inl invalid_type)"
| "deser_field (TOption ty) d =
     (case field_deserialize DeOption d of
        Inl e \<Rightarrow> Inl e
      | Inr (VisitSome d') \<Rightarrow> (case deser_field ty d' of Inl e \<Rightarrow> Inl e | Inr v \<Rightarrow> Inr (FSome v))
      | Inr VisitUnit \<Rightarrow> Inr FNone
      | Inr _ \<Rightarrow> Inl invalid_type)"
| "deser_field (TNewtype name ty) d =
     (case field_deserialize (DeNewtypeStruct name) d of
        Inl e \<Rightarrow> Inl e
      | Inr (VisitNewtypeStruct d') \<Rightarrow>
          (case deser_field ty d' of Inl e \<Rightarrow> Inl e | Inr v \<Rightarrow> Inr (FNewtype v))
      | Inr _ \<Rightarrow> Inl invalid_type)"
| "deser_field (TEnum name variants) d =
     (case field_deserialize (DeEnum name variants) d of
        Inl e \<Rightarrow> Inl e
      | Inr (VisitEnum v) \<Rightarrow>
          (case variant_seed (variant_name variants) v of
             Inl e \<Rightarrow> Inl e
           | Inr s \<Rightarrow> (case variant_access UnitVariant of Inl e \<Rightarrow> Inl e | Inr u \<Rightarrow> Inr (FVariant s)))
      | Inr _ \<Rightarrow> Inl invalid_type)"

definition field_name :: "(de_method \<Rightarrow> error_kind + unit visit) \<Rightarrow> error_kind + string" where
  "field_name de =
     (case de DeIdentifier of
        Inl e \<Rightarrow> Inl e | Inr (VisitStr s) \<Rightarrow> Inr s | Inr _ \<Rightarrow> Inl invalid_type)"

lemma next_key_shrinks:
  "next_key_seed seed md = (Inr (Some k), md') \<Longrightarrow> length (md_params md') < length (md_params md)"
  by (auto simp: next_key_seed_def Let_def split: list.splits sum.splits)

lemma next_value_params [simp]: "md_params (snd (next_value_seed seed md)) = md_params md"
  by (auto simp: next_value_seed_def split: option.splits)

text \<open>The loop of the visitor of a struct: unknown parameters are ignored.\<close>

function visit_fields :: "(string \<times> field_ty) list \<Rightarrow> (string \<rightharpoonup> field_val) \<Rightarrow> map_deserializer
    \<Rightarrow> error_kind + (string \<rightharpoonup> field_val)" where
  "visit_fields fs acc md =
     (case next_key_seed field_name md of
        (Inl e, md1) \<Rightarrow> Inl e
      | (Inr None, md1) \<Rightarrow> Inr acc
      | (Inr (Some k), md1) \<Rightarrow>
          (case map_of fs k of
             None \<Rightarrow>
               (case fst (next_value_seed (field_deserialize DeIgnoredAny) md1) of
                  Inl e \<Rightarrow> Inl e
                | Inr u \<Rightarrow>
                    visit_fields fs acc
                      (snd (next_value_seed (field_deserialize DeIgnoredAny) md1)))
           | Some ty \<Rightarrow>
               if acc k \<noteq> None then Inl (ErrorMessage (''duplicate field '' @ k))
               else
                 (case fst (next_value_seed (deser_field ty) md1) of
                    Inl e \<Rightarrow> Inl e
                  | Inr v \<Rightarrow>
                      visit_fields fs (acc(k \<mapsto> v)) (snd (next_value_seed (deser_field ty) md1)))))"
  by pat_completeness auto

termination
  by (relation "measure (\<lambda>(fs, acc, md). length (md_params md))")
    (auto dest: next_key_shrinks [OF sym])

declare visit_fields.simps [simp del]

fun collect_fields :: "(string \<times> field_ty) list \<Rightarrow> (string \<rightharpoonup> field_val) \<Rightarrow> error_kind + field_val list" where
  "collect_fields [] acc = Inr []"
| "collect_fields ((n, ty) # fs) acc =
     (case (case acc n of
              Some v \<Rightarrow> Inr v
            | None \<Rightarrow>
                (case ty of
                   TOption ty' \<Rightarrow> Inr FNone
                 | _ \<Rightarrow> Inl (ErrorMessage (''missing field '' @ n)))) of
        Inl e \<Rightarrow> Inl e
      | Inr v \<Rightarrow> (case collect_fields fs acc of Inl e \<Rightarrow> Inl e | Inr vs \<Rightarrow> Inr (v # vs)))"

definition deser_struct :: "(string \<times> field_ty) list
    \<Rightarrow> (string \<Rightarrow> de_method \<Rightarrow> error_kind + map_deserializer) \<Rightarrow> error_kind + field_val list" where
  "deser_struct fs de =
     (case de ''Struct'' (DeStruct ''Struct'' (map fst fs)) of
        Inl e \<Rightarrow> Inl e
      | Inr md \<Rightarrow>
          (case visit_fields fs Map.empty md of
             Inl e \<Rightarrow> Inl e
           | Inr acc \<Rightarrow> collect_fields fs acc))"

text \<open>The same loop over the list of parameters.\<close>

fun take_params :: "(string \<times> field_ty) list \<Rightarrow> (string \<rightharpoonup> field_val) \<Rightarrow> (string \<times> cow) list
    \<Rightarrow> error_kind + (string \<rightharpoonup> field_val)" where
  "take_params fs acc [] = Inr acc"
| "take_params fs acc ((k, c) # ps) =
     (case map_of fs k of
        None \<Rightarrow> take_params fs acc ps
      | Some ty \<Rightarrow>
          if acc k \<noteq> None then Inl (ErrorMessage (''duplicate field '' @ k))
          else
            (case deser_field ty \<lparr>vd_key = Some k, vd_value = c\<rparr> of
               Inl e \<Rightarrow> Inl e
             | Inr v \<Rightarrow> take_params fs (acc(k \<mapsto> v)) ps))"

lemma visit_fields_take:
  "visit_fields fs acc \<lparr>md_params = ps, md_key = k, md_value = v\<rparr> = take_params fs acc ps"
proof (induction ps arbitrary: acc k v)
  case Nil
  then show ?case by (simp add: visit_fields.simps next_key_seed_def)
next
  case (Cons p ps)
  obtain n c where p: "p = (n, c)" by (cases p)
  show ?case
    by (simp add: p visit_fields.simps [of fs acc "\<lparr>md_params = (n, c) # ps, md_key = k, md_value = v\<rparr>"]
        next_key_seed_def next_value_seed_def field_name_def Let_def Cons.IH fun_upd_def
        split: option.splits sum.splits)
qed

lemma deser_struct_path:
  "deser_struct fs (path_deserialize ps) =
     (case take_params fs Map.empty ps of
        Inl e \<Rightarrow> Inl e | Inr acc \<Rightarrow> collect_fields fs acc)"
  by (simp add: deser_struct_def visit_fields_take)

section \<open>Round trip of structs\<close>

fun show_field :: "field_val \<Rightarrow> string" where
  "show_field (FBool b) = (if b then ''true'' else ''false'')"
| "show_field (FInt n) = show_int n"
| "show_field (FChar c) = [c]"
| "show_field (FString s) = s"
| "show_field FNone = []"
| "show_field (FSome v) = show_field v"
| "show_field (FNewtype v) = show_field v"
| "show_field (FVariant s) = s"

fun has_type :: "field_ty \<Rightarrow> field_val \<Rightarrow> bool" where
  "has_type TBool (FBool b) = True"
| "has_type (TInt t) (FInt n) = int_in_range t n"
| "has_type TChar (FChar c) = True"
| "has_type TString (FString s) = True"
| "has_type (TOption ty) (FSome v) = has_type ty v"
| "has_type (TNewtype name ty) (FNewtype v) = has_type ty v"
| "has_type (TEnum name variants) (FVariant s) = (s \<in> set variants)"
| "has_type ty v = False"

lemma deser_show_field:
  "has_type ty v \<Longrightarrow> cow_str (vd_value d) = show_field v \<Longrightarrow> deser_field ty d = Inr v"
  by (induction ty v arbitrary: d rule: has_type.induct)
    (auto simp: parse_value_def parse_bool_def parse_char_def parse_show_int variant_seed_def
      variant_name_def split: option.splits)

lemma take_params_complete:
  assumes "distinct (map fst ps)"
    and "\<And>k c ty. (k, c) \<in> set ps \<Longrightarrow> map_of fs k = Some ty \<Longrightarrow>
      has_type ty (vals k) \<and> cow_str c = show_field (vals k)"
    and "\<And>k. k \<in> fst ` set ps \<Longrightarrow> acc k = None"
  shows "\<exists>acc'. take_params fs acc ps = Inr acc'
    \<and> (\<forall>k. acc' k = (if k \<in> fst ` set ps \<and> map_of fs k \<noteq> None then Some (vals k) else acc k))"
  using assms
proof (induction ps arbitrary: acc)
  case Nil
  then show ?case by simp
next
  case (Cons p ps)
  obtain k c where p: "p = (k, c)" by (cases p)
  show ?case
  proof (cases "map_of fs k")
    case None
    have "\<exists>acc'. take_params fs acc ps = Inr acc'
        \<and> (\<forall>j. acc' j = (if j \<in> fst ` set ps \<and> map_of fs j \<noteq> None then Some (vals j) else acc j))"
      using Cons.prems by (intro Cons.IH) auto
    with None show ?thesis by (auto simp: p)
  next
    case (Some ty)
    then have "deser_field ty \<lparr>vd_key = Some k, vd_value = c\<rparr> = Inr (vals k)"
      using Cons.prems(2) [of k c ty] by (intro deser_show_field) (auto simp: p)
    moreover have "acc k = None" using Cons.prems(3) by (auto simp: p)
    ultimately have s: "take_params fs acc (p # ps) = take_params fs (acc(k \<mapsto> vals k)) ps"
      by (simp add: p Some)
    have "k \<notin> fst ` set ps" using Cons.prems(1) by (auto simp: p)
    then have "\<exists>acc'. take_params fs (acc(k \<mapsto> vals k)) ps = Inr acc'
        \<and> (\<forall>j. acc' j = (if j \<in> fst ` set ps \<and> map_of fs j \<noteq> None then Some (vals j)
              else (acc(k \<mapsto> vals k)) j))"
      using Cons.prems by (intro Cons.IH) auto
    then show ?thesis using s Some by (auto simp: p)
  qed
qed

lemma collect_fields_complete:
  "(\<And>n ty. (n, ty) \<in> set fs \<Longrightarrow> acc n = Some (vals n)) \<Longrightarrow>
     collect_fields fs acc = Inr (map (\<lambda>(n, ty). vals n) fs)"
proof (induction fs)
  case (Cons f fs)
  obtain n ty where f: "f = (n, ty)" by (cases f)
  have "acc n = Some (vals n)" using Cons.prems by (auto simp: f)
  moreover have "collect_fields fs acc = Inr (map (\<lambda>(n, ty). vals n) fs)"
    using Cons.prems by (intro Cons.IH) auto
  ultimately show ?case by (simp add: f)
qed simp

lemma decode_params_set:
  "decode_params pd raw = Inr ps \<Longrightarrow> map fst ps = map fst raw
    \<and> (\<forall>k c. (k, c) \<in> set ps \<longrightarrow> (\<exists>s. (k, s) \<in> set raw \<and> pd s = Inr c))"
proof (induction raw arbitrary: ps)
  case (Cons r raw)
  obtain k s where r: "r = (k, s)" by (cases r)
  from Cons.prems obtain c rest where "pd s = Inr c" "decode_params pd raw = Inr rest"
    "ps = (k, c) # rest"
    by (auto simp: r decode_param_def split: sum.splits decode_error.splits)
  with Cons.IH [of rest] show ?case by (auto simp: r)
qed simp

lemma decode_params_ok:
  "(\<And>k s. (k, s) \<in> set raw \<Longrightarrow> \<exists>c. pd s = Inr c) \<Longrightarrow> \<exists>ps. decode_params pd raw = Inr ps"
proof (induction raw)
  case (Cons r raw)
  obtain k s where r: "r = (k, s)" by (cases r)
  have "\<exists>c. pd s = Inr c" using Cons.prems [of k s] by (simp add: r)
  moreover have "\<exists>ps. decode_params pd raw = Inr ps" using Cons.prems by (intro Cons.IH) auto
  ultimately show ?case by (auto simp: r decode_param_def)
qed simp

text \<open>Theorem: A struct comes back from the text of its fields: when every parameter can be decoded,
  names are distinct and each field of the struct is the name of a parameter whose decoded
  value is the text of a value of the field's type, extraction returns exactly these values, in
  the order of the fields, and ignores the other parameters.\<close>

theorem struct_roundtrip:
  assumes "distinct (map fst raw)"
    and "\<And>k s. (k, s) \<in> set raw \<Longrightarrow> \<exists>c. percent_decode s = Inr c"
    and "\<And>n ty. (n, ty) \<in> set fs \<Longrightarrow> map_of fs n = Some ty \<and> has_type ty (vals n)
      \<and> (\<exists>s c. (n, s) \<in> set raw \<and> percent_decode s = Inr c \<and> cow_str c = show_field (vals n))"
  shows "extract_path_params percent_decode (deser_struct fs) raw = Inr (map (\<lambda>(n, ty). vals n) fs)"
proof -
  obtain ps where d: "decode_params percent_decode raw = Inr ps"
    using decode_params_ok [of raw percent_decode] assms(2) by blast
  have names: "map fst ps = map fst raw"
    and params_of: "\<And>k c. (k, c) \<in> set ps \<Longrightarrow> \<exists>s. (k, s) \<in> set raw \<and> percent_decode s = Inr c"
    using decode_params_set [OF d] by auto
  have uniq: "s = s'" if "(k, s) \<in> set raw" "(k, s') \<in> set raw" for k s s'
    using assms(1) that by (meson eq_key_imp_eq_value)
  have "\<exists>acc. take_params fs Map.empty ps = Inr acc
    \<and> (\<forall>k. acc k = (if k \<in> fst ` set ps \<and> map_of fs k \<noteq> None then Some (vals k) else Map.empty k))"
  proof (rule take_params_complete)
    show "distinct (map fst ps)" using assms(1) names by simp
    show "has_type ty (vals k) \<and> cow_str c = show_field (vals k)"
      if "(k, c) \<in> set ps" "map_of fs k = Some ty" for k c ty
    proof -
      have f: "(k, ty) \<in> set fs" using that(2) by (rule map_of_SomeD)
      from params_of [OF that(1)] obtain s where s: "(k, s) \<in> set raw" "percent_decode s = Inr c"
        by blast
      obtain s' c' where "has_type ty (vals k)" "(k, s') \<in> set raw" "percent_decode s' = Inr c'"
        "cow_str c' = show_field (vals k)"
        using assms(3) [OF f] by blast
      with s uniq [of k s s'] show ?thesis by simp
    qed
  qed simp
  then obtain acc where t: "take_params fs Map.empty ps = Inr acc"
    and acc: "\<And>k. acc k = (if k \<in> fst ` set ps \<and> map_of fs k \<noteq> None then Some (vals k) else None)"
    by auto
  have "fst ` set ps = fst ` set raw" using names by (metis list.set_map)
  then have "acc n = Some (vals n)" if "(n, ty) \<in> set fs" for n ty
    using assms(3) [OF that] by (force simp: acc)
  then have "collect_fields fs acc = Inr (map (\<lambda>(n, ty). vals n) fs)"
    by (rule collect_fields_complete)
  with d t show ?thesis by (simp add: extract_path_params_def deser_struct_path)
qed

lemma ex_show: "show_int (- 5) = ''-5''"
  by code_simp

theorem struct_roundtrip_witness:
  "extract_path_params (\<lambda>s. Inr (Borrowed s) :: unit + cow)
      (deser_struct [(''id'', TInt I16), (''ok'', TOption TBool)])
      [(''ok'', ''true''), (''other'', ''x''), (''id'', ''-5'')]
    = Inr [FInt (- 5), FSome (FBool True)]"
proof -
  let ?fs = "[(''id'', TInt I16), (''ok'', TOption TBool)]"
  let ?raw = "[(''ok'', ''true''), (''other'', ''x''), (''id'', ''-5'')]"
  let ?vals = "\<lambda>n. if n = ''id'' then FInt (- 5) else FSome (FBool True)"
  have "map_of ?fs n = Some ty \<and> has_type ty (?vals n)
      \<and> (\<exists>s c. (n, s) \<in> set ?raw \<and> Inr (Borrowed s) = (Inr c :: unit + cow) \<and> cow_str c = show_field (?vals n))"
    if "(n, ty) \<in> set ?fs" for n ty
    using that by (auto simp: int_in_range_def ex_show)
  then show ?thesis
    using struct_roundtrip [of ?raw "\<lambda>s. Inr (Borrowed s) :: unit + cow" ?fs ?vals] by auto
qed

section \<open>Errors\<close>

text \<open>Theorem: The first parameter that is not valid UTF-8 after percent-decoding is the one that is
  reported, by its name and its raw text, with a 400 response, before anything is
  deserialized; without such a parameter the error is not of this kind.\<close>

theorem invalid_utf8_reported_first:
  "extract_path_params percent_decode deser raw = Inl (InvalidUtf8InPathParameter k s e) \<longleftrightarrow>
     (\<exists>pre post. raw = pre @ (k, s) # post \<and> percent_decode s = Inl e
       \<and> (\<forall>(k', s') \<in> set pre. \<exists>c. percent_decode s' = Inr c))"
proof -
  have d: "decode_params percent_decode raw = Inl (InvalidUtf8InPathParameter k s e) \<longleftrightarrow>
     (\<exists>pre post. raw = pre @ (k, s) # post \<and> percent_decode s = Inl e
       \<and> (\<forall>(k', s') \<in> set pre. \<exists>c. percent_decode s' = Inr c))" for raw
  proof (induction raw)
    case (Cons r raw)
    obtain k1 s1 where r: "r = (k1, s1)" by (cases r)
    show ?case
    proof (cases "percent_decode s1")
      case (Inl e1)
      then show ?thesis by (auto simp: r decode_param_def Cons_eq_append_conv)
    next
      case (Inr c1)
      then have "decode_params percent_decode (r # raw) = Inl (InvalidUtf8InPathParameter k s e)
          \<longleftrightarrow> decode_params percent_decode raw = Inl (InvalidUtf8InPathParameter k s e)"
        by (auto simp: r decode_param_def split: sum.splits)
      also have "\<dots> \<longleftrightarrow> (\<exists>pre post. r # raw = pre @ (k, s) # post \<and> percent_decode s = Inl e
          \<and> (\<forall>(k', s') \<in> set pre. \<exists>c. percent_decode s' = Inr c))" (is "_ = ?rhs")
      proof
        assume "decode_params percent_decode raw = Inl (InvalidUtf8InPathParameter k s e)"
        then obtain pre post where "raw = pre @ (k, s) # post" "percent_decode s = Inl e"
          "\<forall>(k', s') \<in> set pre. \<exists>c. percent_decode s' = Inr c"
          using Cons.IH by auto
        with Inr show ?rhs by (intro exI [of _ "r # pre"] exI [of _ post]) (auto simp: r)
      next
        assume ?rhs
        then show "decode_params percent_decode raw = Inl (InvalidUtf8InPathParameter k s e)"
          using Inr by (force simp: Cons.IH r Cons_eq_append_conv)
      qed
      finally show ?thesis .
    qed
  qed simp
  have "extract_path_params percent_decode deser raw = Inl (InvalidUtf8InPathParameter k s e) \<longleftrightarrow>
      decode_params percent_decode raw = Inl (InvalidUtf8InPathParameter k s e)"
    by (simp add: extract_path_params_def split: sum.splits)
  with d show ?thesis by simp
qed

theorem invalid_utf8_reported_first_witness:
  "extract_path_params (\<lambda>s. if s = ''%ff'' then Inl () else Inr (Borrowed s)) (deser_struct [])
      [(''a'', ''x''), (''b'', ''%ff'')] = Inl (InvalidUtf8InPathParameter ''b'' ''%ff'' ())"
  using invalid_utf8_reported_first [of "\<lambda>s. if s = ''%ff'' then Inl () else Inr (Borrowed s)"
      "deser_struct []" "[(''a'', ''x''), (''b'', ''%ff'')]" "''b''" "''%ff''" "()"]
  by (auto simp: Cons_eq_append_conv)

text \<open>Which texts a field accepts, for the fields without enumerations.\<close>

fun enum_free :: "field_ty \<Rightarrow> bool" where
  "enum_free (TOption ty) = enum_free ty"
| "enum_free (TNewtype name ty) = enum_free ty"
| "enum_free (TEnum name variants) = False"
| "enum_free ty = True"

lemma deser_field_error:
  "vd_key d = Some k \<Longrightarrow> deser_field ty d = Inl e \<Longrightarrow>
     (if enum_free ty then \<exists>ety. e = ParseErrorAtKey k (cow_str (vd_value d)) ety
      else e = unknown_variant)"
proof (induction ty d arbitrary: e rule: deser_field.induct)
  case (5 ty d)
  then show ?case by (auto split: sum.splits)
next
  case (6 name ty d)
  then show ?case by (auto split: sum.splits)
qed (auto simp: parse_value_def variant_seed_def variant_name_def split: option.splits sum.splits if_splits)

lemma take_params_first_error:
  assumes "take_params fs Map.empty pre = Inr acc"
  shows "take_params fs Map.empty (pre @ ps) = take_params fs acc ps"
proof -
  have "take_params fs acc0 pre = Inr acc \<Longrightarrow> take_params fs acc0 (pre @ ps) = take_params fs acc ps" for acc0
    by (induction fs acc0 pre rule: take_params.induct)
      (auto split: option.splits sum.splits if_splits)
  with assms show ?thesis by blast
qed

text \<open>Theorem: When the parameters before it were accepted, the first parameter whose text is not of
  its field's type stops the extraction: the client gets a 400 response that names the parameter
  and its value for every type without an enumeration, and a 500 response for an unknown variant of
  an enumeration.\<close>

theorem bad_parameter_response:
  assumes "decode_params percent_decode raw = Inr (pre @ (k, c) # post)"
    and "take_params fs Map.empty pre = Inr acc" and "acc k = None"
    and "map_of fs k = Some ty" and "deser_field ty \<lparr>vd_key = Some k, vd_value = c\<rparr> = Inl e"
  shows "extract_path_params percent_decode (deser_struct fs) raw = Inl (PathDeserializationError e)
    \<and> (if enum_free ty
       then (\<exists>ety. e = ParseErrorAtKey k (cow_str c) ety)
         \<and> status_code (into_response (PathDeserializationError e)) = 400
       else status_code (into_response (PathDeserializationError e)) = 500)"
proof -
  have "take_params fs Map.empty (pre @ (k, c) # post) = Inl e"
    using take_params_first_error [OF assms(2), of "(k, c) # post"] assms(3-5) by simp
  then have "extract_path_params percent_decode (deser_struct fs) raw = Inl (PathDeserializationError e)"
    by (simp add: extract_path_params_def assms(1) deser_struct_path)
  with deser_field_error [OF _ assms(5)] show ?thesis
    by (auto simp: unknown_variant_def split: if_splits)
qed

theorem bad_parameter_response_witness:
  "extract_path_params (\<lambda>s. Inr (Owned s) :: unit + cow) (deser_struct [(''id'', TInt U8)])
      [(''id'', ''256'')] = Inl (PathDeserializationError (ParseErrorAtKey ''id'' ''256'' ''u8''))"
proof -
  have "deser_field (TInt U8) \<lparr>vd_key = Some ''id'', vd_value = Owned ''256''\<rparr>
      = Inl (ParseErrorAtKey ''id'' ''256'' ''u8'')"
    by (simp add: parse_value_def parse_int_def parse_unsigned_def digit_value_def int_in_range_def)
  then show ?thesis
    using bad_parameter_response [of "\<lambda>s. Inr (Owned s) :: unit + cow" "[(''id'', ''256'')]" "[]" "''id''"
        "Owned ''256''" "[]" "[(''id'', TInt U8)]" Map.empty "TInt U8"]
    by (simp add: decode_param_def)
qed

text \<open>Theorem: A target type that asks the path deserializer for anything but a struct is refused
  as unsupported, with a 500 response, whatever its visitor would do; this includes maps, which the
  text of that very error offers as an alternative.\<close>

theorem only_structs_at_top_level:
  assumes "decode_params percent_decode raw = Inr ps" and "\<nexists>n fs. m = DeStruct n fs"
  shows "extract_path_params percent_decode (\<lambda>de. case de tyn m of Inl e \<Rightarrow> Inl e | Inr md \<Rightarrow> visitor md) raw
      = Inl (PathDeserializationError (UnsupportedType tyn))
    \<and> status_code (into_response (PathDeserializationError (UnsupportedType tyn))) = 500"
  using assms by (cases m) (auto simp: extract_path_params_def)

theorem only_structs_at_top_level_witness:
  "extract_path_params (\<lambda>s. Inr (Borrowed s) :: unit + cow)
      (\<lambda>de. case de ''HashMap'' DeMap of Inl e \<Rightarrow> Inl e | Inr md \<Rightarrow> Inr (md_params md)) [(''a'', ''x'')]
    = Inl (PathDeserializationError (UnsupportedType ''HashMap''))"
proof -
  have "decode_params (\<lambda>s. Inr (Borrowed s) :: unit + cow) [(''a'', ''x'')] = Inr [(''a'', Borrowed ''x'')]"
    by (simp add: decode_param_def)
  from only_structs_at_top_level [OF this, where m = DeMap and tyn = "''HashMap''" and visitor = "\<lambda>md. Inr (md_params md)"]
  show ?thesis by simp
qed

end
