(* ===== verification/Domain_Guard.thy ===== *)
theory Domain_Guard
  imports Prelude
begin

text \<open>
  Domain constraints (\<^verbatim>\<open>pavexc/src/compiler/analyses/domain.rs\<close>): their
  validation and the route pattern that is given to the router.

  Whether a parameter name parses as a Rust identifier is decided by another crate: it is the
  parameter \<open>is_ident\<close>. An \<^verbatim>\<open>IndexSet\<close> is the list of its elements in
  insertion order (\<open>index_insert\<close>).
\<close>

section \<open>Errors\<close>

datatype dns_label_violations =
    InvalidStart
  | InvalidEnd
  | InvalidChars "char list"
  | LabelTooLong (label_length: nat) (label_templated: bool)
  | ParameterNotAtStart (violating_parameter: string) (violating_prefix: string)
  | TooManyParameters "string list"

datatype invalid_domain_constraint =
    DomainEmpty
  | DomainTooLong (original: string) (domain_length: nat) (domain_templated: bool)
  | EmptyDnsLabel (original: string)
  | CatchAllNotAtStart (original: string) (domain_parameter: string)
  | InvalidDnsLabel (original: string) (invalid_label: string) (violations: dns_label_violations)
  | InvalidParameterName (original: string) (parameter_name: string)
  | EmptyParameterName (original: string) (unnamed_parameter: string)
  | UnclosedParameter (original: string) (dns_label: string) (partial_parameter: string)

section \<open>Characters and labels\<close>

definition is_ascii_alphanumeric :: "char \<Rightarrow> bool" where
  "is_ascii_alphanumeric c =
     (let n = of_char c :: nat
      in 48 \<le> n \<and> n \<le> 57 \<or> 65 \<le> n \<and> n \<le> 90 \<or> 97 \<le> n \<and> n \<le> 122)"

fun split_dots :: "string \<Rightarrow> string list" where
  "split_dots [] = [[]]"
| "split_dots (x # xs) =
     (if x = CHR ''.'' then [] # split_dots xs
      else (case split_dots xs of [] \<Rightarrow> [[x]] | y # ys \<Rightarrow> (x # y) # ys))"

definition has_trailing_dot :: "string \<Rightarrow> bool" where
  "has_trailing_dot input \<longleftrightarrow> input \<noteq> [] \<and> last input = CHR ''.''"

text \<open>The last label of a domain that ends with a dot is empty, and is skipped.\<close>

definition domain_labels :: "string \<Rightarrow> string list" where
  "domain_labels input =
     (if has_trailing_dot input then butlast (split_dots input) else split_dots input)"

section \<open>Scanning a label\<close>

record parsed_parameter =
  pp_start_at :: nat
  pp_end_at :: nat
  pp_is_catch_all :: bool

definition raw_parameter :: "parsed_parameter \<Rightarrow> string \<Rightarrow> string" where
  "raw_parameter p label = take (pp_end_at p - pp_start_at p + 1) (drop (pp_start_at p) label)"

record current_parameter =
  cp_name :: string
  cp_start_at :: nat
  cp_is_catch_all :: bool

record label_state =
  ls_length :: nat
  ls_parsed :: "parsed_parameter list"
  ls_parameter :: "current_parameter option"
  ls_invalid_chars :: "char list"
  ls_template :: bool

definition label_state_new :: label_state where
  "label_state_new =
     \<lparr>ls_length = 0, ls_parsed = [], ls_parameter = None, ls_invalid_chars = [], ls_template = False\<rparr>"

definition push_name :: "char \<Rightarrow> current_parameter \<Rightarrow> current_parameter" where
  "push_name c p = p\<lparr>cp_name := cp_name p @ [c]\<rparr>"

fun scan_label :: "(string \<Rightarrow> bool) \<Rightarrow> string \<Rightarrow> nat \<Rightarrow> string \<Rightarrow> label_state
    \<Rightarrow> invalid_domain_constraint + label_state" where
  "scan_label is_ident input i [] st = Inr st"
| "scan_label is_ident input i (c # cs) st =
     (if c = CHR ''}'' then
        (case ls_parameter st of
           Some p \<Rightarrow>
             (let st = st\<lparr>ls_parameter := None, ls_length := ls_length st + 1, ls_template := True\<rparr>
              in if cp_name p = [] then
                   Inl (EmptyParameterName input (if cp_is_catch_all p then ''{*}'' else ''{}''))
                 else if \<not> is_ident (cp_name p) then
                   Inl (InvalidParameterName input (cp_name p))
                 else
                   scan_label is_ident input (i + 1) cs
                     (st\<lparr>ls_parsed := ls_parsed st @
                        [\<lparr>pp_start_at = cp_start_at p, pp_end_at = i,
                          pp_is_catch_all = cp_is_catch_all p\<rparr>]\<rparr>))
         | None \<Rightarrow>
             scan_label is_ident input (i + 1) cs
               (st\<lparr>ls_length := ls_length st + 1,
                   ls_invalid_chars := index_insert c (ls_invalid_chars st)\<rparr>))
      else if c = CHR ''{'' then
        (case ls_parameter st of
           Some p \<Rightarrow> scan_label is_ident input (i + 1) cs (st\<lparr>ls_parameter := Some (push_name c p)\<rparr>)
         | None \<Rightarrow>
             (case cs of
                [] \<Rightarrow>
                  scan_label is_ident input (i + 1) cs
                    (st\<lparr>ls_parameter :=
                       Some \<lparr>cp_name = [], cp_start_at = i, cp_is_catch_all = False\<rparr>\<rparr>)
              | c' # cs' \<Rightarrow>
                  if c' = CHR ''*'' then
                    scan_label is_ident input (i + 2) cs'
                      (st\<lparr>ls_parameter :=
                         Some \<lparr>cp_name = [], cp_start_at = i, cp_is_catch_all = True\<rparr>\<rparr>)
                  else
                    scan_label is_ident input (i + 1) cs
                      (st\<lparr>ls_parameter :=
                         Some \<lparr>cp_name = [], cp_start_at = i, cp_is_catch_all = False\<rparr>\<rparr>)))
      else
        (case ls_parameter st of
           Some p \<Rightarrow> scan_label is_ident input (i + 1) cs (st\<lparr>ls_parameter := Some (push_name c p)\<rparr>)
         | None \<Rightarrow>
             scan_label is_ident input (i + 1) cs
               (st\<lparr>ls_length := ls_length st + 1,
                   ls_invalid_chars :=
                     (if is_ascii_alphanumeric c \<or> c = CHR ''-'' then ls_invalid_chars st
                      else index_insert c (ls_invalid_chars st))\<rparr>)))"

text \<open>The checks at the end of a label.\<close>

definition check_label_end :: "string \<Rightarrow> nat \<Rightarrow> string \<Rightarrow> label_state
    \<Rightarrow> invalid_domain_constraint option" where
  "check_label_end input label_index label st =
     (case ls_parameter st of
        Some p \<Rightarrow> Some (UnclosedParameter input label (drop (cp_start_at p) label))
      | None \<Rightarrow>
          if ls_invalid_chars st \<noteq> [] then
            Some (InvalidDnsLabel input label (InvalidChars (ls_invalid_chars st)))
          else if 1 < length (ls_parsed st) then
            Some (InvalidDnsLabel input label
              (TooManyParameters (map (\<lambda>p. raw_parameter p label) (ls_parsed st))))
          else
            (case ls_parsed st of
               [] \<Rightarrow> None
             | p # ps \<Rightarrow>
                 if pp_start_at p \<noteq> 0 then
                   Some (InvalidDnsLabel input label
                     (ParameterNotAtStart (raw_parameter p label) (take (pp_start_at p) label)))
                 else if pp_is_catch_all p \<and> label_index \<noteq> 0 then
                   Some (CatchAllNotAtStart input (raw_parameter p label))
                 else None))"

text \<open>The checks after the scan; the label is not empty.\<close>

definition check_label_shape :: "string \<Rightarrow> string \<Rightarrow> label_state \<Rightarrow> invalid_domain_constraint option" where
  "check_label_shape input label st =
     (if hd label \<noteq> CHR ''{'' \<and> \<not> is_ascii_alphanumeric (hd label) then
        Some (InvalidDnsLabel input label InvalidStart)
      else if last label \<noteq> CHR ''}'' \<and> \<not> is_ascii_alphanumeric (last label) then
        Some (InvalidDnsLabel input label InvalidEnd)
      else if 63 < ls_length st then
        Some (InvalidDnsLabel input label (LabelTooLong (ls_length st) (ls_template st)))
      else None)"

definition validate_label :: "(string \<Rightarrow> bool) \<Rightarrow> string \<Rightarrow> nat \<Rightarrow> string
    \<Rightarrow> invalid_domain_constraint + nat \<times> bool" where
  "validate_label is_ident input label_index label =
     (if label = [] then Inl (EmptyDnsLabel input)
      else
        (case scan_label is_ident input 0 label label_state_new of
           Inl e \<Rightarrow> Inl e
         | Inr st \<Rightarrow>
             (case check_label_end input label_index label st of
                Some e \<Rightarrow> Inl e
              | None \<Rightarrow>
                  (case check_label_shape input label st of
                     Some e \<Rightarrow> Inl e
                   | None \<Rightarrow> Inr (ls_length st, ls_template st)))))"

section \<open>Validation\<close>

fun validate_labels :: "(string \<Rightarrow> bool) \<Rightarrow> string \<Rightarrow> nat \<Rightarrow> string list \<Rightarrow> nat \<Rightarrow> bool
    \<Rightarrow> invalid_domain_constraint + nat \<times> bool" where
  "validate_labels is_ident input label_index [] total_length is_template = Inr (total_length, is_template)"
| "validate_labels is_ident input label_index (label # labels) total_length is_template =
     (case validate_label is_ident input label_index label of
        Inl e \<Rightarrow> Inl e
      | Inr (n, templated) \<Rightarrow>
          validate_labels is_ident input (label_index + 1) labels (total_length + 1 + n)
            (is_template \<or> templated))"

definition validate :: "(string \<Rightarrow> bool) \<Rightarrow> string \<Rightarrow> invalid_domain_constraint + unit" where
  "validate is_ident input =
     (if input = [] then Inl DomainEmpty
      else
        (case validate_labels is_ident input 0 (domain_labels input) 0 False of
           Inl e \<Rightarrow> Inl e
         | Inr (total_length, is_template) \<Rightarrow>
             if 253 < total_length - 1 then Inl (DomainTooLong input (total_length - 1) is_template)
             else Inr ()))"

section \<open>The guard\<close>

datatype domain_guard = DomainGuard (domain: string)

definition trim_end_dots :: "string \<Rightarrow> string" where
  "trim_end_dots s = rev (dropWhile (\<lambda>c. c = CHR ''.'') (rev s))"

definition domain_guard_new :: "(string \<Rightarrow> bool) \<Rightarrow> string \<Rightarrow> invalid_domain_constraint + domain_guard" where
  "domain_guard_new is_ident input =
     (case validate is_ident input of
        Inl e \<Rightarrow> Inl e
      | Inr u \<Rightarrow> Inr (DomainGuard (trim_end_dots input)))"

text \<open>
  The pattern, over the characters from the last to the first. \<^verbatim>\<open>take_while\<close>
  also consumes the brace that ends it.
\<close>

function pattern_loop :: "string \<Rightarrow> string \<Rightarrow> string" where
  "pattern_loop [] reversed = reversed"
| "pattern_loop (c # cs) reversed =
     (if c = CHR ''.'' then pattern_loop cs (reversed @ ''/'')
      else if c = CHR ''}'' then
        (let name = takeWhile (\<lambda>c. c \<noteq> CHR ''{'') cs
         in pattern_loop (drop 1 (dropWhile (\<lambda>c. c \<noteq> CHR ''{'') cs))
              (((reversed @ ''{'') @ rev name) @ [c]))
      else pattern_loop cs (reversed @ [c]))"
  by pat_completeness auto

termination
proof (relation "measure (\<lambda>(cs, reversed). length cs)")
  show "\<And>c cs reversed x. c \<noteq> CHR ''.'' \<Longrightarrow> c = CHR ''}'' \<Longrightarrow> x = takeWhile (\<lambda>c. c \<noteq> CHR ''{'') cs \<Longrightarrow>
      ((drop 1 (dropWhile (\<lambda>c. c \<noteq> CHR ''{'') cs), ((reversed @ ''{'') @ rev x) @ [c]), c # cs, reversed)
      \<in> measure (\<lambda>(cs, reversed). length cs)"
    using length_dropWhile_le by (fastforce simp: less_Suc_eq_le intro: le_trans [OF diff_le_self])
qed auto

definition matchit_pattern :: "domain_guard \<Rightarrow> string" where
  "matchit_pattern g = pattern_loop (rev (domain g)) []"

end
