(* ===== verification/Domain_Guard_Properties.thy ===== *)
theory Domain_Guard_Properties
  imports Domain_Guard
begin

text \<open>
  The grammar of domain constraints, and the theorems that the validation accepts exactly this
  grammar and that the router pattern of an accepted constraint is unambiguous.
\<close>

section \<open>The grammar\<close>

datatype label_syntax =
    PlainLabel string
  | TemplateLabel bool string string

fun parameter_text :: "bool \<Rightarrow> string \<Rightarrow> string" where
  "parameter_text catch_all name = ''{'' @ (if catch_all then ''*'' else []) @ name @ ''}''"

fun label_text :: "label_syntax \<Rightarrow> string" where
  "label_text (PlainLabel s) = s"
| "label_text (TemplateLabel catch_all name suffix) = parameter_text catch_all name @ suffix"

fun label_min_length :: "label_syntax \<Rightarrow> nat" where
  "label_min_length (PlainLabel s) = length s"
| "label_min_length (TemplateLabel catch_all name suffix) = 1 + length suffix"

definition label_char :: "char \<Rightarrow> bool" where
  "label_char c \<longleftrightarrow> is_ascii_alphanumeric c \<or> c = CHR ''-''"

fun label_ok :: "(string \<Rightarrow> bool) \<Rightarrow> bool \<Rightarrow> label_syntax \<Rightarrow> bool" where
  "label_ok is_ident is_first (PlainLabel s) \<longleftrightarrow>
     s \<noteq> [] \<and> list_all label_char s \<and> is_ascii_alphanumeric (hd s) \<and> is_ascii_alphanumeric (last s)
     \<and> length s \<le> 63"
| "label_ok is_ident is_first (TemplateLabel catch_all name suffix) \<longleftrightarrow>
     is_ident name \<and> (catch_all \<longrightarrow> is_first) \<and> list_all label_char suffix
     \<and> (suffix \<noteq> [] \<longrightarrow> is_ascii_alphanumeric (last suffix)) \<and> 1 + length suffix \<le> 63"

fun labels_ok :: "(string \<Rightarrow> bool) \<Rightarrow> bool \<Rightarrow> label_syntax list \<Rightarrow> bool" where
  "labels_ok is_ident is_first [] = True"
| "labels_ok is_ident is_first (l # ls) = (label_ok is_ident is_first l \<and> labels_ok is_ident False ls)"

fun join_with :: "char \<Rightarrow> string list \<Rightarrow> string" where
  "join_with c [] = []"
| "join_with c [s] = s"
| "join_with c (s # t # ss) = s @ c # join_with c (t # ss)"

definition labels_length :: "label_syntax list \<Rightarrow> nat" where
  "labels_length ls = (\<Sum>l \<leftarrow> ls. 1 + label_min_length l)"

definition in_grammar :: "(string \<Rightarrow> bool) \<Rightarrow> label_syntax list \<Rightarrow> bool" where
  "in_grammar is_ident ls \<longleftrightarrow> ls \<noteq> [] \<and> labels_ok is_ident True ls \<and> labels_length ls \<le> 254"

text \<open>Identifiers are not empty and contain none of the characters with a meaning here.\<close>

definition ident_names :: "(string \<Rightarrow> bool) \<Rightarrow> bool" where
  "ident_names is_ident \<longleftrightarrow> (\<forall>n. is_ident n \<longrightarrow> n \<noteq> [] \<and> set n \<inter> set ''{}./*'' = {})"

lemma label_char_plain:
  "label_char c \<Longrightarrow> c \<noteq> CHR ''{'' \<and> c \<noteq> CHR ''}'' \<and> c \<noteq> CHR ''.'' \<and> c \<noteq> CHR ''/'' \<and> c \<noteq> CHR ''*''"
  by (auto simp: label_char_def is_ascii_alphanumeric_def Let_def)

lemma alnum_label_char: "is_ascii_alphanumeric c \<Longrightarrow> label_char c"
  by (simp add: label_char_def)

section \<open>Scanning\<close>

lemma scan_plain:
  "list_all label_char cs \<Longrightarrow> ls_parameter st = None \<Longrightarrow>
     scan_label is_ident input i cs st = Inr (st\<lparr>ls_length := ls_length st + length cs\<rparr>)"
proof (induction cs arbitrary: i st)
  case (Cons c cs)
  have "scan_label is_ident input i (c # cs) st
      = scan_label is_ident input (i + 1) cs (st\<lparr>ls_length := ls_length st + 1\<rparr>)"
    using Cons.prems label_char_plain [of c] by (auto simp: label_char_def)
  then show ?case using Cons by simp
qed simp

lemma scan_name:
  "CHR ''}'' \<notin> set name \<Longrightarrow> ls_parameter st = Some p \<Longrightarrow>
     scan_label is_ident input i (name @ cs) st =
       scan_label is_ident input (i + length name) cs
         (st\<lparr>ls_parameter := Some (p\<lparr>cp_name := cp_name p @ name\<rparr>)\<rparr>)"
proof (induction name arbitrary: i st p)
  case Nil
  then show ?case by (cases st) simp
next
  case (Cons c name)
  have "scan_label is_ident input i ((c # name) @ cs) st =
      scan_label is_ident input (i + 1) (name @ cs) (st\<lparr>ls_parameter := Some (push_name c p)\<rparr>)"
    using Cons.prems by auto
  with Cons show ?case by (simp add: push_name_def)
qed

text \<open>What a scan that started inside a parameter and ended outside of one has read.\<close>

lemma scan_inside:
  assumes "scan_label is_ident input i cs st = Inr st'" and "ls_parameter st = Some p"
    and "ls_parameter st' = None"
  shows "\<exists>name rest. cs = name @ CHR ''}'' # rest \<and> CHR ''}'' \<notin> set name
    \<and> is_ident (cp_name p @ name)
    \<and> scan_label is_ident input (i + length name + 1) rest
        (st\<lparr>ls_parameter := None, ls_length := ls_length st + 1, ls_template := True,
            ls_parsed := ls_parsed st @ [\<lparr>pp_start_at = cp_start_at p, pp_end_at = i + length name,
              pp_is_catch_all = cp_is_catch_all p\<rparr>]\<rparr>) = Inr st'"
proof -
  let ?name = "takeWhile (\<lambda>c. c \<noteq> CHR ''}'') cs"
  have name: "CHR ''}'' \<notin> set ?name" by (auto dest: set_takeWhileD)
  have split: "cs = ?name @ dropWhile (\<lambda>c. c \<noteq> CHR ''}'') cs" by simp
  show ?thesis
  proof (cases "dropWhile (\<lambda>c. c \<noteq> CHR ''}'') cs")
    case Nil
    then have "?name = cs" using split by simp
    then have "scan_label is_ident input i (?name @ []) st = Inr st'"
      using assms(1) by (simp only: append_Nil2)
    with scan_name [OF name assms(2), of is_ident input i "[]"] assms(3) show ?thesis by auto
  next
    case (Cons c rest)
    then have c: "c = CHR ''}''" by (metis (mono_tags, lifting) dropWhile_eq_Cons_conv)
    then have "scan_label is_ident input i (?name @ CHR ''}'' # rest) st = Inr st'"
      using split assms(1) Cons by simp
    then have s: "scan_label is_ident input (i + length ?name) (CHR ''}'' # rest)
        (st\<lparr>ls_parameter := Some (p\<lparr>cp_name := cp_name p @ ?name\<rparr>)\<rparr>) = Inr st'"
      using scan_name [OF name assms(2), of is_ident input i "CHR ''}'' # rest"] by simp
    have "cs = ?name @ CHR ''}'' # rest" using split Cons c by simp
    with s name show ?thesis
      by (intro exI [of _ ?name] exI [of _ rest])
        (simp add: Let_def split: if_splits)
  qed
qed

text \<open>A brace opens a parameter, together with the star after it.\<close>

definition catch_all_tail :: "string \<Rightarrow> bool \<times> string" where
  "catch_all_tail cs =
     (case cs of [] \<Rightarrow> (False, []) | c # cs' \<Rightarrow> if c = CHR ''*'' then (True, cs') else (False, cs))"

lemma catch_all_tail_text:
  "catch_all_tail cs = (ca, cs') \<Longrightarrow> cs = (if ca then ''*'' else []) @ cs' \<and> length cs' \<le> length cs"
  by (auto simp: catch_all_tail_def split: list.splits if_splits)

lemma scan_open:
  assumes "ls_parameter st = None" and "catch_all_tail cs = (ca, cs')"
  shows "scan_label is_ident input i (CHR ''{'' # cs) st =
     scan_label is_ident input (i + (if ca then 2 else 1)) cs'
       (st\<lparr>ls_parameter := Some \<lparr>cp_name = [], cp_start_at = i, cp_is_catch_all = ca\<rparr>\<rparr>)"
  using assms by (auto simp: catch_all_tail_def split: list.splits if_splits)

text \<open>What a scan that started and ended outside of a parameter has read: a parameter is
  recorded with its start, other characters count, and invalid ones are collected.\<close>

lemma scan_outside:
  assumes "scan_label is_ident input i cs st = Inr st'" and "ls_parameter st = None"
    and "ls_parameter st' = None"
  shows "set (ls_invalid_chars st) \<subseteq> set (ls_invalid_chars st')
    \<and> (\<exists>extra. ls_parsed st' = ls_parsed st @ extra \<and> (\<forall>p \<in> set extra. i \<le> pp_start_at p)
        \<and> (extra = [] \<and> ls_invalid_chars st' = [] \<longrightarrow> list_all label_char cs))"
  using assms(1,2)
proof (induction cs arbitrary: i st rule: length_induct)
  case (1 cs)
  show ?case
  proof (cases cs)
    case Nil
    with 1 show ?thesis by simp
  next
    case (Cons c cs1)
    consider "c = CHR ''{''" | "c = CHR ''}''" | "c \<noteq> CHR ''{''" "c \<noteq> CHR ''}''" by blast
    then show ?thesis
    proof cases
      case 1
      obtain ca cs2 where ca: "catch_all_tail cs1 = (ca, cs2)" by fastforce
      let ?i = "i + (if ca then 2 else 1)"
      let ?p = "\<lparr>cp_name = [], cp_start_at = i, cp_is_catch_all = ca\<rparr>"
      have "scan_label is_ident input ?i cs2 (st\<lparr>ls_parameter := Some ?p\<rparr>) = Inr st'"
        using "1.prems" scan_open [OF _ ca] Cons 1 by metis
      from scan_inside [OF this _ assms(3)] obtain name rest where
        cs2: "cs2 = name @ CHR ''}'' # rest"
        and s: "scan_label is_ident input (?i + length name + 1) rest
          (st\<lparr>ls_parameter := None, ls_length := ls_length st + 1, ls_template := True,
             ls_parsed := ls_parsed st @ [\<lparr>pp_start_at = i, pp_end_at = ?i + length name,
               pp_is_catch_all = ca\<rparr>]\<rparr>) = Inr st'"
        by auto
      have "length rest < length cs"
        using catch_all_tail_text [OF ca] by (simp add: Cons cs2)
      from "1.IH" [rule_format, OF this s] obtain extra where
        "ls_parsed st' = ls_parsed st @ \<lparr>pp_start_at = i, pp_end_at = ?i + length name,
          pp_is_catch_all = ca\<rparr> # extra"
        and later: "\<forall>p \<in> set extra. ?i + length name + 1 \<le> pp_start_at p"
        and "set (ls_invalid_chars st) \<subseteq> set (ls_invalid_chars st')"
        by auto
      moreover have "\<forall>p \<in> set extra. i \<le> pp_start_at p"
        using later by (auto dest!: bspec split: if_splits)
      ultimately show ?thesis
        by (intro conjI exI [of _ "\<lparr>pp_start_at = i, pp_end_at = ?i + length name,
          pp_is_catch_all = ca\<rparr> # extra"]) auto
    next
      case 2
      then have "scan_label is_ident input (i + 1) cs1
          (st\<lparr>ls_length := ls_length st + 1, ls_invalid_chars := index_insert c (ls_invalid_chars st)\<rparr>)
          = Inr st'"
        using "1.prems" Cons by simp
      from "1.IH" [rule_format, OF _ this] Cons "1.prems" obtain extra where
        "ls_parsed st' = ls_parsed st @ extra" "\<forall>p \<in> set extra. i + 1 \<le> pp_start_at p"
        "insert c (set (ls_invalid_chars st)) \<subseteq> set (ls_invalid_chars st')"
        by auto
      then show ?thesis by (intro conjI exI [of _ extra]) auto
    next
      case 3
      let ?inv = "if is_ascii_alphanumeric c \<or> c = CHR ''-'' then ls_invalid_chars st
        else index_insert c (ls_invalid_chars st)"
      have "scan_label is_ident input (i + 1) cs1
          (st\<lparr>ls_length := ls_length st + 1, ls_invalid_chars := ?inv\<rparr>) = Inr st'"
        using 3 "1.prems" Cons by simp
      from "1.IH" [rule_format, OF _ this] Cons "1.prems" obtain extra where
        "ls_parsed st' = ls_parsed st @ extra" "\<forall>p \<in> set extra. i + 1 \<le> pp_start_at p"
        "set ?inv \<subseteq> set (ls_invalid_chars st')"
        "extra = [] \<and> ls_invalid_chars st' = [] \<longrightarrow> list_all label_char cs1"
        by auto
      then show ?thesis
        by (intro conjI exI [of _ extra]) (auto simp: Cons label_char_def [of c] split: if_splits)
    qed
  qed
qed

section \<open>Validation is the grammar\<close>

lemma validate_label_complete:
  assumes "ident_names is_ident" and "label_ok is_ident (k = 0) l"
  shows "\<exists>t. validate_label is_ident input k (label_text l) = Inr (label_min_length l, t)"
proof (cases l)
  case (PlainLabel s)
  with assms(2) have s: "s \<noteq> []" "list_all label_char s" "is_ascii_alphanumeric (hd s)"
    "is_ascii_alphanumeric (last s)" "length s \<le> 63"
    by auto
  then have "scan_label is_ident input 0 s label_state_new
      = Inr (label_state_new\<lparr>ls_length := length s\<rparr>)"
    by (subst scan_plain) (auto simp: label_state_new_def)
  with s show ?thesis
    by (auto simp: PlainLabel validate_label_def check_label_end_def check_label_shape_def
        label_state_new_def)
next
  case (TemplateLabel ca name suffix)
  with assms have t: "is_ident name" "ca \<longrightarrow> k = 0" "list_all label_char suffix"
    "suffix \<noteq> [] \<longrightarrow> is_ascii_alphanumeric (last suffix)" "1 + length suffix \<le> 63"
    and name: "name \<noteq> []" "CHR ''}'' \<notin> set name" "hd name \<noteq> CHR ''*''"
    by (auto simp: ident_names_def dest!: spec [of _ name] hd_in_set)
  have tail: "catch_all_tail ((if ca then ''*'' else []) @ name @ CHR ''}'' # suffix)
      = (ca, name @ CHR ''}'' # suffix)"
    using name by (cases name) (auto simp: catch_all_tail_def)
  have "scan_label is_ident input 0 (label_text l) label_state_new =
      Inr \<lparr>ls_length = 1 + length suffix, ls_parsed =
          [\<lparr>pp_start_at = 0, pp_end_at = (if ca then 2 else 1) + length name, pp_is_catch_all = ca\<rparr>],
        ls_parameter = None, ls_invalid_chars = [], ls_template = True\<rparr>"
  proof -
    have "label_text l = CHR ''{'' # (if ca then ''*'' else []) @ name @ CHR ''}'' # suffix"
      by (simp add: TemplateLabel)
    moreover have "ls_parameter label_state_new = None" by (simp add: label_state_new_def)
    ultimately have "scan_label is_ident input 0 (label_text l) label_state_new =
        scan_label is_ident input (if ca then 2 else 1) (name @ CHR ''}'' # suffix)
          (label_state_new\<lparr>ls_parameter :=
             Some \<lparr>cp_name = [], cp_start_at = 0, cp_is_catch_all = ca\<rparr>\<rparr>)"
      using scan_open [OF _ tail, of label_state_new is_ident input 0] by simp
    then show ?thesis
      using name t by (simp add: scan_name Let_def scan_plain label_state_new_def)
  qed
  then show ?thesis
    using t
    by (auto simp: TemplateLabel validate_label_def check_label_end_def check_label_shape_def
        simp del: scan_label.simps)
qed

lemma validate_label_sound:
  assumes "validate_label is_ident input k label = Inr (n, t)"
  shows "\<exists>l. label = label_text l \<and> n = label_min_length l \<and> label_ok is_ident (k = 0) l"
proof -
  from assms obtain st where ne: "label \<noteq> []"
    and s: "scan_label is_ident input 0 label label_state_new = Inr st"
    and e: "check_label_end input k label st = None"
    and sh: "check_label_shape input label st = None"
    and n: "n = ls_length st"
    by (auto simp: validate_label_def split: if_splits sum.splits option.splits)
  from e have p: "ls_parameter st = None" and i: "ls_invalid_chars st = []"
    and l1: "length (ls_parsed st) \<le> 1"
    and p0: "\<And>q. q \<in> set (ls_parsed st) \<Longrightarrow> pp_start_at q = 0 \<and> (pp_is_catch_all q \<longrightarrow> k = 0)"
    by (auto simp: check_label_end_def split: option.splits if_splits list.splits)
  from sh have shape: "hd label = CHR ''{'' \<or> is_ascii_alphanumeric (hd label)"
    "last label = CHR ''}'' \<or> is_ascii_alphanumeric (last label)" "ls_length st \<le> 63"
    by (auto simp: check_label_shape_def split: if_splits)
  obtain c cs where label: "label = c # cs" using ne by (cases label) auto
  show ?thesis
  proof (cases "c = CHR ''{''")
    case False
    then have c: "is_ascii_alphanumeric c" using shape(1) by (simp add: label)
    then have lc: "label_char c" by (rule alnum_label_char)
    then have "scan_label is_ident input 1 cs (label_state_new\<lparr>ls_length := 1\<rparr>) = Inr st"
      using s False label_char_plain [OF lc] c by (simp add: label label_state_new_def)
    from scan_outside [OF this _ p] obtain extra where x: "ls_parsed st = extra"
      "\<forall>q \<in> set extra. 1 \<le> pp_start_at q" "extra = [] \<longrightarrow> list_all label_char cs"
      using i by (auto simp: label_state_new_def)
    then have "extra = []" using p0 by (cases extra) auto
    then have all: "list_all label_char label" using x lc by (simp add: label)
    then have "st = label_state_new\<lparr>ls_length := length label\<rparr>"
      using s scan_plain [of label label_state_new is_ident input 0] by (simp add: label_state_new_def)
    moreover have "last label \<noteq> CHR ''}''"
      using all ne label_char_plain by (auto simp: list_all_iff dest!: last_in_set)
    ultimately show ?thesis
      using all ne shape n c by (intro exI [of _ "PlainLabel label"]) (auto simp: label label_state_new_def)
  next
    case True
    obtain ca cs2 where ca: "catch_all_tail cs = (ca, cs2)" by fastforce
    let ?i = "if ca then 2 else 1 :: nat"
    let ?p = "\<lparr>cp_name = [], cp_start_at = 0, cp_is_catch_all = ca\<rparr>"
    have "scan_label is_ident input ?i cs2 (label_state_new\<lparr>ls_parameter := Some ?p\<rparr>) = Inr st"
      using s scan_open [OF _ ca, of label_state_new is_ident input 0]
      by (simp add: label True label_state_new_def)
    from scan_inside [OF this _ p] obtain name rest where cs2: "cs2 = name @ CHR ''}'' # rest"
      and name: "is_ident name"
      and s2: "scan_label is_ident input (?i + length name + 1) rest
          (label_state_new\<lparr>ls_length := 1, ls_template := True,
            ls_parsed := [\<lparr>pp_start_at = 0, pp_end_at = ?i + length name, pp_is_catch_all = ca\<rparr>]\<rparr>) = Inr st"
      by (auto simp: label_state_new_def)
    from scan_outside [OF s2 _ p] obtain extra where
      x: "ls_parsed st = \<lparr>pp_start_at = 0, pp_end_at = ?i + length name, pp_is_catch_all = ca\<rparr> # extra"
      "extra = [] \<longrightarrow> list_all label_char rest"
      using i by (auto simp: label_state_new_def)
    then have "extra = []" using l1 by simp
    with x have rest: "list_all label_char rest" and cak: "ca \<longrightarrow> k = 0" using p0 by auto
    have len: "ls_length st = 1 + length rest"
      using s2 by (auto simp: scan_plain [OF rest] label_state_new_def)
    have reads: "label = label_text (TemplateLabel ca name rest)"
      using catch_all_tail_text [OF ca] by (simp add: label True cs2)
    have "rest \<noteq> [] \<longrightarrow> is_ascii_alphanumeric (last rest)"
    proof
      assume r: "rest \<noteq> []"
      then have "last label = last rest" by (simp add: reads)
      moreover have "last rest \<noteq> CHR ''}''"
        using rest r label_char_plain by (auto simp: list_all_iff dest!: last_in_set)
      ultimately show "is_ascii_alphanumeric (last rest)" using shape(2) by simp
    qed
    then show ?thesis
      using reads n len name cak rest shape(3) by (intro exI [of _ "TemplateLabel ca name rest"]) auto
  qed
qed

lemma validate_labels_complete:
  "ident_names is_ident \<Longrightarrow> labels_ok is_ident (k = 0) ls \<Longrightarrow>
     \<exists>t'. validate_labels is_ident input k (map label_text ls) n t = Inr (n + labels_length ls, t')"
proof (induction ls arbitrary: k n t)
  case (Cons l ls)
  have "label_ok is_ident (k = 0) l" and ls: "labels_ok is_ident (k + 1 = 0) ls"
    using Cons.prems by simp_all
  then obtain tl where "validate_label is_ident input k (label_text l) = Inr (label_min_length l, tl)"
    using validate_label_complete Cons.prems(1) by blast
  with Cons.IH [OF Cons.prems(1) ls, of "n + 1 + label_min_length l" "t \<or> tl"] show ?case
    by (simp add: labels_length_def add.assoc)
qed (simp add: labels_length_def)

lemma validate_labels_sound:
  "validate_labels is_ident input k labels n t = Inr (n', t') \<Longrightarrow>
     \<exists>ls. labels = map label_text ls \<and> labels_ok is_ident (k = 0) ls \<and> n' = n + labels_length ls"
proof (induction labels arbitrary: k n t)
  case Nil
  then show ?case by (simp add: labels_length_def)
next
  case (Cons label labels)
  then obtain m tl where m: "validate_label is_ident input k label = Inr (m, tl)"
    and r: "validate_labels is_ident input (k + 1) labels (n + 1 + m) (t \<or> tl) = Inr (n', t')"
    by (auto split: sum.splits prod.splits)
  obtain l where l: "label = label_text l" "m = label_min_length l" "label_ok is_ident (k = 0) l"
    using validate_label_sound [OF m] by blast
  obtain ls where "labels = map label_text ls" "labels_ok is_ident False ls"
    "n' = n + 1 + m + labels_length ls"
    using Cons.IH [OF r] by auto
  with l show ?case by (intro exI [of _ "l # ls"]) (simp add: labels_length_def)
qed

lemma split_dots_nonempty [simp]: "split_dots s \<noteq> []"
  by (cases s) (auto split: list.splits)

lemma split_dots_plain: "CHR ''.'' \<notin> set s \<Longrightarrow> split_dots s = [s]"
  by (induction s) auto

lemma split_dots_cons: "CHR ''.'' \<notin> set s \<Longrightarrow> split_dots (s @ CHR ''.'' # rest) = s # split_dots rest"
  by (induction s) auto

lemma split_dots_join:
  "ls \<noteq> [] \<Longrightarrow> \<forall>s \<in> set ls. CHR ''.'' \<notin> set s \<Longrightarrow> split_dots (join_with (CHR ''.'') ls) = ls"
  by (induction "CHR ''.''" ls rule: join_with.induct) (auto simp: split_dots_plain split_dots_cons)

lemma join_cons: "ss \<noteq> [] \<Longrightarrow> join_with c (s # ss) = s @ c # join_with c ss"
  by (cases ss) auto

lemma join_split_dots: "join_with (CHR ''.'') (split_dots s) = s"
proof (induction s)
  case (Cons x xs)
  obtain y ys where y: "split_dots xs = y # ys" by (cases "split_dots xs") auto
  with Cons have "join_with (CHR ''.'') ((x # y) # ys) = x # xs"
    by (cases ys) auto
  with Cons y show ?case by (simp add: join_cons)
qed simp

lemma join_snoc: "ss \<noteq> [] \<Longrightarrow> join_with c (ss @ [t]) = join_with c ss @ c # t"
  by (induction c ss rule: join_with.induct) auto

lemma label_text_plain:
  assumes "ident_names is_ident" and "label_ok is_ident b l"
  shows "label_text l \<noteq> []" and "CHR ''.'' \<notin> set (label_text l)" and "CHR ''/'' \<notin> set (label_text l)"
    and "last (label_text l) \<noteq> CHR ''.''"
proof -
  have lc: "list_all label_char s \<Longrightarrow> CHR ''.'' \<notin> set s \<and> CHR ''/'' \<notin> set s" for s
    using label_char_plain by (auto simp: list_all_iff)
  show "label_text l \<noteq> []" using assms(2) by (cases l) auto
  show d: "CHR ''.'' \<notin> set (label_text l)" and "CHR ''/'' \<notin> set (label_text l)"
    using assms lc by (cases l; auto simp: ident_names_def)+
  with \<open>label_text l \<noteq> []\<close> show "last (label_text l) \<noteq> CHR ''.''" using last_in_set by fastforce
qed

lemma labels_ok_texts:
  "ident_names is_ident \<Longrightarrow> labels_ok is_ident b ls \<Longrightarrow> s \<in> set (map label_text ls) \<Longrightarrow>
     s \<noteq> [] \<and> CHR ''.'' \<notin> set s \<and> CHR ''/'' \<notin> set s \<and> last s \<noteq> CHR ''.''"
  by (induction is_ident b ls rule: labels_ok.induct) (auto dest: label_text_plain)

lemma last_join:
  "ss \<noteq> [] \<Longrightarrow> \<forall>s \<in> set ss. s \<noteq> [] \<Longrightarrow> join_with c ss \<noteq> [] \<and> last (join_with c ss) = last (last ss)"
  by (induction c ss rule: join_with.induct) auto

abbreviation domain_text :: "label_syntax list \<Rightarrow> string" where
  "domain_text ls \<equiv> join_with (CHR ''.'') (map label_text ls)"

lemma domain_labels_text:
  assumes "ident_names is_ident" and "labels_ok is_ident b ls" and "ls \<noteq> []"
  shows "domain_labels (domain_text ls) = map label_text ls"
    and "domain_labels (domain_text ls @ ''.'') = map label_text ls"
    and "domain_text ls \<noteq> []" and "last (domain_text ls) \<noteq> CHR ''.''"
proof -
  let ?ss = "map label_text ls"
  have ss: "\<forall>s \<in> set ?ss. s \<noteq> [] \<and> CHR ''.'' \<notin> set s \<and> last s \<noteq> CHR ''.''" "?ss \<noteq> []"
    using labels_ok_texts [OF assms(1,2)] assms(3) by auto
  have l: "domain_text ls \<noteq> [] \<and> last (domain_text ls) = last (last ?ss)"
    using ss by (intro last_join) auto
  show "domain_text ls \<noteq> []" using l by blast
  have "last ?ss \<in> set ?ss" using ss(2) by (rule last_in_set)
  with ss(1) l show nd: "last (domain_text ls) \<noteq> CHR ''.''" by metis
  have "split_dots (domain_text ls) = ?ss" using ss by (intro split_dots_join) auto
  with nd show "domain_labels (domain_text ls) = ?ss"
    by (simp add: domain_labels_def has_trailing_dot_def)
  have "split_dots (join_with (CHR ''.'') (?ss @ [[]])) = ?ss @ [[]]"
    using ss by (intro split_dots_join) auto
  then have "split_dots (domain_text ls @ ''.'') = ?ss @ [[]]" using ss(2) by (simp add: join_snoc)
  then show "domain_labels (domain_text ls @ ''.'') = ?ss"
    by (simp add: domain_labels_def has_trailing_dot_def)
qed

lemma validate_grammar:
  assumes "ident_names is_ident"
  shows "validate is_ident input = Inr () \<longleftrightarrow>
    (\<exists>ls. in_grammar is_ident ls \<and> (input = domain_text ls \<or> input = domain_text ls @ ''.''))"
proof
  assume v: "validate is_ident input = Inr ()"
  then obtain n t where ne: "input \<noteq> []" and n: "\<not> 253 < n - 1"
    and r: "validate_labels is_ident input 0 (domain_labels input) 0 False = Inr (n, t)"
    by (auto simp: validate_def split: if_splits sum.splits)
  obtain ls where ls: "domain_labels input = map label_text ls" "labels_ok is_ident True ls"
    "n = labels_length ls"
    using validate_labels_sound [OF r] by auto
  show "\<exists>ls. in_grammar is_ident ls \<and> (input = domain_text ls \<or> input = domain_text ls @ ''.'')"
  proof (cases "has_trailing_dot input")
    case False
    then have s: "split_dots input = map label_text ls" using ls(1) by (simp add: domain_labels_def)
    then have "input = domain_text ls" using join_split_dots [of input] by simp
    moreover have "ls \<noteq> []" using s by (metis list.map_disc_iff split_dots_nonempty)
    ultimately show ?thesis using ls n by (auto simp: in_grammar_def)
  next
    case True
    then obtain pre where pre: "input = pre @ ''.''"
      by (metis append_butlast_last_id has_trailing_dot_def)
    have lastdot: "split_dots (pre @ ''.'') = split_dots pre @ [[]]"
      by (induction pre) (auto split: list.splits)
    then have s: "split_dots pre = map label_text ls"
      using ls(1) True by (simp add: domain_labels_def pre)
    then have "pre = domain_text ls" using join_split_dots [of pre] by simp
    moreover have "ls \<noteq> []" using s by (metis list.map_disc_iff split_dots_nonempty)
    ultimately show ?thesis using ls n pre by (auto simp: in_grammar_def)
  qed
next
  assume "\<exists>ls. in_grammar is_ident ls \<and> (input = domain_text ls \<or> input = domain_text ls @ ''.'')"
  then obtain ls where ls: "ls \<noteq> []" "labels_ok is_ident True ls" "labels_length ls \<le> 254"
    and input: "input = domain_text ls \<or> input = domain_text ls @ ''.''"
    by (auto simp: in_grammar_def)
  have "domain_labels input = map label_text ls" "input \<noteq> []"
    using input domain_labels_text [OF assms ls(2,1)] by auto
  moreover obtain t where "validate_labels is_ident input 0 (map label_text ls) 0 False
      = Inr (0 + labels_length ls, t)"
    using validate_labels_complete [OF assms, of 0 ls input 0 False] ls(2) by auto
  ultimately show "validate is_ident input = Inr ()"
    using ls(3) by (simp add: validate_def)
qed

text \<open>C14: A domain constraint is accepted exactly when it is the text of a list of labels of the
  grammar, optionally followed by one dot: every label is either plain or starts with its
  only parameter, a catch-all parameter is in the first label only, characters and lengths are those
  of DNS, and a parameter counts for one character of the length.\<close>

theorem validate_iff_grammar:
  assumes "ident_names is_ident"
  shows "validate is_ident input = Inr () \<longleftrightarrow>
    (\<exists>ls. in_grammar is_ident ls \<and> (input = domain_text ls \<or> input = domain_text ls @ ''.''))"
  using assms by (rule validate_grammar)

definition ex_ident :: "string \<Rightarrow> bool" where
  "ex_ident n \<longleftrightarrow> n \<noteq> [] \<and> list_all (\<lambda>c. is_ascii_alphanumeric c \<or> c = CHR ''_'') n"

lemma ex_ident_char: "ex_ident n \<Longrightarrow> c \<in> set n \<Longrightarrow> is_ascii_alphanumeric c \<or> c = CHR ''_''"
  by (simp add: ex_ident_def list_all_iff)

lemma ex_ident_names: "ident_names ex_ident"
  unfolding ident_names_def
proof (intro allI impI conjI)
  fix n assume n: "ex_ident n"
  then show "n \<noteq> []" by (simp add: ex_ident_def)
  have "c \<notin> set n" if "c \<in> set ''{}./*''" for c
    using ex_ident_char [OF n, of c] that by (auto simp: is_ascii_alphanumeric_def Let_def)
  then show "set n \<inter> set ''{}./*'' = {}" by blast
qed

theorem validate_iff_grammar_witness:
  "validate ex_ident ''{*any}.b-c.com.'' = Inr () \<and> validate ex_ident ''a..com'' \<noteq> Inr ()"
proof -
  let ?ls = "[TemplateLabel True ''any'' [], PlainLabel ''b-c'', PlainLabel ''com'']"
  have "in_grammar ex_ident ?ls"
    by (simp add: in_grammar_def labels_length_def label_char_def is_ascii_alphanumeric_def ex_ident_def)
  then have "validate ex_ident ''{*any}.b-c.com.'' = Inr ()"
    using validate_iff_grammar [OF ex_ident_names, of "''{*any}.b-c.com.''"] by fastforce
  moreover have "validate ex_ident ''a..com'' \<noteq> Inr ()"
    by code_simp
  ultimately show ?thesis by blast
qed

section \<open>The router pattern\<close>

fun label_pattern :: "label_syntax \<Rightarrow> string" where
  "label_pattern (PlainLabel s) = rev s"
| "label_pattern (TemplateLabel catch_all name suffix) = rev suffix @ parameter_text catch_all name"

abbreviation domain_pattern :: "label_syntax list \<Rightarrow> string" where
  "domain_pattern ls \<equiv> join_with (CHR ''/'') (rev (map label_pattern ls))"

lemma pattern_loop_plain:
  "CHR ''.'' \<notin> set s \<Longrightarrow> CHR ''}'' \<notin> set s \<Longrightarrow> pattern_loop (s @ cs) acc = pattern_loop cs (acc @ s)"
  by (induction s arbitrary: acc) auto

lemma pattern_loop_parameter:
  "CHR ''{'' \<notin> set n \<Longrightarrow>
     pattern_loop (CHR ''}'' # rev n @ CHR ''{'' # cs) acc = pattern_loop cs (acc @ ''{'' @ n @ ''}'')"
  by (simp add: Let_def takeWhile_append dropWhile_append)

lemma pattern_loop_label:
  assumes "ident_names is_ident" and "label_ok is_ident b l"
  shows "pattern_loop (rev (label_text l) @ cs) acc = pattern_loop cs (acc @ label_pattern l)"
proof -
  have lc: "list_all label_char s \<Longrightarrow> CHR ''.'' \<notin> set s \<and> CHR ''}'' \<notin> set s" for s
    using label_char_plain by (auto simp: list_all_iff)
  show ?thesis
  proof (cases l)
    case (PlainLabel s)
    then show ?thesis using assms(2) lc [of s] by (simp add: pattern_loop_plain)
  next
    case (TemplateLabel ca name suffix)
    let ?n = "(if ca then ''*'' else []) @ name"
    have "CHR ''{'' \<notin> set ?n" and s: "list_all label_char suffix"
      using assms by (auto simp: TemplateLabel ident_names_def)
    moreover have "rev (label_text l) @ cs = rev suffix @ CHR ''}'' # rev ?n @ CHR ''{'' # cs"
      by (simp add: TemplateLabel)
    ultimately show ?thesis
      using lc [OF s] pattern_loop_plain [of "rev suffix"] pattern_loop_parameter [of ?n cs]
      by (simp add: TemplateLabel del: pattern_loop.simps)
  qed
qed

lemma pattern_loop_labels:
  assumes "ident_names is_ident" and "labels_ok is_ident b ls" and "ls \<noteq> []"
  shows "pattern_loop (rev (domain_text ls) @ cs) acc = pattern_loop cs (acc @ domain_pattern ls)"
  using assms(2,3)
proof (induction ls arbitrary: b cs acc)
  case (Cons l ls)
  show ?case
  proof (cases "ls = []")
    case True
    with Cons.prems show ?thesis using pattern_loop_label [OF assms(1), of b l] by simp
  next
    case False
    have l: "label_ok is_ident b l" using Cons.prems by simp
    have "pattern_loop (rev (domain_text (l # ls)) @ cs) acc =
        pattern_loop (rev (domain_text ls) @ CHR ''.'' # rev (label_text l) @ cs) acc"
      using False by (simp add: join_cons)
    also have "\<dots> = pattern_loop (CHR ''.'' # rev (label_text l) @ cs) (acc @ domain_pattern ls)"
      using Cons.IH [of False] Cons.prems False by simp
    also have "\<dots> = pattern_loop cs (acc @ domain_pattern ls @ ''/'' @ label_pattern l)"
      using pattern_loop_label [OF assms(1) l] by simp
    finally show ?thesis using False by (simp add: join_snoc)
  qed
qed simp

lemma append_delimiter_inj:
  "s @ c # x = t @ c # y \<Longrightarrow> c \<notin> set s \<Longrightarrow> c \<notin> set t \<Longrightarrow> s = t \<and> x = y"
proof (induction s arbitrary: t)
  case Nil
  then show ?case by (cases t) auto
next
  case (Cons a s)
  then show ?case by (cases t) auto
qed

lemma join_with_inj:
  "join_with c ss = join_with c ts \<Longrightarrow> ss \<noteq> [] \<Longrightarrow> ts \<noteq> [] \<Longrightarrow>
     \<forall>s \<in> set ss \<union> set ts. c \<notin> set s \<Longrightarrow> ss = ts"
proof (induction ss arbitrary: ts)
  case (Cons s ss)
  obtain t ts' where ts: "ts = t # ts'" using Cons.prems by (cases ts) auto
  have cs: "c \<notin> set s" "c \<notin> set t" using Cons.prems(4) ts by auto
  show ?case
  proof (cases "ss = []"; cases "ts' = []")
    assume "ss \<noteq> []" "ts' \<noteq> []"
    with Cons.prems(1) have "s @ c # join_with c ss = t @ c # join_with c ts'"
      by (simp add: ts join_cons)
    from append_delimiter_inj [OF this cs] Cons.IH [of ts'] Cons.prems(4) ts \<open>ss \<noteq> []\<close> \<open>ts' \<noteq> []\<close>
    show ?thesis by auto
  next
    assume "ss = []" "ts' \<noteq> []"
    with Cons.prems(1) have "s = t @ c # join_with c ts'" by (simp add: ts join_cons)
    with cs show ?thesis by simp
  next
    assume "ss \<noteq> []" "ts' = []"
    with Cons.prems(1) have "t = s @ c # join_with c ss" by (simp add: ts join_cons)
    with cs show ?thesis by simp
  qed (use Cons.prems(1) ts in simp)
qed simp

lemma label_pattern_inj:
  assumes "ident_names is_ident" and "label_ok is_ident b l" and "label_ok is_ident b' l'"
    and "label_pattern l = label_pattern l'"
  shows "label_text l = label_text l'"
proof -
  have lc: "list_all label_char s \<Longrightarrow> CHR ''{'' \<notin> set s" for s
    using label_char_plain by (auto simp: list_all_iff)
  have brace: "CHR ''{'' \<in> set (label_pattern l) \<longleftrightarrow> (\<exists>ca name suffix. l = TemplateLabel ca name suffix)"
    if "label_ok is_ident b l" for b l
    using that lc by (cases l) auto
  then have same: "(\<exists>ca name suffix. l = TemplateLabel ca name suffix) \<longleftrightarrow>
      (\<exists>ca name suffix. l' = TemplateLabel ca name suffix)"
    using assms(2-4) by metis
  show ?thesis
  proof (cases l; cases l')
    fix s t assume "l = PlainLabel s" "l' = PlainLabel t"
    then show ?thesis using assms(4) by simp
  next
    fix ca name suffix ca' name' suffix'
    assume l: "l = TemplateLabel ca name suffix" "l' = TemplateLabel ca' name' suffix'"
    then have "rev suffix @ CHR ''{'' # (if ca then ''*'' else []) @ name @ ''}'' =
        rev suffix' @ CHR ''{'' # (if ca' then ''*'' else []) @ name' @ ''}''"
      using assms(4) by simp
    from append_delimiter_inj [OF this] show ?thesis using assms(2,3) l lc by auto
  qed (use same in auto)
qed

lemma label_patterns_inj:
  "ident_names is_ident \<Longrightarrow> labels_ok is_ident b ls \<Longrightarrow> labels_ok is_ident b' ls' \<Longrightarrow>
     map label_pattern ls = map label_pattern ls' \<Longrightarrow> map label_text ls = map label_text ls'"
proof (induction ls arbitrary: ls' b b')
  case (Cons l ls)
  then obtain l' ms where "ls' = l' # ms" by (cases ls') auto
  with Cons label_pattern_inj [of is_ident b l b' l'] show ?case by auto
qed simp

lemma label_pattern_slash:
  assumes "ident_names is_ident" and "label_ok is_ident b l"
  shows "CHR ''/'' \<notin> set (label_pattern l)"
proof -
  have "set (label_pattern l) = set (label_text l)" by (cases l) auto
  then show ?thesis using label_text_plain(3) [OF assms] by simp
qed

lemma labels_pattern_slash:
  "ident_names is_ident \<Longrightarrow> labels_ok is_ident b ls \<Longrightarrow> s \<in> set (map label_pattern ls) \<Longrightarrow> CHR ''/'' \<notin> set s"
  by (induction is_ident b ls rule: labels_ok.induct) (auto dest: label_pattern_slash)

lemma trim_end_dots_text:
  "s \<noteq> [] \<Longrightarrow> last s \<noteq> CHR ''.'' \<Longrightarrow> trim_end_dots s = s \<and> trim_end_dots (s @ ''.'') = s"
  by (cases s rule: rev_cases) (auto simp: trim_end_dots_def)

lemma domain_guard_new_grammar:
  assumes "ident_names is_ident" and "domain_guard_new is_ident input = Inr g"
  shows "\<exists>ls. in_grammar is_ident ls \<and> domain g = domain_text ls \<and> matchit_pattern g = domain_pattern ls"
proof -
  have v: "validate is_ident input = Inr ()" and g: "g = DomainGuard (trim_end_dots input)"
    using assms(2) by (auto simp: domain_guard_new_def split: sum.splits)
  obtain ls where ls: "in_grammar is_ident ls"
    and input: "input = domain_text ls \<or> input = domain_text ls @ ''.''"
    using v validate_grammar [OF assms(1)] by blast
  have ok: "labels_ok is_ident True ls" "ls \<noteq> []" using ls by (auto simp: in_grammar_def)
  have d: "domain g = domain_text ls"
    using input trim_end_dots_text domain_labels_text(3,4) [OF assms(1) ok] by (auto simp: g)
  moreover have "matchit_pattern g = domain_pattern ls"
    using pattern_loop_labels [OF assms(1) ok, of "[]" "[]"] by (simp add: matchit_pattern_def d)
  ultimately show ?thesis using ls by blast
qed

text \<open>Theorem: The router pattern of an accepted domain lists its labels from the last to the
  first, separated by slashes, each reversed except for its parameter, which stays readable and
  comes last; two accepted domains have the same pattern only if they are the same guard.\<close>

theorem pattern_reverses_labels:
  assumes "ident_names is_ident" and "domain_guard_new is_ident input = Inr g"
    and "domain_guard_new is_ident input' = Inr g'"
  shows "(\<exists>ls. in_grammar is_ident ls \<and> domain g = domain_text ls \<and> matchit_pattern g = domain_pattern ls)
    \<and> (matchit_pattern g = matchit_pattern g' \<longrightarrow> g = g')"
proof -
  obtain ls where ls: "in_grammar is_ident ls" "domain g = domain_text ls"
    "matchit_pattern g = domain_pattern ls"
    using domain_guard_new_grammar [OF assms(1,2)] by blast
  obtain ls' where ls': "in_grammar is_ident ls'" "domain g' = domain_text ls'"
    "matchit_pattern g' = domain_pattern ls'"
    using domain_guard_new_grammar [OF assms(1,3)] by blast
  have ok: "labels_ok is_ident True ls" "labels_ok is_ident True ls'" "ls \<noteq> []" "ls' \<noteq> []"
    using ls(1) ls'(1) by (auto simp: in_grammar_def)
  have "g = g'" if "matchit_pattern g = matchit_pattern g'"
  proof -
    have "rev (map label_pattern ls) = rev (map label_pattern ls')"
      using that ls ls' ok labels_pattern_slash [OF assms(1) ok(1)] labels_pattern_slash [OF assms(1) ok(2)]
      by (intro join_with_inj [of "CHR ''/''"]) auto
    then have "map label_pattern ls = map label_pattern ls'" by (simp only: rev_is_rev_conv)
    then have "map label_text ls = map label_text ls'"
      by (rule label_patterns_inj [OF assms(1) ok(1,2)])
    then have "domain g = domain g'" using ls ls' by simp
    then show ?thesis by (cases g; cases g') simp
  qed
  with ls show ?thesis by blast
qed

theorem pattern_reverses_labels_witness:
  "matchit_pattern (DomainGuard ''{*any}.b.com'') = ''moc/b/{*any}''
    \<and> (\<exists>ls. in_grammar ex_ident ls \<and> ''moc/b/{*any}'' = domain_pattern ls)"
proof -
  have p: "matchit_pattern (DomainGuard ''{*any}.b.com'') = ''moc/b/{*any}''" by code_simp
  have "domain_guard_new ex_ident ''{*any}.b.com.'' = Inr (DomainGuard ''{*any}.b.com'')" by code_simp
  from pattern_reverses_labels [OF ex_ident_names this this] p show ?thesis by auto
qed

text \<open>Theorem: A single trailing dot makes no difference: an accepted guard never ends with a dot,
  and building it again from its own domain, with or without a trailing dot, gives the same guard.\<close>

theorem trailing_dot_is_normalised:
  assumes "ident_names is_ident" and "domain_guard_new is_ident input = Inr g"
  shows "\<not> has_trailing_dot (domain g)
    \<and> domain_guard_new is_ident (domain g) = Inr g
    \<and> domain_guard_new is_ident (domain g @ ''.'') = Inr g"
proof -
  obtain ls where ls: "in_grammar is_ident ls" "domain g = domain_text ls"
    using domain_guard_new_grammar [OF assms] by blast
  have ok: "labels_ok is_ident True ls" "ls \<noteq> []" using ls(1) by (auto simp: in_grammar_def)
  note d = domain_labels_text(3,4) [OF assms(1) ok]
  have "validate is_ident (domain_text ls) = Inr ()" "validate is_ident (domain_text ls @ ''.'') = Inr ()"
    using ls(1) validate_grammar [OF assms(1)] by blast+
  moreover have "trim_end_dots (domain_text ls) = domain_text ls"
    "trim_end_dots (domain_text ls @ ''.'') = domain_text ls"
    using trim_end_dots_text [OF d] by auto
  ultimately show ?thesis
    using d ls(2) by (cases g) (simp add: domain_guard_new_def has_trailing_dot_def)
qed

theorem trailing_dot_is_normalised_witness:
  "domain_guard_new ex_ident ''a.com.'' = domain_guard_new ex_ident ''a.com''"
proof -
  have "domain_guard_new ex_ident ''a.com.'' = Inr (DomainGuard ''a.com'')" by code_simp
  from trailing_dot_is_normalised [OF ex_ident_names this] this show ?thesis by simp
qed

end
