(* ===== verification/Scope_Graph.thy ===== *)
theory Scope_Graph
  imports Prelude
begin

text \<open>
  Scopes (\<^verbatim>\<open>pavexc/src/compiler/analyses/user_components/scope_graph.rs\<close>) and the
  interner (\<^verbatim>\<open>pavexc/src/compiler/interner.rs\<close>).

  The directed graph is a data structure of another crate: its operations are the record
  \<open>graph_lib\<close>, an argument of the definitions that use it, and what they promise is the
  locale \<open>digraph\<close> (nodes and edges behave as sets, neighbours are read off the edges, and
  searches find what is reachable). \<open>list_graph\<close> provides them with lists. Locations in the
  source are the type parameter \<open>'l\<close>.
\<close>

section \<open>The graph interface\<close>

record 'g graph_lib =
  gl_new :: 'g
  gl_add_node :: "nat \<Rightarrow> 'g \<Rightarrow> 'g"
  gl_add_edge :: "nat \<Rightarrow> nat \<Rightarrow> 'g \<Rightarrow> 'g"
  gl_node_identifiers :: "'g \<Rightarrow> nat list"
  gl_incoming :: "'g \<Rightarrow> nat \<Rightarrow> nat list"
  gl_outgoing :: "'g \<Rightarrow> nat \<Rightarrow> nat list"
  gl_has_path :: "'g \<Rightarrow> nat \<Rightarrow> nat \<Rightarrow> bool"
  gl_dfs_reversed :: "'g \<Rightarrow> nat \<Rightarrow> nat list"

definition graph_edges :: "'g graph_lib \<Rightarrow> 'g \<Rightarrow> (nat \<times> nat) set" where
  "graph_edges lib g = {(a, b). a \<in> set (gl_incoming lib g b)}"

locale digraph =
  fixes lib :: "'g graph_lib"
  assumes nodes_new: "set (gl_node_identifiers lib (gl_new lib)) = {}"
    and nodes_add_node:
      "set (gl_node_identifiers lib (gl_add_node lib n g1)) = insert n (set (gl_node_identifiers lib g1))"
    and nodes_add_edge:
      "set (gl_node_identifiers lib (gl_add_edge lib a b g2)) =
         insert a (insert b (set (gl_node_identifiers lib g2)))"
    and edges_new: "graph_edges lib (gl_new lib) = {}"
    and edges_add_node: "graph_edges lib (gl_add_node lib n g3) = graph_edges lib g3"
    and edges_add_edge: "graph_edges lib (gl_add_edge lib a b g4) = insert (a, b) (graph_edges lib g4)"
    and outgoing_edges: "set (gl_outgoing lib g5 x) = {y. (x, y) \<in> graph_edges lib g5}"
    and has_path_edges: "gl_has_path lib g6 x y \<longleftrightarrow> (x, y) \<in> (graph_edges lib g6)\<^sup>*"
    and dfs_reversed_edges: "set (gl_dfs_reversed lib g7 x) = {y. (y, x) \<in> (graph_edges lib g7)\<^sup>*}"

section \<open>Scopes\<close>

datatype scope_id = ScopeId (scope_index: nat)

definition scope_root :: scope_id where
  "scope_root = ScopeId 0"

record ('g, 'l) scope_graph =
  sg_root :: scope_id
  sg_application_state :: scope_id
  sg_graph :: 'g
  sg_id2locations :: "nat \<rightharpoonup> 'l"

record ('g, 'l) scope_graph_builder =
  sb_root :: scope_id
  sb_graph :: 'g
  sb_id2locations :: "nat \<rightharpoonup> 'l"
  sb_next_node_id :: nat

definition builder_new :: "'g graph_lib \<Rightarrow> 'l \<Rightarrow> ('g, 'l) scope_graph_builder" where
  "builder_new lib root_bp_location =
     (let root_id = scope_index scope_root;
          graph = gl_add_node lib root_id (gl_new lib)
      in \<lparr>sb_root = ScopeId root_id, sb_graph = graph,
          sb_id2locations = [root_id \<mapsto> root_bp_location], sb_next_node_id = 1\<rparr>)"

definition add_scope :: "'g graph_lib \<Rightarrow> scope_id \<Rightarrow> 'l option \<Rightarrow> ('g, 'l) scope_graph_builder
    \<Rightarrow> scope_id \<times> ('g, 'l) scope_graph_builder" where
  "add_scope lib parent location b =
     (let i = sb_next_node_id b;
          b = b\<lparr>sb_next_node_id := sb_next_node_id b + 1\<rparr>;
          b = b\<lparr>sb_graph := gl_add_edge lib (scope_index parent) i (gl_add_node lib i (sb_graph b))\<rparr>;
          b = (case location of
                 Some l \<Rightarrow> b\<lparr>sb_id2locations := (sb_id2locations b)(i \<mapsto> l)\<rparr>
               | None \<Rightarrow> b)
      in (ScopeId i, b))"

definition leaf_parent_ids :: "'g graph_lib \<Rightarrow> 'g \<Rightarrow> nat list" where
  "leaf_parent_ids lib g =
     sorted_list_of_set (set (concat (map (gl_incoming lib g)
       (filter (\<lambda>i. length (gl_outgoing lib g i) = 0) (gl_node_identifiers lib g)))))"

definition scope_build :: "'g graph_lib \<Rightarrow> ('g, 'l) scope_graph_builder \<Rightarrow> ('g, 'l) scope_graph" where
  "scope_build lib b =
     (let application_state = sb_next_node_id b;
          parents = leaf_parent_ids lib (sb_graph b);
          graph = gl_add_node lib application_state (sb_graph b);
          graph = fold (\<lambda>i g. gl_add_edge lib i application_state g) parents graph
      in \<lparr>sg_root = sb_root b, sg_application_state = ScopeId application_state,
          sg_graph = graph, sg_id2locations = sb_id2locations b\<rparr>)"

definition is_descendant_of :: "'g graph_lib \<Rightarrow> scope_id \<Rightarrow> scope_id \<Rightarrow> ('g, 'l) scope_graph \<Rightarrow> bool" where
  "is_descendant_of lib this other sg \<longleftrightarrow>
     scope_index other \<in> set (gl_dfs_reversed lib (sg_graph sg) (scope_index this))"

definition direct_parent_ids :: "'g graph_lib \<Rightarrow> scope_id \<Rightarrow> ('g, 'l) scope_graph \<Rightarrow> scope_id set" where
  "direct_parent_ids lib this sg = ScopeId ` set (gl_incoming lib (sg_graph sg) (scope_index this))"

definition direct_children_ids :: "'g graph_lib \<Rightarrow> scope_id \<Rightarrow> ('g, 'l) scope_graph \<Rightarrow> scope_id set" where
  "direct_children_ids lib this sg = ScopeId ` set (gl_outgoing lib (sg_graph sg) (scope_index this))"

definition get_location :: "('g, 'l) scope_graph \<Rightarrow> scope_id \<Rightarrow> 'l option" where
  "get_location sg i = sg_id2locations sg (scope_index i)"

text \<open>
  The search for a common ancestor. The loop ends only if the graph lets it, so not
  returning is the value \<open>None\<close>; the vector is a stack whose top is its last element.
\<close>

partial_function (option) ancestor_loop ::
    "'g graph_lib \<Rightarrow> ('g, 'l) scope_graph \<Rightarrow> scope_id \<Rightarrow> scope_id list
     \<Rightarrow> (unit, scope_id) result option" where
  "ancestor_loop lib sg common uncovered =
     (if uncovered = [] then Some (Inr common)
      else
        (let scope = last uncovered;
             uncovered = butlast uncovered
         in if \<not> gl_has_path lib (sg_graph sg) (scope_index common) (scope_index scope) then
              (case gl_incoming lib (sg_graph sg) (scope_index common) of
                 [] \<Rightarrow> Some (Inl (Panicked ''called `Option::unwrap()` on a `None` value''))
               | p # ps \<Rightarrow>
                   if ScopeId p = sg_root sg then Some (Inr (ScopeId p))
                   else ancestor_loop lib sg (ScopeId p) (uncovered @ [scope]))
            else ancestor_loop lib sg common uncovered))"

definition find_common_ancestor :: "'g graph_lib \<Rightarrow> ('g, 'l) scope_graph \<Rightarrow> scope_id list
    \<Rightarrow> (unit, scope_id) result option" where
  "find_common_ancestor lib sg ids =
     (case ids of
        [] \<Rightarrow> Some (Inl (Panicked ''assertion failed: !scope_ids.is_empty()''))
      | i # is' \<Rightarrow> ancestor_loop lib sg i ids)"

section \<open>The graph as lists\<close>

record list_graph =
  lg_nodes :: "nat list"
  lg_edges :: "(nat \<times> nat) list"

definition lg_incoming :: "list_graph \<Rightarrow> nat \<Rightarrow> nat list" where
  "lg_incoming g b = map fst (filter (\<lambda>e. snd e = b) (lg_edges g))"

definition lg_outgoing :: "list_graph \<Rightarrow> nat \<Rightarrow> nat list" where
  "lg_outgoing g a = map snd (filter (\<lambda>e. fst e = a) (lg_edges g))"

text \<open>What is reached from a node in at most \<open>n\<close> steps.\<close>

fun reach_steps :: "(nat \<times> nat) list \<Rightarrow> nat \<Rightarrow> nat list \<Rightarrow> nat list" where
  "reach_steps es 0 xs = xs"
| "reach_steps es (Suc n) xs =
     reach_steps es n (remdups (xs @ map snd (filter (\<lambda>e. fst e \<in> set xs) es)))"

definition list_graph_lib :: "list_graph graph_lib" where
  "list_graph_lib =
     \<lparr>gl_new = \<lparr>lg_nodes = [], lg_edges = []\<rparr>,
      gl_add_node = (\<lambda>n g. g\<lparr>lg_nodes := List.insert n (lg_nodes g)\<rparr>),
      gl_add_edge = (\<lambda>a b g. g\<lparr>lg_nodes := List.insert a (List.insert b (lg_nodes g)),
                               lg_edges := List.insert (a, b) (lg_edges g)\<rparr>),
      gl_node_identifiers = lg_nodes,
      gl_incoming = lg_incoming,
      gl_outgoing = lg_outgoing,
      gl_has_path = (\<lambda>g x y. y \<in> set (reach_steps (lg_edges g) (length (lg_edges g)) [x])),
      gl_dfs_reversed = (\<lambda>g x.
        reach_steps (map (\<lambda>(a, b). (b, a)) (lg_edges g)) (length (lg_edges g)) [x])\<rparr>"

end
