(* ===== verification/Scope_Graph_Properties.thy ===== *)
theory Scope_Graph_Properties
  imports Scope_Graph
begin

text \<open>
  The list implementation keeps the promises of the graph interface; the shape of the scope graph
  that a builder produces, scopes as a partial order, and the search for a common ancestor:
  it ends, it does not panic, and it finds the nearest one among scopes other than the
  application state's.
\<close>

section \<open>The list graph\<close>

lemma incoming_edges: "set (gl_incoming lib g b) = {a. (a, b) \<in> graph_edges lib g}"
  by (simp add: graph_edges_def)

lemma graph_edges_list: "graph_edges list_graph_lib g = set (lg_edges g)"
  by (auto simp: graph_edges_def list_graph_lib_def lg_incoming_def image_iff)

lemma relpow_Suc_E: "E ^^ Suc k = E O E ^^ k"
  by (metis relpow_commute relpow.simps(2))

lemma reach_steps_set:
  "set (reach_steps es n xs) = {y. \<exists>x \<in> set xs. \<exists>k \<le> n. (x, y) \<in> set es ^^ k}"
proof (induction n arbitrary: xs)
  case 0
  then show ?case by auto
next
  case (Suc n)
  let ?E = "set es"
  have next_set: "set (remdups (xs @ map snd (filter (\<lambda>e. fst e \<in> set xs) es))) = set xs \<union> ?E `` set xs"
    by force
  have step: "(\<exists>k \<le> n. (x, y) \<in> ?E ^^ k) \<or> (\<exists>z. (x, z) \<in> ?E \<and> (\<exists>k \<le> n. (z, y) \<in> ?E ^^ k))
      \<longleftrightarrow> (\<exists>k \<le> Suc n. (x, y) \<in> ?E ^^ k)" for x y
  proof
    assume "(\<exists>k \<le> n. (x, y) \<in> ?E ^^ k) \<or> (\<exists>z. (x, z) \<in> ?E \<and> (\<exists>k \<le> n. (z, y) \<in> ?E ^^ k))"
    then show "\<exists>k \<le> Suc n. (x, y) \<in> ?E ^^ k"
      by (metis Suc_le_mono le_SucI relcomp.relcompI relpow_Suc_E)
  next
    assume "\<exists>k \<le> Suc n. (x, y) \<in> ?E ^^ k"
    then obtain k where k: "k \<le> Suc n" "(x, y) \<in> ?E ^^ k" by blast
    show "(\<exists>k \<le> n. (x, y) \<in> ?E ^^ k) \<or> (\<exists>z. (x, z) \<in> ?E \<and> (\<exists>k \<le> n. (z, y) \<in> ?E ^^ k))"
    proof (cases k)
      case 0
      with k show ?thesis by auto
    next
      case (Suc m)
      with k show ?thesis by (metis Suc_le_mono relcomp.cases relpow_Suc_E Pair_inject)
    qed
  qed
  have "y \<in> set (reach_steps es (Suc n) xs) \<longleftrightarrow> (\<exists>x \<in> set xs.
      (\<exists>k \<le> n. (x, y) \<in> ?E ^^ k) \<or> (\<exists>z. (x, z) \<in> ?E \<and> (\<exists>k \<le> n. (z, y) \<in> ?E ^^ k)))" for y
    unfolding reach_steps.simps Suc next_set by blast
  then show ?case using step by auto
qed

lemma reach_steps_rtrancl:
  "set (reach_steps es (length es) [x]) = {y. (x, y) \<in> (set es)\<^sup>*}"
proof -
  have "(x, y) \<in> (set es)\<^sup>* \<longleftrightarrow> (\<exists>k \<le> length es. (x, y) \<in> set es ^^ k)" for y
  proof
    assume "(x, y) \<in> (set es)\<^sup>*"
    then obtain k where "k \<le> card (set es)" "(x, y) \<in> set es ^^ k"
      by (auto simp: rtrancl_finite_eq_relpow)
    then show "\<exists>k \<le> length es. (x, y) \<in> set es ^^ k" using card_length le_trans by blast
  qed (auto intro: relpow_imp_rtrancl)
  then show ?thesis by (simp add: reach_steps_set)
qed

lemma list_graph_nodes:
  "set (gl_node_identifiers list_graph_lib (gl_add_node list_graph_lib n g)) =
     insert n (set (gl_node_identifiers list_graph_lib g))"
  "set (gl_node_identifiers list_graph_lib (gl_add_edge list_graph_lib a b g)) =
     insert a (insert b (set (gl_node_identifiers list_graph_lib g)))"
  "set (gl_node_identifiers list_graph_lib (gl_new list_graph_lib)) = {}"
  by (auto simp: list_graph_lib_def)

lemma list_graph_edges:
  "set (lg_edges (gl_new list_graph_lib)) = {}"
  "set (lg_edges (gl_add_node list_graph_lib n g)) = set (lg_edges g)"
  "set (lg_edges (gl_add_edge list_graph_lib a b g)) = insert (a, b) (set (lg_edges g))"
  "set (gl_outgoing list_graph_lib g x) = {y. (x, y) \<in> set (lg_edges g)}"
  by (auto simp: list_graph_lib_def lg_outgoing_def image_iff)

lemma list_graph_search:
  "gl_has_path list_graph_lib g x y \<longleftrightarrow> (x, y) \<in> (set (lg_edges g))\<^sup>*"
  "set (gl_dfs_reversed list_graph_lib g x) = {y. (y, x) \<in> (set (lg_edges g))\<^sup>*}"
proof -
  show "gl_has_path list_graph_lib g x y \<longleftrightarrow> (x, y) \<in> (set (lg_edges g))\<^sup>*"
    by (simp add: list_graph_lib_def reach_steps_rtrancl)
  let ?es = "map (\<lambda>(a, b). (b, a)) (lg_edges g)"
  have "set ?es = (set (lg_edges g))\<inverse>" by auto
  then have "{y. (x, y) \<in> (set ?es)\<^sup>*} = {y. (y, x) \<in> (set (lg_edges g))\<^sup>*}"
    by (simp add: rtrancl_converse)
  then show "set (gl_dfs_reversed list_graph_lib g x) = {y. (y, x) \<in> (set (lg_edges g))\<^sup>*}"
    using reach_steps_rtrancl [of ?es x] by (simp add: list_graph_lib_def)
qed

interpretation lg: digraph list_graph_lib
proof unfold_locales
qed (auto simp: graph_edges_list list_graph_nodes list_graph_edges list_graph_search)

section \<open>Trees of scopes\<close>

text \<open>Nodes are numbered in the order of their creation; every node but the root has one parent,
  which was there before.\<close>

definition scope_tree :: "(nat \<times> nat) set \<Rightarrow> nat \<Rightarrow> bool" where
  "scope_tree E n \<longleftrightarrow> 0 < n \<and> (\<forall>a b. (a, b) \<in> E \<longrightarrow> a < b \<and> b < n)
     \<and> (\<forall>b. 0 < b \<longrightarrow> b < n \<longrightarrow> (\<exists>!a. (a, b) \<in> E))"

lemma scope_tree_add:
  assumes "scope_tree E n" and "p < n"
  shows "scope_tree (insert (p, n) E) (Suc n)"
proof -
  have no: "(a, n) \<notin> E" for a using assms(1) by (auto simp: scope_tree_def)
  have "\<exists>!a. (a, b) \<in> insert (p, n) E" if "0 < b" "b < Suc n" for b
  proof (cases "b = n")
    case True
    then show ?thesis using no by auto
  next
    case False
    with that assms(1) show ?thesis by (auto simp: scope_tree_def)
  qed
  then show ?thesis using assms by (auto simp: scope_tree_def intro: less_SucI)
qed

lemma scope_tree_root: "scope_tree E n \<Longrightarrow> b < n \<Longrightarrow> (0, b) \<in> E\<^sup>*"
proof (induction b rule: less_induct)
  case (less b)
  show ?case
  proof (cases "b = 0")
    case False
    then obtain a where "(a, b) \<in> E" "a < b" using less.prems unfolding scope_tree_def by blast
    with less show ?thesis by (meson less_trans rtrancl.rtrancl_into_rtrancl)
  qed simp
qed

definition leaf_parents :: "(nat \<times> nat) set \<Rightarrow> nat set" where
  "leaf_parents E = {p. \<exists>c. (p, c) \<in> E \<and> (\<forall>d. (c, d) \<notin> E)}"

text \<open>The edges of the finished graph.\<close>

definition with_state :: "(nat \<times> nat) set \<Rightarrow> nat \<Rightarrow> (nat \<times> nat) set" where
  "with_state E n = E \<union> leaf_parents E \<times> {n}"

lemma scope_tree_leaf_parents:
  assumes "scope_tree E n"
  shows "p \<in> leaf_parents E \<Longrightarrow> p < n" and "1 < n \<Longrightarrow> leaf_parents E \<noteq> {}"
proof -
  show "p \<in> leaf_parents E \<Longrightarrow> p < n"
    using assms unfolding leaf_parents_def scope_tree_def by (blast intro: less_trans)
  assume n: "1 < n"
  then obtain p where "(p, n - 1) \<in> E" using assms by (auto simp: scope_tree_def dest: spec [of _ "n - 1"])
  moreover have "(n - 1, d) \<notin> E" for d
  proof
    assume "(n - 1, d) \<in> E"
    with assms have "n - 1 < d" "d < n" unfolding scope_tree_def by blast+
    then show False by simp
  qed
  ultimately show "leaf_parents E \<noteq> {}" by (auto simp: leaf_parents_def)
qed

lemma with_state_less: "scope_tree E n \<Longrightarrow> (a, b) \<in> with_state E n \<Longrightarrow> a < b \<and> b \<le> n \<and> a < n"
proof -
  assume t: "scope_tree E n" and e: "(a, b) \<in> with_state E n"
  show ?thesis
  proof (cases "(a, b) \<in> E")
    case True
    with t have "a < b" "b < n" by (auto simp: scope_tree_def)
    then show ?thesis by simp
  next
    case False
    with e have "a \<in> leaf_parents E" "b = n" by (auto simp: with_state_def)
    with scope_tree_leaf_parents(1) [OF t] show ?thesis by auto
  qed
qed

lemma with_state_parent: "scope_tree E n \<Longrightarrow> b < n \<Longrightarrow> (a, b) \<in> with_state E n \<longleftrightarrow> (a, b) \<in> E"
  by (auto simp: with_state_def)

lemma with_state_le: "scope_tree E n \<Longrightarrow> (a, b) \<in> (with_state E n)\<^sup>* \<Longrightarrow> a \<le> b"
  by (rotate_tac, induction rule: rtrancl.induct) (auto dest: with_state_less)

lemma with_state_mono: "(a, b) \<in> E\<^sup>* \<Longrightarrow> (a, b) \<in> (with_state E n)\<^sup>*"
  using rtrancl_mono [of E "with_state E n"] by (auto simp: with_state_def)

lemma with_state_root:
  assumes "scope_tree E n" and "1 < n" and "b \<le> n"
  shows "(0, b) \<in> (with_state E n)\<^sup>*"
proof (cases "b < n")
  case True
  then show ?thesis using scope_tree_root [OF assms(1)] with_state_mono by blast
next
  case False
  then have b: "b = n" using assms(3) by simp
  obtain p where p: "p \<in> leaf_parents E" using scope_tree_leaf_parents(2) [OF assms(1,2)] by blast
  then have "(0, p) \<in> (with_state E n)\<^sup>*"
    using scope_tree_leaf_parents(1) [OF assms(1)] scope_tree_root [OF assms(1)] with_state_mono by blast
  moreover have "(p, n) \<in> with_state E n" using p by (simp add: with_state_def)
  ultimately show ?thesis using b by simp
qed

section \<open>What a builder produces\<close>

inductive scope_built :: "'g graph_lib \<Rightarrow> ('g, 'l) scope_graph_builder \<Rightarrow> bool" for lib where
  built_new: "scope_built lib (builder_new lib l)"
| built_add: "scope_built lib b \<Longrightarrow> scope_index p < sb_next_node_id b \<Longrightarrow>
    scope_built lib (snd (add_scope lib p loc b))"

abbreviation builder_edges :: "'g graph_lib \<Rightarrow> ('g, 'l) scope_graph_builder \<Rightarrow> (nat \<times> nat) set" where
  "builder_edges lib b \<equiv> graph_edges lib (sb_graph b)"

context digraph
begin

lemma builder_new_edges: "builder_edges lib (builder_new lib l) = {}"
  by (simp add: builder_new_def edges_add_node edges_new Let_def)

lemma add_scope_edges:
  "builder_edges lib (snd (add_scope lib p loc b)) =
     insert (scope_index p, sb_next_node_id b) (builder_edges lib b)"
  "sb_next_node_id (snd (add_scope lib p loc b)) = Suc (sb_next_node_id b)"
  "set (gl_node_identifiers lib (sb_graph (snd (add_scope lib p loc b)))) =
     insert (scope_index p) (insert (sb_next_node_id b) (set (gl_node_identifiers lib (sb_graph b))))"
  by (auto simp: add_scope_def edges_add_edge edges_add_node nodes_add_edge nodes_add_node Let_def
      split: option.splits)

lemma built_tree:
  "scope_built lib b \<Longrightarrow> scope_tree (builder_edges lib b) (sb_next_node_id b)
     \<and> set (gl_node_identifiers lib (sb_graph b)) = {0..<sb_next_node_id b} \<and> sb_root b = scope_root"
proof (induction rule: scope_built.induct)
  case (built_new l)
  then show ?case
    by (auto simp: builder_new_def edges_add_node edges_new nodes_add_node nodes_new Let_def
        scope_tree_def scope_root_def)
next
  case (built_add b p loc)
  have "sb_root (snd (add_scope lib p loc b)) = sb_root b"
    by (simp add: add_scope_def Let_def split: option.splits)
  moreover have "{0..<Suc (sb_next_node_id b)} =
      insert (scope_index p) (insert (sb_next_node_id b) {0..<sb_next_node_id b})"
    using built_add.hyps(2) by auto
  ultimately show ?case
    using built_add scope_tree_add [of "builder_edges lib b" "sb_next_node_id b" "scope_index p"]
    by (simp add: add_scope_edges)
qed

lemma leaf_parent_ids_set:
  assumes "scope_built lib b"
  shows "set (leaf_parent_ids lib (sb_graph b)) = leaf_parents (builder_edges lib b)"
proof -
  let ?E = "builder_edges lib b"
  have inc: "set (gl_incoming lib (sb_graph b) y) = {x. (x, y) \<in> ?E}" for y
    by (simp add: graph_edges_def)
  have nodes: "c \<in> set (gl_node_identifiers lib (sb_graph b))" if "(p, c) \<in> ?E" for p c
    using built_tree [OF assms] that by (auto simp: scope_tree_def)
  have leaf: "length (gl_outgoing lib (sb_graph b) c) = 0 \<longleftrightarrow> (\<forall>d. (c, d) \<notin> ?E)" for c
    using outgoing_edges [of "sb_graph b" c] by auto
  show ?thesis
  proof -
    have "set (leaf_parent_ids lib (sb_graph b)) = set (concat (map (gl_incoming lib (sb_graph b))
       (filter (\<lambda>i. length (gl_outgoing lib (sb_graph b) i) = 0) (gl_node_identifiers lib (sb_graph b)))))"
      by (simp only: leaf_parent_ids_def set_sorted_list_of_set finite_set)
    also have "\<dots> = leaf_parents ?E"
      using nodes leaf by (auto simp: leaf_parents_def inc)
    finally show ?thesis .
  qed
qed

lemma fold_add_edges:
  "graph_edges lib (fold (\<lambda>i g. gl_add_edge lib i n g) ps g) = graph_edges lib g \<union> set ps \<times> {n}"
  by (induction ps arbitrary: g) (auto simp: edges_add_edge)

lemma build_edges:
  assumes "scope_built lib b"
  shows "graph_edges lib (sg_graph (scope_build lib b)) = with_state (builder_edges lib b) (sb_next_node_id b)"
  by (simp add: scope_build_def Let_def fold_add_edges edges_add_node leaf_parent_ids_set [OF assms]
      with_state_def)

lemma build_simps:
  "sg_application_state (scope_build lib b) = ScopeId (sb_next_node_id b)"
  "sg_root (scope_build lib b) = sb_root b"
  by (simp_all add: scope_build_def Let_def)

lemma descendant_edges:
  "is_descendant_of lib x y sg \<longleftrightarrow> (scope_index y, scope_index x) \<in> (graph_edges lib (sg_graph sg))\<^sup>*"
  by (simp add: is_descendant_of_def dfs_reversed_edges)

lemma parent_edges:
  "p \<in> direct_parent_ids lib x sg \<longleftrightarrow> (scope_index p, scope_index x) \<in> graph_edges lib (sg_graph sg)"
  by (cases p) (auto simp: direct_parent_ids_def graph_edges_def)

lemma child_edges:
  "c \<in> direct_children_ids lib x sg \<longleftrightarrow> (scope_index x, scope_index c) \<in> graph_edges lib (sg_graph sg)"
  by (cases c) (auto simp: direct_children_ids_def outgoing_edges)

text \<open>The search: it goes up from a scope that every uncovered scope still has to be below of.\<close>

lemma ancestor_loop_correct:
  assumes t: "scope_tree E n" "1 < n" "graph_edges lib (sg_graph sg) = with_state E n"
    and root: "sg_root sg = scope_root"
  shows "scope_index a \<le> n \<Longrightarrow> \<forall>i \<in> set ids. scope_index i \<le> n \<Longrightarrow>
    \<exists>r. ancestor_loop lib sg a ids = Some (Inr r)
      \<and> (scope_index r, scope_index a) \<in> (with_state E n)\<^sup>*
      \<and> (\<forall>i \<in> set ids. (scope_index r, scope_index i) \<in> (with_state E n)\<^sup>*)
      \<and> (scope_index a < n \<longrightarrow>
          (\<forall>c. (c, scope_index a) \<in> (with_state E n)\<^sup>* \<longrightarrow>
               (\<forall>i \<in> set ids. (c, scope_index i) \<in> (with_state E n)\<^sup>*) \<longrightarrow>
               (c, scope_index r) \<in> (with_state E n)\<^sup>*))"
proof (induction "scope_index a + length ids" arbitrary: a ids rule: less_induct)
  case less
  let ?R = "(with_state E n)\<^sup>*"
  note unfold = ancestor_loop.simps [of lib sg a ids]
  show ?case
  proof (cases "ids = []")
    case True
    then have "ancestor_loop lib sg a ids = Some (Inr a)" by (subst unfold) simp
    then show ?thesis using True by auto
  next
    case False
    let ?x = "last ids"
    have ids: "ids = butlast ids @ [?x]" using False by simp
    have x: "scope_index ?x \<le> n" using less.prems(2) False by simp
    show ?thesis
    proof (cases "(scope_index a, scope_index ?x) \<in> ?R")
      case True
      have l: "scope_index a + length (butlast ids) < scope_index a + length ids" using False by simp
      have "\<forall>i \<in> set (butlast ids). scope_index i \<le> n" using less.prems(2) by (auto dest: in_set_butlastD)
      from less.hyps [OF l less.prems(1) this] obtain r where
        r: "ancestor_loop lib sg a (butlast ids) = Some (Inr r)" "(scope_index r, scope_index a) \<in> ?R"
          "\<forall>i \<in> set (butlast ids). (scope_index r, scope_index i) \<in> ?R"
        and best: "scope_index a < n \<longrightarrow> (\<forall>c. (c, scope_index a) \<in> ?R \<longrightarrow>
          (\<forall>i \<in> set (butlast ids). (c, scope_index i) \<in> ?R) \<longrightarrow> (c, scope_index r) \<in> ?R)"
        by blast
      have "ancestor_loop lib sg a ids = Some (Inr r)"
        using r(1) True False by (simp add: unfold has_path_edges t(3) Let_def)
      moreover have "(scope_index r, scope_index ?x) \<in> ?R" using r(2) True by (rule rtrancl_trans)
      then have "\<forall>i \<in> set ids. (scope_index r, scope_index i) \<in> ?R"
        using r(3) by (subst ids) auto
      moreover have "set (butlast ids) \<subseteq> set ids" by (auto dest: in_set_butlastD)
      ultimately show ?thesis using r(2) best by blast
    next
      case below: False
      have a0: "scope_index a \<noteq> 0" using below with_state_root [OF t(1,2) x] by metis
      have "(0, scope_index a) \<in> ?R" by (rule with_state_root [OF t(1,2) less.prems(1)])
      then obtain q where "(q, scope_index a) \<in> with_state E n"
        using a0 by (metis rtranclE)
      then have "set (gl_incoming lib (sg_graph sg) (scope_index a)) \<noteq> {}"
        using t(3) incoming_edges [of lib "sg_graph sg" "scope_index a"] by auto
      then obtain p ps where inc: "gl_incoming lib (sg_graph sg) (scope_index a) = p # ps"
        by (cases "gl_incoming lib (sg_graph sg) (scope_index a)") auto
      then have pa: "(p, scope_index a) \<in> with_state E n"
        using t(3) [symmetric] by (simp add: graph_edges_def)
      then have p: "p < scope_index a" "p < n" using with_state_less [OF t(1)] by auto
      have unique: "(c, p) \<in> ?R" if c: "scope_index a < n" "(c, scope_index a) \<in> ?R" "c \<noteq> scope_index a" for c
      proof -
        obtain q where q: "(c, q) \<in> ?R" "(q, scope_index a) \<in> with_state E n"
          using c(2,3) by (metis rtranclE)
        have "(q, scope_index a) \<in> E" "(p, scope_index a) \<in> E"
          using q(2) pa with_state_parent [OF t(1) c(1)] by auto
        then have "q = p" using t(1) a0 c(1) unfolding scope_tree_def by blast
        with q show ?thesis by simp
      qed
      have up: "(c, p) \<in> ?R" if "scope_index a < n" "(c, scope_index a) \<in> ?R"
        "\<forall>i \<in> set ids. (c, scope_index i) \<in> ?R" for c
        using that unique [of c] below False by (metis last_in_set)
      show ?thesis
      proof (cases "ScopeId p = sg_root sg")
        case True
        then have "p = 0" by (simp add: root scope_root_def)
        moreover have "ancestor_loop lib sg a ids = Some (Inr (ScopeId p))"
          using below False inc True by (simp add: unfold has_path_edges t(3) Let_def)
        ultimately show ?thesis
          using with_state_root [OF t(1,2)] less.prems up by auto
      next
        case False
        have "scope_index (ScopeId p) + length ids < scope_index a + length ids" using p by simp
        from less.hyps [OF this _ less.prems(2)] p obtain r where
          r: "ancestor_loop lib sg (ScopeId p) ids = Some (Inr r)" "(scope_index r, p) \<in> ?R"
            "\<forall>i \<in> set ids. (scope_index r, scope_index i) \<in> ?R"
          and best: "\<forall>c. (c, p) \<in> ?R \<longrightarrow> (\<forall>i \<in> set ids. (c, scope_index i) \<in> ?R) \<longrightarrow> (c, scope_index r) \<in> ?R"
          by auto
        have "ancestor_loop lib sg a ids = Some (Inr r)"
          using below \<open>ids \<noteq> []\<close> inc False r(1) by (simp add: unfold has_path_edges t(3) Let_def)
        moreover have "(scope_index r, scope_index a) \<in> ?R" using r(2) pa by (rule rtrancl_into_rtrancl)
        ultimately show ?thesis using r(3) best up by blast
      qed
    qed
  qed
qed

end

section \<open>Properties of scope graphs\<close>

lemma scope_graph_facts:
  assumes "digraph lib" and "scope_built lib b"
  shows "scope_tree (builder_edges lib b) (sb_next_node_id b)"
    and "graph_edges lib (sg_graph (scope_build lib b)) = with_state (builder_edges lib b) (sb_next_node_id b)"
    and "sg_root (scope_build lib b) = scope_root"
    and "sg_application_state (scope_build lib b) = ScopeId (sb_next_node_id b)"
  using digraph.built_tree [OF assms] digraph.build_edges [OF assms] digraph.build_simps [OF assms(1), of b]
  by simp_all

text \<open>C17: In a finished scope graph with \<open>n\<close> scopes besides the one of the application
  state, the root has no parent, every other scope has exactly one, created before it, and
  the scope of the application state has no child and has as parents exactly the scopes
  that have another child without children of its own.\<close>

theorem scope_graph_shape:
  assumes "digraph lib" and "scope_built lib b"
  shows "direct_parent_ids lib (sg_root (scope_build lib b)) (scope_build lib b) = {}
    \<and> (\<forall>i. 0 < i \<and> i < sb_next_node_id b \<longrightarrow>
        (\<exists>p < i. direct_parent_ids lib (ScopeId i) (scope_build lib b) = {ScopeId p}))
    \<and> direct_children_ids lib (sg_application_state (scope_build lib b)) (scope_build lib b) = {}
    \<and> direct_parent_ids lib (sg_application_state (scope_build lib b)) (scope_build lib b) =
        {p. \<exists>c. c \<noteq> sg_application_state (scope_build lib b)
             \<and> c \<in> direct_children_ids lib p (scope_build lib b)
             \<and> direct_children_ids lib c (scope_build lib b) = {}}"
proof -
  let ?E = "builder_edges lib b" and ?n = "sb_next_node_id b" and ?sg = "scope_build lib b"
  note f = scope_graph_facts [OF assms]
  note p = digraph.parent_edges [OF assms(1)] and c = digraph.child_edges [OF assms(1)]
  have lt: "a < i" if "(a, i) \<in> with_state ?E ?n" for a i using with_state_less [OF f(1) that] by simp
  have root: "direct_parent_ids lib (sg_root ?sg) ?sg = {}"
  proof -
    have "q \<notin> direct_parent_ids lib (sg_root ?sg) ?sg" for q
      using lt [of "scope_index q" 0] by (auto simp: p f(2,3) scope_root_def)
    then show ?thesis by blast
  qed
  have one: "\<exists>q < i. direct_parent_ids lib (ScopeId i) ?sg = {ScopeId q}" if i: "0 < i" "i < ?n" for i
  proof -
    obtain q where q: "(q, i) \<in> ?E" "\<And>r. (r, i) \<in> ?E \<Longrightarrow> r = q"
      using f(1) i unfolding scope_tree_def by blast
    have "x \<in> direct_parent_ids lib (ScopeId i) ?sg \<longleftrightarrow> x = ScopeId q" for x
    proof -
      have "(scope_index x, i) \<in> ?E \<longleftrightarrow> scope_index x = q" using q by blast
      then show ?thesis
        using with_state_parent [OF f(1) i(2)] by (cases x) (simp add: p f(2))
    qed
    moreover have "q < i" using f(1) q(1) unfolding scope_tree_def by blast
    ultimately show ?thesis by blast
  qed
  have state_child: "direct_children_ids lib (sg_application_state ?sg) ?sg = {}"
    using with_state_less [OF f(1), of ?n] by (auto simp: c f(2,4))
  have leaf: "direct_children_ids lib (ScopeId i) ?sg = {} \<longleftrightarrow> (\<forall>d. (i, d) \<notin> with_state ?E ?n)" for i
  proof -
    have "direct_children_ids lib (ScopeId i) ?sg = {} \<longleftrightarrow> (\<forall>d. ScopeId d \<notin> direct_children_ids lib (ScopeId i) ?sg)"
      by (metis all_not_in_conv scope_id.exhaust)
    then show ?thesis by (simp add: c f(2))
  qed
  have leaves: "(q, ?n) \<in> with_state ?E ?n \<longleftrightarrow>
      (\<exists>i. i \<noteq> ?n \<and> (q, i) \<in> with_state ?E ?n \<and> (\<forall>d. (i, d) \<notin> with_state ?E ?n))" for q
  proof -
    have "(\<forall>d. (i, d) \<notin> with_state ?E ?n) \<longleftrightarrow> (\<forall>d. (i, d) \<notin> ?E)" for i
      by (auto simp: with_state_def leaf_parents_def)
    moreover have "(q, i) \<in> with_state ?E ?n \<longleftrightarrow> (q, i) \<in> ?E" if "i \<noteq> ?n" for i
      using that by (auto simp: with_state_def)
    moreover have "(q, ?n) \<notin> ?E" "\<And>i. (q, i) \<in> ?E \<Longrightarrow> i \<noteq> ?n"
      using f(1) unfolding scope_tree_def by blast+
    ultimately show ?thesis
      by (auto simp: with_state_def leaf_parents_def)
  qed
  have "direct_parent_ids lib (sg_application_state ?sg) ?sg =
      {p. \<exists>c. c \<noteq> sg_application_state ?sg \<and> c \<in> direct_children_ids lib p ?sg
             \<and> direct_children_ids lib c ?sg = {}}"
  proof -
    have "x \<in> direct_parent_ids lib (sg_application_state ?sg) ?sg \<longleftrightarrow>
        (\<exists>i. ScopeId i \<noteq> sg_application_state ?sg \<and> ScopeId i \<in> direct_children_ids lib x ?sg
           \<and> direct_children_ids lib (ScopeId i) ?sg = {})" for x
      using leaves [of "scope_index x"] by (simp add: p c f(2,4) leaf)
    then show ?thesis by (auto; metis scope_id.exhaust)
  qed
  with root one state_child show ?thesis by blast
qed

text \<open>Theorem: Being a descendant is a partial order in which every scope is below the root, as soon
  as there is a scope besides the root, and below a different scope exactly if one of its direct
  parents is below it or equal to it.\<close>

theorem descendants_are_ordered:
  assumes "digraph lib" and "scope_built lib b" and "1 < sb_next_node_id b" and "sg = scope_build lib b"
  shows "is_descendant_of lib x x sg
    \<and> (is_descendant_of lib x y sg \<longrightarrow> is_descendant_of lib y z sg \<longrightarrow> is_descendant_of lib x z sg)
    \<and> (is_descendant_of lib x y sg \<longrightarrow> is_descendant_of lib y x sg \<longrightarrow> x = y)
    \<and> (x \<noteq> y \<longrightarrow> is_descendant_of lib x y sg \<longleftrightarrow>
         (\<exists>p \<in> direct_parent_ids lib x sg. is_descendant_of lib p y sg))
    \<and> (scope_index x \<le> sb_next_node_id b \<longrightarrow> is_descendant_of lib x (sg_root sg) sg)"
proof -
  note f = scope_graph_facts [OF assms(1,2)]
  let ?W = "with_state (builder_edges lib b) (sb_next_node_id b)"
  have d: "is_descendant_of lib u v sg \<longleftrightarrow> (scope_index v, scope_index u) \<in> ?W\<^sup>*" for u v
    by (simp add: digraph.descendant_edges [OF assms(1)] f(2) assms(4))
  have p: "u \<in> direct_parent_ids lib v sg \<longleftrightarrow> (scope_index u, scope_index v) \<in> ?W" for u v
    by (simp add: digraph.parent_edges [OF assms(1)] f(2) assms(4))
  have anti: "u = v" if "(scope_index u, scope_index v) \<in> ?W\<^sup>*" "(scope_index v, scope_index u) \<in> ?W\<^sup>*" for u v
    using with_state_le [OF f(1) that(1)] with_state_le [OF f(1) that(2)] by (cases u; cases v) simp
  have step: "x \<noteq> y \<longrightarrow> is_descendant_of lib x y sg \<longleftrightarrow>
      (\<exists>q \<in> direct_parent_ids lib x sg. is_descendant_of lib q y sg)"
  proof (intro impI iffI)
    assume "x \<noteq> y" "is_descendant_of lib x y sg"
    then have "(scope_index y, scope_index x) \<in> ?W\<^sup>*" "scope_index y \<noteq> scope_index x"
      by (auto simp: d scope_id.expand)
    then obtain q where "(scope_index y, q) \<in> ?W\<^sup>*" "(q, scope_index x) \<in> ?W" by (metis rtranclE)
    then show "\<exists>q \<in> direct_parent_ids lib x sg. is_descendant_of lib q y sg"
      by (intro bexI [of _ "ScopeId q"]) (simp_all add: d p)
  qed (auto simp: d p intro: rtrancl_into_rtrancl)
  have r: "sg_root sg = ScopeId 0" using f(3) by (simp add: assms(4) scope_root_def)
  have below_root: "scope_index x \<le> sb_next_node_id b \<longrightarrow> is_descendant_of lib x (sg_root sg) sg"
    using with_state_root [OF f(1) assms(3)] by (simp add: d r)
  show ?thesis
    using step anti [of y x] below_root by (auto simp: d intro: rtrancl_trans)
qed

lemma find_common_ancestor_correct:
  assumes "digraph lib" and "scope_built lib b" and "1 < sb_next_node_id b"
    and "sg = scope_build lib b" and "\<forall>i \<in> set ids. scope_index i \<le> sb_next_node_id b" and "ids \<noteq> []"
  shows "\<exists>r. find_common_ancestor lib sg ids = Some (Inr r)
    \<and> (\<forall>i \<in> set ids. is_descendant_of lib i r sg)
    \<and> (hd ids \<noteq> sg_application_state sg \<longrightarrow>
        (\<forall>c. (\<forall>i \<in> set ids. is_descendant_of lib i c sg) \<longrightarrow> is_descendant_of lib r c sg))"
proof -
  note f = scope_graph_facts [OF assms(1,2)]
  obtain a as where ids: "ids = a # as" using assms(6) by (cases ids) auto
  have a: "scope_index a \<le> sb_next_node_id b" using assms(5) ids by simp
  have state: "scope_index a < sb_next_node_id b" if "a \<noteq> sg_application_state sg"
    using that a by (cases a) (simp add: f(4) assms(4))
  have "sg_root sg = scope_root" "graph_edges lib (sg_graph sg) =
      with_state (builder_edges lib b) (sb_next_node_id b)"
    using f by (simp_all add: assms(4))
  from digraph.ancestor_loop_correct [OF assms(1) f(1) assms(3) this(2,1) a assms(5)]
  show ?thesis
    using state by (auto simp: find_common_ancestor_def ids digraph.descendant_edges [OF assms(1)]
        \<open>graph_edges lib (sg_graph sg) = _\<close>)
qed


text \<open>Theorem: Without a scope besides the root, the application state's scope is not below the root, and
  the search for a common ancestor of the two panics.\<close>

theorem lonely_root_has_no_common_ancestor:
  assumes "digraph lib" and "sg = scope_build lib (builder_new lib location)"
  shows "\<not> is_descendant_of lib (sg_application_state sg) (sg_root sg) sg
    \<and> find_common_ancestor lib sg [sg_root sg, sg_application_state sg] =
        Some (Inl (Panicked ''called `Option::unwrap()` on a `None` value''))"
proof -
  have b: "scope_built lib (builder_new lib location)" by (rule built_new)
  note f = scope_graph_facts [OF assms(1) b]
  have n: "sb_next_node_id (builder_new lib location) = 1" by (simp add: builder_new_def Let_def)
  have e: "graph_edges lib (sg_graph sg) = {}"
    using f(2) digraph.builder_new_edges [OF assms(1), of location]
    by (simp add: assms(2) with_state_def leaf_parents_def)
  then have i: "gl_incoming lib (sg_graph sg) x = []" for x
  proof -
    have "set (gl_incoming lib (sg_graph sg) x) = {}" by (simp add: incoming_edges e)
    then show ?thesis by simp
  qed
  have s: "sg_application_state sg = ScopeId 1" "sg_root sg = ScopeId 0"
    using f(3,4) by (simp_all add: assms(2) n scope_root_def)
  have "find_common_ancestor lib sg [ScopeId 0, ScopeId 1] =
      Some (Inl (Panicked ''called `Option::unwrap()` on a `None` value''))"
    by (simp add: find_common_ancestor_def ancestor_loop.simps i digraph.has_path_edges [OF assms(1)] e)
  then show ?thesis
    by (simp add: s digraph.descendant_edges [OF assms(1)] e)
qed

section \<open>An example\<close>

text \<open>A root with one nested blueprint that has two request handlers.\<close>

definition ex_builder :: "(list_graph, string) scope_graph_builder" where
  "ex_builder =
     snd (add_scope list_graph_lib (ScopeId 1) None
       (snd (add_scope list_graph_lib (ScopeId 1) None
         (snd (add_scope list_graph_lib (ScopeId 0) (Some ''nest'')
           (builder_new list_graph_lib ''root''))))))"

lemma ex_builder_built: "scope_built list_graph_lib ex_builder"
  unfolding ex_builder_def
  by (intro built_add built_new) (simp_all add: lg.add_scope_edges builder_new_def Let_def)

lemma ex_builder_next: "sb_next_node_id ex_builder = 4"
  by (simp add: ex_builder_def lg.add_scope_edges builder_new_def Let_def)

lemmas ex_scope_built = lg.digraph_axioms ex_builder_built

theorem scope_graph_shape_witness:
  "\<exists>p < 3. direct_parent_ids list_graph_lib (ScopeId 3) (scope_build list_graph_lib ex_builder) = {ScopeId p}"
  using scope_graph_shape [OF ex_scope_built] by (simp add: ex_builder_next)

theorem descendants_are_ordered_witness:
  "is_descendant_of list_graph_lib (ScopeId 3) (sg_root (scope_build list_graph_lib ex_builder))
     (scope_build list_graph_lib ex_builder)"
  using descendants_are_ordered [OF ex_scope_built _ refl, of "ScopeId 3"] by (simp add: ex_builder_next)


theorem lonely_root_has_no_common_ancestor_witness:
  "find_common_ancestor list_graph_lib (scope_build list_graph_lib (builder_new list_graph_lib ''root''))
      [ScopeId 0, ScopeId 1] = Some (Inl (Panicked ''called `Option::unwrap()` on a `None` value''))"
  using lonely_root_has_no_common_ancestor [OF lg.digraph_axioms refl, of "''root''"]
  by (simp add: scope_build_def builder_new_def scope_root_def Let_def)

end
