(* ===== verification/Interner.thy ===== *)
theory Interner
  imports Prelude
begin

text \<open>
  The interner (\<^verbatim>\<open>pavexc/src/compiler/interner.rs\<close>): identifiers for values, such
  that equal values have equal identifiers. The arena that stores the values is a data
  structure of another crate: its operations are the record \<open>arena_lib\<close>, and what they
  promise is the locale \<open>arena\<close>; \<open>list_arena\<close> provides them with a list.
\<close>

section \<open>The arena interface\<close>

record ('a, 'i, 't) arena_lib =
  al_new :: 'a
  al_alloc :: "'t \<Rightarrow> 'a \<Rightarrow> 'i \<times> 'a"
  al_index :: "'a \<Rightarrow> 'i \<Rightarrow> 't option"

locale arena =
  fixes lib :: "('a, 'i, 't) arena_lib"
  assumes index_new: "al_index lib (al_new lib) i0 = None"
    and alloc_fresh: "al_alloc lib t1 a1 = (i1, a1') \<Longrightarrow> al_index lib a1 i1 = None"
    and alloc_index: "al_alloc lib t2 a2 = (i2, a2') \<Longrightarrow> al_index lib a2' = (al_index lib a2)(i2 \<mapsto> t2)"

section \<open>The interner\<close>

record ('a, 'i, 't) interner =
  in_arena :: 'a
  in_item2id :: "'t \<rightharpoonup> 'i"

definition interner_new :: "('a, 'i, 't) arena_lib \<Rightarrow> ('a, 'i, 't) interner" where
  "interner_new lib = \<lparr>in_arena = al_new lib, in_item2id = Map.empty\<rparr>"

definition get_or_intern :: "('a, 'i, 't) arena_lib \<Rightarrow> 't \<Rightarrow> ('a, 'i, 't) interner
    \<Rightarrow> 'i \<times> ('a, 'i, 't) interner" where
  "get_or_intern lib v s =
     (case in_item2id s v of
        Some i \<Rightarrow> (i, s)
      | None \<Rightarrow>
          (let (i, a) = al_alloc lib v (in_arena s);
               s = s\<lparr>in_arena := a\<rparr>
           in (i, s\<lparr>in_item2id := (in_item2id s)(v \<mapsto> i)\<rparr>)))"

text \<open>Indexing panics on an identifier or a value that is not there.\<close>

definition interner_index :: "('a, 'i, 't) arena_lib \<Rightarrow> 'i \<Rightarrow> ('a, 'i, 't) interner \<Rightarrow> (unit, 't) result" where
  "interner_index lib i s =
     (case al_index lib (in_arena s) i of
        None \<Rightarrow> Inl (Panicked ''index out of bounds'') | Some v \<Rightarrow> Inr v)"

definition interner_id :: "'t \<Rightarrow> ('a, 'i, 't) interner \<Rightarrow> (unit, 'i) result" where
  "interner_id v s =
     (case in_item2id s v of None \<Rightarrow> Inl (Panicked ''no entry found for key'') | Some i \<Rightarrow> Inr i)"

text \<open>Interning a list of values, from the first to the last.\<close>

fun intern_all :: "('a, 'i, 't) arena_lib \<Rightarrow> 't list \<Rightarrow> ('a, 'i, 't) interner
    \<Rightarrow> 'i list \<times> ('a, 'i, 't) interner" where
  "intern_all lib [] s = ([], s)"
| "intern_all lib (v # vs) s =
     (let (i, s) = get_or_intern lib v s; (is', s) = intern_all lib vs s in (i # is', s))"

section \<open>Invariant\<close>

definition interner_inv :: "('a, 'i, 't) arena_lib \<Rightarrow> ('a, 'i, 't) interner \<Rightarrow> bool" where
  "interner_inv lib s \<longleftrightarrow> (\<forall>v i. in_item2id s v = Some i \<longleftrightarrow> al_index lib (in_arena s) i = Some v)"

context arena
begin

lemma interner_new_inv: "interner_inv lib (interner_new lib)"
  by (simp add: interner_inv_def interner_new_def index_new)

lemma get_or_intern_correct:
  assumes "interner_inv lib s" and "get_or_intern lib v s = (i, s')"
  shows "interner_inv lib s' \<and> in_item2id s' v = Some i
    \<and> (\<forall>w j. in_item2id s w = Some j \<longrightarrow> in_item2id s' w = Some j)"
proof (cases "in_item2id s v")
  case (Some j)
  with assms show ?thesis by (auto simp: get_or_intern_def)
next
  case None
  obtain j a where a: "al_alloc lib v (in_arena s) = (j, a)" by fastforce
  with None assms(2) have s': "i = j" "s' = s\<lparr>in_arena := a, in_item2id := (in_item2id s)(v \<mapsto> j)\<rparr>"
    by (auto simp: get_or_intern_def)
  have "in_item2id s w \<noteq> Some j" for w
    using assms(1) alloc_fresh [OF a] by (simp add: interner_inv_def)
  moreover have "al_index lib (in_arena s) k \<noteq> Some v" for k
    using assms(1) None by (metis interner_inv_def option.distinct(1))
  ultimately show ?thesis
    using assms(1) None alloc_index [OF a] by (auto simp: s' interner_inv_def)
qed

lemma intern_all_correct:
  "interner_inv lib s \<Longrightarrow> intern_all lib vs s = (is', s') \<Longrightarrow>
     interner_inv lib s' \<and> map Some is' = map (in_item2id s') vs
     \<and> (\<forall>w j. in_item2id s w = Some j \<longrightarrow> in_item2id s' w = Some j)"
proof (induction vs arbitrary: s is' s')
  case Nil
  then show ?case by simp
next
  case (Cons v vs)
  obtain i s1 where g: "get_or_intern lib v s = (i, s1)" by fastforce
  obtain js s2 where r: "intern_all lib vs s1 = (js, s2)" by fastforce
  from Cons.prems(2) g r have e: "is' = i # js" "s' = s2" by auto
  from get_or_intern_correct [OF Cons.prems(1) g] Cons.IH [OF _ r] show ?case by (auto simp: e)
qed

end

section \<open>A list as an arena\<close>

definition list_arena :: "('t list, nat, 't) arena_lib" where
  "list_arena =
     \<lparr>al_new = [], al_alloc = (\<lambda>t a. (length a, a @ [t])),
      al_index = (\<lambda>a i. if i < length a then Some (a ! i) else None)\<rparr>"

interpretation la: arena list_arena
proof unfold_locales
qed (auto simp: list_arena_def fun_eq_iff nth_append)

text \<open>Theorem: Interning gives every value an identifier from which the value is read back, also
  after any number of later calls, and two values get the same identifier only if they are
  equal.\<close>

theorem interning_is_injective:
  assumes "arena lib" and "intern_all lib vs (interner_new lib) = (is', s)"
  shows "length is' = length vs
    \<and> (\<forall>k < length vs. interner_index lib (is' ! k) s = Inr (vs ! k) \<and> interner_id (vs ! k) s = Inr (is' ! k))
    \<and> (\<forall>k < length vs. \<forall>m < length vs. is' ! k = is' ! m \<longleftrightarrow> vs ! k = vs ! m)"
proof -
  from arena.intern_all_correct [OF assms(1) arena.interner_new_inv [OF assms(1)] assms(2)]
  have inv: "interner_inv lib s" and m: "map Some is' = map (in_item2id s) vs" by auto
  have len: "length is' = length vs" using m by (metis length_map)
  have id: "in_item2id s (vs ! k) = Some (is' ! k)" if "k < length vs" for k
    using m that len by (metis nth_map)
  then have ix: "al_index lib (in_arena s) (is' ! k) = Some (vs ! k)" if "k < length vs" for k
    using inv that by (auto simp: interner_inv_def)
  show ?thesis
    using len id ix by (auto simp: interner_index_def interner_id_def) (metis option.inject)+
qed

theorem interning_is_injective_witness:
  "fst (intern_all list_arena [''a'', ''b'', ''a''] (interner_new list_arena)) = [0, 1, 0]
    \<and> (\<exists>s. intern_all list_arena [''a'', ''b'', ''a''] (interner_new list_arena) = ([0, 1, 0], s)
        \<and> interner_index list_arena 0 s = Inr ''a'')"
proof -
  obtain s where s: "intern_all list_arena [''a'', ''b'', ''a''] (interner_new list_arena) = ([0, 1, 0], s)"
    by (simp add: get_or_intern_def interner_new_def list_arena_def)
  from interning_is_injective [OF la.arena_axioms s] have "interner_index list_arena 0 s = Inr ''a''"
    by force
  with s show ?thesis by simp
qed

end
