(* ===== verification/Ownership.thy ===== *)
theory Ownership
  imports Prelude
begin

text \<open>
  Call graphs and the ownership relationships between their nodes
  (\<^verbatim>\<open>pavexc/src/compiler/analyses/call_graph/core_graph.rs\<close> for the kinds of edges,
  \<^verbatim>\<open>borrow_checker/ownership_relationship.rs\<close> for the relationships).

  The graph itself is a data structure of another crate. What the analyses read of it is the record
  \<open>call_graph\<close>: its nodes with their contents, its edges in the order of their indices,
  the list of the sources of the edges into a node, and the nodes without outgoing edges.
  \<open>call_graph_ok\<close> says that these views belong to the same finite graph. \<open>graph_of\<close>
  computes the views from lists of nodes and edges.
\<close>

section \<open>Call graphs\<close>

datatype call_graph_edge_metadata = Move | SharedBorrow | ExclusiveBorrow | HappensBefore

type_synonym call_graph_edge = "nat \<times> nat \<times> call_graph_edge_metadata"

record 'n call_graph =
  cg_nodes :: "nat list"
  cg_weight :: "nat \<Rightarrow> 'n"
  cg_edges :: "call_graph_edge list"
  cg_incoming :: "nat \<Rightarrow> nat list"
  cg_externals :: "nat list"
  cg_root :: nat

definition edge_between :: "'n call_graph \<Rightarrow> nat \<Rightarrow> nat \<Rightarrow> bool" where
  "edge_between g a b \<longleftrightarrow> (\<exists>m. (a, b, m) \<in> set (cg_edges g))"

definition call_graph_ok :: "'n call_graph \<Rightarrow> bool" where
  "call_graph_ok g \<longleftrightarrow> distinct (cg_nodes g) \<and> cg_root g \<in> set (cg_nodes g)
     \<and> (\<forall>a b. edge_between g a b \<longrightarrow> a \<in> set (cg_nodes g) \<and> b \<in> set (cg_nodes g))
     \<and> (\<forall>b. set (cg_incoming g b) = {a. edge_between g a b})
     \<and> set (cg_externals g) = {a \<in> set (cg_nodes g). \<forall>b. \<not> edge_between g a b}"

definition graph_of :: "nat list \<Rightarrow> (nat \<Rightarrow> 'n) \<Rightarrow> call_graph_edge list \<Rightarrow> nat \<Rightarrow> 'n call_graph" where
  "graph_of nodes weight edges root =
     \<lparr>cg_nodes = nodes, cg_weight = weight, cg_edges = edges,
      cg_incoming = (\<lambda>b. map fst (filter (\<lambda>e. fst (snd e) = b) edges)),
      cg_externals = filter (\<lambda>a. a \<notin> fst ` set edges) nodes,
      cg_root = root\<rparr>"

lemma graph_of_ok:
  assumes "distinct nodes" and "root \<in> set nodes"
    and "\<And>a b m. (a, b, m) \<in> set edges \<Longrightarrow> a \<in> set nodes \<and> b \<in> set nodes"
  shows "call_graph_ok (graph_of nodes weight edges root)"
  using assms by (auto simp: call_graph_ok_def graph_of_def edge_between_def image_iff)

section \<open>Relationships\<close>

record ownership_relationships =
  node_id2borrowed_ids :: "nat \<rightharpoonup> nat list"
  node_id2borrower_ids :: "nat \<rightharpoonup> nat list"
  node_id2consumer_ids :: "nat \<rightharpoonup> nat list"
  node_id2consumed_ids :: "nat \<rightharpoonup> nat list"

definition no_relationships :: ownership_relationships where
  "no_relationships =
     \<lparr>node_id2borrowed_ids = Map.empty, node_id2borrower_ids = Map.empty,
      node_id2consumer_ids = Map.empty, node_id2consumed_ids = Map.empty\<rparr>"

text \<open>\<^verbatim>\<open>entry(k).or_default().insert(x)\<close>\<close>

definition entry_insert :: "nat \<Rightarrow> nat \<Rightarrow> (nat \<rightharpoonup> nat list) \<Rightarrow> (nat \<rightharpoonup> nat list)" where
  "entry_insert k x m = m(k \<mapsto> index_insert x (case m k of None \<Rightarrow> [] | Some s \<Rightarrow> s))"

text \<open>\<^verbatim>\<open>if let Some(s) = get_mut(k) { s.shift_remove(x) }\<close>\<close>

definition entry_remove :: "nat \<Rightarrow> nat \<Rightarrow> (nat \<rightharpoonup> nat list) \<Rightarrow> (nat \<rightharpoonup> nat list)" where
  "entry_remove k x m = (case m k of None \<Rightarrow> m | Some s \<Rightarrow> m(k \<mapsto> index_remove x s))"

definition borrows :: "nat \<Rightarrow> nat \<Rightarrow> ownership_relationships \<Rightarrow> ownership_relationships" where
  "borrows node borrowed r =
     r\<lparr>node_id2borrowed_ids := entry_insert node borrowed (node_id2borrowed_ids r),
       node_id2borrower_ids := entry_insert borrowed node (node_id2borrower_ids r)\<rparr>"

definition consumes :: "nat \<Rightarrow> nat \<Rightarrow> ownership_relationships \<Rightarrow> ownership_relationships" where
  "consumes node consumed r =
     r\<lparr>node_id2consumed_ids := entry_insert node consumed (node_id2consumed_ids r),
       node_id2consumer_ids := entry_insert consumed node (node_id2consumer_ids r)\<rparr>"

definition is_borrowed :: "nat \<Rightarrow> ownership_relationships \<Rightarrow> bool" where
  "is_borrowed node r =
     (case node_id2borrower_ids r node of None \<Rightarrow> False | Some borrowers \<Rightarrow> borrowers \<noteq> [])"

definition is_consumed_by :: "nat \<Rightarrow> nat \<Rightarrow> ownership_relationships \<Rightarrow> bool" where
  "is_consumed_by node consumer r =
     (case node_id2consumer_ids r node of None \<Rightarrow> False | Some consumers \<Rightarrow> consumer \<in> set consumers)"

definition remove_all_borrows :: "nat \<Rightarrow> ownership_relationships \<Rightarrow> ownership_relationships" where
  "remove_all_borrows node r =
     (case node_id2borrowed_ids r node of
        None \<Rightarrow> r
      | Some borrowed \<Rightarrow>
          r\<lparr>node_id2borrower_ids :=
              fold (\<lambda>b m. entry_remove b node m) borrowed (node_id2borrower_ids r),
            node_id2borrowed_ids := (node_id2borrowed_ids r)(node \<mapsto> [])\<rparr>)"

definition remove_consumer :: "nat \<Rightarrow> nat \<Rightarrow> ownership_relationships \<Rightarrow> ownership_relationships" where
  "remove_consumer node consumer r =
     r\<lparr>node_id2consumer_ids := entry_remove node consumer (node_id2consumer_ids r),
       node_id2consumed_ids := entry_remove consumer node (node_id2consumed_ids r)\<rparr>"

definition add_edge_relationship :: "call_graph_edge \<Rightarrow> ownership_relationships \<Rightarrow> ownership_relationships" where
  "add_edge_relationship e r =
     (case e of (src, target, metadata) \<Rightarrow>
        (case metadata of
           SharedBorrow \<Rightarrow> borrows target src r
         | ExclusiveBorrow \<Rightarrow> borrows target src r
         | Move \<Rightarrow> consumes target src r
         | HappensBefore \<Rightarrow> r))"

definition compute :: "'n call_graph \<Rightarrow> ownership_relationships" where
  "compute g = fold add_edge_relationship (cg_edges g) no_relationships"

section \<open>What the maps mean\<close>

definition entry_set :: "(nat \<rightharpoonup> nat list) \<Rightarrow> nat \<Rightarrow> nat set" where
  "entry_set m k = (case m k of None \<Rightarrow> {} | Some s \<Rightarrow> set s)"

definition borrower_set :: "ownership_relationships \<Rightarrow> nat \<Rightarrow> nat set" where
  "borrower_set r = entry_set (node_id2borrower_ids r)"

definition consumer_set :: "ownership_relationships \<Rightarrow> nat \<Rightarrow> nat set" where
  "consumer_set r = entry_set (node_id2consumer_ids r)"

text \<open>The relations: who borrows from whom, who consumes whom.\<close>

definition borrow_relation :: "ownership_relationships \<Rightarrow> (nat \<times> nat) set" where
  "borrow_relation r = {(node, borrowed). node \<in> borrower_set r borrowed}"

definition consume_relation :: "ownership_relationships \<Rightarrow> (nat \<times> nat) set" where
  "consume_relation r = {(node, consumed). node \<in> consumer_set r consumed}"

text \<open>The maps of each pair are the converse of each other.\<close>

definition ownership_inv :: "ownership_relationships \<Rightarrow> bool" where
  "ownership_inv r \<longleftrightarrow>
     (\<forall>a b. a \<in> entry_set (node_id2borrowed_ids r) b \<longleftrightarrow> b \<in> entry_set (node_id2borrower_ids r) a)
     \<and> (\<forall>a b. a \<in> entry_set (node_id2consumed_ids r) b \<longleftrightarrow> b \<in> entry_set (node_id2consumer_ids r) a)"

lemma entry_set_empty [simp]: "entry_set Map.empty k = {}"
  by (simp add: entry_set_def)

lemma entry_set_insert [simp]:
  "entry_set (entry_insert k x m) j = (if j = k then insert x (entry_set m k) else entry_set m j)"
  by (auto simp: entry_set_def entry_insert_def split: option.splits)

lemma entry_set_remove [simp]:
  "entry_set (entry_remove k x m) j = (if j = k then entry_set m k - {x} else entry_set m j)"
  by (auto simp: entry_set_def entry_remove_def split: option.splits)

lemma entry_set_upd_empty [simp]:
  "entry_set (m(k \<mapsto> [])) j = (if j = k then {} else entry_set m j)"
  by (auto simp: entry_set_def)

lemma entry_set_fold_remove:
  "entry_set (fold (\<lambda>b m. entry_remove b x m) bs m) j = (if j \<in> set bs then entry_set m j - {x} else entry_set m j)"
  by (induction bs arbitrary: m) auto

lemma is_borrowed_set: "is_borrowed n r \<longleftrightarrow> borrower_set r n \<noteq> {}"
  by (auto simp: is_borrowed_def borrower_set_def entry_set_def split: option.splits)

lemma is_consumed_by_set: "is_consumed_by n c r \<longleftrightarrow> c \<in> consumer_set r n"
  by (auto simp: is_consumed_by_def consumer_set_def entry_set_def split: option.splits)

lemma remove_all_borrows_maps:
  assumes "ownership_inv r"
  shows "borrower_set (remove_all_borrows x r) n = borrower_set r n - {x}"
    and "consumer_set (remove_all_borrows x r) n = consumer_set r n"
    and "ownership_inv (remove_all_borrows x r)"
proof -
  have inv: "a \<in> entry_set (node_id2borrowed_ids r) b \<longleftrightarrow> b \<in> entry_set (node_id2borrower_ids r) a" for a b
    using assms by (simp add: ownership_inv_def)
  show b: "borrower_set (remove_all_borrows x r) n = borrower_set r n - {x}" for n
  proof (cases "node_id2borrowed_ids r x")
    case None
    then have "x \<notin> borrower_set r n" using inv [of n x] by (simp add: borrower_set_def entry_set_def [of _ x])
    then show ?thesis using None by (simp add: remove_all_borrows_def)
  next
    case (Some bs)
    then have "n \<in> set bs \<longleftrightarrow> x \<in> borrower_set r n"
      using inv [of n x] by (simp add: borrower_set_def entry_set_def [of _ x])
    then show ?thesis
      using Some by (auto simp: remove_all_borrows_def borrower_set_def entry_set_fold_remove)
  qed
  show "consumer_set (remove_all_borrows x r) n = consumer_set r n"
    by (simp add: remove_all_borrows_def consumer_set_def split: option.splits)
  have "a \<in> entry_set (node_id2borrowed_ids (remove_all_borrows x r)) c \<longleftrightarrow>
      a \<in> entry_set (node_id2borrowed_ids r) c \<and> c \<noteq> x" for a c
    by (auto simp: remove_all_borrows_def entry_set_def [of _ x] split: option.splits if_splits)
  then show "ownership_inv (remove_all_borrows x r)"
    using assms b by (auto simp: ownership_inv_def borrower_set_def remove_all_borrows_def split: option.splits)
qed

end
