(* ===== verification/Call_Order.thy ===== *)
theory Call_Order
  imports Ownership "HOL-Library.Finite_Map"
begin

text \<open>
  The order in which the nodes of a call graph are invoked
  (\<^verbatim>\<open>pavexc/src/compiler/analyses/call_graph/borrow_checker/assign_order.rs\<close>,
  \<^verbatim>\<open>OrderedCallGraph::order\<close>).

  The stack of nodes to visit is a list whose last element is the top. Whether a node's output is
  \<^verbatim>\<open>Copy\<close> is the parameter \<open>is_copy\<close>. The inner loop and the outer
  fixed point are \<open>visit_loop\<close> and \<open>fixed_point\<close>; not ending is the value \<open>None\<close>.
\<close>

section \<open>State\<close>

record order_state =
  os_position :: "(nat, nat) fmap"
  os_relationships :: ownership_relationships
  os_counter :: nat
  os_to_visit :: "nat list"
  os_parked :: "nat list"
  os_discovered :: "nat list"

definition order_start :: "'n call_graph \<Rightarrow> order_state" where
  "order_start g =
     \<lparr>os_position = fmempty, os_relationships = compute g, os_counter = 0,
      os_to_visit = cg_externals g, os_parked = [], os_discovered = []\<rparr>"

definition positioned :: "order_state \<Rightarrow> nat \<Rightarrow> bool" where
  "positioned st n \<longleftrightarrow> fmlookup (os_position st) n \<noteq> None"

definition n_positioned :: "order_state \<Rightarrow> nat" where
  "n_positioned st = fcard (fmdom (os_position st))"

section \<open>The inner loop\<close>

definition node_blocked :: "(nat \<Rightarrow> bool) \<Rightarrow> 'n call_graph \<Rightarrow> order_state \<Rightarrow> nat \<Rightarrow> bool" where
  "node_blocked is_copy g st node =
     list_ex (\<lambda>neighbour.
         \<not> positioned st neighbour \<or>
         (let blocked = is_consumed_by neighbour node (os_relationships st)
                        \<and> is_borrowed neighbour (os_relationships st)
          in if blocked \<and> is_copy neighbour then False else blocked))
       (cg_incoming g node)"

definition visit_node :: "(nat \<Rightarrow> bool) \<Rightarrow> 'n call_graph \<Rightarrow> nat \<Rightarrow> order_state \<Rightarrow> order_state" where
  "visit_node is_copy g node st =
     (if positioned st node then st
      else if node \<notin> set (os_discovered st) then
        st\<lparr>os_discovered := os_discovered st @ [node],
           os_to_visit := (os_to_visit st @ [node]) @
             filter (\<lambda>neighbour. \<not> positioned st neighbour) (cg_incoming g node)\<rparr>
      else if \<not> node_blocked is_copy g st node then
        (let st = st\<lparr>os_relationships := remove_all_borrows node (os_relationships st)\<rparr>;
             st = st\<lparr>os_position := fmupd node (os_counter st) (os_position st),
                     os_counter := os_counter st + 1\<rparr>
         in st\<lparr>os_to_visit := os_to_visit st @
                 filter (\<lambda>neighbour. \<not> (positioned st neighbour \<or> neighbour \<in> set (os_parked st)))
                   (cg_incoming g node)\<rparr>)
      else st\<lparr>os_parked := index_insert node (os_parked st)\<rparr>)"

partial_function (option) visit_loop ::
    "(nat \<Rightarrow> bool) \<Rightarrow> 'n call_graph \<Rightarrow> order_state \<Rightarrow> order_state option" where
  "visit_loop is_copy g st =
     (if os_to_visit st = [] then Some st
      else
        (let node = last (os_to_visit st)
         in visit_loop is_copy g
              (visit_node is_copy g node (st\<lparr>os_to_visit := butlast (os_to_visit st)\<rparr>))))"

section \<open>The fixed point\<close>

partial_function (option) fixed_point ::
    "(nat \<Rightarrow> bool) \<Rightarrow> 'n call_graph \<Rightarrow> nat \<Rightarrow> order_state \<Rightarrow> (unit, order_state) result option" where
  "fixed_point is_copy g n_finished st =
     (case visit_loop is_copy g st of
        None \<Rightarrow> None
      | Some st \<Rightarrow>
          if length (os_parked st) = 0 then Some (Inr st)
          else if n_positioned st = n_finished then
            Some (Inl (Panicked ''The fixed point algorithm for node ordering is stuck''))
          else
            fixed_point is_copy g (n_positioned st)
              (st\<lparr>os_to_visit := os_to_visit st @ os_parked st, os_parked := []\<rparr>))"

declare visit_loop.simps [code] fixed_point.simps [code]

section \<open>The reordered graph\<close>

record 'n ordered_call_graph =
  oc_weights :: "'n list"
  oc_edges :: "call_graph_edge list"
  oc_root :: nat

definition position_of :: "(nat, nat) fmap \<Rightarrow> nat \<Rightarrow> (unit, nat) result" where
  "position_of pos n =
     (case fmlookup pos n of
        None \<Rightarrow> Inl (Panicked ''called `Option::unwrap()` on a `None` value'')
      | Some p \<Rightarrow> Inr p)"

fun move_edges :: "(nat, nat) fmap \<Rightarrow> call_graph_edge list \<Rightarrow> (unit, call_graph_edge list) result" where
  "move_edges pos [] = Inr []"
| "move_edges pos ((a, b, m) # es) =
     (case position_of pos a of
        Inl e \<Rightarrow> Inl e
      | Inr a \<Rightarrow>
          (case position_of pos b of
             Inl e \<Rightarrow> Inl e
           | Inr b \<Rightarrow>
               (case move_edges pos es of Inl e \<Rightarrow> Inl e | Inr es \<Rightarrow> Inr ((a, b, m) # es))))"

text \<open>The keys of a position map, sorted by position.\<close>

definition nodes_by_position :: "(nat, nat) fmap \<Rightarrow> nat list" where
  "nodes_by_position pos =
     sort_key (\<lambda>n. the (fmlookup pos n)) (sorted_list_of_fset (fmdom pos))"

definition rebuild :: "'n call_graph \<Rightarrow> (nat, nat) fmap \<Rightarrow> (unit, 'n ordered_call_graph) result" where
  "rebuild g pos =
     (case move_edges pos (cg_edges g) of
        Inl e \<Rightarrow> Inl e
      | Inr edges \<Rightarrow>
          (case position_of pos (cg_root g) of
             Inl e \<Rightarrow> Inl e
           | Inr root \<Rightarrow>
               Inr \<lparr>oc_weights = map (cg_weight g) (nodes_by_position pos),
                    oc_edges = edges, oc_root = root\<rparr>))"

definition order_call_graph :: "(nat \<Rightarrow> bool) \<Rightarrow> 'n call_graph \<Rightarrow> (unit, 'n ordered_call_graph) result option" where
  "order_call_graph is_copy g =
     (case fixed_point is_copy g (n_positioned (order_start g)) (order_start g) of
        None \<Rightarrow> None
      | Some (Inl e) \<Rightarrow> Some (Inl e)
      | Some (Inr st) \<Rightarrow> Some (rebuild g (os_position st)))"

end
