(* ===== verification/Call_Order_Properties.thy ===== *)
theory Call_Order_Properties
  imports Call_Order
begin

text \<open>
  The order of a call graph: it is always computed in finitely many steps, it invokes every node after
  what it depends on, a value that is not \<^verbatim>\<open>Copy\<close> is moved only after everything
  that borrows it was invoked, and the computation does not get stuck when such an order exists.
\<close>

section \<open>Edges\<close>

definition move_edge :: "'n call_graph \<Rightarrow> nat \<Rightarrow> nat \<Rightarrow> bool" where
  "move_edge g a c \<longleftrightarrow> (a, c, Move) \<in> set (cg_edges g)"

definition borrow_edge :: "'n call_graph \<Rightarrow> nat \<Rightarrow> nat \<Rightarrow> bool" where
  "borrow_edge g a b \<longleftrightarrow>
     (a, b, SharedBorrow) \<in> set (cg_edges g) \<or> (a, b, ExclusiveBorrow) \<in> set (cg_edges g)"

lemma edge_kinds: "move_edge g a b \<Longrightarrow> edge_between g a b" "borrow_edge g a b \<Longrightarrow> edge_between g a b"
  by (auto simp: move_edge_def borrow_edge_def edge_between_def)

lemma compute_fold:
  "ownership_inv r \<Longrightarrow> ownership_inv (fold add_edge_relationship es r)
    \<and> borrower_set (fold add_edge_relationship es r) a = borrower_set r a
        \<union> {b. (a, b, SharedBorrow) \<in> set es \<or> (a, b, ExclusiveBorrow) \<in> set es}
    \<and> consumer_set (fold add_edge_relationship es r) a = consumer_set r a \<union> {c. (a, c, Move) \<in> set es}"
proof (induction es arbitrary: r)
  case Nil
  then show ?case by simp
next
  case (Cons e es)
  obtain x y m where e: "e = (x, y, m)" by (cases e)
  have inv: "ownership_inv (add_edge_relationship e r)"
    using Cons.prems
    by (cases m) (auto simp: e add_edge_relationship_def ownership_inv_def borrows_def consumes_def)
  have "borrower_set (add_edge_relationship e r) a = borrower_set r a \<union>
      {b. (a, b, SharedBorrow) = e \<or> (a, b, ExclusiveBorrow) = e}"
    and "consumer_set (add_edge_relationship e r) a = consumer_set r a \<union> {c. (a, c, Move) = e}"
    by (cases m; auto simp: e add_edge_relationship_def borrower_set_def consumer_set_def
        borrows_def consumes_def)+
  with Cons.IH [OF inv] show ?case by auto
qed

lemma compute_sets:
  "ownership_inv (compute g)" "borrower_set (compute g) a = {b. borrow_edge g a b}"
  "consumer_set (compute g) a = {c. move_edge g a c}"
proof -
  have "ownership_inv no_relationships" "borrower_set no_relationships a = {}" "consumer_set no_relationships a = {}"
    by (auto simp: ownership_inv_def no_relationships_def borrower_set_def consumer_set_def)
  with compute_fold [of no_relationships "cg_edges g" a]
  show "ownership_inv (compute g)" "borrower_set (compute g) a = {b. borrow_edge g a b}"
    "consumer_set (compute g) a = {c. move_edge g a c}"
    by (auto simp: compute_def borrow_edge_def move_edge_def)
qed

text \<open>Numbers under which every node comes after its dependencies, and a node that takes over a value
  that is not \<^verbatim>\<open>Copy\<close> comes after all those that borrow it.\<close>

definition valid_order :: "(nat \<Rightarrow> bool) \<Rightarrow> 'n call_graph \<Rightarrow> (nat \<Rightarrow> nat) \<Rightarrow> bool" where
  "valid_order is_copy g pos \<longleftrightarrow>
     (\<forall>a b. edge_between g a b \<longrightarrow> pos a < pos b)
     \<and> (\<forall>a b c. move_edge g a c \<longrightarrow> borrow_edge g a b \<longrightarrow> \<not> is_copy a \<longrightarrow> pos b < pos c)"

section \<open>Invariants\<close>

text \<open>Positions, and the relationships that remain.\<close>

definition position_inv :: "(nat \<Rightarrow> bool) \<Rightarrow> 'n call_graph \<Rightarrow> order_state \<Rightarrow> bool" where
  "position_inv is_copy g st \<longleftrightarrow>
     ownership_inv (os_relationships st)
     \<and> (\<forall>a. borrower_set (os_relationships st) a = {b. borrow_edge g a b \<and> \<not> positioned st b})
     \<and> (\<forall>a. consumer_set (os_relationships st) a = {c. move_edge g a c})
     \<and> n_positioned st = os_counter st
     \<and> (\<forall>n p. fmlookup (os_position st) n = Some p \<longrightarrow> p < os_counter st)
     \<and> (\<forall>n m p. fmlookup (os_position st) n = Some p \<longrightarrow> fmlookup (os_position st) m = Some p \<longrightarrow> n = m)
     \<and> (\<forall>a b q. edge_between g a b \<longrightarrow> fmlookup (os_position st) b = Some q \<longrightarrow>
          (\<exists>p < q. fmlookup (os_position st) a = Some p))
     \<and> (\<forall>a b c q. move_edge g a c \<longrightarrow> borrow_edge g a b \<longrightarrow> \<not> is_copy a \<longrightarrow>
          fmlookup (os_position st) c = Some q \<longrightarrow> (\<exists>p < q. fmlookup (os_position st) b = Some p))"

text \<open>The stack, the parked nodes and the discovered ones.\<close>

definition visit_inv :: "'n call_graph \<Rightarrow> order_state \<Rightarrow> bool" where
  "visit_inv g st \<longleftrightarrow>
     set (os_to_visit st) \<union> set (os_parked st) \<union> set (os_discovered st) \<subseteq> set (cg_nodes g)
     \<and> (\<forall>n. positioned st n \<longrightarrow> n \<in> set (os_discovered st))
     \<and> (\<forall>a n. n \<in> set (os_discovered st) \<longrightarrow> edge_between g a n \<longrightarrow>
          a \<in> set (os_discovered st) \<union> set (os_to_visit st))
     \<and> (\<forall>n \<in> set (os_discovered st). \<not> positioned st n \<longrightarrow> n \<in> set (os_to_visit st) \<union> set (os_parked st))
     \<and> set (cg_externals g) \<subseteq> set (os_to_visit st) \<union> set (os_discovered st)"

text \<open>A pass that started with \<open>n\<close> positions and made no progress has parked blocked nodes only.\<close>

definition pass_inv :: "(nat \<Rightarrow> bool) \<Rightarrow> 'n call_graph \<Rightarrow> nat \<Rightarrow> order_state \<Rightarrow> bool" where
  "pass_inv is_copy g n st \<longleftrightarrow> n \<le> n_positioned st
     \<and> (n_positioned st = n \<longrightarrow>
          (\<forall>x \<in> set (os_parked st). node_blocked is_copy g st x \<and> \<not> positioned st x))"

lemma positioned_simps [simp]:
  "positioned (st\<lparr>os_to_visit := v\<rparr>) = positioned st"
  "positioned (st\<lparr>os_parked := k\<rparr>) = positioned st"
  "positioned (st\<lparr>os_discovered := d\<rparr>) = positioned st"
  "positioned (st\<lparr>os_relationships := r\<rparr>) = positioned st"
  "positioned (st\<lparr>os_counter := i\<rparr>) = positioned st"
  "positioned (st\<lparr>os_position := fmupd x p (os_position st)\<rparr>) n = (n = x \<or> positioned st n)"
  by (auto simp: positioned_def fun_eq_iff)

lemma n_positioned_simps [simp]:
  "n_positioned (st\<lparr>os_to_visit := v\<rparr>) = n_positioned st"
  "n_positioned (st\<lparr>os_parked := k\<rparr>) = n_positioned st"
  "n_positioned (st\<lparr>os_discovered := d\<rparr>) = n_positioned st"
  "n_positioned (st\<lparr>os_relationships := r\<rparr>) = n_positioned st"
  "n_positioned (st\<lparr>os_counter := i\<rparr>) = n_positioned st"
  by (simp_all add: n_positioned_def)

lemma n_positioned_upd:
  "\<not> positioned st x \<Longrightarrow> n_positioned (st\<lparr>os_position := fmupd x p (os_position st)\<rparr>) = Suc (n_positioned st)"
  by (auto simp: n_positioned_def positioned_def fmdom_notI fcard_finsert_disjoint)

lemma node_blocked_set:
  assumes "call_graph_ok g" and "position_inv is_copy g st"
  shows "node_blocked is_copy g st x \<longleftrightarrow> (\<exists>a. edge_between g a x \<and>
    (\<not> positioned st a \<or> move_edge g a x \<and> \<not> is_copy a \<and> (\<exists>b. borrow_edge g a b \<and> \<not> positioned st b)))"
proof -
  have "set (cg_incoming g x) = {a. edge_between g a x}" using assms(1) by (simp add: call_graph_ok_def)
  moreover have "is_consumed_by a x (os_relationships st) \<longleftrightarrow> move_edge g a x"
    "is_borrowed a (os_relationships st) \<longleftrightarrow> (\<exists>b. borrow_edge g a b \<and> \<not> positioned st b)" for a
    using assms(2) by (auto simp: position_inv_def is_consumed_by_set is_borrowed_set)
  ultimately show ?thesis by (auto simp: node_blocked_def list_ex_iff Let_def)
qed

lemma node_blocked_cong:
  "os_position st = os_position st' \<Longrightarrow> os_relationships st = os_relationships st' \<Longrightarrow>
     node_blocked is_copy g st x = node_blocked is_copy g st' x"
  by (simp add: node_blocked_def positioned_def)

lemma position_inv_cong:
  "os_position st = os_position st' \<Longrightarrow> os_relationships st = os_relationships st' \<Longrightarrow>
     os_counter st = os_counter st' \<Longrightarrow> position_inv is_copy g st = position_inv is_copy g st'"
  by (simp add: position_inv_def positioned_def n_positioned_def)

section \<open>One step\<close>

definition order_step :: "(nat \<Rightarrow> bool) \<Rightarrow> 'n call_graph \<Rightarrow> order_state \<Rightarrow> order_state" where
  "order_step is_copy g st =
     visit_node is_copy g (last (os_to_visit st)) (st\<lparr>os_to_visit := butlast (os_to_visit st)\<rparr>)"

text \<open>The four outcomes of a step.\<close>

lemma order_step_cases:
  assumes "os_to_visit st = xs @ [x]"
  obtains
    (skip) "positioned st x" "order_step is_copy g st = st\<lparr>os_to_visit := xs\<rparr>"
  | (discover) "\<not> positioned st x" "x \<notin> set (os_discovered st)"
      "order_step is_copy g st = st\<lparr>os_discovered := os_discovered st @ [x],
        os_to_visit := xs @ [x] @ filter (\<lambda>n. \<not> positioned st n) (cg_incoming g x)\<rparr>"
  | (process) "\<not> positioned st x" "x \<in> set (os_discovered st)" "\<not> node_blocked is_copy g st x"
      "order_step is_copy g st = st\<lparr>os_relationships := remove_all_borrows x (os_relationships st),
        os_position := fmupd x (os_counter st) (os_position st), os_counter := os_counter st + 1,
        os_to_visit := xs @ filter (\<lambda>n. \<not> ((n = x \<or> positioned st n) \<or> n \<in> set (os_parked st))) (cg_incoming g x)\<rparr>"
  | (park) "\<not> positioned st x" "x \<in> set (os_discovered st)" "node_blocked is_copy g st x"
      "order_step is_copy g st = st\<lparr>os_to_visit := xs, os_parked := index_insert x (os_parked st)\<rparr>"
proof -
  have b: "node_blocked is_copy g (st\<lparr>os_to_visit := xs\<rparr>) x = node_blocked is_copy g st x"
    by (rule node_blocked_cong) simp_all
  let ?st = "st\<lparr>os_to_visit := xs\<rparr>"
  have step: "order_step is_copy g st = visit_node is_copy g x ?st"
    using assms by (simp add: order_step_def)
  show thesis
  proof (cases "positioned st x")
    case True
    then show ?thesis by (intro skip) (simp_all add: step visit_node_def)
  next
    case np: False
    show ?thesis
    proof (cases "x \<in> set (os_discovered st)")
      case False
      with np show ?thesis by (intro discover) (simp_all add: step visit_node_def)
    next
      case d: True
      show ?thesis
      proof (cases "node_blocked is_copy g st x")
        case True
        with np d b show ?thesis by (intro park) (simp_all add: step visit_node_def)
      next
        case False
        have u: "positioned (st\<lparr>os_to_visit := xs, os_relationships := r,
            os_position := fmupd x p (os_position st), os_counter := c\<rparr>) n \<longleftrightarrow> n = x \<or> positioned st n" for r p c n
          by (auto simp: positioned_def)
        with False np d b show ?thesis
          by (intro process) (simp_all add: step visit_node_def Let_def)
      qed
    qed
  qed
qed

section \<open>Steps keep the invariants\<close>

lemma step_position_inv:
  assumes "call_graph_ok g" and "position_inv is_copy g st" and "os_to_visit st = xs @ [x]"
  shows "position_inv is_copy g (order_step is_copy g st)"
  using assms(3)
proof (cases rule: order_step_cases [where is_copy = is_copy and g = g])
  case process
  let ?st = "order_step is_copy g st" and ?c = "os_counter st"
  have inv: "ownership_inv (os_relationships st)"
    "\<And>a. borrower_set (os_relationships st) a = {b. borrow_edge g a b \<and> \<not> positioned st b}"
    "\<And>a. consumer_set (os_relationships st) a = {c. move_edge g a c}"
    "n_positioned st = ?c" "\<And>n p. fmlookup (os_position st) n = Some p \<Longrightarrow> p < ?c"
    "\<And>n m p. fmlookup (os_position st) n = Some p \<Longrightarrow> fmlookup (os_position st) m = Some p \<Longrightarrow> n = m"
    and topo: "\<And>a b q. edge_between g a b \<Longrightarrow> fmlookup (os_position st) b = Some q \<Longrightarrow>
          \<exists>p < q. fmlookup (os_position st) a = Some p"
    and safe: "\<And>a b c q. move_edge g a c \<Longrightarrow> borrow_edge g a b \<Longrightarrow> \<not> is_copy a \<Longrightarrow>
          fmlookup (os_position st) c = Some q \<Longrightarrow> \<exists>p < q. fmlookup (os_position st) b = Some p"
    using assms(2) by (auto simp: position_inv_def)
  have pos: "os_position ?st = fmupd x ?c (os_position st)" and cnt: "os_counter ?st = Suc ?c"
    and rel: "os_relationships ?st = remove_all_borrows x (os_relationships st)"
    by (simp_all add: process(4))
  have pd: "positioned ?st n \<longleftrightarrow> n = x \<or> positioned st n" for n by (auto simp: positioned_def pos)
  have ready: "edge_between g a x \<Longrightarrow> positioned st a \<and>
      (move_edge g a x \<longrightarrow> \<not> is_copy a \<longrightarrow> borrow_edge g a b \<longrightarrow> positioned st b)" for a b
    using process(3) node_blocked_set [OF assms(1,2)] by blast
  have old: "positioned st a \<Longrightarrow> \<exists>p < ?c. fmlookup (os_position st) a = Some p" for a
    using inv(5) by (auto simp: positioned_def)
  have nx: "fmlookup (os_position st) x = None" using process(1) by (simp add: positioned_def)
  have "n_positioned ?st = Suc ?c"
    using n_positioned_upd [OF process(1), of ?c] inv(4) by (simp add: process(4) n_positioned_def)
  moreover have "\<exists>p < q. fmlookup (os_position ?st) a = Some p"
    if e: "edge_between g a b" and q: "fmlookup (os_position ?st) b = Some q" for a b q
  proof (cases "b = x")
    case True
    with q have "q = ?c" by (simp add: pos)
    moreover have "positioned st a" using ready [of a] e True by simp
    ultimately show ?thesis using old nx by (auto simp: pos positioned_def)
  next
    case False
    with q topo [OF e] obtain p where "p < q" "fmlookup (os_position st) a = Some p" by (auto simp: pos)
    with nx show ?thesis by (auto simp: pos)
  qed
  moreover have "\<exists>p < q. fmlookup (os_position ?st) b = Some p"
    if e: "move_edge g a c" "borrow_edge g a b" "\<not> is_copy a" and q: "fmlookup (os_position ?st) c = Some q"
    for a b c q
  proof (cases "c = x")
    case True
    with q have "q = ?c" by (simp add: pos)
    moreover have "positioned st b" using ready [of a b] e True edge_kinds by blast
    ultimately show ?thesis using old nx by (auto simp: pos positioned_def)
  next
    case False
    with q safe [OF e] obtain p where "p < q" "fmlookup (os_position st) b = Some p" by (auto simp: pos)
    with nx show ?thesis by (auto simp: pos)
  qed
  moreover have "\<And>n p. fmlookup (os_position ?st) n = Some p \<Longrightarrow> p < Suc ?c"
    using inv(5) by (auto simp: pos less_Suc_eq split: if_splits)
  moreover have "\<And>n m p. fmlookup (os_position ?st) n = Some p \<Longrightarrow> fmlookup (os_position ?st) m = Some p \<Longrightarrow> n = m"
    using inv(5,6) by (fastforce simp: pos split: if_splits)
  ultimately show ?thesis
    using remove_all_borrows_maps [OF inv(1)] inv(2,3)
    unfolding position_inv_def rel cnt pd by auto
qed (use assms(2) in \<open>simp_all add: position_inv_def positioned_def n_positioned_def\<close>)

lemma step_visit_inv:
  assumes "call_graph_ok g" and "visit_inv g st" and "os_to_visit st = xs @ [x]"
  shows "visit_inv g (order_step is_copy g st)"
proof -
  have inc: "set (cg_incoming g n) = {a. edge_between g a n}" for n
    using assms(1) by (simp add: call_graph_ok_def)
  have nodes: "edge_between g a b \<Longrightarrow> a \<in> set (cg_nodes g)" for a b
    using assms(1) by (auto simp: call_graph_ok_def)
  have sub: "set xs \<subseteq> set (cg_nodes g)" "x \<in> set (cg_nodes g)" "set (os_parked st) \<subseteq> set (cg_nodes g)"
      "set (os_discovered st) \<subseteq> set (cg_nodes g)"
    and disc: "\<And>n. positioned st n \<Longrightarrow> n \<in> set (os_discovered st)"
    and closed: "\<And>a n. n \<in> set (os_discovered st) \<Longrightarrow> edge_between g a n \<Longrightarrow>
          a \<in> set (os_discovered st) \<union> insert x (set xs)"
    and todo: "\<And>n. n \<in> set (os_discovered st) \<Longrightarrow> \<not> positioned st n \<Longrightarrow>
          n \<in> insert x (set xs) \<union> set (os_parked st)"
    and ext: "set (cg_externals g) \<subseteq> insert x (set xs) \<union> set (os_discovered st)"
    using assms(2,3) by (auto simp: visit_inv_def)
  from assms(3) show ?thesis
  proof (cases rule: order_step_cases [where is_copy = is_copy and g = g])
    case skip
    have sets: "positioned (order_step is_copy g st) = positioned st"
      "os_parked (order_step is_copy g st) = os_parked st"
      "os_discovered (order_step is_copy g st) = os_discovered st"
      "os_to_visit (order_step is_copy g st) = xs"
      by (simp_all add: skip(2))
    show ?thesis
      unfolding visit_inv_def sets using sub disc closed todo ext skip(1) by blast
  next
    case discover
    have sets: "positioned (order_step is_copy g st) = positioned st"
      "os_parked (order_step is_copy g st) = os_parked st"
      "set (os_discovered (order_step is_copy g st)) = insert x (set (os_discovered st))"
      "set (os_to_visit (order_step is_copy g st)) =
        insert x (set xs) \<union> {a. edge_between g a x \<and> \<not> positioned st a}"
      by (auto simp: discover(3) inc)
    show ?thesis
      unfolding visit_inv_def sets
    proof (intro conjI allI impI ballI)
      fix a n assume "n \<in> insert x (set (os_discovered st))" and "edge_between g a n"
      then show "a \<in> insert x (set (os_discovered st)) \<union>
          (insert x (set xs) \<union> {a. edge_between g a x \<and> \<not> positioned st a})"
        using closed disc by blast
    qed (use sub disc todo ext nodes in blast)+
  next
    case process
    have pd: "positioned (order_step is_copy g st) n \<longleftrightarrow> n = x \<or> positioned st n" for n
      by (auto simp: positioned_def process(4))
    have sets: "os_parked (order_step is_copy g st) = os_parked st"
      "os_discovered (order_step is_copy g st) = os_discovered st"
      "set (os_to_visit (order_step is_copy g st)) = set xs \<union>
        {a. edge_between g a x \<and> a \<noteq> x \<and> \<not> positioned st a \<and> a \<notin> set (os_parked st)}"
      by (auto simp: process(4) inc)
    show ?thesis
      unfolding visit_inv_def pd sets
    proof (intro conjI allI impI ballI)
      fix a n assume "n \<in> set (os_discovered st)" and "edge_between g a n"
      then show "a \<in> set (os_discovered st) \<union> (set xs \<union>
          {a. edge_between g a x \<and> a \<noteq> x \<and> \<not> positioned st a \<and> a \<notin> set (os_parked st)})"
        using closed process(2) by blast
    qed (use sub disc todo ext process(2) nodes in blast)+
  next
    case park
    have sets: "positioned (order_step is_copy g st) = positioned st"
      "set (os_parked (order_step is_copy g st)) = insert x (set (os_parked st))"
      "os_discovered (order_step is_copy g st) = os_discovered st"
      "os_to_visit (order_step is_copy g st) = xs"
      by (simp_all add: park(4))
    show ?thesis
      unfolding visit_inv_def sets
    proof (intro conjI allI impI ballI)
      fix a n assume "n \<in> set (os_discovered st)" and "edge_between g a n"
      then show "a \<in> set (os_discovered st) \<union> set xs" using closed park(2) by blast
    qed (use sub disc todo ext park(2) in blast)+
  qed
qed

lemma step_pass_inv:
  assumes "pass_inv is_copy g n st" and "os_to_visit st = xs @ [x]"
  shows "pass_inv is_copy g n (order_step is_copy g st)"
  using assms(2)
proof (cases rule: order_step_cases [where is_copy = is_copy and g = g])
  case process
  have "n_positioned (order_step is_copy g st) = Suc (n_positioned st)"
    using n_positioned_upd [OF process(1), of "os_counter st"] by (simp add: process(4) n_positioned_def)
  then show ?thesis using assms(1) by (simp add: pass_inv_def)
next
  case park
  have "node_blocked is_copy g (order_step is_copy g st) y = node_blocked is_copy g st y" for y
    by (rule node_blocked_cong) (simp_all add: park(4))
  then show ?thesis using assms(1) park(1,3) by (auto simp: pass_inv_def park(4))
next
  case skip
  have "node_blocked is_copy g (order_step is_copy g st) y = node_blocked is_copy g st y" for y
    by (rule node_blocked_cong) (simp_all add: skip(2))
  then show ?thesis using assms(1) by (auto simp: pass_inv_def skip(2))
next
  case discover
  have "node_blocked is_copy g (order_step is_copy g st) y = node_blocked is_copy g st y" for y
    by (rule node_blocked_cong) (simp_all add: discover(3))
  then show ?thesis using assms(1) by (auto simp: pass_inv_def discover(3))
qed

section \<open>The loops end\<close>

lemma positioned_nodes:
  assumes "visit_inv g st"
  shows "n_positioned st \<le> card (set (cg_nodes g))"
    and "positioned st n \<Longrightarrow> n \<in> set (cg_nodes g)"
proof -
  show p: "positioned st n \<Longrightarrow> n \<in> set (cg_nodes g)" for n
    using assms by (auto simp: visit_inv_def)
  then have "fset (fmdom (os_position st)) \<subseteq> set (cg_nodes g)"
    by (auto simp: positioned_def fmlookup_dom_iff)
  then show "n_positioned st \<le> card (set (cg_nodes g))"
    by (simp add: n_positioned_def fcard.rep_eq card_mono)
qed

definition visit_measure :: "'n call_graph \<Rightarrow> order_state \<Rightarrow> nat \<times> nat \<times> nat" where
  "visit_measure g st =
     (card (set (cg_nodes g)) - n_positioned st,
      card (set (cg_nodes g) - set (os_discovered st)), length (os_to_visit st))"

abbreviation visit_less :: "((nat \<times> nat \<times> nat) \<times> (nat \<times> nat \<times> nat)) set" where
  "visit_less \<equiv> less_than <*lex*> less_than <*lex*> less_than"

lemma step_decreases:
  assumes "visit_inv g st" and "visit_inv g (order_step is_copy g st)" and "os_to_visit st = xs @ [x]"
  shows "(visit_measure g (order_step is_copy g st), visit_measure g st) \<in> visit_less"
  using assms(3)
proof (cases rule: order_step_cases [where is_copy = is_copy and g = g])
  case discover
  have "x \<in> set (cg_nodes g)" using assms(1,3) by (auto simp: visit_inv_def)
  then have "card (set (cg_nodes g) - set (os_discovered (order_step is_copy g st)))
      < card (set (cg_nodes g) - set (os_discovered st))"
    using discover(2) by (intro psubset_card_mono) (auto simp: discover(3))
  then show ?thesis by (simp add: visit_measure_def discover(3))
next
  case process
  have "n_positioned (order_step is_copy g st) = Suc (n_positioned st)"
    using n_positioned_upd [OF process(1), of "os_counter st"] by (simp add: process(4) n_positioned_def)
  moreover have "Suc (n_positioned st) \<le> card (set (cg_nodes g))"
    using positioned_nodes(1) [OF assms(2)] calculation by simp
  ultimately have "card (set (cg_nodes g)) - n_positioned (order_step is_copy g st)
      < card (set (cg_nodes g)) - n_positioned st"
    by linarith
  then show ?thesis by (simp add: visit_measure_def)
qed (use assms(3) in \<open>simp_all add: visit_measure_def\<close>)

lemma visit_loop_correct:
  assumes "call_graph_ok g"
  shows "position_inv is_copy g st \<Longrightarrow> visit_inv g st \<Longrightarrow> pass_inv is_copy g n st \<Longrightarrow>
    \<exists>st'. visit_loop is_copy g st = Some st' \<and> position_inv is_copy g st' \<and> visit_inv g st'
      \<and> pass_inv is_copy g n st' \<and> os_to_visit st' = []"
proof (induction "visit_measure g st" arbitrary: st rule: wf_induct_rule [OF wf_lex_prod [OF wf_less_than wf_lex_prod [OF wf_less_than wf_less_than]]])
  case 1
  show ?case
  proof (cases "os_to_visit st = []")
    case True
    then show ?thesis using 1(2-4) by (simp add: visit_loop.simps [of _ _ st])
  next
    case False
    then obtain xs x where s: "os_to_visit st = xs @ [x]" by (metis append_butlast_last_id)
    have "visit_loop is_copy g st = visit_loop is_copy g (order_step is_copy g st)"
      using False by (simp add: visit_loop.simps [of _ _ st] order_step_def Let_def)
    moreover have v: "visit_inv g (order_step is_copy g st)"
      by (rule step_visit_inv [OF assms 1(3) s])
    ultimately show ?thesis
      using 1(1) [OF step_decreases [OF 1(3) v s] step_position_inv [OF assms 1(2) s] v
          step_pass_inv [OF 1(4) s]] by simp
  qed
qed

text \<open>What is known when the algorithm gives up.\<close>

definition stuck :: "(nat \<Rightarrow> bool) \<Rightarrow> 'n call_graph \<Rightarrow> order_state \<Rightarrow> bool" where
  "stuck is_copy g st \<longleftrightarrow> position_inv is_copy g st \<and> visit_inv g st \<and> os_to_visit st = [] \<and> os_parked st \<noteq> []
     \<and> (\<forall>x \<in> set (os_parked st). node_blocked is_copy g st x \<and> \<not> positioned st x)"

lemma fixed_point_correct:
  assumes "call_graph_ok g"
  shows "position_inv is_copy g st \<Longrightarrow> visit_inv g st \<Longrightarrow> os_parked st = [] \<Longrightarrow> n = n_positioned st \<Longrightarrow>
    (\<exists>st'. fixed_point is_copy g n st = Some (Inr st') \<and> position_inv is_copy g st' \<and> visit_inv g st'
        \<and> os_to_visit st' = [] \<and> os_parked st' = [])
    \<or> (\<exists>e st'. fixed_point is_copy g n st = Some (Inl (Panicked e)) \<and> stuck is_copy g st')"
proof (induction "card (set (cg_nodes g)) - n" arbitrary: n st rule: less_induct)
  case less
  have "pass_inv is_copy g n st" using less.prems by (simp add: pass_inv_def)
  from visit_loop_correct [OF assms less.prems(1,2) this] obtain st1 where
    v: "visit_loop is_copy g st = Some st1" and i: "position_inv is_copy g st1" "visit_inv g st1"
      "pass_inv is_copy g n st1" "os_to_visit st1 = []"
    by blast
  show ?case
  proof (cases "os_parked st1 = []")
    case True
    then show ?thesis using v i by (auto simp: fixed_point.simps [of _ _ n st])
  next
    case parked: False
    show ?thesis
    proof (cases "n_positioned st1 = n")
      case True
      then have "stuck is_copy g st1" using i parked by (simp add: stuck_def pass_inv_def)
      then show ?thesis using v parked True by (auto simp: fixed_point.simps [of _ _ n st])
    next
      case False
      let ?st2 = "st1\<lparr>os_to_visit := os_to_visit st1 @ os_parked st1, os_parked := []\<rparr>"
      have f: "fixed_point is_copy g n st = fixed_point is_copy g (n_positioned st1) ?st2"
        using v parked False by (simp add: fixed_point.simps [of _ _ n st])
      have "n < n_positioned st1" using False i(3) by (simp add: pass_inv_def)
      then have "card (set (cg_nodes g)) - n_positioned st1 < card (set (cg_nodes g)) - n"
        using positioned_nodes(1) [OF i(2)] by simp
      moreover have "position_inv is_copy g ?st2"
        using i(1) position_inv_cong [of st1 ?st2 is_copy g] by simp
      moreover have "visit_inv g ?st2" using i(2,4) by (auto simp: visit_inv_def)
      ultimately show ?thesis
        unfolding f by (intro less.hyps) simp_all
    qed
  qed
qed

lemma order_start_inv:
  assumes "call_graph_ok g"
  shows "position_inv is_copy g (order_start g)" and "visit_inv g (order_start g)"
    and "os_parked (order_start g) = []" and "n_positioned (order_start g) = 0"
  using assms compute_sets [of g]
  by (auto simp: position_inv_def visit_inv_def order_start_def positioned_def n_positioned_def
      call_graph_ok_def)

lemma order_fixed_point:
  assumes "call_graph_ok g"
  shows "(\<exists>st. fixed_point is_copy g (n_positioned (order_start g)) (order_start g) = Some (Inr st)
      \<and> position_inv is_copy g st \<and> visit_inv g st \<and> os_to_visit st = [] \<and> os_parked st = [])
    \<or> (\<exists>e st. fixed_point is_copy g (n_positioned (order_start g)) (order_start g) = Some (Inl (Panicked e))
      \<and> stuck is_copy g st)"
  using fixed_point_correct [OF assms order_start_inv(1,2,3) [OF assms] refl] by blast

section \<open>The reordered graph\<close>

lemma position_of_ok: "position_of pos n = Inr p \<longleftrightarrow> fmlookup pos n = Some p"
  by (simp add: position_of_def split: option.splits)

lemma move_edges_cons:
  "move_edges pos (e # es) = Inr es' \<longleftrightarrow>
     (\<exists>p q es''. fmlookup pos (fst e) = Some p \<and> fmlookup pos (fst (snd e)) = Some q
        \<and> move_edges pos es = Inr es'' \<and> es' = (p, q, snd (snd e)) # es'')"
  by (cases e) (auto simp flip: position_of_ok split: sum.splits)

lemma move_edges_ok:
  "move_edges pos es = Inr es' \<longleftrightarrow>
     es' = map (\<lambda>e. (the (fmlookup pos (fst e)), the (fmlookup pos (fst (snd e))), snd (snd e))) es
     \<and> (\<forall>e \<in> set es. fmlookup pos (fst e) \<noteq> None \<and> fmlookup pos (fst (snd e)) \<noteq> None)"
proof (induction es arbitrary: es')
  case Nil
  then show ?case by auto
next
  case (Cons e es)
  show ?case
    unfolding move_edges_cons Cons.IH
    by (cases "fmlookup pos (fst e)"; cases "fmlookup pos (fst (snd e))") auto
qed

text \<open>Positions that are an injection into the first numbers enumerate the nodes.\<close>

lemma nodes_by_position_nth:
  assumes range: "\<forall>n p. fmlookup pos n = Some p \<longrightarrow> p < fcard (fmdom pos)"
    and "\<forall>n m p. fmlookup pos n = Some p \<longrightarrow> fmlookup pos m = Some p \<longrightarrow> n = m"
  shows "length (nodes_by_position pos) = fcard (fmdom pos)"
    and "bij_betw (\<lambda>n. the (fmlookup pos n)) (fset (fmdom pos)) {..<fcard (fmdom pos)}"
    and "fmlookup pos n = Some p \<Longrightarrow> nodes_by_position pos ! p = n"
proof -
  define f where "f = (\<lambda>n. the (fmlookup pos n))"
  let ?d = "fset (fmdom pos)" and ?k = "fcard (fmdom pos)" and ?ns = "nodes_by_position pos"
  have inj: "inj_on f ?d"
    unfolding inj_on_def f_def by (metis assms(2) fmlookup_dom_iff option.sel)
  have sub: "f ` ?d \<subseteq> {..<?k}"
    unfolding f_def by (auto simp: fmlookup_dom_iff simp: range)
  have img: "f ` ?d = {..<?k}"
    using sub card_image [OF inj] by (intro card_subset_eq) (simp_all add: fcard.rep_eq)
  show "bij_betw (\<lambda>n. the (fmlookup pos n)) ?d {..<?k}"
    using inj img by (simp add: bij_betw_def f_def)
  have set: "set ?ns = ?d" and dist: "distinct ?ns" and len: "length ?ns = ?k"
    by (simp_all add: nodes_by_position_def sorted_list_of_fset.rep_eq fcard.rep_eq)
  show "length ?ns = ?k" by (rule len)
  have sorted: "sorted (map f ?ns)" by (simp add: nodes_by_position_def f_def)
  moreover have "distinct (map f ?ns)" using dist inj set by (simp add: distinct_map)
  moreover have "set (map f ?ns) = set [0..<?k]" using img set by (simp add: atLeast0LessThan)
  ultimately have map: "map f ?ns = [0..<?k]"
    by (intro sorted_distinct_set_unique) simp_all
  show "?ns ! p = n" if n: "fmlookup pos n = Some p"
  proof -
    have "p < ?k" using assms(1) n by blast
    then have "f (?ns ! p) = p" "?ns ! p \<in> ?d" using map len set
      by (metis add_0 length_map nth_map nth_upt, metis nth_mem)
    moreover have "f n = p" "n \<in> ?d" using n by (auto simp: f_def fmlookup_dom_iff)
    ultimately show ?thesis using inj by (auto dest: inj_onD)
  qed
qed

text \<open>What a finished run has positioned.\<close>

lemma finished_discovered:
  assumes "visit_inv g st" and "os_to_visit st = []" and "os_parked st = []"
  shows "positioned st n \<longleftrightarrow> n \<in> set (os_discovered st)"
    and "n \<in> set (cg_externals g) \<Longrightarrow> positioned st n"
    and "edge_between g a n \<Longrightarrow> positioned st n \<Longrightarrow> positioned st a"
proof -
  note v = assms(1) [unfolded visit_inv_def assms(2,3)]
  have disc: "positioned st m \<longleftrightarrow> m \<in> set (os_discovered st)" for m
  proof
    show "positioned st m \<Longrightarrow> m \<in> set (os_discovered st)" using v by blast
    show "m \<in> set (os_discovered st) \<Longrightarrow> positioned st m" using v by fastforce
  qed
  have clo: "edge_between g a n \<Longrightarrow> n \<in> set (os_discovered st) \<Longrightarrow> a \<in> set (os_discovered st)"
    using v by fastforce
  have ext: "set (cg_externals g) \<subseteq> set (os_discovered st)" using v by simp
  show "positioned st n \<longleftrightarrow> n \<in> set (os_discovered st)" by (rule disc)
  show "n \<in> set (cg_externals g) \<Longrightarrow> positioned st n"
    using ext unfolding disc by blast
  show "edge_between g a n \<Longrightarrow> positioned st n \<Longrightarrow> positioned st a"
    unfolding disc by (rule clo)
qed

lemma rebuild_positions:
  assumes "call_graph_ok g" and "position_inv is_copy g st" and "visit_inv g st"
    and "os_to_visit st = []" and "os_parked st = []" and "rebuild g (os_position st) = Inr oc"
  shows "fset (fmdom (os_position st)) = set (cg_nodes g)"
    and "oc_edges oc = map (\<lambda>(a, b, m). (the (fmlookup (os_position st) a), the (fmlookup (os_position st) b), m)) (cg_edges g)"
    and "oc_root oc = the (fmlookup (os_position st) (cg_root g))"
    and "oc_weights oc = map (cg_weight g) (nodes_by_position (os_position st))"
proof -
  from assms(6) obtain es where m: "move_edges (os_position st) (cg_edges g) = Inr es"
    and oc: "oc_edges oc = es" "oc_weights oc = map (cg_weight g) (nodes_by_position (os_position st))"
      "oc_root oc = the (fmlookup (os_position st) (cg_root g))"
    by (auto simp: rebuild_def position_of_def split: sum.splits option.splits)
  have me: "es = map (\<lambda>e. (the (fmlookup (os_position st) (fst e)), the (fmlookup (os_position st) (fst (snd e))),
        snd (snd e))) (cg_edges g)"
    and dom: "\<And>e. e \<in> set (cg_edges g) \<Longrightarrow> fmlookup (os_position st) (fst e) \<noteq> None"
    using m by (simp_all add: move_edges_ok)
  show "oc_edges oc = map (\<lambda>(a, b, m). (the (fmlookup (os_position st) a), the (fmlookup (os_position st) b), m)) (cg_edges g)"
    using me oc by (simp add: case_prod_unfold)
  show "oc_root oc = the (fmlookup (os_position st) (cg_root g))"
    and "oc_weights oc = map (cg_weight g) (nodes_by_position (os_position st))"
    using oc by simp_all
  have "positioned st n" if "n \<in> set (cg_nodes g)" for n
  proof (cases "n \<in> set (cg_externals g)")
    case True
    then show ?thesis using finished_discovered [OF assms(3,4,5)] by blast
  next
    case False
    with that assms(1) obtain b where "edge_between g n b" by (auto simp: call_graph_ok_def)
    then obtain m where "(n, b, m) \<in> set (cg_edges g)" unfolding edge_between_def by blast
    from dom [OF this] show ?thesis by (simp add: positioned_def)
  qed
  moreover have "n \<in> set (cg_nodes g)" if "positioned st n" for n
    using positioned_nodes(2) [OF assms(3)] that by blast
  ultimately show "fset (fmdom (os_position st)) = set (cg_nodes g)"
    by (auto simp: positioned_def fmlookup_dom_iff)
qed

lemma positions_valid_order:
  assumes "call_graph_ok g" and "position_inv is_copy g st" and "fset (fmdom (os_position st)) = set (cg_nodes g)"
  shows "valid_order is_copy g (\<lambda>n. the (fmlookup (os_position st) n))"
proof -
  have pos: "\<exists>p. fmlookup (os_position st) n = Some p" if "n \<in> set (cg_nodes g)" for n
    using that unfolding assms(3) [symmetric] by (auto simp: fmlookup_dom_iff)
  have ends: "b \<in> set (cg_nodes g)" if "edge_between g a b" for a b
    using assms(1) that by (auto simp: call_graph_ok_def)
  have "the (fmlookup (os_position st) a) < the (fmlookup (os_position st) b)" if e: "edge_between g a b" for a b
  proof -
    from pos [OF ends [OF e]] obtain q where "fmlookup (os_position st) b = Some q" by blast
    moreover from this assms(2) e obtain p where "p < q" "fmlookup (os_position st) a = Some p"
      unfolding position_inv_def by blast
    ultimately show ?thesis by simp
  qed
  moreover have "the (fmlookup (os_position st) b) < the (fmlookup (os_position st) c)"
    if e: "move_edge g a c" "borrow_edge g a b" "\<not> is_copy a" for a b c
  proof -
    have "edge_between g a c" using e edge_kinds by blast
    from pos [OF ends [OF this]] obtain q where "fmlookup (os_position st) c = Some q" by blast
    moreover from this assms(2) e obtain p where "p < q" "fmlookup (os_position st) b = Some p"
      unfolding position_inv_def by blast
    ultimately show ?thesis by simp
  qed
  ultimately show ?thesis by (simp add: valid_order_def)
qed

section \<open>Getting stuck\<close>

text \<open>With an order in which dependencies come first every node leads to a node without successors,
  from where it is discovered.\<close>

lemma all_discovered:
  assumes "call_graph_ok g" and "valid_order is_copy g f" and "visit_inv g st" and "os_to_visit st = []"
  shows "set (cg_nodes g) \<subseteq> set (os_discovered st)"
proof (rule ccontr)
  let ?u = "set (cg_nodes g) - set (os_discovered st)"
  assume "\<not> set (cg_nodes g) \<subseteq> set (os_discovered st)"
  then have "finite ?u" "?u \<noteq> {}" by auto
  then have "Max (f ` ?u) \<in> f ` ?u" by simp
  then obtain x where x: "x \<in> ?u" and fx: "f x = Max (f ` ?u)" by auto
  have max: "\<not> f x < f y" if "y \<in> ?u" for y
    using that \<open>finite ?u\<close> by (simp add: fx not_less)
  note v = assms(3) [unfolded visit_inv_def assms(4)]
  have "x \<notin> set (cg_externals g)" using v x by auto
  then obtain b where b: "edge_between g x b" using x assms(1) by (auto simp: call_graph_ok_def)
  then have "f x < f b" "b \<in> set (cg_nodes g)"
    using assms(1,2) by (auto simp: valid_order_def call_graph_ok_def)
  with max have "b \<in> set (os_discovered st)" by blast
  with v b x show False by auto
qed

lemma never_stuck:
  assumes "call_graph_ok g" and "valid_order is_copy g f" and "stuck is_copy g st"
  shows False
proof -
  have st: "position_inv is_copy g st" "visit_inv g st" "os_to_visit st = []" "os_parked st \<noteq> []"
    and parked: "\<And>x. x \<in> set (os_parked st) \<Longrightarrow> node_blocked is_copy g st x \<and> \<not> positioned st x"
    using assms(3) by (auto simp: stuck_def)
  note v = st(2) [unfolded visit_inv_def st(3)]
  note all = all_discovered [OF assms(1,2) st(2,3)]
  have open_parked: "y \<in> set (os_parked st)" if "y \<in> set (cg_nodes g)" "\<not> positioned st y" for y
    using that all v by auto
  from arg_min_if_finite [of "set (os_parked st)" f] st(4) obtain x where
    x: "x \<in> set (os_parked st)" and min: "\<And>y. y \<in> set (os_parked st) \<Longrightarrow> \<not> f y < f x"
    by auto
  from parked [OF x] node_blocked_set [OF assms(1) st(1)] obtain a where e: "edge_between g a x"
    and a: "\<not> positioned st a \<or> move_edge g a x \<and> \<not> is_copy a \<and> (\<exists>b. borrow_edge g a b \<and> \<not> positioned st b)"
    by blast
  from a show False
  proof
    assume "\<not> positioned st a"
    moreover have "a \<in> set (cg_nodes g)" "f a < f x"
      using e assms(1,2) by (auto simp: valid_order_def call_graph_ok_def)
    ultimately show False using open_parked min by blast
  next
    assume "move_edge g a x \<and> \<not> is_copy a \<and> (\<exists>b. borrow_edge g a b \<and> \<not> positioned st b)"
    then obtain b where b: "move_edge g a x" "\<not> is_copy a" "borrow_edge g a b" "\<not> positioned st b" by blast
    then have "f b < f x" using assms(2) by (auto simp: valid_order_def)
    moreover have "b \<in> set (cg_nodes g)" using edge_kinds(2) [OF b(3)] assms(1) by (auto simp: call_graph_ok_def)
    ultimately show False using open_parked min b(4) by blast
  qed
qed

lemma rebuild_total:
  assumes "call_graph_ok g" and "\<And>n. n \<in> set (cg_nodes g) \<Longrightarrow> fmlookup pos n \<noteq> None"
  shows "\<exists>oc. rebuild g pos = Inr oc"
proof -
  have "\<forall>e \<in> set (cg_edges g). fmlookup pos (fst e) \<noteq> None \<and> fmlookup pos (fst (snd e)) \<noteq> None"
  proof
    fix e assume "e \<in> set (cg_edges g)"
    then have "edge_between g (fst e) (fst (snd e))" by (auto simp: edge_between_def intro: exI [of _ "snd (snd e)"])
    with assms(1) have "fst e \<in> set (cg_nodes g)" "fst (snd e) \<in> set (cg_nodes g)"
      by (auto simp: call_graph_ok_def)
    with assms(2) show "fmlookup pos (fst e) \<noteq> None \<and> fmlookup pos (fst (snd e)) \<noteq> None" by blast
  qed
  then obtain es where "move_edges pos (cg_edges g) = Inr es" by (simp add: move_edges_ok)
  moreover obtain r where "fmlookup pos (cg_root g) = Some r"
    using assms(1) assms(2) [of "cg_root g"] by (auto simp: call_graph_ok_def)
  ultimately show ?thesis by (simp add: rebuild_def position_of_def)
qed

section \<open>Properties\<close>

text \<open>C10: an order that is computed is a renumbering of the nodes of the call graph by a bijection onto
  the first numbers which keeps contents, edges and the root, and under which every node comes after its
  dependencies; a value that is not Copy is moved into a node only after every node that borrows the
  value. It would not be so if a node were processed while one of its dependencies is
  missing or still borrowed.\<close>

theorem order_is_sound:
  assumes "call_graph_ok g" and "order_call_graph is_copy g = Some (Inr oc)"
  shows "\<exists>pos. bij_betw pos (set (cg_nodes g)) {..<card (set (cg_nodes g))}
    \<and> length (oc_weights oc) = card (set (cg_nodes g))
    \<and> (\<forall>n \<in> set (cg_nodes g). oc_weights oc ! pos n = cg_weight g n)
    \<and> oc_edges oc = map (\<lambda>(a, b, m). (pos a, pos b, m)) (cg_edges g)
    \<and> oc_root oc = pos (cg_root g)
    \<and> valid_order is_copy g pos"
proof -
  from assms(2) order_fixed_point [OF assms(1), of is_copy] obtain st where
    st: "position_inv is_copy g st" "visit_inv g st" "os_to_visit st = []" "os_parked st = []"
    and r: "rebuild g (os_position st) = Inr oc"
    by (auto simp: order_call_graph_def)
  define pos where "pos n = the (fmlookup (os_position st) n)" for n
  note rb = rebuild_positions [OF assms(1) st r]
  have cnt: "os_counter st = fcard (fmdom (os_position st))"
    using st(1) by (simp add: position_inv_def n_positioned_def)
  have bound: "\<forall>n p. fmlookup (os_position st) n = Some p \<longrightarrow> p < fcard (fmdom (os_position st))"
    and uniq: "\<forall>n m p. fmlookup (os_position st) n = Some p \<longrightarrow> fmlookup (os_position st) m = Some p \<longrightarrow> n = m"
    using st(1) unfolding cnt [symmetric] position_inv_def by blast+
  note nth = nodes_by_position_nth [OF bound uniq]
  have pos: "fmlookup (os_position st) n = Some (pos n)" if "n \<in> set (cg_nodes g)" for n
    using that unfolding rb(1) [symmetric] by (auto simp: pos_def fmlookup_dom_iff)
  have card: "fcard (fmdom (os_position st)) = card (set (cg_nodes g))" by (simp add: fcard.rep_eq rb(1))
  have "bij_betw pos (set (cg_nodes g)) {..<card (set (cg_nodes g))}"
    using nth(2) by (simp add: rb(1) card pos_def [abs_def])
  moreover have "length (oc_weights oc) = card (set (cg_nodes g))"
    using nth(1) by (simp add: rb(4) card)
  moreover have "oc_weights oc ! pos n = cg_weight g n" if "n \<in> set (cg_nodes g)" for n
    using nth(1) nth(3) [OF pos [OF that]] bound pos [OF that] by (simp add: rb(4))
  moreover have "oc_edges oc = map (\<lambda>(a, b, m). (pos a, pos b, m)) (cg_edges g)" "oc_root oc = pos (cg_root g)"
    by (simp_all add: rb(2,3) pos_def)
  moreover have "valid_order is_copy g pos"
    using positions_valid_order [OF assms(1) st(1) rb(1)] by (simp add: pos_def [abs_def])
  ultimately show ?thesis by blast
qed

text \<open>C8: an order is computed exactly when a valid one exists: the nodes can be numbered so that each
  comes after its dependencies and after the borrowers of the values that it takes over. It would not be so if parked nodes were not visited again after
  progress, or if a value that is Copy still blocked its consumers.\<close>

theorem order_found_iff_exists:
  assumes "call_graph_ok g"
  shows "(\<exists>oc. order_call_graph is_copy g = Some (Inr oc)) \<longleftrightarrow> (\<exists>f. valid_order is_copy g f)"
proof
  assume "\<exists>oc. order_call_graph is_copy g = Some (Inr oc)"
  with order_fixed_point [OF assms, of is_copy] obtain st oc where
    st: "position_inv is_copy g st" "visit_inv g st" "os_to_visit st = []" "os_parked st = []"
    and r: "rebuild g (os_position st) = Inr oc"
    by (auto simp: order_call_graph_def)
  show "\<exists>f. valid_order is_copy g f"
    using positions_valid_order [OF assms st(1) rebuild_positions(1) [OF assms st r]] by blast
next
  assume "\<exists>f. valid_order is_copy g f"
  then obtain f where f: "valid_order is_copy g f" ..
  from order_fixed_point [OF assms, of is_copy] never_stuck [OF assms f] obtain st where
    l: "fixed_point is_copy g (n_positioned (order_start g)) (order_start g) = Some (Inr st)"
    and st: "visit_inv g st" "os_to_visit st = []" "os_parked st = []"
    by blast
  have "fmlookup (os_position st) n \<noteq> None" if "n \<in> set (cg_nodes g)" for n
    using that all_discovered [OF assms f st(1,2)] finished_discovered(1) [OF st]
    by (auto simp: positioned_def)
  from rebuild_total [OF assms this] show "\<exists>oc. order_call_graph is_copy g = Some (Inr oc)"
    using l by (auto simp: order_call_graph_def)
qed

text \<open>Theorem: ordering a call graph always ends, with an order or with a panic, also on graphs that cannot
  be ordered. It would not be so if a pass without progress were followed by another one.\<close>

theorem order_terminates:
  assumes "call_graph_ok g"
  shows "\<exists>r. order_call_graph is_copy g = Some r"
  using order_fixed_point [OF assms, of is_copy] by (auto simp: order_call_graph_def)

lemma relationship_changes:
  assumes "ownership_inv r"
  shows "ownership_inv (borrows n x r)" and "ownership_inv (consumes n x r)"
    and "ownership_inv (remove_consumer x n r)"
    and "borrow_relation (borrows n x r) = insert (n, x) (borrow_relation r)"
    and "consume_relation (borrows n x r) = consume_relation r"
    and "borrow_relation (consumes n x r) = borrow_relation r"
    and "consume_relation (consumes n x r) = insert (n, x) (consume_relation r)"
    and "borrow_relation (remove_consumer x n r) = borrow_relation r"
    and "consume_relation (remove_consumer x n r) = consume_relation r - {(n, x)}"
    and "borrow_relation (remove_all_borrows n r) = borrow_relation r - {n} \<times> UNIV"
    and "consume_relation (remove_all_borrows n r) = consume_relation r"
proof -
  show "ownership_inv (borrows n x r)" "ownership_inv (consumes n x r)" "ownership_inv (remove_consumer x n r)"
    using assms by (auto simp: ownership_inv_def borrows_def consumes_def remove_consumer_def)
  show "borrow_relation (remove_all_borrows n r) = borrow_relation r - {n} \<times> UNIV"
    "consume_relation (remove_all_borrows n r) = consume_relation r"
    using remove_all_borrows_maps(1,2) [OF assms, of n]
    by (auto simp: borrow_relation_def consume_relation_def)
qed (auto simp: borrow_relation_def consume_relation_def borrower_set_def consumer_set_def
    borrows_def consumes_def remove_consumer_def split: if_splits)

text \<open>C35: the four maps of the relationships are two relations and their converses: recording a borrow
  or a consumption adds one pair, removing a consumer removes one, removing all borrows of a node removes
  exactly the pairs of that node, and the queries read off the relations. It would not be so if an operation
  updated only one map of a pair.\<close>

theorem relationships_refine_relations:
  assumes "ownership_inv r"
  shows "ownership_inv (borrows n x r) \<and> borrow_relation (borrows n x r) = insert (n, x) (borrow_relation r)
      \<and> consume_relation (borrows n x r) = consume_relation r
    \<and> ownership_inv (consumes n x r) \<and> borrow_relation (consumes n x r) = borrow_relation r
      \<and> consume_relation (consumes n x r) = insert (n, x) (consume_relation r)
    \<and> ownership_inv (remove_all_borrows n r)
      \<and> borrow_relation (remove_all_borrows n r) = borrow_relation r - {n} \<times> UNIV
      \<and> consume_relation (remove_all_borrows n r) = consume_relation r
    \<and> ownership_inv (remove_consumer x n r) \<and> borrow_relation (remove_consumer x n r) = borrow_relation r
      \<and> consume_relation (remove_consumer x n r) = consume_relation r - {(n, x)}
    \<and> (is_borrowed x r \<longleftrightarrow> (\<exists>b. (b, x) \<in> borrow_relation r))
    \<and> (is_consumed_by x n r \<longleftrightarrow> (n, x) \<in> consume_relation r)"
proof -
  have "is_borrowed x r \<longleftrightarrow> (\<exists>b. (b, x) \<in> borrow_relation r)"
    "is_consumed_by x n r \<longleftrightarrow> (n, x) \<in> consume_relation r"
    by (auto simp: is_borrowed_set is_consumed_by_set borrow_relation_def consume_relation_def)
  then show ?thesis
    using relationship_changes [OF assms] remove_all_borrows_maps(3) [OF assms] by simp
qed

section \<open>Witnesses\<close>

text \<open>A value that is used by reference, then moved.\<close>

definition demo_graph :: "string call_graph" where
  "demo_graph = graph_of [2, 3, 4, 5]
     (\<lambda>n. if n = 2 then ''value'' else if n = 3 then ''reader'' else if n = 4 then ''owner'' else ''handler'')
     [(2, 4, Move), (2, 3, SharedBorrow), (3, 5, Move), (4, 5, Move)] 5"

lemma demo_graph_ok: "call_graph_ok demo_graph"
  unfolding demo_graph_def by (rule graph_of_ok) auto

definition demo_order :: "string ordered_call_graph" where
  "demo_order =
     \<lparr>oc_weights = [''value'', ''reader'', ''owner'', ''handler''],
      oc_edges = [(0, 2, Move), (0, 1, SharedBorrow), (1, 3, Move), (2, 3, Move)], oc_root = 3\<rparr>"

lemma demo_graph_order: "order_call_graph (\<lambda>_. False) demo_graph = Some (Inr demo_order)"
  by code_simp

theorem order_is_sound_witness:
  "\<exists>pos. bij_betw pos {2, 3, 4, 5 :: nat} {..<4} \<and> pos 3 < pos 4 \<and> pos 5 = (3 :: nat)"
proof -
  have demo: "set (cg_nodes demo_graph) = {2, 3, 4, 5}" "cg_root demo_graph = 5"
    "move_edge demo_graph 2 4" "borrow_edge demo_graph 2 3"
    by (simp_all add: demo_graph_def graph_of_def move_edge_def borrow_edge_def)
  from order_is_sound [OF demo_graph_ok demo_graph_order] obtain pos where
    b: "bij_betw pos {2, 3, 4, 5} {..<card {2, 3, 4, 5 :: nat}}" and r: "oc_root demo_order = pos 5"
    and v: "valid_order (\<lambda>_. False) demo_graph pos"
    unfolding demo by blast
  have "card {2, 3, 4, 5 :: nat} = 4" by simp
  note b [unfolded this]
  moreover have "pos 3 < pos 4" using v demo unfolding valid_order_def by blast
  moreover have "pos 5 = 3" using r by (simp add: demo_order_def)
  ultimately show ?thesis by blast
qed

theorem order_found_iff_exists_witness:
  "\<exists>f. valid_order (\<lambda>_. False) demo_graph f"
  using order_found_iff_exists [OF demo_graph_ok, of "\<lambda>_. False"] demo_graph_order by blast

theorem order_terminates_witness:
  "\<exists>r. order_call_graph (\<lambda>_. True) demo_graph = Some r"
  by (rule order_terminates [OF demo_graph_ok])

theorem relationships_refine_relations_witness:
  "borrow_relation (remove_all_borrows 3 (compute demo_graph)) = {}"
proof -
  have "ownership_inv (compute demo_graph)" by (rule compute_sets(1))
  note remove = relationships_refine_relations [OF this, of 3]
  have "borrow_relation (compute demo_graph) = {(3, 2)}"
    using compute_sets(2) [of demo_graph]
    by (auto simp: borrow_relation_def borrow_edge_def demo_graph_def graph_of_def)
  then show ?thesis by (simp add: remove)
qed

end
