(* ===== verification/Resolved_Type.thy ===== *)
theory Resolved_Type
  imports Prelude
begin

text \<open>
  The language of types of the compiler (\<^verbatim>\<open>pavexc/src/language/resolved_type.rs\<close>):
  what a fully resolved Rust type is, its generic parameters and lifetimes, how a templated type is
  specialised, which types are equal, and how a type is written down.

  A \<^verbatim>\<open>PackageId\<close> is the string it stands for, a hash map is a finite map, an
  \<^verbatim>\<open>IndexSet\<close> the list of its elements in insertion order. A comparison that threads
  its state is the state it leaves, or \<open>None\<close> once it has failed: every caller stops there.
\<close>

section \<open>Types\<close>

datatype scalar_primitive =
    Usize | U8 | U16 | U32 | U64 | U128
  | Isize | I8 | I16 | I32 | I64 | I128
  | F32 | F64 | Bool | Char | Str

datatype lifetime = StaticLifetime | NamedLifetime string | Elided

datatype generic_lifetime_parameter = NamedParameter string | StaticParameter

datatype resolved_type =
    ResolvedPath path_type
  | Reference bool lifetime resolved_type
  | Tuple "resolved_type list"
  | ScalarPrimitive scalar_primitive
  | Slice resolved_type
  | Generic string
and path_type = PathType string "32 word option" "string list" "generic_argument list"
and generic_argument =
    TypeParameter resolved_type
  | LifetimeParameter generic_lifetime_parameter

definition unit_type :: resolved_type where
  "unit_type = Tuple []"

fun is_result :: "resolved_type \<Rightarrow> bool" where
  "is_result (ResolvedPath (PathType _ _ base_type _)) =
     (base_type = [''core'', ''result'', ''Result'']
      \<or> base_type = [''core'', ''prelude'', ''rust_2015'', ''Result'']
      \<or> base_type = [''core'', ''prelude'', ''rust_2018'', ''Result'']
      \<or> base_type = [''core'', ''prelude'', ''rust_2021'', ''Result''])"
| "is_result _ = False"

section \<open>Lifetimes\<close>

fun is_static :: "lifetime \<Rightarrow> bool" where
  "is_static (NamedLifetime _) = False"
| "is_static Elided = False"
| "is_static StaticLifetime = True"

fun is_elided :: "lifetime \<Rightarrow> bool" where
  "is_elided (NamedLifetime n) = (n = ''_'')"
| "is_elided Elided = True"
| "is_elided StaticLifetime = False"

definition lifetime_from :: "string option \<Rightarrow> lifetime" where
  "lifetime_from s =
     (case s of
        Some s \<Rightarrow> if s = CHR 0x27 # ''static'' then StaticLifetime else NamedLifetime s
      | None \<Rightarrow> Elided)"

text \<open>Equality of lifetimes: the names do not matter.\<close>

fun lifetime_eq :: "lifetime \<Rightarrow> lifetime \<Rightarrow> bool" where
  "lifetime_eq StaticLifetime StaticLifetime = True"
| "lifetime_eq StaticLifetime _ = False"
| "lifetime_eq _ StaticLifetime = False"
| "lifetime_eq _ _ = True"

fun lifetime_parameter_eq :: "generic_lifetime_parameter \<Rightarrow> generic_lifetime_parameter \<Rightarrow> bool" where
  "lifetime_parameter_eq StaticParameter StaticParameter = True"
| "lifetime_parameter_eq StaticParameter _ = False"
| "lifetime_parameter_eq _ _ = True"

section \<open>Generic parameters\<close>

fun bind_generic_type_parameters :: "(string, resolved_type) fmap \<Rightarrow> resolved_type \<Rightarrow> resolved_type"
  and bind_argument :: "(string, resolved_type) fmap \<Rightarrow> generic_argument \<Rightarrow> generic_argument" where
  "bind_generic_type_parameters b (ResolvedPath (PathType package_id rustdoc_id base_type args)) =
     ResolvedPath (PathType package_id rustdoc_id base_type (map (bind_argument b) args))"
| "bind_generic_type_parameters b (Reference is_mutable lt inner) =
     Reference is_mutable lt (bind_generic_type_parameters b inner)"
| "bind_generic_type_parameters b (Tuple elements) = Tuple (map (bind_generic_type_parameters b) elements)"
| "bind_generic_type_parameters b (ScalarPrimitive s) = ScalarPrimitive s"
| "bind_generic_type_parameters b (Slice element) = Slice (bind_generic_type_parameters b element)"
| "bind_generic_type_parameters b (Generic name) =
     (case fmlookup b name of Some bound \<Rightarrow> bound | None \<Rightarrow> Generic name)"
| "bind_argument b (TypeParameter t) = TypeParameter (bind_generic_type_parameters b t)"
| "bind_argument b (LifetimeParameter l) = LifetimeParameter l"

fun is_a_template :: "resolved_type \<Rightarrow> bool" and argument_is_a_template :: "generic_argument \<Rightarrow> bool" where
  "is_a_template (ResolvedPath (PathType _ _ _ args)) = list_ex argument_is_a_template args"
| "is_a_template (Reference _ _ inner) = is_a_template inner"
| "is_a_template (Tuple elements) = list_ex is_a_template elements"
| "is_a_template (ScalarPrimitive _) = False"
| "is_a_template (Slice element) = is_a_template element"
| "is_a_template (Generic _) = True"
| "argument_is_a_template (TypeParameter t) = is_a_template t"
| "argument_is_a_template (LifetimeParameter _) = False"

fun collect_generics :: "resolved_type \<Rightarrow> string list \<Rightarrow> string list"
  and collect_argument_generics :: "generic_argument \<Rightarrow> string list \<Rightarrow> string list" where
  "collect_generics (ResolvedPath (PathType _ _ _ args)) names =
     fold (\<lambda>arg names. collect_argument_generics arg names) args names"
| "collect_generics (Reference _ _ inner) names = collect_generics inner names"
| "collect_generics (Tuple elements) names = fold (\<lambda>inner names. collect_generics inner names) elements names"
| "collect_generics (ScalarPrimitive _) names = names"
| "collect_generics (Slice element) names = collect_generics element names"
| "collect_generics (Generic name) names = index_insert name names"
| "collect_argument_generics (TypeParameter t) names = collect_generics t names"
| "collect_argument_generics (LifetimeParameter _) names = names"

definition unassigned_generic_type_parameters :: "resolved_type \<Rightarrow> string list" where
  "unassigned_generic_type_parameters t = collect_generics t []"

section \<open>Equivalence up to the names of generic parameters\<close>

record unassigned_id_generator =
  next_id :: nat
  known_ids :: "(string, nat) fmap"

definition id_generator_new :: unassigned_id_generator where
  "id_generator_new = \<lparr>next_id = 0, known_ids = fmempty\<rparr>"

definition generator_id :: "string \<Rightarrow> unassigned_id_generator \<Rightarrow> nat \<times> unassigned_id_generator" where
  "generator_id name g =
     (case fmlookup (known_ids g) name of
        Some i \<Rightarrow> (i, g)
      | None \<Rightarrow> (next_id g, g\<lparr>next_id := next_id g + 1, known_ids := fmupd name (next_id g) (known_ids g)\<rparr>))"

type_synonym id_generators = "unassigned_id_generator \<times> unassigned_id_generator"

definition same_id :: "string \<Rightarrow> string \<Rightarrow> id_generators \<Rightarrow> id_generators option" where
  "same_id self_name other_name gens =
     (let (first_id, self_gen) = generator_id self_name (fst gens);
          (second_id, other_gen) = generator_id other_name (snd gens)
      in if first_id = second_id then Some (self_gen, other_gen) else None)"

text \<open>
  \<^verbatim>\<open>xs.iter().zip(ys).all(f)\<close>, and the loops over a zip that return at the first failure:
  the shorter list decides how many pairs are compared.
\<close>

fun zip_all :: "('a \<Rightarrow> 'b \<Rightarrow> 's \<Rightarrow> 's option) \<Rightarrow> 'a list \<Rightarrow> 'b list \<Rightarrow> 's \<Rightarrow> 's option" where
  "zip_all f (x # xs) (y # ys) s = (case f x y s of None \<Rightarrow> None | Some s \<Rightarrow> zip_all f xs ys s)"
| "zip_all f [] ys s = Some s"
| "zip_all f xs [] s = Some s"

lemma zip_all_cong [fundef_cong]:
  assumes "xs = xs'" and "ys = ys'" and "s = s'"
    and "\<And>x y s. x \<in> set xs' \<Longrightarrow> y \<in> set ys' \<Longrightarrow> f x y s = g x y s"
  shows "zip_all f xs ys s = zip_all g xs' ys' s'"
  using assms(4) unfolding assms(1-3)
  by (induction g xs' ys' s' rule: zip_all.induct) (auto split: option.split)

fun equivalent_type :: "resolved_type \<Rightarrow> resolved_type \<Rightarrow> id_generators \<Rightarrow> id_generators option"
  and equivalent_path :: "path_type \<Rightarrow> path_type \<Rightarrow> id_generators \<Rightarrow> id_generators option"
  and equivalent_argument :: "generic_argument \<Rightarrow> generic_argument \<Rightarrow> id_generators \<Rightarrow> id_generators option"
  where
  "equivalent_type (ResolvedPath self_path) other gens =
     (case other of ResolvedPath other_path \<Rightarrow> equivalent_path self_path other_path gens | _ \<Rightarrow> None)"
| "equivalent_type (Slice self_element) other gens =
     (case other of Slice other_element \<Rightarrow> equivalent_type self_element other_element gens | _ \<Rightarrow> None)"
| "equivalent_type (Reference _ _ self_inner) other gens =
     (case other of Reference _ _ other_inner \<Rightarrow> equivalent_type self_inner other_inner gens | _ \<Rightarrow> None)"
| "equivalent_type (Tuple self_elements) other gens =
     (case other of
        Tuple other_elements \<Rightarrow> zip_all (\<lambda>t u gens. equivalent_type t u gens) self_elements other_elements gens
      | _ \<Rightarrow> None)"
| "equivalent_type (ScalarPrimitive self_p) other gens =
     (case other of ScalarPrimitive other_p \<Rightarrow> if self_p = other_p then Some gens else None | _ \<Rightarrow> None)"
| "equivalent_type (Generic self_g) other gens =
     (case other of Generic other_g \<Rightarrow> same_id self_g other_g gens | _ \<Rightarrow> None)"
| "equivalent_path (PathType package_id rustdoc_id base_type args) other gens =
     (case other of PathType other_package_id other_rustdoc_id other_base_type other_args \<Rightarrow>
        if package_id \<noteq> other_package_id \<or> rustdoc_id \<noteq> other_rustdoc_id \<or> base_type \<noteq> other_base_type
        then None
        else if length args \<noteq> length other_args then None
        else zip_all (\<lambda>x y gens. equivalent_argument x y gens) args other_args gens)"
| "equivalent_argument (TypeParameter first) other gens =
     (case other of TypeParameter second \<Rightarrow> equivalent_type first second gens | LifetimeParameter _ \<Rightarrow> None)"
| "equivalent_argument (LifetimeParameter _) other gens =
     (case other of LifetimeParameter _ \<Rightarrow> Some gens | TypeParameter _ \<Rightarrow> None)"

text \<open>
  The source compares two generic parameters among the arguments of a path on the spot, with the
  statements that \<open>equivalent_type\<close> runs for two generic parameters.
\<close>

section \<open>Equality\<close>

definition path_eq :: "path_type \<Rightarrow> path_type \<Rightarrow> bool" where
  "path_eq p q = (equivalent_path p q (id_generator_new, id_generator_new) \<noteq> None)"

fun type_eq :: "resolved_type \<Rightarrow> resolved_type \<Rightarrow> bool" where
  "type_eq (ResolvedPath p) (ResolvedPath q) = path_eq p q"
| "type_eq (Reference is_mutable lt inner) (Reference other_is_mutable other_lt other_inner) =
     (is_mutable = other_is_mutable \<and> lifetime_eq lt other_lt \<and> type_eq inner other_inner)"
| "type_eq (Tuple elements) (Tuple other_elements) = list_all2 type_eq elements other_elements"
| "type_eq (ScalarPrimitive p) (ScalarPrimitive q) = (p = q)"
| "type_eq (Slice element) (Slice other_element) = type_eq element other_element"
| "type_eq (Generic name) (Generic other_name) = (name = other_name)"
| "type_eq _ _ = False"

fun argument_eq :: "generic_argument \<Rightarrow> generic_argument \<Rightarrow> bool" where
  "argument_eq (TypeParameter t) (TypeParameter u) = type_eq t u"
| "argument_eq (LifetimeParameter l) (LifetimeParameter k) = lifetime_parameter_eq l k"
| "argument_eq _ _ = False"

text \<open>
  The result of \<^verbatim>\<open>is_equivalent_to\<close> pairs the entries of two hash maps in the order in
  which each is iterated over; that order is the parameter \<open>entries\<close>.
\<close>

definition is_equivalent_to ::
    "((string, nat) fmap \<Rightarrow> (string \<times> nat) list) \<Rightarrow> resolved_type \<Rightarrow> resolved_type \<Rightarrow> (string, string) fmap option" where
  "is_equivalent_to entries self other =
     (case equivalent_type self other (id_generator_new, id_generator_new) of
        None \<Rightarrow> None
      | Some (self_gen, other_gen) \<Rightarrow>
          Some (fold (\<lambda>(self_entry, other_entry) renaming. fmupd (fst self_entry) (fst other_entry) renaming)
            (zip (entries (known_ids self_gen)) (entries (known_ids other_gen))) fmempty))"

section \<open>Hashing\<close>

text \<open>What is written to the hasher. Discriminants number the variants in the order of the source.\<close>

datatype hash_token =
    HashDiscriminant nat
  | HashU8 nat
  | HashUsize nat
  | HashU32 "32 word"
  | HashBool bool
  | HashStr string

fun scalar_discriminant :: "scalar_primitive \<Rightarrow> nat" where
  "scalar_discriminant Usize = 0" | "scalar_discriminant U8 = 1" | "scalar_discriminant U16 = 2"
| "scalar_discriminant U32 = 3" | "scalar_discriminant U64 = 4" | "scalar_discriminant U128 = 5"
| "scalar_discriminant Isize = 6" | "scalar_discriminant I8 = 7" | "scalar_discriminant I16 = 8"
| "scalar_discriminant I32 = 9" | "scalar_discriminant I64 = 10" | "scalar_discriminant I128 = 11"
| "scalar_discriminant F32 = 12" | "scalar_discriminant F64 = 13" | "scalar_discriminant Bool = 14"
| "scalar_discriminant Char = 15" | "scalar_discriminant Str = 16"

fun hash_lifetime :: "lifetime \<Rightarrow> hash_token list" where
  "hash_lifetime StaticLifetime = [HashU8 0]"
| "hash_lifetime _ = [HashU8 1]"

fun hash_lifetime_parameter :: "generic_lifetime_parameter \<Rightarrow> hash_token list" where
  "hash_lifetime_parameter StaticParameter = [HashU8 0]"
| "hash_lifetime_parameter (NamedParameter _) = [HashU8 1]"

definition hash_rustdoc_id :: "32 word option \<Rightarrow> hash_token list" where
  "hash_rustdoc_id rustdoc_id = (case rustdoc_id of None \<Rightarrow> [HashDiscriminant 0] | Some i \<Rightarrow> [HashDiscriminant 1, HashU32 i])"

fun hash_type :: "resolved_type \<Rightarrow> hash_token list"
  and hash_path :: "path_type \<Rightarrow> hash_token list"
  and hash_arguments :: "generic_argument list \<Rightarrow> unassigned_id_generator \<Rightarrow> hash_token list" where
  "hash_type (ResolvedPath p) = HashDiscriminant 0 # hash_path p"
| "hash_type (Reference is_mutable lt inner) =
     [HashDiscriminant 1, HashBool is_mutable] @ hash_lifetime lt @ hash_type inner"
| "hash_type (Tuple elements) =
     [HashDiscriminant 2, HashUsize (length elements)] @ concat (map hash_type elements)"
| "hash_type (ScalarPrimitive s) = [HashDiscriminant 3, HashDiscriminant (scalar_discriminant s)]"
| "hash_type (Slice element) = HashDiscriminant 4 # hash_type element"
| "hash_type (Generic name) = [HashDiscriminant 5, HashStr name]"
| "hash_path (PathType package_id rustdoc_id base_type args) =
     HashStr package_id # hash_rustdoc_id rustdoc_id
       @ HashUsize (length base_type) # map HashStr base_type @ hash_arguments args id_generator_new"
| "hash_arguments [] gen = []"
| "hash_arguments (LifetimeParameter l # args) gen =
     HashU8 0 # hash_lifetime_parameter l @ hash_arguments args gen"
| "hash_arguments (TypeParameter (Generic name) # args) gen =
     (let (i, gen) = generator_id name gen in HashU8 1 # HashUsize i # hash_arguments args gen)"
| "hash_arguments (TypeParameter t # args) gen =
     HashU8 1 # HashDiscriminant 0 # hash_type t @ hash_arguments args gen"

section \<open>Templates\<close>

type_synonym bindings = "(string, resolved_type) fmap"

fun zip_try :: "('a \<Rightarrow> 'b \<Rightarrow> 's \<Rightarrow> (unit, 's option) result) \<Rightarrow> 'a list \<Rightarrow> 'b list \<Rightarrow> 's \<Rightarrow> (unit, 's option) result" where
  "zip_try f (x # xs) (y # ys) s =
     (case f x y s of Inl e \<Rightarrow> Inl e | Inr None \<Rightarrow> Inr None | Inr (Some s) \<Rightarrow> zip_try f xs ys s)"
| "zip_try f [] ys s = Inr (Some s)"
| "zip_try f xs [] s = Inr (Some s)"

lemma zip_try_cong [fundef_cong]:
  assumes "xs = xs'" and "ys = ys'" and "s = s'"
    and "\<And>x y s. x \<in> set xs' \<Longrightarrow> y \<in> set ys' \<Longrightarrow> f x y s = g x y s"
  shows "zip_try f xs ys s = zip_try g xs' ys' s'"
  using assms(4) unfolding assms(1-3)
  by (induction g xs' ys' s' rule: zip_try.induct) (auto split: sum.split option.split)

definition assign_parameter :: "string \<Rightarrow> resolved_type \<Rightarrow> bindings \<Rightarrow> bindings option" where
  "assign_parameter unassigned assigned bindings =
     (case fmlookup bindings unassigned of
        Some previous_assignment \<Rightarrow>
          if \<not> type_eq previous_assignment assigned then None
          else Some (fmupd unassigned assigned bindings)
      | None \<Rightarrow> Some (fmupd unassigned assigned bindings))"

fun template_type :: "resolved_type \<Rightarrow> resolved_type \<Rightarrow> bindings \<Rightarrow> (unit, bindings option) result"
  and template_path :: "path_type \<Rightarrow> path_type \<Rightarrow> bindings \<Rightarrow> (unit, bindings option) result"
  and template_argument :: "generic_argument \<Rightarrow> generic_argument \<Rightarrow> bindings \<Rightarrow> (unit, bindings option) result"
  where
  "template_type (ResolvedPath templated_path) concrete_type bindings =
     (if type_eq concrete_type (ResolvedPath templated_path) then Inr (Some bindings)
      else case concrete_type of
             ResolvedPath concrete_path \<Rightarrow> template_path templated_path concrete_path bindings
           | _ \<Rightarrow> Inr None)"
| "template_type (Slice templated_element) concrete_type bindings =
     (if type_eq concrete_type (Slice templated_element) then Inr (Some bindings)
      else case concrete_type of
             Slice concrete_element \<Rightarrow> template_type templated_element concrete_element bindings
           | _ \<Rightarrow> Inr None)"
| "template_type (Reference is_mutable lt templated_inner) concrete_type bindings =
     (if type_eq concrete_type (Reference is_mutable lt templated_inner) then Inr (Some bindings)
      else case concrete_type of
             Reference _ _ concrete_inner \<Rightarrow> template_type templated_inner concrete_inner bindings
           | _ \<Rightarrow> Inr None)"
| "template_type (Tuple templated_elements) concrete_type bindings =
     (if type_eq concrete_type (Tuple templated_elements) then Inr (Some bindings)
      else case concrete_type of
             Tuple concrete_elements \<Rightarrow>
               if length concrete_elements \<noteq> length templated_elements then Inr None
               else zip_try (\<lambda>t c bindings. template_type t c bindings) templated_elements concrete_elements bindings
           | _ \<Rightarrow> Inr None)"
| "template_type (ScalarPrimitive templated_primitive) concrete_type bindings =
     (if type_eq concrete_type (ScalarPrimitive templated_primitive) then Inr (Some bindings)
      else case concrete_type of
             ScalarPrimitive concrete_primitive \<Rightarrow>
               Inr (if concrete_primitive = templated_primitive then Some bindings else None)
           | _ \<Rightarrow> Inr None)"
| "template_type (Generic parameter) concrete_type bindings =
     (if type_eq concrete_type (Generic parameter) then Inr (Some bindings)
      else Inr (Some (fmupd parameter concrete_type bindings)))"
| "template_path (PathType templated_package_id _ templated_base_type templated_args) concrete_path bindings =
     (case concrete_path of PathType concrete_package_id _ concrete_base_type concrete_args \<Rightarrow>
        if concrete_package_id \<noteq> templated_package_id \<or> concrete_base_type \<noteq> templated_base_type
           \<or> length concrete_args \<noteq> length templated_args
        then Inr None
        else zip_try (\<lambda>t c bindings. template_argument t c bindings) templated_args concrete_args bindings)"
| "template_argument (TypeParameter templated_arg) concrete_arg bindings =
     (case concrete_arg of
        TypeParameter (Generic _) \<Rightarrow>
          Inl (Panicked ''Unassigned type parameter in the concrete type when checking for specialization'')
      | TypeParameter concrete_arg_type \<Rightarrow>
          (case templated_arg of
             Generic unassigned \<Rightarrow> Inr (assign_parameter unassigned concrete_arg_type bindings)
           | _ \<Rightarrow> template_type templated_arg concrete_arg_type bindings)
      | LifetimeParameter _ \<Rightarrow> Inr None)"
| "template_argument (LifetimeParameter _) concrete_arg bindings =
     (case concrete_arg of
        TypeParameter (Generic _) \<Rightarrow>
          Inl (Panicked ''Unassigned type parameter in the concrete type when checking for specialization'')
      | TypeParameter _ \<Rightarrow> Inr None
      | LifetimeParameter _ \<Rightarrow> Inr (Some bindings))"

definition is_a_template_for :: "resolved_type \<Rightarrow> resolved_type \<Rightarrow> (unit, bindings option) result" where
  "is_a_template_for self concrete_type = template_type self concrete_type fmempty"

end
