(* ===== verification/Type_Lifetimes.thy ===== *)
theory Type_Lifetimes
  imports Resolved_Type
begin

text \<open>
  The lifetimes of a type and its text (\<^verbatim>\<open>pavexc/src/language/resolved_type.rs\<close>):
  which lifetimes are implicit or named, how they are replaced, and the three printers of types. The
  texts that are written into a buffer are the strings returned here.
\<close>

section \<open>Implicit and named lifetimes\<close>

fun has_implicit_lifetime_parameters :: "resolved_type \<Rightarrow> bool"
  and argument_has_implicit :: "generic_argument \<Rightarrow> bool" where
  "has_implicit_lifetime_parameters (ResolvedPath (PathType _ _ _ args)) = list_ex argument_has_implicit args"
| "has_implicit_lifetime_parameters (Reference _ lt inner) =
     (case lt of
        NamedLifetime s \<Rightarrow> if s = ''_'' then True else has_implicit_lifetime_parameters inner
      | Elided \<Rightarrow> True
      | StaticLifetime \<Rightarrow> has_implicit_lifetime_parameters inner)"
| "has_implicit_lifetime_parameters (Tuple elements) = list_ex has_implicit_lifetime_parameters elements"
| "has_implicit_lifetime_parameters (ScalarPrimitive _) = False"
| "has_implicit_lifetime_parameters (Slice element) = has_implicit_lifetime_parameters element"
| "has_implicit_lifetime_parameters (Generic _) = False"
| "argument_has_implicit (TypeParameter t) = has_implicit_lifetime_parameters t"
| "argument_has_implicit (LifetimeParameter l) =
     (case l of NamedParameter l \<Rightarrow> l = ''_'' | StaticParameter \<Rightarrow> False)"

definition set_implicit_argument :: "string \<Rightarrow> generic_argument \<Rightarrow> generic_argument" where
  "set_implicit_argument inferred arg =
     (case arg of
        LifetimeParameter (NamedParameter name) \<Rightarrow>
          if name = ''_'' then LifetimeParameter (NamedParameter inferred) else arg
      | _ \<Rightarrow> arg)"

definition set_implicit_reference :: "string \<Rightarrow> lifetime \<Rightarrow> lifetime" where
  "set_implicit_reference inferred lt =
     (case lt of
        NamedLifetime s \<Rightarrow> if s = ''_'' then NamedLifetime inferred else lt
      | Elided \<Rightarrow> NamedLifetime inferred
      | StaticLifetime \<Rightarrow> lt)"

fun set_implicit_lifetimes :: "string \<Rightarrow> resolved_type \<Rightarrow> resolved_type" where
  "set_implicit_lifetimes inferred (ResolvedPath (PathType package_id rustdoc_id base_type args)) =
     ResolvedPath (PathType package_id rustdoc_id base_type (map (set_implicit_argument inferred) args))"
| "set_implicit_lifetimes inferred (Reference is_mutable lt inner) =
     Reference is_mutable (set_implicit_reference inferred lt) (set_implicit_lifetimes inferred inner)"
| "set_implicit_lifetimes inferred (Tuple elements) = Tuple (map (set_implicit_lifetimes inferred) elements)"
| "set_implicit_lifetimes inferred (Slice element) = Slice (set_implicit_lifetimes inferred element)"
| "set_implicit_lifetimes inferred (Generic name) = Generic name"
| "set_implicit_lifetimes inferred (ScalarPrimitive s) = ScalarPrimitive s"

fun rename_lifetime_parameters :: "(string, string) fmap \<Rightarrow> resolved_type \<Rightarrow> resolved_type"
  and rename_argument_lifetimes :: "(string, string) fmap \<Rightarrow> generic_argument \<Rightarrow> generic_argument" where
  "rename_lifetime_parameters m (ResolvedPath (PathType package_id rustdoc_id base_type args)) =
     ResolvedPath (PathType package_id rustdoc_id base_type (map (rename_argument_lifetimes m) args))"
| "rename_lifetime_parameters m (Reference is_mutable lt inner) =
     Reference is_mutable
       (case lt of
          NamedLifetime l \<Rightarrow> (case fmlookup m l of Some new_name \<Rightarrow> NamedLifetime new_name | None \<Rightarrow> lt)
        | StaticLifetime \<Rightarrow> lt
        | Elided \<Rightarrow> lt)
       (rename_lifetime_parameters m inner)"
| "rename_lifetime_parameters m (Tuple elements) = Tuple (map (rename_lifetime_parameters m) elements)"
| "rename_lifetime_parameters m (Slice element) = Slice (rename_lifetime_parameters m element)"
| "rename_lifetime_parameters m (Generic name) = Generic name"
| "rename_lifetime_parameters m (ScalarPrimitive s) = ScalarPrimitive s"
| "rename_argument_lifetimes m (TypeParameter t) = TypeParameter (rename_lifetime_parameters m t)"
| "rename_argument_lifetimes m (LifetimeParameter l) =
     LifetimeParameter
       (case l of
          NamedParameter l \<Rightarrow>
            (case fmlookup m l of Some new_name \<Rightarrow> NamedParameter new_name | None \<Rightarrow> NamedParameter l)
        | StaticParameter \<Rightarrow> StaticParameter)"

text \<open>A set of lifetimes uses their own equality: one name is as good as another.\<close>

definition lifetime_insert :: "lifetime \<Rightarrow> lifetime list \<Rightarrow> lifetime list" where
  "lifetime_insert l ls = (if list_ex (\<lambda>k. lifetime_eq k l) ls then ls else ls @ [l])"

fun collect_lifetimes :: "resolved_type \<Rightarrow> lifetime list \<Rightarrow> lifetime list"
  and collect_argument_lifetimes :: "generic_argument \<Rightarrow> lifetime list \<Rightarrow> lifetime list" where
  "collect_lifetimes (ResolvedPath (PathType _ _ _ args)) ls =
     fold (\<lambda>arg ls. collect_argument_lifetimes arg ls) args ls"
| "collect_lifetimes (Reference _ lt inner) ls = collect_lifetimes inner (lifetime_insert lt ls)"
| "collect_lifetimes (Tuple elements) ls = fold (\<lambda>inner ls. collect_lifetimes inner ls) elements ls"
| "collect_lifetimes (Slice element) ls = collect_lifetimes element ls"
| "collect_lifetimes (ScalarPrimitive _) ls = ls"
| "collect_lifetimes (Generic _) ls = ls"
| "collect_argument_lifetimes (TypeParameter t) ls = collect_lifetimes t ls"
| "collect_argument_lifetimes (LifetimeParameter l) ls =
     (case l of
        StaticParameter \<Rightarrow> lifetime_insert StaticLifetime ls
      | NamedParameter l \<Rightarrow> lifetime_insert (if l \<noteq> ''_'' then NamedLifetime l else Elided) ls)"

definition lifetime_parameters :: "resolved_type \<Rightarrow> lifetime list" where
  "lifetime_parameters t = collect_lifetimes t []"

fun collect_named_lifetimes :: "resolved_type \<Rightarrow> string list \<Rightarrow> string list"
  and collect_argument_named_lifetimes :: "generic_argument \<Rightarrow> string list \<Rightarrow> string list" where
  "collect_named_lifetimes (ResolvedPath (PathType _ _ _ args)) ls =
     fold (\<lambda>arg ls. collect_argument_named_lifetimes arg ls) args ls"
| "collect_named_lifetimes (Reference _ lt inner) ls =
     collect_named_lifetimes inner
       (case lt of
          NamedLifetime l \<Rightarrow> if l \<noteq> ''_'' then index_insert l ls else ls
        | StaticLifetime \<Rightarrow> ls
        | Elided \<Rightarrow> ls)"
| "collect_named_lifetimes (Tuple elements) ls = fold (\<lambda>inner ls. collect_named_lifetimes inner ls) elements ls"
| "collect_named_lifetimes (Slice element) ls = collect_named_lifetimes element ls"
| "collect_named_lifetimes (ScalarPrimitive _) ls = ls"
| "collect_named_lifetimes (Generic _) ls = ls"
| "collect_argument_named_lifetimes (TypeParameter t) ls = collect_named_lifetimes t ls"
| "collect_argument_named_lifetimes (LifetimeParameter l) ls =
     (case l of
        StaticParameter \<Rightarrow> ls
      | NamedParameter l \<Rightarrow> if l \<noteq> ''_'' then index_insert l ls else ls)"

definition named_lifetime_parameters :: "resolved_type \<Rightarrow> string list" where
  "named_lifetime_parameters t = collect_named_lifetimes t []"

section \<open>Printing\<close>

fun scalar_as_str :: "scalar_primitive \<Rightarrow> string" where
  "scalar_as_str Usize = ''usize''" | "scalar_as_str U8 = ''u8''" | "scalar_as_str U16 = ''u16''"
| "scalar_as_str U32 = ''u32''" | "scalar_as_str U64 = ''u64''" | "scalar_as_str U128 = ''u128''"
| "scalar_as_str Isize = ''isize''" | "scalar_as_str I8 = ''i8''" | "scalar_as_str I16 = ''i16''"
| "scalar_as_str I32 = ''i32''" | "scalar_as_str I64 = ''i64''" | "scalar_as_str I128 = ''i128''"
| "scalar_as_str F32 = ''f32''" | "scalar_as_str F64 = ''f64''" | "scalar_as_str Bool = ''bool''"
| "scalar_as_str Char = ''char''" | "scalar_as_str Str = ''str''"

definition scalar_try_from :: "string \<Rightarrow> (string, scalar_primitive) result" where
  "scalar_try_from v =
     (if v = ''usize'' then Inr Usize else if v = ''u8'' then Inr U8 else if v = ''u16'' then Inr U16
      else if v = ''u32'' then Inr U32 else if v = ''u64'' then Inr U64 else if v = ''u128'' then Inr U128
      else if v = ''isize'' then Inr Isize else if v = ''i8'' then Inr I8 else if v = ''i16'' then Inr I16
      else if v = ''i32'' then Inr I32 else if v = ''i64'' then Inr I64 else if v = ''i128'' then Inr I128
      else if v = ''f32'' then Inr F32 else if v = ''f64'' then Inr F64 else if v = ''bool'' then Inr Bool
      else if v = ''char'' then Inr Char else if v = ''str'' then Inr Str
      else Inl (Failed (''Unknown primitive scalar type: '' @ v)))"

text \<open>\<^verbatim>\<open>parts.join_texts(sep)\<close>, and the loops that write a separator while more follows.\<close>

fun join_texts :: "string \<Rightarrow> string list \<Rightarrow> string" where
  "join_texts sep [] = ''''"
| "join_texts sep [x] = x"
| "join_texts sep (x # y # xs) = x @ sep @ join_texts sep (y # xs)"

definition quote :: string where "quote = [CHR 0x27]"

fun display_lifetime_parameter :: "generic_lifetime_parameter \<Rightarrow> string" where
  "display_lifetime_parameter (NamedParameter s) = quote @ s"
| "display_lifetime_parameter StaticParameter = quote @ ''static''"

definition reference_prefix :: "bool \<Rightarrow> lifetime \<Rightarrow> string" where
  "reference_prefix is_mutable lt =
     ''&''
     @ (case lt of
          StaticLifetime \<Rightarrow> quote @ ''static ''
        | NamedLifetime l \<Rightarrow> quote @ l @ '' ''
        | Elided \<Rightarrow> '''')
     @ (if is_mutable then ''mut '' else '''')"

fun display_for_error :: "resolved_type \<Rightarrow> string" and display_argument_for_error :: "generic_argument \<Rightarrow> string" where
  "display_for_error (ResolvedPath (PathType _ _ base_type args)) =
     join_texts ''::'' base_type
     @ (if args \<noteq> [] then ''<'' @ join_texts '', '' (map display_argument_for_error args) @ ''>'' else '''')"
| "display_for_error (Reference is_mutable lt inner) = reference_prefix is_mutable lt @ display_for_error inner"
| "display_for_error (Tuple elements) = ''('' @ join_texts '', '' (map display_for_error elements) @ '')''"
| "display_for_error (ScalarPrimitive s) = scalar_as_str s"
| "display_for_error (Slice element) = ''['' @ display_for_error element @ '']''"
| "display_for_error (Generic name) = name"
| "display_argument_for_error (TypeParameter t) = display_for_error t"
| "display_argument_for_error (LifetimeParameter l) = display_lifetime_parameter l"

text \<open>The \<^verbatim>\<open>Debug\<close> form, which tests the lifetime of a reference with the equality of lifetimes.\<close>

fun debug_lifetime :: "lifetime \<Rightarrow> string" where
  "debug_lifetime StaticLifetime = quote @ ''static''"
| "debug_lifetime (NamedLifetime name) = quote @ name"
| "debug_lifetime Elided = ''''"

fun debug_type :: "resolved_type \<Rightarrow> string" and debug_argument :: "generic_argument \<Rightarrow> string" where
  "debug_type (ResolvedPath (PathType _ _ base_type args)) =
     join_texts ''::'' base_type
     @ (if args \<noteq> [] then ''<'' @ join_texts '', '' (map debug_argument args) @ ''>'' else '''')"
| "debug_type (Reference is_mutable lt inner) =
     ''&'' @ (if \<not> lifetime_eq lt Elided then debug_lifetime lt @ '' '' else '''')
     @ (if is_mutable then ''mut '' else '''') @ debug_type inner"
| "debug_type (Tuple elements) = ''('' @ join_texts '', '' (map debug_type elements) @ '')''"
| "debug_type (ScalarPrimitive s) = scalar_as_str s"
| "debug_type (Slice element) = ''['' @ debug_type element @ '']''"
| "debug_type (Generic name) = name"
| "debug_argument (TypeParameter t) = debug_type t"
| "debug_argument (LifetimeParameter l) = display_lifetime_parameter l"

text \<open>The text that is put into generated code: a crate must have a name and a path at least one segment.\<close>

fun collect_results :: "('e, 'a) result list \<Rightarrow> ('e, 'a list) result" where
  "collect_results [] = Inr []"
| "collect_results (r # rs) =
     (case r of
        Inl e \<Rightarrow> Inl e
      | Inr x \<Rightarrow> (case collect_results rs of Inl e \<Rightarrow> Inl e | Inr xs \<Rightarrow> Inr (x # xs)))"

definition map_result :: "('a \<Rightarrow> 'b) \<Rightarrow> ('e, 'a) result \<Rightarrow> ('e, 'b) result" where
  "map_result f r = (case r of Inl e \<Rightarrow> Inl e | Inr x \<Rightarrow> Inr (f x))"

definition render_path_head :: "(string, string) fmap \<Rightarrow> string \<Rightarrow> string list \<Rightarrow> (unit, string) result" where
  "render_path_head id2name package_id base_type =
     (case fmlookup id2name package_id of
        None \<Rightarrow> Inl (Panicked ''The package id is missing from the id<>name mapping for crates.'')
      | Some crate_name \<Rightarrow>
          (case base_type of
             [] \<Rightarrow> Inl (Panicked ''range start index 1 out of range for slice of length 0'')
           | _ # segments \<Rightarrow> Inr (crate_name @ ''::'' @ join_texts ''::'' segments)))"

fun render_type :: "(string, string) fmap \<Rightarrow> resolved_type \<Rightarrow> (unit, string) result"
  and render_argument :: "(string, string) fmap \<Rightarrow> generic_argument \<Rightarrow> (unit, string) result" where
  "render_type id2name (ResolvedPath (PathType package_id _ base_type args)) =
     (case render_path_head id2name package_id base_type of
        Inl e \<Rightarrow> Inl e
      | Inr head \<Rightarrow>
          map_result
            (\<lambda>arguments. head @ (if args \<noteq> [] then ''<'' @ join_texts '', '' arguments @ ''>'' else ''''))
            (collect_results (map (render_argument id2name) args)))"
| "render_type id2name (Reference is_mutable lt inner) =
     map_result (\<lambda>inner. reference_prefix is_mutable lt @ inner) (render_type id2name inner)"
| "render_type id2name (Tuple elements) =
     map_result (\<lambda>elements. ''('' @ join_texts '', '' elements @ '')'') (collect_results (map (render_type id2name) elements))"
| "render_type id2name (ScalarPrimitive s) = Inr (scalar_as_str s)"
| "render_type id2name (Slice element) = map_result (\<lambda>element. ''['' @ element @ '']'') (render_type id2name element)"
| "render_type id2name (Generic name) = Inr name"
| "render_argument id2name (TypeParameter t) = render_type id2name t"
| "render_argument id2name (LifetimeParameter l) = Inr (display_lifetime_parameter l)"

end
