(* ===== verification/Callable.thy ===== *)
theory Callable
  imports Type_Lifetimes "HOL-Library.List_Lexorder" "HOL-Library.Char_ord"
begin

text \<open>
  Functions, methods and struct literals that can be invoked
  (\<^verbatim>\<open>pavexc/src/language/callable.rs\<close>) and the generator of lifetime names
  (\<^verbatim>\<open>pavexc/src/compiler/utils.rs\<close>).

  The path of a callable and its coordinates in the documentation are not read here; they are the type
  parameters \<open>'p\<close> and \<open>'i\<close>. An ordered set of strings is compared by the library's
  lexicographic order of lists; its last element is the maximum.
\<close>

section \<open>Callables\<close>

datatype invocation_style =
    FunctionCall
  | StructLiteral "(string, resolved_type) fmap" "(string, string) fmap"

record ('p, 'i) callable =
  ca_is_async :: bool
  ca_takes_self_as_ref :: bool
  ca_output :: "resolved_type option"
  ca_path :: 'p
  ca_inputs :: "resolved_type list"
  ca_invocation_style :: invocation_style
  ca_source_coordinates :: "'i option"

definition bind_callable :: "bindings \<Rightarrow> ('p, 'i) callable \<Rightarrow> ('p, 'i) callable" where
  "bind_callable b c =
     c\<lparr>ca_output := map_option (bind_generic_type_parameters b) (ca_output c),
       ca_inputs := map (bind_generic_type_parameters b) (ca_inputs c)\<rparr>"

definition index_extend :: "'a list \<Rightarrow> 'a list \<Rightarrow> 'a list" where
  "index_extend xs new = fold index_insert new xs"

definition callable_generics :: "('p, 'i) callable \<Rightarrow> string list" where
  "callable_generics c =
     (let result = fold (\<lambda>input result. index_extend result (unassigned_generic_type_parameters input)) (ca_inputs c) []
      in case ca_output c of
           Some output_type \<Rightarrow> index_extend result (unassigned_generic_type_parameters output_type)
         | None \<Rightarrow> result)"

definition is_fallible :: "('p, 'i) callable \<Rightarrow> bool" where
  "is_fallible c = (case ca_output c of Some output_type \<Rightarrow> is_result output_type | None \<Rightarrow> False)"

section \<open>Lifetime elision\<close>

definition elided_name :: "resolved_type list \<Rightarrow> resolved_type \<Rightarrow> string" where
  "elided_name inputs output_type =
     (let named = (\<Union>input \<in> set inputs. set (named_lifetime_parameters input))
                  \<union> set (named_lifetime_parameters output_type)
      in if ''elided'' \<in> named then Max named @ ''_'' else ''elided'')"

text \<open>
  The loop over the inputs stops at the first one with an implicit or a named lifetime. It returns the
  lifetime of the output and the inputs, of which that one may have changed.
\<close>

fun elide_inputs :: "string \<Rightarrow> resolved_type list \<Rightarrow> string \<times> resolved_type list" where
  "elide_inputs fresh [] = (''elided'', [])"
| "elide_inputs fresh (input # inputs) =
     (if has_implicit_lifetime_parameters input then
        (fresh, set_implicit_lifetimes fresh input # inputs)
      else
        (case named_lifetime_parameters input of
           name # _ \<Rightarrow> (name, input # inputs)
         | [] \<Rightarrow> (case elide_inputs fresh inputs of (name, inputs) \<Rightarrow> (name, input # inputs))))"

definition unelide_output_lifetimes :: "('p, 'i) callable \<Rightarrow> ('p, 'i) callable" where
  "unelide_output_lifetimes c =
     (if ca_invocation_style c \<noteq> FunctionCall then c
      else
        (case ca_output c of
           None \<Rightarrow> c
         | Some output_type \<Rightarrow>
             if \<not> has_implicit_lifetime_parameters output_type then c
             else
               (case elide_inputs (elided_name (ca_inputs c) output_type) (ca_inputs c) of
                  (name, inputs) \<Rightarrow>
                    c\<lparr>ca_output := Some (set_implicit_lifetimes name output_type), ca_inputs := inputs\<rparr>)))"

definition borrows_immutably_at :: "resolved_type \<Rightarrow> string list \<Rightarrow> bool" where
  "borrows_immutably_at input output_lifetimes =
     (case input of
        Reference is_mutable lt _ \<Rightarrow>
          if is_mutable then False
          else (case lt of NamedLifetime l \<Rightarrow> l \<in> set output_lifetimes | _ \<Rightarrow> False)
      | _ \<Rightarrow> False)"

definition inputs_that_output_borrows_immutably_from :: "('p, 'i) callable \<Rightarrow> nat list" where
  "inputs_that_output_borrows_immutably_from c =
     (let c = unelide_output_lifetimes c
      in case ca_output c of
           None \<Rightarrow> []
         | Some output_type \<Rightarrow>
             filter (\<lambda>i. borrows_immutably_at (ca_inputs c ! i) (named_lifetime_parameters output_type))
               [0..<length (ca_inputs c)])"

definition inputs_with_lifetime_tied_with_output :: "('p, 'i) callable \<Rightarrow> nat list" where
  "inputs_with_lifetime_tied_with_output c =
     (let c = unelide_output_lifetimes c
      in case ca_output c of
           None \<Rightarrow> []
         | Some output_type \<Rightarrow>
             filter (\<lambda>i. list_ex (\<lambda>l. l \<in> set (named_lifetime_parameters output_type))
                       (named_lifetime_parameters (ca_inputs c ! i)))
               [0..<length (ca_inputs c)])"

section \<open>Signatures\<close>

text \<open>The text of the path is that of another component.\<close>

definition render_signature :: "('p \<Rightarrow> string) \<Rightarrow> (string, string) fmap \<Rightarrow> ('p, 'i) callable \<Rightarrow> (unit, string) result" where
  "render_signature path_text id2name c =
     (case collect_results (map (render_type id2name) (ca_inputs c)) of
        Inl e \<Rightarrow> Inl e
      | Inr inputs \<Rightarrow>
          (let head = path_text (ca_path c) @ ''('' @ join_texts '', '' inputs @ '')''
           in case ca_output c of
                None \<Rightarrow> Inr head
              | Some output_type \<Rightarrow>
                  map_result (\<lambda>output_text. head @ '' -> '' @ output_text) (render_type id2name output_type)))"

definition debug_callable :: "('p \<Rightarrow> string) \<Rightarrow> ('p, 'i) callable \<Rightarrow> string" where
  "debug_callable path_text c =
     path_text (ca_path c) @ ''('' @ join_texts '', '' (map debug_type (ca_inputs c)) @ '')''
     @ (case ca_output c of None \<Rightarrow> '''' | Some output_type \<Rightarrow> '' -> '' @ debug_type output_type)"

section \<open>Results\<close>

text \<open>The two variants of a \<^verbatim>\<open>Result\<close>; what is not one is a failed assertion.\<close>

definition result_variant :: "nat \<Rightarrow> resolved_type \<Rightarrow> (unit, resolved_type) result" where
  "result_variant n t =
     (if \<not> is_result t then Inl (Panicked ''assertion failed: t.is_result()'')
      else
        (case t of
           ResolvedPath (PathType _ _ _ args) \<Rightarrow>
             if length args \<le> n then Inl (Panicked ''index out of bounds'')
             else (case args ! n of
                     TypeParameter t \<Rightarrow> Inr t
                   | LifetimeParameter _ \<Rightarrow> Inl (Panicked ''internal error: entered unreachable code''))
         | _ \<Rightarrow> Inl (Panicked ''internal error: entered unreachable code'')))"

definition get_ok_variant :: "resolved_type \<Rightarrow> (unit, resolved_type) result" where
  "get_ok_variant = result_variant 0"

definition get_err_variant :: "resolved_type \<Rightarrow> (unit, resolved_type) result" where
  "get_err_variant = result_variant 1"

section \<open>Lifetime names\<close>

record lifetime_generator =
  lg_next :: nat

definition lifetime_generator_new :: lifetime_generator where
  "lifetime_generator_new = \<lparr>lg_next = 0\<rparr>"

definition alphabet :: string where
  "alphabet = ''abcdefghijklmnopqrstuvwxyz''"

definition lifetime_name :: "nat \<Rightarrow> string" where
  "lifetime_name n =
     (let round = n div length alphabet; letter = alphabet ! (n mod length alphabet)
      in if round = 0 then [letter] else letter # show_nat round)"

definition next_lifetime :: "lifetime_generator \<Rightarrow> string \<times> lifetime_generator" where
  "next_lifetime g = (lifetime_name (lg_next g), g\<lparr>lg_next := lg_next g + 1\<rparr>)"

end
