(* ===== verification/Input_Parameters.thy ===== *)
theory Input_Parameters
  imports Callable
begin

text \<open>
  The input parameters of generated functions and structs
  (\<^verbatim>\<open>pavexc/src/compiler/analyses/processing_pipeline/pipeline.rs\<close>,
  \<^verbatim>\<open>InputParameters\<close>, \<^verbatim>\<open>Binding\<close> and \<^verbatim>\<open>Bindings\<close>).

  The types are first grouped in an \<^verbatim>\<open>IndexMap\<close> with types as keys. The map finds the
  entry of a key if the two hash to the same value and are equal; as the hash of a type may differ
  between equal types (\<open>Resolved_Type_Properties\<close>), which equal keys it recognises is the parameter
  \<open>same_key\<close>, with the law \<open>key_test_ok\<close>.
\<close>

section \<open>Bindings\<close>

record type_binding =
  bi_ident :: string
  bi_type :: resolved_type
  bi_mutable :: bool

record input_parameters =
  ip_bindings :: "type_binding list"
  ip_lifetimes :: "string list"

definition key_test_ok :: "(resolved_type \<Rightarrow> resolved_type \<Rightarrow> bool) \<Rightarrow> bool" where
  "key_test_ok same_key \<longleftrightarrow>
     (\<forall>t u. same_key t u \<longrightarrow> type_eq t u) \<and> (\<forall>t u. type_eq t u \<longrightarrow> hash_type t = hash_type u \<longrightarrow> same_key t u)"

record input_metadata =
  im_by_value :: bool
  im_mutable :: bool

text \<open>\<^verbatim>\<open>entry(k).or_insert(d)\<close>, then a change of the entry in place.\<close>

fun entry_or_insert ::
    "(resolved_type \<Rightarrow> resolved_type \<Rightarrow> bool) \<Rightarrow> resolved_type \<Rightarrow> input_metadata \<Rightarrow> (input_metadata \<Rightarrow> input_metadata)
     \<Rightarrow> (resolved_type \<times> input_metadata) list \<Rightarrow> (resolved_type \<times> input_metadata) list" where
  "entry_or_insert same_key k d f [] = [(k, f d)]"
| "entry_or_insert same_key k d f ((k', v) # es) =
     (if same_key k' k then (k', f v) # es else (k', v) # entry_or_insert same_key k d f es)"

definition add_input_type ::
    "(resolved_type \<Rightarrow> resolved_type \<Rightarrow> bool) \<Rightarrow> resolved_type \<Rightarrow> (resolved_type \<times> input_metadata) list
     \<Rightarrow> (resolved_type \<times> input_metadata) list" where
  "add_input_type same_key ty entries =
     (case ty of
        Reference is_mutable lt inner \<Rightarrow>
          if \<not> is_static lt then
            entry_or_insert same_key inner \<lparr>im_by_value = False, im_mutable = False\<rparr>
              (\<lambda>m. m\<lparr>im_mutable := im_mutable m \<or> is_mutable\<rparr>) entries
          else
            entry_or_insert same_key ty \<lparr>im_by_value = True, im_mutable = False\<rparr>
              (\<lambda>m. m\<lparr>im_by_value := True\<rparr>) entries
      | _ \<Rightarrow>
          entry_or_insert same_key ty \<lparr>im_by_value = True, im_mutable = False\<rparr>
            (\<lambda>m. m\<lparr>im_by_value := True\<rparr>) entries)"

definition input_entries :: "(resolved_type \<Rightarrow> resolved_type \<Rightarrow> bool) \<Rightarrow> resolved_type list \<Rightarrow> (resolved_type \<times> input_metadata) list" where
  "input_entries same_key types = fold (add_input_type same_key) types []"

definition entry_binding :: "nat \<Rightarrow> resolved_type \<times> input_metadata \<Rightarrow> type_binding" where
  "entry_binding i entry =
     (case entry of (ty, metadata) \<Rightarrow>
        (if im_by_value metadata then
           \<lparr>bi_ident = ''s_'' @ show_nat i, bi_type = ty, bi_mutable = im_mutable metadata\<rparr>
         else
           \<lparr>bi_ident = ''s_'' @ show_nat i, bi_type = Reference (im_mutable metadata) Elided ty,
             bi_mutable = False\<rparr>))"

definition get_input_types :: "(resolved_type \<Rightarrow> resolved_type \<Rightarrow> bool) \<Rightarrow> resolved_type list \<Rightarrow> type_binding list" where
  "get_input_types same_key types =
     map (\<lambda>(i, entry). entry_binding i entry) (enumerate 0 (input_entries same_key types))"

section \<open>Naming the lifetimes\<close>

fun fresh_renaming :: "string list \<Rightarrow> lifetime_generator \<Rightarrow> (string \<times> string) list \<times> lifetime_generator" where
  "fresh_renaming [] g = ([], g)"
| "fresh_renaming (l # ls) g =
     (case next_lifetime g of (name, g) \<Rightarrow>
        (case fresh_renaming ls g of (renaming, g) \<Rightarrow> ((l, name) # renaming, g)))"

definition name_lifetimes ::
    "type_binding \<Rightarrow> string list \<times> lifetime_generator \<Rightarrow> type_binding \<times> string list \<times> lifetime_generator" where
  "name_lifetimes b st =
     (case st of (lifetimes, g) \<Rightarrow>
       (case fresh_renaming (named_lifetime_parameters (bi_type b)) g of (lifetime2binding, g) \<Rightarrow>
         (let ty = rename_lifetime_parameters (fmap_of_list lifetime2binding) (bi_type b);
              lifetimes = index_extend lifetimes (map snd lifetime2binding)
          in if has_implicit_lifetime_parameters ty then
               (case next_lifetime g of (implicit_lifetime, g) \<Rightarrow>
                  (b\<lparr>bi_type := set_implicit_lifetimes implicit_lifetime ty\<rparr>,
                   index_insert implicit_lifetime lifetimes, g))
             else (b\<lparr>bi_type := ty\<rparr>, lifetimes, g))))"

fun name_all_lifetimes ::
    "type_binding list \<Rightarrow> string list \<times> lifetime_generator \<Rightarrow> type_binding list \<times> string list \<times> lifetime_generator" where
  "name_all_lifetimes [] st = ([], st)"
| "name_all_lifetimes (b # bs) st =
     (case name_lifetimes b st of (b, st) \<Rightarrow>
        (case name_all_lifetimes bs st of (bs, st) \<Rightarrow> (b # bs, st)))"

definition input_parameters_from_iter :: "(resolved_type \<Rightarrow> resolved_type \<Rightarrow> bool) \<Rightarrow> resolved_type list \<Rightarrow> input_parameters" where
  "input_parameters_from_iter same_key types =
     (case name_all_lifetimes (get_input_types same_key types) ([], lifetime_generator_new) of
        (bs, lifetimes, _) \<Rightarrow> \<lparr>ip_bindings = bs, ip_lifetimes = lifetimes\<rparr>)"

section \<open>Expressions\<close>

text \<open>The expressions that are built from a binding: its name, \<open>&name\<close> and \<open>&mut name\<close>.\<close>

datatype binding_expr = UseBinding string | BorrowBinding bool string

definition find_binding :: "(resolved_type \<Rightarrow> bool) \<Rightarrow> type_binding list \<Rightarrow> type_binding option" where
  "find_binding P bs = find (\<lambda>b. P (bi_type b)) bs"

definition find_exact_by_type :: "resolved_type \<Rightarrow> type_binding list \<Rightarrow> type_binding option" where
  "find_exact_by_type ty bs = find_binding (\<lambda>t. type_eq t ty) bs"

fun mark_mutable :: "(resolved_type \<Rightarrow> bool) \<Rightarrow> type_binding list \<Rightarrow> type_binding list" where
  "mark_mutable P [] = []"
| "mark_mutable P (b # bs) = (if P (bi_type b) then b\<lparr>bi_mutable := True\<rparr> # bs else b # mark_mutable P bs)"

definition get_expr_for_type :: "resolved_type \<Rightarrow> type_binding list \<Rightarrow> binding_expr option \<times> type_binding list" where
  "get_expr_for_type ty bs =
     (case find_binding (\<lambda>t. type_eq t ty) bs of
        Some b \<Rightarrow> (Some (UseBinding (bi_ident b)), bs)
      | None \<Rightarrow>
          (case ty of
             Reference is_mutable lt inner \<Rightarrow>
               (case find_binding (\<lambda>t. type_eq inner t) bs of
                  Some b \<Rightarrow>
                    (Some (BorrowBinding is_mutable (bi_ident b)),
                     if is_mutable then mark_mutable (\<lambda>t. type_eq inner t) bs else bs)
                | None \<Rightarrow>
                    if \<not> is_mutable then
                      (case find_binding (\<lambda>t. type_eq t (Reference True lt inner)) bs of
                         Some b \<Rightarrow> (Some (UseBinding (bi_ident b)), bs)
                       | None \<Rightarrow> (None, bs))
                    else (None, bs))
           | _ \<Rightarrow> (None, bs)))"

end
