(* ===== verification/Resolved_Type_Properties.thy ===== *)
theory Resolved_Type_Properties
  imports Resolved_Type
begin

text \<open>
  Types: binding generic parameters, equivalence up to their names, equality, hashing and the
  specialisation of templates.
\<close>

section \<open>Generic parameters\<close>

text \<open>The occurrences of generic parameters, from left to right.\<close>

fun occurrences :: "resolved_type \<Rightarrow> string list" and argument_occurrences :: "generic_argument \<Rightarrow> string list" where
  "occurrences (ResolvedPath (PathType _ _ _ args)) = concat (map argument_occurrences args)"
| "occurrences (Reference _ _ inner) = occurrences inner"
| "occurrences (Tuple elements) = concat (map occurrences elements)"
| "occurrences (ScalarPrimitive _) = []"
| "occurrences (Slice element) = occurrences element"
| "occurrences (Generic name) = [name]"
| "argument_occurrences (TypeParameter t) = occurrences t"
| "argument_occurrences (LifetimeParameter _) = []"

text \<open>Induction over types, through the arguments of paths.\<close>

lemma type_induct [case_names ResolvedPath Reference Tuple ScalarPrimitive Slice Generic]:
  assumes "\<And>pkg i base args. (\<And>t. TypeParameter t \<in> set args \<Longrightarrow> P t) \<Longrightarrow>
      P (ResolvedPath (PathType pkg i base args))"
    and "\<And>m lt inner. P inner \<Longrightarrow> P (Reference m lt inner)"
    and "\<And>elements. (\<And>t. t \<in> set elements \<Longrightarrow> P t) \<Longrightarrow> P (Tuple elements)"
    and "\<And>s. P (ScalarPrimitive s)"
    and "\<And>element. P element \<Longrightarrow> P (Slice element)"
    and "\<And>name. P (Generic name)"
  shows "P t"
proof -
  have "P t" and "\<forall>u. arg = TypeParameter u \<longrightarrow> P u" for arg
    by (induction t and arg rule: occurrences_argument_occurrences.induct) (use assms in blast)+
  then show "P t" by blast
qed

lemma collect_generics_set:
  "set (collect_generics t names) = set names \<union> set (occurrences t)"
proof (induction t arbitrary: names rule: type_induct)
  case (ResolvedPath pkg i base args)
  have "set (fold collect_argument_generics args names) = set names \<union> (\<Union>arg \<in> set args. set (argument_occurrences arg))"
    using ResolvedPath
  proof (induction args arbitrary: names)
    case (Cons arg args)
    then show ?case by (cases arg) auto
  qed simp
  then show ?case by simp
next
  case (Tuple elements)
  have "set (fold collect_generics elements names) = set names \<union> (\<Union>t \<in> set elements. set (occurrences t))"
    using Tuple by (induction elements arbitrary: names) auto
  then show ?case by simp
qed auto

lemma distinct_index_insert: "distinct names \<Longrightarrow> distinct (index_insert x names)"
  by (simp add: index_insert_def)

lemma distinct_fold:
  "(\<And>x names. x \<in> set xs \<Longrightarrow> distinct names \<Longrightarrow> distinct (f x names)) \<Longrightarrow> distinct names \<Longrightarrow>
     distinct (fold f xs names)"
  by (induction xs arbitrary: names) auto

lemma collect_generics_distinct:
  "distinct names \<Longrightarrow> distinct (collect_generics t names)"
proof (induction t arbitrary: names rule: type_induct)
  case (ResolvedPath pkg i base args)
  have "distinct (collect_argument_generics arg names)" if "arg \<in> set args" "distinct names" for arg names
    using ResolvedPath(1) that by (cases arg) auto
  with ResolvedPath(2) show ?case by (auto intro: distinct_fold)
qed (auto intro: distinct_fold distinct_index_insert)

lemma template_occurrences: "is_a_template t \<longleftrightarrow> occurrences t \<noteq> []"
proof (induction t rule: type_induct)
  case (ResolvedPath pkg i base args)
  have "argument_is_a_template arg \<longleftrightarrow> argument_occurrences arg \<noteq> []" if "arg \<in> set args" for arg
    using ResolvedPath that by (cases arg) auto
  then show ?case by (auto simp: list_ex_iff)
qed (auto simp: list_ex_iff)

lemma unassigned_set: "set (unassigned_generic_type_parameters t) = set (occurrences t)"
  by (simp add: unassigned_generic_type_parameters_def collect_generics_set)

section \<open>Binding\<close>

lemma bind_cong:
  "(\<And>x. x \<in> set (occurrences t) \<Longrightarrow> fmlookup b x = fmlookup b' x) \<Longrightarrow>
     bind_generic_type_parameters b t = bind_generic_type_parameters b' t"
proof (induction t rule: type_induct)
  case (ResolvedPath pkg i base args)
  have "bind_argument b arg = bind_argument b' arg" if "arg \<in> set args" for arg
    using ResolvedPath that by (cases arg) fastforce+
  then show ?case by simp
qed fastforce+

lemma bind_empty: "bind_generic_type_parameters fmempty t = t"
proof (induction t rule: type_induct)
  case (ResolvedPath pkg i base args)
  have "bind_argument fmempty arg = arg" if "arg \<in> set args" for arg
    using ResolvedPath that by (cases arg) auto
  then show ?case by (simp add: map_idI)
qed (auto simp: map_idI)

lemma bind_ground: "occurrences t = [] \<Longrightarrow> bind_generic_type_parameters b t = t"
  using bind_cong [of t b fmempty] by (simp add: bind_empty)

lemma bind_occurrences:
  "set (occurrences (bind_generic_type_parameters b t)) =
     {x \<in> set (occurrences t). fmlookup b x = None}
     \<union> (\<Union>x \<in> set (occurrences t). case fmlookup b x of Some u \<Rightarrow> set (occurrences u) | None \<Rightarrow> {})"
proof (induction t rule: type_induct)
  case (ResolvedPath pkg i base args)
  have "set (argument_occurrences (bind_argument b arg)) =
      {x \<in> set (argument_occurrences arg). fmlookup b x = None}
      \<union> (\<Union>x \<in> set (argument_occurrences arg). case fmlookup b x of Some u \<Rightarrow> set (occurrences u) | None \<Rightarrow> {})"
    if "arg \<in> set args" for arg
    using ResolvedPath that by (cases arg) auto
  then show ?case by auto
qed (auto split: option.splits)

text \<open>Theorem: binding replaces exactly the parameters that have a binding: the parameters of the result are
  those without one and those of the bound types; a type without parameters does not change, a type is a template
  exactly when it has a parameter, and the parameters are listed without repetition. It would not be so if
  the arguments of a path or the elements of a tuple were left out.\<close>

theorem binding_replaces_parameters:
  "set (unassigned_generic_type_parameters (bind_generic_type_parameters b t)) =
     {x \<in> set (unassigned_generic_type_parameters t). fmlookup b x = None}
     \<union> {y. \<exists>x u. x \<in> set (unassigned_generic_type_parameters t) \<and> fmlookup b x = Some u
            \<and> y \<in> set (unassigned_generic_type_parameters u)}
   \<and> (is_a_template t \<longleftrightarrow> unassigned_generic_type_parameters t \<noteq> [])
   \<and> (is_a_template t \<or> bind_generic_type_parameters b t = t)
   \<and> distinct (unassigned_generic_type_parameters t)"
proof (intro conjI)
  show "set (unassigned_generic_type_parameters (bind_generic_type_parameters b t)) =
     {x \<in> set (unassigned_generic_type_parameters t). fmlookup b x = None}
     \<union> {y. \<exists>x u. x \<in> set (unassigned_generic_type_parameters t) \<and> fmlookup b x = Some u
            \<and> y \<in> set (unassigned_generic_type_parameters u)}"
    unfolding unassigned_set bind_occurrences by (auto split: option.splits)
  show "is_a_template t \<longleftrightarrow> unassigned_generic_type_parameters t \<noteq> []"
    using unassigned_set [of t] by (auto simp: template_occurrences simp flip: set_empty2)
  show "is_a_template t \<or> bind_generic_type_parameters b t = t"
    using bind_ground [of t b] by (auto simp: template_occurrences)
  show "distinct (unassigned_generic_type_parameters t)"
    by (simp add: unassigned_generic_type_parameters_def collect_generics_distinct)
qed

end
