(* ===== verification/Type_Equivalence.thy ===== *)
theory Type_Equivalence
  imports Resolved_Type_Properties "HOL-Library.List_Lexorder" "HOL-Library.Char_ord"
begin

text \<open>
  Equivalence of types up to a bijection between their generic parameters
  (\<open>equivalent_type\<close>), and what the equality that is derived from it satisfies and does
  not satisfy.

  \<open>similar strict I S t u\<close> says that two types have the same shape: corresponding generic
  parameters are in the relation \<open>S\<close>, corresponding documentation ids in \<open>I\<close>;
  lifetimes and the mutability of references are not compared; two tuples are
  compared along the shorter one, unless the relation is \<open>strict\<close>.
\<close>

section \<open>Similar types\<close>

definition zip_rel :: "bool \<Rightarrow> ('a \<Rightarrow> 'b \<Rightarrow> bool) \<Rightarrow> 'a list \<Rightarrow> 'b list \<Rightarrow> bool" where
  "zip_rel strict R xs ys \<longleftrightarrow> (strict \<longrightarrow> length xs = length ys) \<and> list_all (\<lambda>p. R (fst p) (snd p)) (zip xs ys)"

lemma zip_rel_simps [simp]:
  "zip_rel strict R (x # xs) (y # ys) = (R x y \<and> zip_rel strict R xs ys)"
  "zip_rel strict R [] ys = (strict \<longrightarrow> ys = [])"
  "zip_rel strict R xs [] = (strict \<longrightarrow> xs = [])"
  by (auto simp: zip_rel_def)

lemma zip_rel_cong [fundef_cong]:
  assumes "xs = xs'" and "ys = ys'" and "\<And>x y. x \<in> set xs' \<Longrightarrow> y \<in> set ys' \<Longrightarrow> R x y = R' x y"
  shows "zip_rel strict R xs ys = zip_rel strict R' xs' ys'"
  using assms(3) unfolding assms(1,2) by (induction xs' ys' rule: list_induct2') auto

fun similar :: "bool \<Rightarrow> (32 word option \<Rightarrow> 32 word option \<Rightarrow> bool) \<Rightarrow> (string \<Rightarrow> string \<Rightarrow> bool)
     \<Rightarrow> resolved_type \<Rightarrow> resolved_type \<Rightarrow> bool"
  and similar_argument :: "bool \<Rightarrow> (32 word option \<Rightarrow> 32 word option \<Rightarrow> bool) \<Rightarrow> (string \<Rightarrow> string \<Rightarrow> bool)
     \<Rightarrow> generic_argument \<Rightarrow> generic_argument \<Rightarrow> bool" where
  "similar strict I S (ResolvedPath (PathType package_id rustdoc_id base_type args)) u =
     (case u of ResolvedPath (PathType package_id' rustdoc_id' base_type' args') \<Rightarrow>
        package_id = package_id' \<and> I rustdoc_id rustdoc_id' \<and> base_type = base_type'
        \<and> zip_rel True (\<lambda>x y. similar_argument strict I S x y) args args'
      | _ \<Rightarrow> False)"
| "similar strict I S (Slice t) u = (case u of Slice u \<Rightarrow> similar strict I S t u | _ \<Rightarrow> False)"
| "similar strict I S (Reference _ _ t) u = (case u of Reference _ _ u \<Rightarrow> similar strict I S t u | _ \<Rightarrow> False)"
| "similar strict I S (Tuple ts) u =
     (case u of Tuple us \<Rightarrow> zip_rel strict (\<lambda>x y. similar strict I S x y) ts us | _ \<Rightarrow> False)"
| "similar strict I S (ScalarPrimitive p) u = (u = ScalarPrimitive p)"
| "similar strict I S (Generic x) u = (case u of Generic y \<Rightarrow> S x y | _ \<Rightarrow> False)"
| "similar_argument strict I S (TypeParameter t) arg =
     (case arg of TypeParameter u \<Rightarrow> similar strict I S t u | _ \<Rightarrow> False)"
| "similar_argument strict I S (LifetimeParameter _) arg =
     (case arg of LifetimeParameter _ \<Rightarrow> True | _ \<Rightarrow> False)"

lemma similar_argument_iff:
  "similar_argument strict I S x y \<longleftrightarrow>
     (\<exists>t u. x = TypeParameter t \<and> y = TypeParameter u \<and> similar strict I S t u)
     \<or> (\<exists>l k. x = LifetimeParameter l \<and> y = LifetimeParameter k)"
  by (cases x; cases y) auto

text \<open>Induction over two types of the same shape, in the order of \<open>similar\<close>.\<close>

lemma zip_rel_mono:
  assumes "zip_rel strict R xs ys" and "strict' \<longrightarrow> strict"
    and "\<And>x y. x \<in> set xs \<Longrightarrow> y \<in> set ys \<Longrightarrow> R x y \<Longrightarrow> R' x y"
  shows "zip_rel strict' R' xs ys"
  using assms by (induction xs ys rule: list_induct2') auto

lemma similar_mono:
  assumes "\<And>x y. S x y \<Longrightarrow> S' x y" and "\<And>i j. I i j \<Longrightarrow> I' i j" and "strict' \<longrightarrow> strict"
  shows "similar strict I S t u \<Longrightarrow> similar strict' I' S' t u"
proof (induction t arbitrary: u rule: type_induct)
  case (ResolvedPath pkg i base args)
  have "similar_argument strict' I' S' x y" if "x \<in> set args" "similar_argument strict I S x y" for x y
    using that ResolvedPath.IH by (auto simp: similar_argument_iff)
  with ResolvedPath.prems assms(2) show ?case
    by (auto split: resolved_type.splits path_type.splits intro: zip_rel_mono)
next
  case (Tuple elements)
  then show ?case using assms(3) by (auto split: resolved_type.splits intro: zip_rel_mono)
qed (auto split: resolved_type.splits intro: assms)

lemma zip_rel_refl: "(\<And>x. x \<in> set xs \<Longrightarrow> R x x) \<Longrightarrow> zip_rel strict R xs xs"
  by (induction xs) auto

lemma similar_refl:
  assumes "\<And>i. I i i"
  shows "(\<And>x. x \<in> set (occurrences t) \<Longrightarrow> S x x) \<Longrightarrow> similar strict I S t t"
proof (induction t rule: type_induct)
  case (ResolvedPath pkg i base args)
  have "similar_argument strict I S x x" if "x \<in> set args" for x
    using ResolvedPath that by (cases x) fastforce+
  then show ?case using assms by (auto intro: zip_rel_refl)
qed (auto intro!: zip_rel_refl)

lemma zip_rel_sym:
  assumes "\<And>x y. x \<in> set xs \<Longrightarrow> y \<in> set ys \<Longrightarrow> R x y = R' y x"
  shows "zip_rel strict R xs ys = zip_rel strict R' ys xs"
  using assms by (induction xs ys rule: list_induct2') auto

lemma similar_path [dest]: "similar strict I S (ResolvedPath p) u \<Longrightarrow> \<exists>q. u = ResolvedPath q"
  by (cases p) (auto split: resolved_type.splits)

lemma similar_sym: "similar strict I S t u = similar strict (\<lambda>i j. I j i) (\<lambda>x y. S y x) u t"
proof (induction t arbitrary: u rule: type_induct)
  case (ResolvedPath pkg i base args)
  have arg: "similar_argument strict I S x y = similar_argument strict (\<lambda>i j. I j i) (\<lambda>x y. S y x) y x"
    if "x \<in> set args" for x y
    using ResolvedPath that by (cases x; cases y) auto
  then have "zip_rel True (similar_argument strict I S) args ys
      = zip_rel True (similar_argument strict (\<lambda>i j. I j i) (\<lambda>x y. S y x)) ys args" for ys
    by (intro zip_rel_sym)
  then show ?case by (auto split: resolved_type.splits path_type.splits)
next
  case (Tuple elements)
  then have "zip_rel strict (similar strict I S) elements us
      = zip_rel strict (similar strict (\<lambda>i j. I j i) (\<lambda>x y. S y x)) us elements" for us
    by (intro zip_rel_sym)
  then show ?case by (auto split: resolved_type.splits)
next
  case (Reference m lt inner)
  then show ?case by (cases u) auto
next
  case (Slice element)
  then show ?case by (cases u) auto
next
  case (ScalarPrimitive s)
  then show ?case by (cases u) auto
next
  case (Generic name)
  then show ?case by (cases u) auto
qed

section \<open>The generators pair the parameters one to one\<close>

definition one_to_one :: "(string \<Rightarrow> string \<Rightarrow> bool) \<Rightarrow> bool" where
  "one_to_one S \<longleftrightarrow> (\<forall>a b c. S a b \<longrightarrow> S a c \<longrightarrow> b = c) \<and> (\<forall>a b c. S a c \<longrightarrow> S b c \<longrightarrow> a = b)"

definition generator_ok :: "unassigned_id_generator \<Rightarrow> bool" where
  "generator_ok g \<longleftrightarrow>
     (\<forall>a b i. fmlookup (known_ids g) a = Some i \<longrightarrow> fmlookup (known_ids g) b = Some i \<longrightarrow> a = b)
     \<and> (\<forall>a i. fmlookup (known_ids g) a = Some i \<longrightarrow> i < next_id g)
     \<and> (\<forall>i < next_id g. \<exists>a. fmlookup (known_ids g) a = Some i)"

definition generators_ok :: "id_generators \<Rightarrow> bool" where
  "generators_ok gens \<longleftrightarrow> generator_ok (fst gens) \<and> generator_ok (snd gens) \<and> next_id (fst gens) = next_id (snd gens)"

definition paired :: "id_generators \<Rightarrow> string \<Rightarrow> string \<Rightarrow> bool" where
  "paired gens a b \<longleftrightarrow>
     (\<exists>i. fmlookup (known_ids (fst gens)) a = Some i \<and> fmlookup (known_ids (snd gens)) b = Some i)"

lemma paired_one_to_one: "generators_ok gens \<Longrightarrow> one_to_one (paired gens)"
  unfolding generators_ok_def generator_ok_def one_to_one_def paired_def by (metis option.inject)

lemma generators_new: "generators_ok (id_generator_new, id_generator_new)" "\<not> paired (id_generator_new, id_generator_new) a b"
  by (simp_all add: generators_ok_def generator_ok_def id_generator_new_def paired_def)

lemma generator_id_known:
  assumes "fmlookup (known_ids g) a = Some i"
  shows "generator_id a g = (i, g)"
  using assms by (simp add: generator_id_def)

lemma generator_id_new:
  assumes "fmlookup (known_ids g) a = None" and "generator_ok g"
  shows "generator_id a g = (next_id g, g\<lparr>next_id := Suc (next_id g), known_ids := fmupd a (next_id g) (known_ids g)\<rparr>)"
    and "generator_ok (g\<lparr>next_id := Suc (next_id g), known_ids := fmupd a (next_id g) (known_ids g)\<rparr>)"
proof -
  show "generator_id a g = (next_id g, g\<lparr>next_id := Suc (next_id g), known_ids := fmupd a (next_id g) (known_ids g)\<rparr>)"
    using assms by (simp add: generator_id_def)
  have lt: "fmlookup (known_ids g) b = Some i \<Longrightarrow> i < next_id g" for b i
    using assms(2) by (simp add: generator_ok_def)
  let ?g = "g\<lparr>next_id := Suc (next_id g), known_ids := fmupd a (next_id g) (known_ids g)\<rparr>"
  have "\<exists>b. fmlookup (known_ids ?g) b = Some i" if "i < Suc (next_id g)" for i
  proof (cases "i = next_id g")
    case False
    with that have "i < next_id g" by simp
    then obtain b where b: "fmlookup (known_ids g) b = Some i" using assms(2) unfolding generator_ok_def by blast
    with assms(1) have "b \<noteq> a" by auto
    with b show ?thesis by (intro exI [of _ b]) simp
  qed auto
  moreover have "x = y" if "fmlookup (known_ids ?g) x = Some i" "fmlookup (known_ids ?g) y = Some i" for x y i
  proof (cases "x = a"; cases "y = a")
    assume "x \<noteq> a" "y \<noteq> a"
    with that have "fmlookup (known_ids g) x = Some i" "fmlookup (known_ids g) y = Some i" by simp_all
    with assms(2) show ?thesis unfolding generator_ok_def by blast
  qed (use that lt [of x i] lt [of y i] in auto)
  moreover have "i < Suc (next_id g)" if "fmlookup (known_ids ?g) x = Some i" for x i
    using that lt [of x i] by (cases "x = a") auto
  moreover have "next_id ?g = Suc (next_id g)" by simp
  ultimately show "generator_ok ?g" unfolding generator_ok_def by metis
qed

lemma same_id_sound:
  assumes "generators_ok gens" and "same_id a b gens = Some gens'"
  shows "generators_ok gens' \<and> (\<forall>x y. paired gens' x y \<longleftrightarrow> paired gens x y \<or> x = a \<and> y = b)"
proof -
  obtain g h where gh: "gens = (g, h)" by (cases gens)
  have ok: "generator_ok g" "generator_ok h" "next_id g = next_id h" using assms(1) by (simp_all add: gh generators_ok_def)
  have lt: "fmlookup (known_ids g) x = Some i \<Longrightarrow> i < next_id g" "fmlookup (known_ids h) x = Some i \<Longrightarrow> i < next_id g" for x i
    using ok by (auto simp: generator_ok_def)
  show ?thesis
  proof (cases "fmlookup (known_ids g) a"; cases "fmlookup (known_ids h) b")
    assume n: "fmlookup (known_ids g) a = None" "fmlookup (known_ids h) b = None"
    note new = generator_id_new [OF n(1) ok(1)] generator_id_new [OF n(2) ok(2)]
    from assms(2) have "gens' = (g\<lparr>next_id := Suc (next_id g), known_ids := fmupd a (next_id g) (known_ids g)\<rparr>,
        h\<lparr>next_id := Suc (next_id h), known_ids := fmupd b (next_id h) (known_ids h)\<rparr>)"
      by (simp add: same_id_def gh new ok(3))
    then show ?thesis
      using new(2,4) ok(3) n by (auto simp: generators_ok_def paired_def gh dest: lt)
  next
    fix i j assume s: "fmlookup (known_ids g) a = Some i" "fmlookup (known_ids h) b = Some j"
    with assms(2) have "gens' = gens" "i = j" by (auto simp: same_id_def gh generator_id_known split: if_splits)
    then show ?thesis using s assms(1) by (auto simp: paired_def gh)
  next
    fix i assume s: "fmlookup (known_ids g) a = Some i" and n: "fmlookup (known_ids h) b = None"
    with assms(2) lt(1) [OF s] ok(3) show ?thesis
      by (simp add: same_id_def gh generator_id_known generator_id_new(1) [OF n ok(2)])
  next
    fix i assume s: "fmlookup (known_ids h) b = Some i" and n: "fmlookup (known_ids g) a = None"
    with assms(2) lt(2) [OF s] ok(3) show ?thesis
      by (simp add: same_id_def gh generator_id_known generator_id_new(1) [OF n ok(1)])
  qed
qed

lemma same_id_complete:
  assumes "generators_ok gens" and "one_to_one S" and "\<And>x y. paired gens x y \<Longrightarrow> S x y" and "S a b"
  shows "\<exists>gens'. same_id a b gens = Some gens'"
proof -
  obtain g h where gh: "gens = (g, h)" by (cases gens)
  have ok: "generator_ok g" "generator_ok h" "next_id g = next_id h" using assms(1) by (simp_all add: gh generators_ok_def)
  have left: "fmlookup (known_ids h) b = Some i" if "fmlookup (known_ids g) a = Some i" for i
  proof -
    from that ok obtain y where y: "fmlookup (known_ids h) y = Some i" unfolding generator_ok_def by metis
    with that have "S a y" using assms(3) by (auto simp: paired_def gh)
    with assms(2,4) have "y = b" unfolding one_to_one_def by blast
    with y show ?thesis by simp
  qed
  have right: "fmlookup (known_ids g) a = Some i" if "fmlookup (known_ids h) b = Some i" for i
  proof -
    from that ok obtain y where y: "fmlookup (known_ids g) y = Some i" unfolding generator_ok_def by metis
    with that have "S y b" using assms(3) by (auto simp: paired_def gh)
    with assms(2,4) have "y = a" unfolding one_to_one_def by blast
    with y show ?thesis by simp
  qed
  show ?thesis
  proof (cases "fmlookup (known_ids g) a")
    case None
    moreover from None right have "fmlookup (known_ids h) b = None" by (metis not_None_eq option.distinct(1))
    ultimately show ?thesis using ok(3) by (simp add: same_id_def gh generator_id_def)
  next
    case (Some i)
    with left show ?thesis by (simp add: same_id_def gh generator_id_known)
  qed
qed

section \<open>Equivalence is similarity up to a bijection\<close>

lemma zip_all_sound:
  assumes "\<And>x y s s'. x \<in> set xs \<Longrightarrow> y \<in> set ys \<Longrightarrow> Inv s \<Longrightarrow> f x y s = Some s' \<Longrightarrow> Inv s' \<and> le s s' \<and> R s' x y"
    and "\<And>x y s s'. x \<in> set xs \<Longrightarrow> le s s' \<Longrightarrow> R s x y \<Longrightarrow> R s' x y"
    and "\<And>s. le s s" and "\<And>s s' s''. le s s' \<Longrightarrow> le s' s'' \<Longrightarrow> le s s''"
  shows "Inv s \<Longrightarrow> zip_all f xs ys s = Some s' \<Longrightarrow> Inv s' \<and> le s s' \<and> zip_rel False (R s') xs ys"
  using assms
proof (induction xs ys arbitrary: s rule: list_induct2')
  case (4 x xs y ys)
  from \<open>zip_all f (x # xs) (y # ys) s = Some s'\<close> obtain s1 where
    f: "f x y s = Some s1" and z: "zip_all f xs ys s1 = Some s'" by (auto split: option.splits)
  have 1: "Inv s1 \<and> le s s1 \<and> R s1 x y" using 4(4) [OF _ _ 4(2) f] by simp
  have 2: "Inv s' \<and> le s1 s' \<and> zip_rel False (R s') xs ys"
  proof (rule 4(1) [OF _ z])
    show "Inv s1" using 1 by simp
    show "x' \<in> set xs \<Longrightarrow> y' \<in> set ys \<Longrightarrow> Inv t \<Longrightarrow> f x' y' t = Some t' \<Longrightarrow> Inv t' \<and> le t t' \<and> R t' x' y'" for x' y' t t'
      using 4(4) [of x' y' t t'] by simp
    show "x' \<in> set xs \<Longrightarrow> le t t' \<Longrightarrow> R t x' y' \<Longrightarrow> R t' x' y'" for x' y' t t'
      using 4(5) [of x' t t' y'] by simp
  qed (fact 4(6), fact 4(7))
  have "R s' x y" using 4(5) [of x s1 s' y] 1 2 by simp
  moreover have "le s s'" using 4(7) 1 2 by blast
  ultimately show ?case using 2 by simp
qed auto

lemma zip_all_complete:
  assumes "\<And>x y s. x \<in> set xs \<Longrightarrow> y \<in> set ys \<Longrightarrow> Inv s \<Longrightarrow> R x y \<Longrightarrow> \<exists>s'. f x y s = Some s' \<and> Inv s'"
  shows "Inv s \<Longrightarrow> zip_rel strict R xs ys \<Longrightarrow> \<exists>s'. zip_all f xs ys s = Some s' \<and> Inv s'"
  using assms
proof (induction xs ys arbitrary: s rule: list_induct2')
  case (4 x xs y ys)
  from 4(4) [of x y s] 4(2,3) obtain s1 where "f x y s = Some s1" "Inv s1" by auto
  with 4(1) [of s1] 4(3,4) show ?case by simp
qed auto

definition extends :: "id_generators \<Rightarrow> id_generators \<Rightarrow> bool" where
  "extends gens gens' \<longleftrightarrow> (\<forall>x y. paired gens x y \<longrightarrow> paired gens' x y)"

lemma extends_order: "extends s s" "extends s s' \<Longrightarrow> extends s' s'' \<Longrightarrow> extends s s''"
  by (simp_all add: extends_def)

lemma similar_extends:
  assumes "extends s s'" and "similar strict I (paired s) t u"
  shows "similar strict I (paired s') t u"
  by (rule similar_mono [OF _ _ _ assms(2)]) (use assms(1) in \<open>simp_all add: extends_def\<close>)

lemma equivalent_sound:
  "generators_ok gens \<Longrightarrow> equivalent_type t u gens = Some gens' \<Longrightarrow>
     generators_ok gens' \<and> extends gens gens' \<and> similar False (=) (paired gens') t u"
proof (induction t arbitrary: u gens gens' rule: type_induct)
  case (ResolvedPath pkg i base args)
  from ResolvedPath.prems(2) obtain args' where u: "u = ResolvedPath (PathType pkg i base args')"
    and len: "length args = length args'"
    and z: "zip_all equivalent_argument args args' gens = Some gens'"
    by (auto split: resolved_type.splits path_type.splits if_splits)
  have "generators_ok gens' \<and> extends gens gens' \<and> zip_rel False (similar_argument False (=) (paired gens')) args args'"
  proof (rule zip_all_sound [where R = "\<lambda>s. similar_argument False (=) (paired s)" and Inv = generators_ok
        and le = extends, OF _ _ extends_order ResolvedPath.prems(1) z])
    fix x y s s' assume a: "x \<in> set args" "generators_ok s" "equivalent_argument x y s = Some s'"
    show "generators_ok s' \<and> extends s s' \<and> similar_argument False (=) (paired s') x y"
    proof (cases x)
      case (TypeParameter t)
      with a obtain u where y: "y = TypeParameter u" and e: "equivalent_type t u s = Some s'"
        by (auto split: generic_argument.splits)
      have "TypeParameter t \<in> set args" using a(1) TypeParameter by simp
      from ResolvedPath.IH [OF this a(2) e] show ?thesis by (simp add: TypeParameter y)
    next
      case (LifetimeParameter l)
      with a show ?thesis by (auto simp: extends_order split: generic_argument.splits)
    qed
  next
    fix x y s s' assume "extends s s'" "similar_argument False (=) (paired s) x y"
    then show "similar_argument False (=) (paired s') x y"
      unfolding similar_argument_iff using similar_extends by blast
  qed
  then show ?case using len by (simp add: u zip_rel_def)
next
  case (Tuple ts)
  from Tuple.prems(2) obtain us where u: "u = Tuple us" and z: "zip_all equivalent_type ts us gens = Some gens'"
    by (auto split: resolved_type.splits)
  have "generators_ok gens' \<and> extends gens gens' \<and> zip_rel False (similar False (=) (paired gens')) ts us"
    by (rule zip_all_sound [where R = "\<lambda>s. similar False (=) (paired s)" and Inv = generators_ok
        and le = extends, OF Tuple.IH similar_extends extends_order Tuple.prems(1) z])
  then show ?case by (simp add: u)
next
  case (Reference m lt inner)
  then obtain u' m' lt' where u: "u = Reference m' lt' u'" and e: "equivalent_type inner u' gens = Some gens'"
    by (auto split: resolved_type.splits)
  show ?case using Reference.IH [OF Reference.prems(1) e] by (simp add: u)
next
  case (Slice element)
  then obtain u' where u: "u = Slice u'" and e: "equivalent_type element u' gens = Some gens'"
    by (auto split: resolved_type.splits)
  show ?case using Slice.IH [OF Slice.prems(1) e] by (simp add: u)
next
  case (ScalarPrimitive s)
  then show ?case by (simp add: extends_order split: resolved_type.splits if_splits)
next
  case (Generic name)
  then obtain y where u: "u = Generic y" and e: "same_id name y gens = Some gens'" by (auto split: resolved_type.splits)
  show ?case using same_id_sound [OF Generic.prems(1) e] by (simp add: u extends_def)
qed

definition pairs_within :: "(string \<Rightarrow> string \<Rightarrow> bool) \<Rightarrow> id_generators \<Rightarrow> bool" where
  "pairs_within S gens \<longleftrightarrow> generators_ok gens \<and> (\<forall>a b. paired gens a b \<longrightarrow> S a b)"

lemma equivalent_complete:
  assumes "one_to_one S"
  shows "pairs_within S gens \<Longrightarrow> similar False (=) S t u \<Longrightarrow>
     \<exists>gens'. equivalent_type t u gens = Some gens' \<and> pairs_within S gens'"
proof (induction t arbitrary: u gens rule: type_induct)
  case (ResolvedPath pkg i base args)
  from ResolvedPath.prems(2) obtain args' where u: "u = ResolvedPath (PathType pkg i base args')"
    and z: "zip_rel True (similar_argument False (=) S) args args'"
    by (auto split: resolved_type.splits path_type.splits)
  have step: "\<exists>s'. equivalent_argument x y s = Some s' \<and> pairs_within S s'"
    if a: "x \<in> set args" "pairs_within S s" "similar_argument False (=) S x y" for x y s
    using a(3) unfolding similar_argument_iff
  proof
    assume "\<exists>t u. x = TypeParameter t \<and> y = TypeParameter u \<and> similar False (=) S t u"
    then obtain t u where xy: "x = TypeParameter t" "y = TypeParameter u" "similar False (=) S t u" by blast
    with a(1) have "TypeParameter t \<in> set args" by simp
    from ResolvedPath.IH [OF this a(2) xy(3)] show ?thesis by (simp add: xy)
  next
    assume "\<exists>l k. x = LifetimeParameter l \<and> y = LifetimeParameter k"
    then have "equivalent_argument x y s = Some s" by auto
    with a(2) show ?thesis by blast
  qed
  have "length args = length args'" using z by (simp add: zip_rel_def)
  with zip_all_complete [OF step ResolvedPath.prems(1) z] show ?case by (simp add: u)
next
  case (Tuple ts)
  from Tuple.prems(2) obtain us where u: "u = Tuple us" and z: "zip_rel False (similar False (=) S) ts us"
    by (auto split: resolved_type.splits)
  from zip_all_complete [OF Tuple.IH Tuple.prems(1) z] show ?case by (simp add: u)
next
  case (Generic name)
  then obtain y where u: "u = Generic y" and S: "S name y" by (auto split: resolved_type.splits)
  have ok: "generators_ok gens" and sub: "\<And>a b. paired gens a b \<Longrightarrow> S a b"
    using Generic.prems(1) by (auto simp: pairs_within_def)
  obtain gens' where e: "same_id name y gens = Some gens'" using same_id_complete [OF ok assms sub S] by blast
  have "pairs_within S gens'" using same_id_sound [OF ok e] sub S by (simp add: pairs_within_def)
  with e show ?case by (simp add: u)
qed (auto split: resolved_type.splits)

lemma equivalent_iff:
  "equivalent_type t u (id_generator_new, id_generator_new) \<noteq> None \<longleftrightarrow> (\<exists>S. one_to_one S \<and> similar False (=) S t u)"
proof
  assume "equivalent_type t u (id_generator_new, id_generator_new) \<noteq> None"
  then obtain gens where e: "equivalent_type t u (id_generator_new, id_generator_new) = Some gens" by blast
  show "\<exists>S. one_to_one S \<and> similar False (=) S t u"
    using equivalent_sound [OF generators_new(1) e] paired_one_to_one [of gens] by blast
next
  assume "\<exists>S. one_to_one S \<and> similar False (=) S t u"
  then obtain S where S: "one_to_one S" "similar False (=) S t u" by blast
  have "pairs_within S (id_generator_new, id_generator_new)" using generators_new by (simp add: pairs_within_def)
  from equivalent_complete [OF S(1) this S(2)]
  show "equivalent_type t u (id_generator_new, id_generator_new) \<noteq> None" by blast
qed

lemma path_eq_iff: "path_eq p q \<longleftrightarrow> (\<exists>S. one_to_one S \<and> similar False (=) S (ResolvedPath p) (ResolvedPath q))"
  using equivalent_iff [of "ResolvedPath p" "ResolvedPath q"] by (simp add: path_eq_def)

lemma path_eq_refl: "path_eq p p"
proof -
  have "one_to_one (=)" by (simp add: one_to_one_def)
  moreover have "similar False (=) (=) (ResolvedPath p) (ResolvedPath p)" by (rule similar_refl) simp_all
  ultimately show ?thesis unfolding path_eq_iff by blast
qed

lemma path_eq_sym: "path_eq p q \<Longrightarrow> path_eq q p"
proof -
  assume "path_eq p q"
  then obtain S where S: "one_to_one S" "similar False (=) S (ResolvedPath p) (ResolvedPath q)"
    unfolding path_eq_iff by blast
  have "one_to_one (\<lambda>x y. S y x)" using S(1) unfolding one_to_one_def by blast
  moreover have "(\<lambda>i j :: 32 word option. j = i) = (=)" by auto
  with S(2) have "similar False (=) (\<lambda>x y. S y x) (ResolvedPath q) (ResolvedPath p)"
    using similar_sym [of False "(=)" S "ResolvedPath p" "ResolvedPath q"] by simp
  ultimately show ?thesis unfolding path_eq_iff by blast
qed

lemma lifetime_eq_iff: "lifetime_eq l k \<longleftrightarrow> (is_static l \<longleftrightarrow> is_static k)"
  by (cases l; cases k) auto

lemma type_eq_refl [simp]: "type_eq t t"
  by (induction t rule: type_induct) (auto simp: path_eq_refl lifetime_eq_iff intro: list_all2_same [THEN iffD2])

lemma type_eq_sym: "type_eq t u \<Longrightarrow> type_eq u t"
proof (induction t arbitrary: u rule: type_induct)
  case (Tuple ts)
  then obtain us where u: "u = Tuple us" and l: "list_all2 type_eq ts us" by (cases u) auto
  from l Tuple.IH have "list_all2 type_eq us ts" by (induction rule: list_all2_induct) auto
  with u show ?case by simp
next
  case (ResolvedPath pkg i base args)
  then show ?case by (cases u) (auto intro: path_eq_sym)
next
  case (Reference m lt inner)
  then show ?case by (cases u) (auto simp: lifetime_eq_iff)
next
  case (ScalarPrimitive s)
  then show ?case by (cases u) auto
next
  case (Slice element)
  then show ?case by (cases u) auto
next
  case (Generic name)
  then show ?case by (cases u) auto
qed

section \<open>Properties\<close>

text \<open>C12: two paths are equal exactly when a one-to-one correspondence between the names of their
  generic parameters makes them similar: the same package, documentation id and segments, and similar
  arguments. It would not be so if two parameters could be given the same number, or if one parameter
  could be matched with two.\<close>

theorem path_equality_is_similarity:
  "path_eq p q \<longleftrightarrow> (\<exists>S. one_to_one S \<and> similar False (=) S (ResolvedPath p) (ResolvedPath q))"
  by (rule path_eq_iff)

text \<open>Theorem: equality of types is reflexive and symmetric.\<close>

theorem type_equality_reflexive_symmetric:
  "type_eq t t \<and> (type_eq t u \<longleftrightarrow> type_eq u t)"
  using type_eq_refl type_eq_sym by blast

text \<open>A path with one type argument.\<close>

abbreviation boxed :: "string list \<Rightarrow> resolved_type \<Rightarrow> resolved_type" where
  "boxed base t \<equiv> ResolvedPath (PathType ''krate'' None base [TypeParameter t])"

lemma boxed_eq: "type_eq (boxed base t) (boxed base u) \<longleftrightarrow> equivalent_type t u (id_generator_new, id_generator_new) \<noteq> None"
  by (auto simp: path_eq_def split: option.splits)

text \<open>Theorem: defect. Equality of types breaks the contracts of \<^verbatim>\<open>Eq\<close> and
  \<^verbatim>\<open>Hash\<close>: inside the arguments of a path a shared reference equals a mutable
  one, although what they write to the hasher differs; a tuple equals each of its prefixes, so that
  equality is not transitive; and a named lifetime parameter equals the static one but not the other way
  around.\<close>

theorem equality_breaks_its_contracts:
  "type_eq (boxed base (Reference False lt t)) (boxed base (Reference True lt t))
   \<and> hash_type (boxed base (Reference False lt t)) \<noteq> hash_type (boxed base (Reference True lt t))
   \<and> type_eq (boxed base (Tuple [ScalarPrimitive U8])) (boxed base (Tuple []))
   \<and> type_eq (boxed base (Tuple [])) (boxed base (Tuple [ScalarPrimitive U16]))
   \<and> \<not> type_eq (boxed base (Tuple [ScalarPrimitive U8])) (boxed base (Tuple [ScalarPrimitive U16]))
   \<and> lifetime_parameter_eq (NamedParameter l) StaticParameter
   \<and> \<not> lifetime_parameter_eq StaticParameter (NamedParameter l)"
proof -
  have "equivalent_type t t (id_generator_new, id_generator_new) \<noteq> None"
  proof -
    have "one_to_one (=)" by (simp add: one_to_one_def)
    moreover have "similar False (=) (=) t t" by (rule similar_refl) simp_all
    ultimately show ?thesis unfolding equivalent_iff by blast
  qed
  then have "type_eq (boxed base (Reference False lt t)) (boxed base (Reference True lt t))"
    unfolding boxed_eq by simp
  moreover have "hash_type (boxed base (Reference False lt t)) \<noteq> hash_type (boxed base (Reference True lt t))"
    by simp
  ultimately show ?thesis unfolding boxed_eq by simp
qed

text \<open>Theorem: defect. The renaming that \<^verbatim>\<open>is_equivalent_to\<close> returns depends on the
  order in which the hash maps are iterated over: for the iteration by key, which lists every map
  correctly, the renaming for the types \<open>P<A, B>\<close> and \<open>P<Y, X>\<close> exchanges the two names, and applying
  it to the first type gives \<open>P<X, Y>\<close>.\<close>

theorem renaming_depends_on_iteration_order:
  "set (sorted_list_of_fmap m) = {(k, v). fmlookup m k = Some v} \<and> distinct (sorted_list_of_fmap m)
   \<and> map_option (\<lambda>r. map (fmlookup r) [''A'', ''B''])
       (is_equivalent_to sorted_list_of_fmap
         (ResolvedPath (PathType ''krate'' None [''P''] [TypeParameter (Generic ''A''), TypeParameter (Generic ''B'')]))
         (ResolvedPath (PathType ''krate'' None [''P''] [TypeParameter (Generic ''Y''), TypeParameter (Generic ''X'')])))
     = Some [Some ''X'', Some ''Y'']"
proof (intro conjI)
  show "set (sorted_list_of_fmap m) = {(k, v). fmlookup m k = Some v}"
    by (auto simp: sorted_list_of_fmap_def fmlookup_dom_iff image_iff sorted_list_of_fset.rep_eq)
  show "distinct (sorted_list_of_fmap m)"
    by (simp add: sorted_list_of_fmap_def distinct_map inj_on_def sorted_list_of_fset.rep_eq)
qed code_simp

end
