(* ===== verification/Templates.thy ===== *)
theory Templates
  imports Type_Equivalence
begin

text \<open>
  Specialisation of templates (\<open>is_a_template_for\<close>): for a template in which no parameter
  is repeated the test finds bindings exactly when some bindings make the template the concrete type, up to what
  \<open>similar\<close> does not compare; and what goes wrong when a parameter is repeated.
\<close>

section \<open>Ground types\<close>

definition ground :: "resolved_type \<Rightarrow> bool" where
  "ground t \<longleftrightarrow> occurrences t = []"

definition linear :: "resolved_type \<Rightarrow> bool" where
  "linear t \<longleftrightarrow> distinct (occurrences t)"

text \<open>The comparison of a template with a type: documentation ids are not compared.\<close>

abbreviation instance_of :: "bool \<Rightarrow> resolved_type \<Rightarrow> resolved_type \<Rightarrow> bool" where
  "instance_of strict t c \<equiv> similar strict (\<lambda>_ _. True) (=) t c"

lemma zip_rel_mono2:
  assumes "zip_rel strict R xs ys" and "\<And>x y. x \<in> set xs \<Longrightarrow> y \<in> set ys \<Longrightarrow> R x y \<Longrightarrow> R' x y"
  shows "zip_rel strict R' xs ys"
  by (rule zip_rel_mono [OF assms(1)]) (simp_all add: assms(2))

text \<open>A type without parameters is similar only to types that have none where they are compared, so that
  binding parameters there changes nothing.\<close>

lemma similar_ground_bind:
  "ground c \<Longrightarrow> similar strict I S c t \<Longrightarrow> similar strict I S' c (bind_generic_type_parameters b t)"
proof (induction c arbitrary: t rule: type_induct)
  case (ResolvedPath pkg i base args)
  from ResolvedPath.prems(2) obtain i' args' where t: "t = ResolvedPath (PathType pkg i' base args')" "I i i'"
    and z: "zip_rel True (similar_argument strict I S) args args'"
    by (auto split: resolved_type.splits path_type.splits)
  have "similar_argument strict I S' x (bind_argument b y)" if "x \<in> set args" "similar_argument strict I S x y" for x y
    using that(2) unfolding similar_argument_iff
  proof
    assume "\<exists>t u. x = TypeParameter t \<and> y = TypeParameter u \<and> similar strict I S t u"
    then obtain v u where xy: "x = TypeParameter v" "y = TypeParameter u" "similar strict I S v u" by blast
    with that(1) have v: "TypeParameter v \<in> set args" by simp
    moreover have "ground v" using ResolvedPath.prems(1) v by (force simp: ground_def)
    ultimately have "similar strict I S' v (bind_generic_type_parameters b u)" using ResolvedPath.IH xy(3) by blast
    then show "(\<exists>t u. x = TypeParameter t \<and> bind_argument b y = TypeParameter u \<and> similar strict I S' t u) \<or>
        (\<exists>l k. x = LifetimeParameter l \<and> bind_argument b y = LifetimeParameter k)" by (simp add: xy)
  qed auto
  with z have "zip_rel True (\<lambda>x y. similar_argument strict I S' x (bind_argument b y)) args args'"
    by (blast intro: zip_rel_mono2)
  then have "zip_rel True (similar_argument strict I S') args (map (bind_argument b) args')"
    by (induction args args' rule: list_induct2') auto
  then show ?case by (simp add: t)
next
  case (Tuple ts)
  from Tuple.prems(2) obtain us where t: "t = Tuple us" and z: "zip_rel strict (similar strict I S) ts us"
    by (auto split: resolved_type.splits)
  have "similar strict I S' x (bind_generic_type_parameters b y)" if "x \<in> set ts" "similar strict I S x y" for x y
    using Tuple that by (auto simp: ground_def)
  with z have "zip_rel strict (\<lambda>x y. similar strict I S' x (bind_generic_type_parameters b y)) ts us"
    by (blast intro: zip_rel_mono2)
  then have "zip_rel strict (similar strict I S') ts (map (bind_generic_type_parameters b) us)"
    by (induction ts us rule: list_induct2') auto
  then show ?case by (simp add: t)
qed (auto simp: ground_def split: resolved_type.splits)

text \<open>Equal types are similar.\<close>

lemma type_eq_similar:
  "ground c \<Longrightarrow> type_eq c t \<Longrightarrow> similar False (=) S c t"
proof (induction c arbitrary: t rule: type_induct)
  case (ResolvedPath pkg i base args)
  then obtain q where t: "t = ResolvedPath q" and e: "path_eq (PathType pkg i base args) q" by (cases t) auto
  from e obtain S0 where "similar False (=) S0 (ResolvedPath (PathType pkg i base args)) t"
    unfolding path_eq_iff t by blast
  from similar_ground_bind [OF ResolvedPath.prems(1) this, of S fmempty] show ?case by (simp add: bind_empty)
next
  case (Tuple ts)
  then obtain us where t: "t = Tuple us" and l: "list_all2 type_eq ts us" by (cases t) auto
  from l Tuple.IH Tuple.prems(1) have "zip_rel False (similar False (=) S) ts us"
    by (induction rule: list_all2_induct) (auto simp: ground_def)
  then show ?case by (simp add: t)
next
  case (Reference m lt inner)
  then show ?case by (cases t) (auto simp: ground_def)
next
  case (ScalarPrimitive s)
  then show ?case by (cases t) auto
next
  case (Slice element)
  then show ?case by (cases t) (auto simp: ground_def)
next
  case (Generic name)
  then show ?case by (simp add: ground_def)
qed

lemma instance_flip: "similar strict (\<lambda>_ _. True) (=) c t = instance_of strict t c"
proof -
  have "(\<lambda>x y :: string. y = x) = (=)" by auto
  then show ?thesis using similar_sym [of strict "\<lambda>_ _. True" "(=)" c t] by simp
qed

lemma type_eq_instance:
  assumes "ground c" and "type_eq c t"
  shows "instance_of False (bind_generic_type_parameters b t) c"
proof -
  have "similar False (\<lambda>_ _. True) (=) c (bind_generic_type_parameters b t)"
    by (rule similar_mono [OF _ _ _ similar_ground_bind [OF assms(1) type_eq_similar [OF assms]]]) simp_all
  then show ?thesis by (simp add: instance_flip)
qed

lemma instance_refl: "instance_of strict t t"
  by (rule similar_refl) simp_all

section \<open>The bindings that are found\<close>

lemma zip_try_sound:
  assumes "\<And>x y b b'. x \<in> set xs \<Longrightarrow> y \<in> set ys \<Longrightarrow> f x y b = Inr (Some b') \<Longrightarrow>
      (\<forall>n. n \<notin> set (occ x) \<longrightarrow> fmlookup b' n = fmlookup b n) \<and> R b' x y"
    and "\<And>x y b b'. x \<in> set xs \<Longrightarrow> \<forall>n \<in> set (occ x). fmlookup b' n = fmlookup b n \<Longrightarrow> R b x y \<Longrightarrow> R b' x y"
    and "distinct (concat (map occ xs))"
  shows "zip_try f xs ys b = Inr (Some b') \<Longrightarrow>
      (\<forall>n. n \<notin> set (concat (map occ xs)) \<longrightarrow> fmlookup b' n = fmlookup b n) \<and> zip_rel False (R b') xs ys"
  using assms
proof (induction xs ys arbitrary: b rule: list_induct2')
  case (4 x xs y ys)
  from 4(2) obtain b1 where f: "f x y b = Inr (Some b1)" and z: "zip_try f xs ys b1 = Inr (Some b')"
    by (auto split: sum.splits option.splits)
  have 1: "(\<forall>n. n \<notin> set (occ x) \<longrightarrow> fmlookup b1 n = fmlookup b n) \<and> R b1 x y"
    using 4(3) [of x y b b1] f by simp
  have 2: "(\<forall>n. n \<notin> set (concat (map occ xs)) \<longrightarrow> fmlookup b' n = fmlookup b1 n) \<and> zip_rel False (R b') xs ys"
  proof (rule 4(1) [OF z])
    show "x' \<in> set xs \<Longrightarrow> y' \<in> set ys \<Longrightarrow> f x' y' c = Inr (Some c') \<Longrightarrow>
        (\<forall>n. n \<notin> set (occ x') \<longrightarrow> fmlookup c' n = fmlookup c n) \<and> R c' x' y'" for x' y' c c'
      using 4(3) [of x' y' c c'] by simp
    show "x' \<in> set xs \<Longrightarrow> \<forall>n \<in> set (occ x'). fmlookup c' n = fmlookup c n \<Longrightarrow> R c x' y' \<Longrightarrow> R c' x' y'" for x' y' c c'
      using 4(4) [of x' c' c y'] by simp
    show "distinct (concat (map occ xs))" using 4(5) by simp
  qed
  have "\<forall>n \<in> set (occ x). fmlookup b' n = fmlookup b1 n" using 2 4(5) by auto
  with 1 4(4) [of x b' b1 y] have "R b' x y" by simp
  with 1 2 show ?case by auto
qed auto

lemma zip_try_complete:
  assumes "\<And>x y b. x \<in> set xs \<Longrightarrow> y \<in> set ys \<Longrightarrow> R x y \<Longrightarrow> \<forall>n \<in> set (occ x). fmlookup b n = None \<Longrightarrow>
      \<exists>b'. f x y b = Inr (Some b')"
    and "\<And>x y b b'. x \<in> set xs \<Longrightarrow> y \<in> set ys \<Longrightarrow> f x y b = Inr (Some b') \<Longrightarrow>
      \<forall>n. n \<notin> set (occ x) \<longrightarrow> fmlookup b' n = fmlookup b n"
    and "distinct (concat (map occ xs))"
  shows "zip_rel strict R xs ys \<Longrightarrow> \<forall>n \<in> set (concat (map occ xs)). fmlookup b n = None \<Longrightarrow>
      \<exists>b'. zip_try f xs ys b = Inr (Some b')"
  using assms
proof (induction xs ys arbitrary: b rule: list_induct2')
  case (4 x xs y ys)
  have "\<forall>n \<in> set (occ x). fmlookup b n = None" using 4(3) by simp
  then obtain b1 where f: "f x y b = Inr (Some b1)" using 4(4) [of x y b] 4(2) by auto
  have same: "\<forall>n. n \<notin> set (occ x) \<longrightarrow> fmlookup b1 n = fmlookup b n" using 4(5) [of x y b b1] f by simp
  have disj: "set (occ x) \<inter> set (concat (map occ xs)) = {}" using 4(6) by simp
  have none: "\<forall>n \<in> set (concat (map occ xs)). fmlookup b1 n = None"
  proof
    fix n assume n: "n \<in> set (concat (map occ xs))"
    with disj have "n \<notin> set (occ x)" by blast
    with same n 4(3) show "fmlookup b1 n = None" by simp
  qed
  have "zip_rel strict R xs ys" using 4(2) by simp
  then have "\<exists>b'. zip_try f xs ys b1 = Inr (Some b')"
  proof (rule 4(1) [OF _ none])
    show "x' \<in> set xs \<Longrightarrow> y' \<in> set ys \<Longrightarrow> R x' y' \<Longrightarrow> \<forall>n \<in> set (occ x'). fmlookup c n = None \<Longrightarrow>
        \<exists>c'. f x' y' c = Inr (Some c')" for x' y' c
      using 4(4) [of x' y' c] by simp
    show "x' \<in> set xs \<Longrightarrow> y' \<in> set ys \<Longrightarrow> f x' y' c = Inr (Some c') \<Longrightarrow>
        \<forall>n. n \<notin> set (occ x') \<longrightarrow> fmlookup c' n = fmlookup c n" for x' y' c c'
      using 4(5) [of x' y' c c'] by simp
    show "distinct (concat (map occ xs))" using 4(6) by simp
  qed
  with f show ?case by simp
qed auto

lemma zip_try_total:
  assumes "\<And>x y b. x \<in> set xs \<Longrightarrow> y \<in> set ys \<Longrightarrow> \<exists>r. f x y b = Inr r"
  shows "\<exists>r. zip_try f xs ys b = Inr r"
  using assms
proof (induction xs ys arbitrary: b rule: list_induct2')
  case (4 x xs y ys)
  obtain r where r: "f x y b = Inr r" using 4(2) [of x y b] by auto
  show ?case
  proof (cases r)
    case (Some b1)
    with 4 r show ?thesis by simp
  qed (simp add: r)
qed auto

lemma ground_simps [simp]:
  "ground (ResolvedPath (PathType pkg i base args)) \<longleftrightarrow> (\<forall>t. TypeParameter t \<in> set args \<longrightarrow> ground t)"
  "ground (Reference m lt t) = ground t" "ground (Slice t) = ground t" "ground (ScalarPrimitive p)"
  "ground (Tuple ts) \<longleftrightarrow> (\<forall>t \<in> set ts. ground t)" "\<not> ground (Generic x)"
proof -
  have "argument_occurrences arg = [] \<longleftrightarrow> (\<forall>t. arg = TypeParameter t \<longrightarrow> ground t)" for arg
    by (cases arg) (simp_all add: ground_def)
  then show "ground (ResolvedPath (PathType pkg i base args)) \<longleftrightarrow> (\<forall>t. TypeParameter t \<in> set args \<longrightarrow> ground t)"
    by (auto simp: ground_def [of "ResolvedPath p" for p])
qed (auto simp: ground_def)

lemma template_argument_concrete:
  assumes "ground c"
  shows "template_argument (TypeParameter (Generic u)) (TypeParameter c) b = Inr (assign_parameter u c b)"
    and "\<forall>u. t \<noteq> Generic u \<Longrightarrow> template_argument (TypeParameter t) (TypeParameter c) b = template_type t c b"
    and "template_argument (LifetimeParameter l) (TypeParameter c) b = Inr None"
  using assms by (cases c; cases t; simp)+

lemma instance_bind_cong:
  assumes "\<forall>x \<in> set (occurrences t). fmlookup b' x = fmlookup b x"
    and "instance_of strict (bind_generic_type_parameters b t) c"
  shows "instance_of strict (bind_generic_type_parameters b' t) c"
  using assms bind_cong [of t b b'] by simp

lemma template_sound:
  "ground c \<Longrightarrow> linear t \<Longrightarrow> template_type t c b = Inr (Some b') \<Longrightarrow>
     (\<forall>x. x \<notin> set (occurrences t) \<longrightarrow> fmlookup b' x = fmlookup b x)
     \<and> instance_of False (bind_generic_type_parameters b' t) c"
proof (induction t arbitrary: c b b' rule: type_induct)
  case (ResolvedPath pkg i base args)
  let ?t = "ResolvedPath (PathType pkg i base args)"
  show ?case
  proof (cases "type_eq c ?t")
    case True
    with ResolvedPath.prems(3) have "b' = b" by simp
    with type_eq_instance [OF ResolvedPath.prems(1) True] show ?thesis by blast
  next
    case False
    with ResolvedPath.prems(3) obtain i' args' where c: "c = ResolvedPath (PathType pkg i' base args')"
      and len: "length args' = length args" and z: "zip_try template_argument args args' b = Inr (Some b')"
      by (auto split: resolved_type.splits path_type.splits if_splits)
    have "(\<forall>n. n \<notin> set (concat (map argument_occurrences args)) \<longrightarrow> fmlookup b' n = fmlookup b n)
        \<and> zip_rel False (\<lambda>x y. similar_argument False (\<lambda>_ _. True) (=) (bind_argument b' x) y) args args'"
    proof (rule zip_try_sound [where R = "\<lambda>b x y. similar_argument False (\<lambda>_ _. True) (=) (bind_argument b x) y"
          and occ = argument_occurrences, OF _ _ _ z])
      fix x y and b b' :: bindings assume a: "x \<in> set args" "y \<in> set args'" "template_argument x y b = Inr (Some b')"
      show "(\<forall>n. n \<notin> set (argument_occurrences x) \<longrightarrow> fmlookup b' n = fmlookup b n)
          \<and> similar_argument False (\<lambda>_ _. True) (=) (bind_argument b' x) y"
      proof (cases x)
        case (LifetimeParameter l)
        with a(3) show ?thesis by (auto split: generic_argument.splits resolved_type.splits)
      next
        case (TypeParameter t)
        obtain v where y: "y = TypeParameter v" using a(3) TypeParameter by (cases y) auto
        have v: "ground v" using a(2) ResolvedPath.prems(1) by (auto simp: c y)
        show ?thesis
        proof (cases "\<exists>u. t = Generic u")
          case True
          then obtain u where t: "t = Generic u" ..
          have "b' = fmupd u v b"
            using a(3) template_argument_concrete(1) [OF v]
            by (auto simp: TypeParameter y t assign_parameter_def split: option.splits if_splits)
          then show ?thesis by (simp add: TypeParameter y t instance_refl)
        next
          case False
          then have "template_type t v b = Inr (Some b')"
            using a(3) template_argument_concrete(2) [OF v, of t b] by (auto simp: TypeParameter y)
          moreover have "linear t"
            using ResolvedPath.prems(2) a(1) TypeParameter
            by (auto simp: linear_def distinct_concat_iff dest: split_list)
          ultimately show ?thesis
            using ResolvedPath.IH [of t v b b'] a(1) v by (simp add: TypeParameter y)
        qed
      qed
    next
      fix x y and b b' :: bindings assume "\<forall>n \<in> set (argument_occurrences x). fmlookup b' n = fmlookup b n"
        and "similar_argument False (\<lambda>_ _. True) (=) (bind_argument b x) y"
      then show "similar_argument False (\<lambda>_ _. True) (=) (bind_argument b' x) y"
        using instance_bind_cong by (cases x; cases y) auto
    next
      show "distinct (concat (map argument_occurrences args))"
        using ResolvedPath.prems(2) by (simp add: linear_def)
    qed
    moreover have "zip_rel False R (map (bind_argument b') args) args' =
        zip_rel False (\<lambda>x y. R (bind_argument b' x) y) args args'" for R
      by (induction args args' rule: list_induct2') auto
    ultimately show ?thesis using len by (auto simp: c zip_rel_def)
  qed
next
  case (Tuple ts)
  show ?case
  proof (cases "type_eq c (Tuple ts)")
    case True
    with Tuple.prems(3) have "b' = b" by simp
    with type_eq_instance [OF Tuple.prems(1) True] show ?thesis by blast
  next
    case False
    with Tuple.prems(3) obtain us where c: "c = Tuple us" and z: "zip_try template_type ts us b = Inr (Some b')"
      by (auto split: resolved_type.splits if_splits)
    have "(\<forall>n. n \<notin> set (concat (map occurrences ts)) \<longrightarrow> fmlookup b' n = fmlookup b n)
        \<and> zip_rel False (\<lambda>x y. instance_of False (bind_generic_type_parameters b' x) y) ts us"
    proof (rule zip_try_sound [where R = "\<lambda>b x y. instance_of False (bind_generic_type_parameters b x) y"
          and occ = occurrences, OF _ _ _ z])
      fix x y and b b' :: bindings assume a: "x \<in> set ts" "y \<in> set us" "template_type x y b = Inr (Some b')"
      have "linear x"
        using Tuple.prems(2) a(1) by (auto simp: linear_def distinct_concat_iff dest: split_list)
      moreover have "ground y" using a(2) Tuple.prems(1) by (simp add: c)
      ultimately show "(\<forall>n. n \<notin> set (occurrences x) \<longrightarrow> fmlookup b' n = fmlookup b n)
          \<and> instance_of False (bind_generic_type_parameters b' x) y"
        using Tuple.IH [OF a(1) _ _ a(3)] by blast
    next
      fix x y and b b' :: bindings assume "\<forall>n \<in> set (occurrences x). fmlookup b' n = fmlookup b n"
        and "instance_of False (bind_generic_type_parameters b x) y"
      then show "instance_of False (bind_generic_type_parameters b' x) y" by (rule instance_bind_cong)
    next
      show "distinct (concat (map occurrences ts))" using Tuple.prems(2) by (simp add: linear_def)
    qed
    moreover have "zip_rel False R (map (bind_generic_type_parameters b') ts) us =
        zip_rel False (\<lambda>x y. R (bind_generic_type_parameters b' x) y) ts us" for R
      by (induction ts us rule: list_induct2') auto
    ultimately show ?thesis by (simp add: c)
  qed
next
  case (Reference m lt inner)
  show ?case
  proof (cases "type_eq c (Reference m lt inner)")
    case True
    with Reference.prems(3) have "b' = b" by simp
    with type_eq_instance [OF Reference.prems(1) True] show ?thesis by blast
  next
    case False
    with Reference.prems(3) obtain m' lt' u where c: "c = Reference m' lt' u" and e: "template_type inner u b = Inr (Some b')"
      by (auto split: resolved_type.splits if_splits)
    from Reference.IH [OF _ _ e] Reference.prems(1,2) show ?thesis by (simp add: c linear_def)
  qed
next
  case (Slice element)
  show ?case
  proof (cases "type_eq c (Slice element)")
    case True
    with Slice.prems(3) have "b' = b" by simp
    with type_eq_instance [OF Slice.prems(1) True] show ?thesis by blast
  next
    case False
    with Slice.prems(3) obtain u where c: "c = Slice u" and e: "template_type element u b = Inr (Some b')"
      by (auto split: resolved_type.splits if_splits)
    from Slice.IH [OF _ _ e] Slice.prems(1,2) show ?thesis by (simp add: c linear_def)
  qed
next
  case (ScalarPrimitive s)
  then show ?case by (cases c) (auto split: if_splits)
next
  case (Generic name)
  then have "\<not> type_eq c (Generic name)" by (cases c) auto
  with Generic.prems(3) have "b' = fmupd name c b" by simp
  then show ?case by (simp add: instance_refl)
qed

lemma linear_parts:
  "linear (ResolvedPath (PathType pkg i base args)) \<Longrightarrow> TypeParameter t \<in> set args \<Longrightarrow> linear t"
  "linear (Tuple ts) \<Longrightarrow> t \<in> set ts \<Longrightarrow> linear t"
  by (auto simp: linear_def distinct_concat_iff dest: split_list)

lemma template_total: "ground c \<Longrightarrow> \<exists>r. template_type t c b = Inr r"
proof (induction t arbitrary: c b rule: type_induct)
  case (ResolvedPath pkg i base args)
  show ?case
  proof (cases "\<not> type_eq c (ResolvedPath (PathType pkg i base args)) \<and>
      (\<exists>i' args'. c = ResolvedPath (PathType pkg i' base args') \<and> length args' = length args)")
    case True
    then obtain i' args' where c: "c = ResolvedPath (PathType pkg i' base args')" and len: "length args' = length args"
      by blast
    have "\<exists>r. template_argument x y b = Inr r" if a: "x \<in> set args" "y \<in> set args'" for x y b
    proof (cases y)
      case (LifetimeParameter l)
      then show ?thesis by (cases x) simp_all
    next
      case (TypeParameter v)
      with a(2) ResolvedPath.prems have v: "ground v" by (simp add: c)
      note tac = template_argument_concrete [OF v]
      show ?thesis
      proof (cases x)
        case (TypeParameter t)
        with ResolvedPath.IH [of t v b] a(1) v tac show ?thesis
          by (cases "\<exists>u. t = Generic u") (auto simp: \<open>y = TypeParameter v\<close>)
      next
        case (LifetimeParameter l)
        with v show ?thesis by (cases v) (simp_all add: \<open>y = TypeParameter v\<close>)
      qed
    qed
    from zip_try_total [of args args' template_argument b, OF this] show ?thesis using True c len by simp
  next
    case False
    then show ?thesis by (auto split: resolved_type.splits path_type.splits)
  qed
next
  case (Tuple ts)
  have "\<exists>r. zip_try template_type ts us b = Inr r" if "c = Tuple us" for us
    using Tuple that by (intro zip_try_total) simp
  then show ?case by (simp split: resolved_type.splits)
qed (auto split: resolved_type.splits)

lemma zip_rel_map_left: "zip_rel strict R (map g xs) ys = zip_rel strict (\<lambda>x y. R (g x) y) xs ys"
  by (induction xs ys rule: list_induct2') auto

lemma template_complete:
  "ground c \<Longrightarrow> linear t \<Longrightarrow> \<forall>x \<in> set (occurrences t). fmlookup b x = None \<Longrightarrow>
     instance_of True (bind_generic_type_parameters m t) c \<Longrightarrow> \<exists>b'. template_type t c b = Inr (Some b')"
proof (induction t arbitrary: c b rule: type_induct)
  case (ResolvedPath pkg i base args)
  from ResolvedPath.prems(4) obtain i' args' where c: "c = ResolvedPath (PathType pkg i' base args')"
    and z: "zip_rel True (\<lambda>x y. similar_argument True (\<lambda>_ _. True) (=) (bind_argument m x) y) args args'"
    by (auto simp: zip_rel_map_left split: resolved_type.splits path_type.splits)
  have len: "length args' = length args" using z by (simp add: zip_rel_def)
  have "\<exists>b'. zip_try template_argument args args' b = Inr (Some b')"
  proof (rule zip_try_complete [OF _ _ _ z, where occ = argument_occurrences])
    fix x y and b :: bindings assume a: "x \<in> set args" "y \<in> set args'"
      "similar_argument True (\<lambda>_ _. True) (=) (bind_argument m x) y" "\<forall>n \<in> set (argument_occurrences x). fmlookup b n = None"
    show "\<exists>b'. template_argument x y b = Inr (Some b')"
    proof (cases x)
      case (LifetimeParameter l)
      with a(3) show ?thesis by (auto split: generic_argument.splits)
    next
      case (TypeParameter t)
      with a(3) obtain v where y: "y = TypeParameter v" and i: "instance_of True (bind_generic_type_parameters m t) v"
        by (auto split: generic_argument.splits)
      have v: "ground v" using ResolvedPath.prems(1) a(2) by (simp add: c y)
      show ?thesis
      proof (cases "\<exists>u. t = Generic u")
        case True
        with a(4) template_argument_concrete(1) [OF v] show ?thesis
          by (auto simp: TypeParameter y assign_parameter_def)
      next
        case False
        moreover have "linear t" using linear_parts(1) [OF ResolvedPath.prems(2)] a(1) TypeParameter by blast
        ultimately show ?thesis
          using ResolvedPath.IH [of t v b] a(1,4) v i template_argument_concrete(2) [OF v, of t b]
          by (simp add: TypeParameter y)
      qed
    qed
  next
    fix x y and b b' :: bindings assume a: "x \<in> set args" "y \<in> set args'" "template_argument x y b = Inr (Some b')"
    show "\<forall>n. n \<notin> set (argument_occurrences x) \<longrightarrow> fmlookup b' n = fmlookup b n"
    proof (cases x)
      case (LifetimeParameter l)
      with a(3) show ?thesis by (auto split: generic_argument.splits resolved_type.splits)
    next
      case (TypeParameter t)
      then obtain v where y: "y = TypeParameter v" using a(3) by (cases y) auto
      have v: "ground v" using ResolvedPath.prems(1) a(2) by (simp add: c y)
      show ?thesis
      proof (cases "\<exists>u. t = Generic u")
        case True
        with a(3) template_argument_concrete(1) [OF v] show ?thesis
          by (auto simp: TypeParameter y assign_parameter_def split: option.splits if_splits)
      next
        case False
        with a(3) template_argument_concrete(2) [OF v, of t b] have "template_type t v b = Inr (Some b')"
          by (auto simp: TypeParameter y)
        moreover have "linear t" using linear_parts(1) [OF ResolvedPath.prems(2)] a(1) TypeParameter by blast
        ultimately show ?thesis using template_sound [OF v] by (simp add: TypeParameter)
      qed
    qed
  next
    show "distinct (concat (map argument_occurrences args))" using ResolvedPath.prems(2) by (simp add: linear_def)
    show "\<forall>n \<in> set (concat (map argument_occurrences args)). fmlookup b n = None" using ResolvedPath.prems(3) by simp
  qed
  then show ?case using len by (auto simp: c)
next
  case (Tuple ts)
  from Tuple.prems(4) obtain us where c: "c = Tuple us"
    and z: "zip_rel True (\<lambda>x y. instance_of True (bind_generic_type_parameters m x) y) ts us"
    by (auto simp: zip_rel_map_left split: resolved_type.splits)
  have len: "length us = length ts" using z by (simp add: zip_rel_def)
  have "\<exists>b'. zip_try template_type ts us b = Inr (Some b')"
  proof (rule zip_try_complete [OF _ _ _ z, where occ = occurrences])
    fix x y and b :: bindings assume a: "x \<in> set ts" "y \<in> set us" "instance_of True (bind_generic_type_parameters m x) y"
      "\<forall>n \<in> set (occurrences x). fmlookup b n = None"
    have "ground y" using Tuple.prems(1) a(2) by (simp add: c)
    then show "\<exists>b'. template_type x y b = Inr (Some b')"
      using Tuple.IH [OF a(1) _ linear_parts(2) [OF Tuple.prems(2) a(1)] a(4,3)] by blast
  next
    fix x y and b b' :: bindings assume a: "x \<in> set ts" "y \<in> set us" "template_type x y b = Inr (Some b')"
    have "ground y" using Tuple.prems(1) a(2) by (simp add: c)
    with template_sound [OF _ linear_parts(2) [OF Tuple.prems(2) a(1)] a(3)]
    show "\<forall>n. n \<notin> set (occurrences x) \<longrightarrow> fmlookup b' n = fmlookup b n" by blast
  next
    show "distinct (concat (map occurrences ts))" using Tuple.prems(2) by (simp add: linear_def)
    show "\<forall>n \<in> set (concat (map occurrences ts)). fmlookup b n = None" using Tuple.prems(3) by simp
  qed
  then show ?case using len by (auto simp: c)
next
  case (Reference m' lt inner)
  then show ?case by (fastforce simp: linear_def split: resolved_type.splits)
next
  case (Slice element)
  then show ?case by (fastforce simp: linear_def split: resolved_type.splits)
next
  case (ScalarPrimitive s)
  then show ?case by simp
next
  case (Generic name)
  then show ?case by simp
qed

section \<open>Properties\<close>


text \<open>Theorem: defect. A parameter that is repeated in a tuple is assigned twice without a comparison: the
  tuple \<open>(T, T)\<close> is found to be a template for any pair of concrete types, with the second
  one as the binding, so that binding it gives another type; among the arguments of a path the same repetition is refused.
  A reference is a template for one of the other mutability.\<close>

theorem repeated_parameter_is_overwritten:
  assumes "ground t" and "ground u" and "\<not> type_eq t u"
  shows "is_a_template_for (Tuple [Generic x, Generic x]) (Tuple [t, u]) = Inr (Some (fmupd x u fmempty))
    \<and> bind_generic_type_parameters (fmupd x u fmempty) (Tuple [Generic x, Generic x]) = Tuple [u, u]
    \<and> \<not> type_eq (Tuple [u, u]) (Tuple [t, u])
    \<and> is_a_template_for (ResolvedPath (PathType pkg i base [TypeParameter (Generic x), TypeParameter (Generic x)]))
        (ResolvedPath (PathType pkg i base [TypeParameter t, TypeParameter u])) = Inr None
    \<and> is_a_template_for (Reference False lt (Generic x)) (Reference True lt t) = Inr (Some (fmupd x t fmempty))"
proof -
  have nt: "\<not> type_eq t (Generic x)" "\<not> type_eq u (Generic x)" using assms(1,2) by (cases t; cases u; auto)+
  have "\<not> type_eq u t" using assms(3) type_eq_sym by blast
  have 1: "is_a_template_for (Tuple [Generic x, Generic x]) (Tuple [t, u]) = Inr (Some (fmupd x u fmempty))"
    by (simp add: is_a_template_for_def nt)
  have 2: "\<not> type_eq (Tuple [u, u]) (Tuple [t, u])" using \<open>\<not> type_eq u t\<close> by simp
  have ne: "\<not> path_eq (PathType pkg i base [TypeParameter t, TypeParameter u])
      (PathType pkg i base [TypeParameter (Generic x), TypeParameter (Generic x)])"
    using assms(1) by (cases t) (auto simp: path_eq_def)
  have 3: "is_a_template_for (ResolvedPath (PathType pkg i base [TypeParameter (Generic x), TypeParameter (Generic x)]))
      (ResolvedPath (PathType pkg i base [TypeParameter t, TypeParameter u])) = Inr None"
    using ne assms(3)
    by (simp add: is_a_template_for_def assign_parameter_def template_argument_concrete(1) [OF assms(1)]
        template_argument_concrete(1) [OF assms(2)] del: template_argument.simps)
  have 4: "is_a_template_for (Reference False lt (Generic x)) (Reference True lt t) = Inr (Some (fmupd x t fmempty))"
    by (simp add: is_a_template_for_def nt)
  have 5: "bind_generic_type_parameters (fmupd x u fmempty) (Tuple [Generic x, Generic x]) = Tuple [u, u]" by simp
  show ?thesis by (intro conjI 1 2 3 4 5)
qed


theorem repeated_parameter_is_overwritten_witness:
  "is_a_template_for (Tuple [Generic ''T'', Generic ''T'']) (Tuple [ScalarPrimitive U8, ScalarPrimitive U16])
     = Inr (Some (fmupd ''T'' (ScalarPrimitive U16) fmempty))"
  using repeated_parameter_is_overwritten [of "ScalarPrimitive U8" "ScalarPrimitive U16"] by simp

end
