(* ===== verification/Type_Lifetimes_Properties.thy ===== *)
theory Type_Lifetimes_Properties
  imports Type_Lifetimes Templates
begin

text \<open>
  Lifetimes and texts of types: which implicit lifetimes are replaced and which are overlooked,
  renaming, and the types that can be rendered.
\<close>

section \<open>Names of lifetimes\<close>

definition reference_names :: "lifetime \<Rightarrow> string list" where
  "reference_names lt = (case lt of NamedLifetime l \<Rightarrow> if l \<noteq> ''_'' then [l] else [] | _ \<Rightarrow> [])"

definition parameter_names :: "generic_lifetime_parameter \<Rightarrow> string list" where
  "parameter_names l = (case l of NamedParameter l \<Rightarrow> if l \<noteq> ''_'' then [l] else [] | _ \<Rightarrow> [])"

fun lifetime_names :: "resolved_type \<Rightarrow> string list" and argument_lifetime_names :: "generic_argument \<Rightarrow> string list" where
  "lifetime_names (ResolvedPath (PathType _ _ _ args)) = concat (map argument_lifetime_names args)"
| "lifetime_names (Reference _ lt inner) = reference_names lt @ lifetime_names inner"
| "lifetime_names (Tuple elements) = concat (map lifetime_names elements)"
| "lifetime_names (ScalarPrimitive _) = []"
| "lifetime_names (Slice element) = lifetime_names element"
| "lifetime_names (Generic _) = []"
| "argument_lifetime_names (TypeParameter t) = lifetime_names t"
| "argument_lifetime_names (LifetimeParameter l) = parameter_names l"

lemma collect_named_lifetimes_set:
  "set (collect_named_lifetimes t ls) = set ls \<union> set (lifetime_names t)"
proof (induction t arbitrary: ls rule: type_induct)
  case (ResolvedPath pkg i base args)
  have "set (fold collect_argument_named_lifetimes args ls) = set ls \<union> (\<Union>arg \<in> set args. set (argument_lifetime_names arg))"
    using ResolvedPath
  proof (induction args arbitrary: ls)
    case (Cons arg args)
    then show ?case
      by (cases arg) (auto simp: parameter_names_def split: generic_lifetime_parameter.splits)
  qed simp
  then show ?case by simp
next
  case (Tuple elements)
  have "set (fold collect_named_lifetimes elements ls) = set ls \<union> (\<Union>t \<in> set elements. set (lifetime_names t))"
    using Tuple by (induction elements arbitrary: ls) auto
  then show ?case by simp
qed (auto simp: reference_names_def split: lifetime.splits)

lemma collect_named_lifetimes_distinct: "distinct ls \<Longrightarrow> distinct (collect_named_lifetimes t ls)"
proof (induction t arbitrary: ls rule: type_induct)
  case (ResolvedPath pkg i base args)
  have "distinct (collect_argument_named_lifetimes arg ls)" if "arg \<in> set args" "distinct ls" for arg ls
    using ResolvedPath(1) that
    by (cases arg) (auto split: generic_lifetime_parameter.splits intro: distinct_index_insert)
  with ResolvedPath(2) show ?case by (auto intro: distinct_fold)
qed (auto intro: distinct_fold distinct_index_insert split: lifetime.splits)

lemma named_set: "set (named_lifetime_parameters t) = set (lifetime_names t)"
  by (simp add: named_lifetime_parameters_def collect_named_lifetimes_set)

lemma named_distinct: "distinct (named_lifetime_parameters t)"
  by (simp add: named_lifetime_parameters_def collect_named_lifetimes_distinct)

lemma underscore_unnamed: "''_'' \<notin> set (lifetime_names t)"
proof (induction t rule: type_induct)
  case (ResolvedPath pkg i base args)
  have "''_'' \<notin> set (argument_lifetime_names arg)" if "arg \<in> set args" for arg
    using ResolvedPath that by (cases arg) (auto simp: parameter_names_def split: generic_lifetime_parameter.splits)
  then show ?case by auto
qed (auto simp: reference_names_def split: lifetime.splits if_splits)

section \<open>Implicit lifetimes\<close>

text \<open>The implicit lifetimes that \<open>set_implicit_lifetimes\<close> reaches: not those of the type
  arguments of a path.\<close>

fun surface_implicit :: "resolved_type \<Rightarrow> bool" where
  "surface_implicit (ResolvedPath (PathType _ _ _ args)) =
     list_ex (\<lambda>arg. arg = LifetimeParameter (NamedParameter ''_'')) args"
| "surface_implicit (Reference _ lt inner) = (lt = Elided \<or> lt = NamedLifetime ''_'' \<or> surface_implicit inner)"
| "surface_implicit (Tuple elements) = list_ex surface_implicit elements"
| "surface_implicit (ScalarPrimitive _) = False"
| "surface_implicit (Slice element) = surface_implicit element"
| "surface_implicit (Generic _) = False"

fun hidden_implicit :: "resolved_type \<Rightarrow> bool" where
  "hidden_implicit (ResolvedPath (PathType _ _ _ args)) =
     list_ex (\<lambda>arg. case arg of TypeParameter t \<Rightarrow> has_implicit_lifetime_parameters t | _ \<Rightarrow> False) args"
| "hidden_implicit (Reference _ _ inner) = hidden_implicit inner"
| "hidden_implicit (Tuple elements) = list_ex hidden_implicit elements"
| "hidden_implicit (ScalarPrimitive _) = False"
| "hidden_implicit (Slice element) = hidden_implicit element"
| "hidden_implicit (Generic _) = False"

lemma implicit_split: "has_implicit_lifetime_parameters t \<longleftrightarrow> surface_implicit t \<or> hidden_implicit t"
proof (induction t rule: type_induct)
  case (ResolvedPath pkg i base args)
  have "argument_has_implicit arg \<longleftrightarrow> arg = LifetimeParameter (NamedParameter ''_'')
      \<or> (case arg of TypeParameter t \<Rightarrow> has_implicit_lifetime_parameters t | _ \<Rightarrow> False)" for arg
    by (cases arg) (auto split: generic_lifetime_parameter.splits)
  then show ?case by (auto simp: list_ex_iff)
qed (auto simp: list_ex_iff split: lifetime.splits)

lemma set_implicit_surface: "l \<noteq> ''_'' \<Longrightarrow> \<not> surface_implicit (set_implicit_lifetimes l t)"
proof (induction t rule: type_induct)
  case (ResolvedPath pkg i base args)
  then show ?case
    by (auto simp: list_ex_iff set_implicit_argument_def split: generic_argument.splits generic_lifetime_parameter.splits if_splits)
qed (auto simp: list_ex_iff set_implicit_reference_def split: lifetime.splits)

lemma set_implicit_hidden: "hidden_implicit (set_implicit_lifetimes l t) \<longleftrightarrow> hidden_implicit t"
proof (induction t rule: type_induct)
  case (ResolvedPath pkg i base args)
  have "(case set_implicit_argument l arg of TypeParameter t \<Rightarrow> has_implicit_lifetime_parameters t | _ \<Rightarrow> False)
      \<longleftrightarrow> (case arg of TypeParameter t \<Rightarrow> has_implicit_lifetime_parameters t | _ \<Rightarrow> False)" for arg
    by (simp add: set_implicit_argument_def split: generic_argument.splits generic_lifetime_parameter.splits)
  then show ?case by (simp add: list_ex_iff)
qed (auto simp: list_ex_iff)

lemma set_implicit_names:
  assumes "l \<noteq> ''_''"
  shows "set (lifetime_names (set_implicit_lifetimes l t)) = set (lifetime_names t) \<union> (if surface_implicit t then {l} else {})"
proof (induction t rule: type_induct)
  case (ResolvedPath pkg i base args)
  have "set (argument_lifetime_names (set_implicit_argument l arg)) =
      set (argument_lifetime_names arg) \<union> (if arg = LifetimeParameter (NamedParameter ''_'') then {l} else {})" for arg
    using assms
    by (auto simp: set_implicit_argument_def parameter_names_def split: generic_argument.splits generic_lifetime_parameter.splits)
  then show ?case by (auto simp: list_ex_iff split: if_splits)
qed (use assms in \<open>auto simp: list_ex_iff set_implicit_reference_def reference_names_def split: lifetime.splits if_splits\<close>)

text \<open>Lifetimes do not matter for equality.\<close>

lemma equivalent_set_implicit:
  "equivalent_type (set_implicit_lifetimes l t) u gens = equivalent_type t u gens"
proof (induction t arbitrary: u gens rule: type_induct)
  case (ResolvedPath pkg i base args)
  have "equivalent_argument (set_implicit_argument l x) y gens = equivalent_argument x y gens" for x y gens
    by (auto simp: set_implicit_argument_def split: generic_argument.splits generic_lifetime_parameter.splits)
  then have "zip_all equivalent_argument (map (set_implicit_argument l) args) ys gens = zip_all equivalent_argument args ys gens" for ys gens
    by (induction args ys arbitrary: gens rule: list_induct2') (auto split: option.splits)
  then show ?case by (simp split: resolved_type.splits path_type.splits)
next
  case (Tuple ts)
  then have "zip_all equivalent_type (map (set_implicit_lifetimes l) ts) us gens = zip_all equivalent_type ts us gens" for us gens
    by (induction ts us arbitrary: gens rule: list_induct2') (auto split: option.splits)
  then show ?case by (simp split: resolved_type.splits)
qed (auto split: resolved_type.splits)

lemma equivalent_rename:
  "equivalent_type (rename_lifetime_parameters m t) u gens = equivalent_type t u gens"
proof (induction t arbitrary: u gens rule: type_induct)
  case (ResolvedPath pkg i base args)
  have "equivalent_argument (rename_argument_lifetimes m x) y gens = equivalent_argument x y gens" if "x \<in> set args" for x y gens
    using ResolvedPath that by (cases x) (auto split: generic_argument.splits)
  then have "zip_all equivalent_argument (map (rename_argument_lifetimes m) args) ys gens = zip_all equivalent_argument args ys gens" for ys gens
    by (induction args ys arbitrary: gens rule: list_induct2') (auto split: option.splits)
  then show ?case by (simp split: resolved_type.splits path_type.splits)
next
  case (Tuple ts)
  then have "zip_all equivalent_type (map (rename_lifetime_parameters m) ts) us gens = zip_all equivalent_type ts us gens" for us gens
    by (induction ts us arbitrary: gens rule: list_induct2') (auto split: option.splits)
  then show ?case by (simp split: resolved_type.splits)
qed (auto split: resolved_type.splits)

lemma path_eq_cong_left: "equivalent_type (ResolvedPath p) = equivalent_type (ResolvedPath p') \<Longrightarrow> path_eq p q = path_eq p' q"
proof -
  assume "equivalent_type (ResolvedPath p) = equivalent_type (ResolvedPath p')"
  then have "equivalent_type (ResolvedPath p) (ResolvedPath q) gens = equivalent_type (ResolvedPath p') (ResolvedPath q) gens" for gens
    by simp
  then show ?thesis by (simp add: path_eq_def)
qed

lemma type_eq_set_implicit: "type_eq (set_implicit_lifetimes l t) u = type_eq t u"
proof (induction t arbitrary: u rule: type_induct)
  case (ResolvedPath pkg i base args)
  have "equivalent_type (set_implicit_lifetimes l (ResolvedPath (PathType pkg i base args))) =
      equivalent_type (ResolvedPath (PathType pkg i base args))"
    by (intro ext) (rule equivalent_set_implicit)
  from path_eq_cong_left [OF this [unfolded set_implicit_lifetimes.simps]] show ?case by (cases u) auto
next
  case (Tuple ts)
  then have "list_all2 type_eq (map (set_implicit_lifetimes l) ts) us = list_all2 type_eq ts us" for us
    by (induction ts us rule: list_induct2') auto
  then show ?case by (cases u) auto
next
  case (Reference m lt inner)
  have "lifetime_eq (set_implicit_reference l lt) k = lifetime_eq lt k" for k
    by (auto simp: lifetime_eq_iff set_implicit_reference_def split: lifetime.splits)
  with Reference show ?case by (cases u) auto
next
  case (Slice element)
  then show ?case by (cases u) auto
qed auto

lemma type_eq_rename: "type_eq (rename_lifetime_parameters m t) u = type_eq t u"
proof (induction t arbitrary: u rule: type_induct)
  case (ResolvedPath pkg i base args)
  have "equivalent_type (rename_lifetime_parameters m (ResolvedPath (PathType pkg i base args))) =
      equivalent_type (ResolvedPath (PathType pkg i base args))"
    by (intro ext) (rule equivalent_rename)
  from path_eq_cong_left [OF this [unfolded rename_lifetime_parameters.simps]] show ?case by (cases u) auto
next
  case (Tuple ts)
  then have "list_all2 type_eq (map (rename_lifetime_parameters m) ts) us = list_all2 type_eq ts us" for us
    by (induction ts us rule: list_induct2') auto
  then show ?case by (cases u) auto
next
  case (Reference m' lt inner)
  then show ?case by (cases u) (auto simp: lifetime_eq_iff split: lifetime.splits option.splits)
next
  case (Slice element)
  then show ?case by (cases u) auto
qed auto

section \<open>Renaming\<close>

definition rename_name :: "(string, string) fmap \<Rightarrow> string \<Rightarrow> string" where
  "rename_name m l = (case fmlookup m l of Some k \<Rightarrow> k | None \<Rightarrow> l)"

text \<open>A renaming that neither renames the implicit lifetime nor renames to it.\<close>

definition renaming_ok :: "(string, string) fmap \<Rightarrow> bool" where
  "renaming_ok m \<longleftrightarrow> fmlookup m ''_'' = None \<and> (\<forall>l k. fmlookup m l = Some k \<longrightarrow> k \<noteq> ''_'')"

lemma rename_names:
  assumes "renaming_ok m"
  shows "set (lifetime_names (rename_lifetime_parameters m t)) = rename_name m ` set (lifetime_names t)"
proof (induction t rule: type_induct)
  case (ResolvedPath pkg i base args)
  have "set (argument_lifetime_names (rename_argument_lifetimes m arg)) = rename_name m ` set (argument_lifetime_names arg)"
    if "arg \<in> set args" for arg
    using ResolvedPath that assms
    by (cases arg) (auto simp: parameter_names_def rename_name_def renaming_ok_def split: generic_lifetime_parameter.splits option.splits)
  then show ?case by auto
next
  case (Reference m' lt inner)
  have "set (reference_names (case lt of
          NamedLifetime l \<Rightarrow> (case fmlookup m l of Some new_name \<Rightarrow> NamedLifetime new_name | None \<Rightarrow> lt)
        | StaticLifetime \<Rightarrow> lt
        | Elided \<Rightarrow> lt)) = rename_name m ` set (reference_names lt)"
    using assms by (auto simp: reference_names_def rename_name_def renaming_ok_def split: lifetime.splits option.splits)
  with Reference show ?case by (simp add: image_Un)
qed auto

lemma rename_implicit:
  assumes "renaming_ok m"
  shows "surface_implicit (rename_lifetime_parameters m t) = surface_implicit t"
    and "hidden_implicit (rename_lifetime_parameters m t) = hidden_implicit t"
proof -
  have h: "has_implicit_lifetime_parameters (rename_lifetime_parameters m t) = has_implicit_lifetime_parameters t" for t
  proof (induction t rule: type_induct)
    case (ResolvedPath pkg i base args)
    have "argument_has_implicit (rename_argument_lifetimes m arg) = argument_has_implicit arg" if "arg \<in> set args" for arg
      using ResolvedPath that assms
      by (cases arg) (auto simp: renaming_ok_def split: generic_lifetime_parameter.splits option.splits)
    then show ?case by (auto simp: list_ex_iff)
  next
    case (Reference m' lt inner)
    then show ?case using assms by (auto simp: renaming_ok_def split: lifetime.splits option.splits)
  qed (auto simp: list_ex_iff)
  show "surface_implicit (rename_lifetime_parameters m t) = surface_implicit t"
  proof (induction t rule: type_induct)
    case (ResolvedPath pkg i base args)
    have "rename_argument_lifetimes m arg = LifetimeParameter (NamedParameter ''_'') \<longleftrightarrow>
        arg = LifetimeParameter (NamedParameter ''_'')" for arg
      using assms by (cases arg) (auto simp: renaming_ok_def split: generic_lifetime_parameter.splits option.splits)
    then have "list_ex (\<lambda>arg. arg = LifetimeParameter (NamedParameter ''_'')) (map (rename_argument_lifetimes m) xs)
        = list_ex (\<lambda>arg. arg = LifetimeParameter (NamedParameter ''_'')) xs" for xs
      by (induction xs) simp_all
    then show ?case by simp
  next
    case (Reference m' lt inner)
    show ?case
    proof (cases lt)
      case (NamedLifetime l)
      show ?thesis
      proof (cases "fmlookup m l")
        case None
        with Reference show ?thesis by (simp add: NamedLifetime)
      next
        case (Some k)
        with assms have "l \<noteq> ''_''" "k \<noteq> ''_''" by (auto simp: renaming_ok_def)
        with Reference Some show ?thesis by (simp add: NamedLifetime)
      qed
    qed (use Reference in simp_all)
  qed (auto simp: list_ex_iff)
  show "hidden_implicit (rename_lifetime_parameters m t) = hidden_implicit t"
  proof (induction t rule: type_induct)
    case (ResolvedPath pkg i base args)
    have "(case rename_argument_lifetimes m arg of TypeParameter t \<Rightarrow> has_implicit_lifetime_parameters t | _ \<Rightarrow> False)
        = (case arg of TypeParameter t \<Rightarrow> has_implicit_lifetime_parameters t | _ \<Rightarrow> False)" for arg
      by (cases arg) (auto simp: h)
    then show ?case by (auto simp: list_ex_iff)
  qed (auto simp: list_ex_iff)
qed

section \<open>Rendering\<close>

lemma collect_results_ok: "(\<exists>xs. collect_results rs = Inr xs) \<longleftrightarrow> (\<forall>r \<in> set rs. \<exists>x. r = Inr x)"
  by (induction rs) (auto split: sum.splits)

lemma map_result_ok [simp]: "(\<exists>y. map_result f r = Inr y) \<longleftrightarrow> (\<exists>x. r = Inr x)"
  by (auto simp: map_result_def split: sum.splits)

text \<open>The paths that occur in a type.\<close>

fun type_paths :: "resolved_type \<Rightarrow> (string \<times> string list) list" and argument_paths :: "generic_argument \<Rightarrow> (string \<times> string list) list" where
  "type_paths (ResolvedPath (PathType pkg _ base args)) = (pkg, base) # concat (map argument_paths args)"
| "type_paths (Reference _ _ inner) = type_paths inner"
| "type_paths (Tuple elements) = concat (map type_paths elements)"
| "type_paths (ScalarPrimitive _) = []"
| "type_paths (Slice element) = type_paths element"
| "type_paths (Generic _) = []"
| "argument_paths (TypeParameter t) = type_paths t"
| "argument_paths (LifetimeParameter _) = []"

lemma render_ok:
  "(\<exists>s. render_type m t = Inr s) \<longleftrightarrow> (\<forall>p \<in> set (type_paths t). fmlookup m (fst p) \<noteq> None \<and> snd p \<noteq> [])"
proof (induction t rule: type_induct)
  case (ResolvedPath pkg i base args)
  have arg: "(\<exists>s. render_argument m arg = Inr s) \<longleftrightarrow> (\<forall>p \<in> set (argument_paths arg). fmlookup m (fst p) \<noteq> None \<and> snd p \<noteq> [])"
    if "arg \<in> set args" for arg
    using ResolvedPath that by (cases arg) auto
  have head: "(\<exists>h. render_path_head m pkg base = Inr h) \<longleftrightarrow> fmlookup m pkg \<noteq> None \<and> base \<noteq> []"
    by (auto simp: render_path_head_def split: option.splits list.splits)
  have "(\<exists>s. render_type m (ResolvedPath (PathType pkg i base args)) = Inr s) \<longleftrightarrow>
      (\<exists>h. render_path_head m pkg base = Inr h) \<and> (\<exists>xs. collect_results (map (render_argument m) args) = Inr xs)"
    by (auto split: sum.splits)
  then show ?case using arg unfolding head collect_results_ok by auto
next
  case (Tuple ts)
  then show ?case by (auto simp: collect_results_ok)
qed auto

lemma scalar_try_from_as_str [simp]: "scalar_try_from (scalar_as_str p) = Inr p"
  by (cases p) (simp_all add: scalar_try_from_def)

lemma scalar_as_str_try_from: "scalar_try_from s = Inr p \<Longrightarrow> s = scalar_as_str p"
  by (auto simp: scalar_try_from_def split: if_splits)

section \<open>Properties\<close>

text \<open>Theorem: replacing the implicit lifetimes of a type by a name gives it that name wherever the type
  itself, an element or a referenced type has an implicit lifetime, keeps all other names and the type
  equal to what it was; but an implicit lifetime inside a type argument of a path is overlooked and stays
  implicit, although the test for implicit lifetimes sees it.\<close>

theorem implicit_lifetimes_replaced:
  assumes "l \<noteq> ''_''"
  shows "(has_implicit_lifetime_parameters (set_implicit_lifetimes l t) \<longleftrightarrow> hidden_implicit t)
    \<and> (has_implicit_lifetime_parameters t \<longleftrightarrow> surface_implicit t \<or> hidden_implicit t)
    \<and> set (named_lifetime_parameters (set_implicit_lifetimes l t)) =
        set (named_lifetime_parameters t) \<union> (if surface_implicit t then {l} else {})
    \<and> type_eq (set_implicit_lifetimes l t) t
    \<and> hidden_implicit (boxed base (Reference m Elided t))
    \<and> set_implicit_lifetimes l (boxed base (Reference m Elided t)) = boxed base (Reference m Elided t)"
proof (intro conjI)
  show "has_implicit_lifetime_parameters (set_implicit_lifetimes l t) \<longleftrightarrow> hidden_implicit t"
    using set_implicit_surface [OF assms] by (simp add: implicit_split set_implicit_hidden)
  show "set (named_lifetime_parameters (set_implicit_lifetimes l t)) =
      set (named_lifetime_parameters t) \<union> (if surface_implicit t then {l} else {})"
    unfolding named_set by (rule set_implicit_names [OF assms])
qed (simp_all add: implicit_split type_eq_set_implicit set_implicit_argument_def)

text \<open>Theorem: rendering a type succeeds exactly when each of its paths has at least one segment and a crate
  with a name; a tuple of one element is rendered without the comma that makes it a tuple; and the name
  of a primitive type is read back, from no other text. It would not be so if an argument were
  skipped or two primitives had the same name.\<close>

theorem rendering_total_on_known_paths:
  "((\<exists>s. render_type m t = Inr s) \<longleftrightarrow> (\<forall>p \<in> set (type_paths t). fmlookup m (fst p) \<noteq> None \<and> snd p \<noteq> []))
   \<and> (render_type m t = Inr s \<longrightarrow> render_type m (Tuple [t]) = Inr (''('' @ s @ '')''))
   \<and> (scalar_try_from v = Inr p \<longleftrightarrow> v = scalar_as_str p)"
proof (intro conjI impI)
  show "(\<exists>s. render_type m t = Inr s) \<longleftrightarrow> (\<forall>p \<in> set (type_paths t). fmlookup m (fst p) \<noteq> None \<and> snd p \<noteq> [])"
    by (rule render_ok)
  show "render_type m t = Inr s \<Longrightarrow> render_type m (Tuple [t]) = Inr (''('' @ s @ '')'')"
    by (simp add: map_result_def)
  show "scalar_try_from v = Inr p \<longleftrightarrow> v = scalar_as_str p"
    using scalar_as_str_try_from by auto
qed

theorem implicit_lifetimes_replaced_witness:
  "set (named_lifetime_parameters (set_implicit_lifetimes ''a'' (Reference True Elided (ScalarPrimitive Str)))) = {''a''}
   \<and> has_implicit_lifetime_parameters (set_implicit_lifetimes ''a'' (boxed [''Vec''] (Reference True Elided (ScalarPrimitive Str))))"
  using implicit_lifetimes_replaced [of "''a''" "Reference True Elided (ScalarPrimitive Str)" "[''Vec'']" True]
    implicit_lifetimes_replaced [of "''a''" "boxed [''Vec''] (Reference True Elided (ScalarPrimitive Str))" "[''Vec'']" True]
  by (simp add: named_set reference_names_def)

theorem rendering_total_on_known_paths_witness:
  "\<exists>s. render_type (fmupd ''core 1'' ''core'' fmempty)
     (ResolvedPath (PathType ''core 1'' None [''core'', ''option'', ''Option''] [TypeParameter (ScalarPrimitive U8)])) = Inr s"
  by (subst rendering_total_on_known_paths [THEN conjunct1]) simp

end
