(* ===== verification/Callable_Properties.thy ===== *)
theory Callable_Properties
  imports Callable Type_Lifetimes_Properties
begin

text \<open>
  Lifetime elision: the name that is made up for elided lifetimes is fresh, and the output is tied to the
  input that the elision rules point at, except where the elided lifetime is inside a type argument.
  The names of the lifetime generator are distinct.
\<close>

section \<open>Fresh names\<close>

text \<open>The order of strings: a string is smaller than its proper extensions.\<close>

lemma less_append: "(s :: string) < s @ [c]"
  by (induction s) simp_all

lemma elided_name_fresh:
  "elided_name inputs output_type \<noteq> ''_''"
  "input \<in> set inputs \<Longrightarrow> elided_name inputs output_type \<notin> set (lifetime_names input)"
  "elided_name inputs output_type \<notin> set (lifetime_names output_type)"
proof -
  define named where "named = (\<Union>input \<in> set inputs. set (named_lifetime_parameters input))
      \<union> set (named_lifetime_parameters output_type)"
  have fin: "finite named" by (simp add: named_def)
  have e: "elided_name inputs output_type = (if ''elided'' \<in> named then Max named @ ''_'' else ''elided'')"
    by (simp add: elided_name_def named_def Let_def)
  have fresh: "elided_name inputs output_type \<notin> named"
  proof (cases "''elided'' \<in> named")
    case True
    have "Max named @ ''_'' \<notin> named"
    proof
      assume "Max named @ ''_'' \<in> named"
      then have "Max named @ ''_'' \<le> Max named" using fin by simp
      with less_append [of "Max named"] show False by (meson not_le)
    qed
    with True show ?thesis by (simp add: e)
  qed (simp add: e)
  show "elided_name inputs output_type \<noteq> ''_''"
  proof (cases "''elided'' \<in> named")
    case True
    then have "Max named \<in> named" using fin by (intro Max_in) auto
    have "Max named \<noteq> []"
    proof
      assume "Max named = []"
      with True fin have "''elided'' \<le> []" by (metis Max_ge)
      then show False by simp
    qed
    with True show ?thesis by (cases "Max named") (simp_all add: e)
  qed (simp add: e)
  show "input \<in> set inputs \<Longrightarrow> elided_name inputs output_type \<notin> set (lifetime_names input)"
    using fresh by (auto simp: named_def named_set)
  show "elided_name inputs output_type \<notin> set (lifetime_names output_type)"
    using fresh by (auto simp: named_def named_set)
qed

lemma lifetime_name_inject: "lifetime_name m = lifetime_name n \<longleftrightarrow> m = n"
proof
  assume eq: "lifetime_name m = lifetime_name n"
  have len: "length alphabet = 26" and dist: "distinct alphabet" by (simp_all add: alphabet_def)
  have form: "lifetime_name k = alphabet ! (k mod 26) # (if k div 26 = 0 then [] else show_nat (k div 26))" for k
    by (simp add: lifetime_name_def Let_def len)
  have nonempty: "show_nat k \<noteq> []" "[] \<noteq> show_nat k" for k by (subst show_nat.simps, simp)+
  from eq have "m mod 26 = n mod 26"
    using dist len by (simp add: form nth_eq_iff_index_eq)
  moreover from eq have "m div 26 = n div 26"
    using nonempty by (auto simp: form split: if_splits)
  ultimately show "m = n" by (metis div_mult_mod_eq)
qed simp

lemma lifetime_name_not_implicit: "lifetime_name n \<noteq> ''_''"
proof -
  have "alphabet ! (n mod length alphabet) \<in> set alphabet" by (intro nth_mem) (simp add: alphabet_def)
  moreover have "CHR ''_'' \<notin> set alphabet" by (simp add: alphabet_def)
  ultimately show ?thesis by (auto simp: lifetime_name_def Let_def split: if_splits)
qed

section \<open>The first input with a lifetime\<close>

text \<open>An input with a lifetime that elision can use, and one without any.\<close>

definition carries_lifetime :: "resolved_type \<Rightarrow> bool" where
  "carries_lifetime t \<longleftrightarrow> surface_implicit t \<or> \<not> has_implicit_lifetime_parameters t \<and> named_lifetime_parameters t \<noteq> []"

definition without_lifetimes :: "resolved_type \<Rightarrow> bool" where
  "without_lifetimes t \<longleftrightarrow> \<not> has_implicit_lifetime_parameters t \<and> named_lifetime_parameters t = []"

lemma elide_inputs_first:
  assumes "i < length inputs" and "carries_lifetime (inputs ! i)" and "\<And>j. j < i \<Longrightarrow> without_lifetimes (inputs ! j)"
  shows "elide_inputs fresh inputs =
    (if surface_implicit (inputs ! i) then (fresh, inputs[i := set_implicit_lifetimes fresh (inputs ! i)])
     else (hd (named_lifetime_parameters (inputs ! i)), inputs))"
  using assms
proof (induction inputs arbitrary: i)
  case (Cons t ts)
  show ?case
  proof (cases i)
    case 0
    with Cons.prems(2) show ?thesis
      by (auto simp: carries_lifetime_def implicit_split split: list.split)
  next
    case (Suc k)
    have "without_lifetimes t" using Cons.prems(3) [of 0] Suc by simp
    moreover have "elide_inputs fresh ts =
        (if surface_implicit (ts ! k) then (fresh, ts[k := set_implicit_lifetimes fresh (ts ! k)])
         else (hd (named_lifetime_parameters (ts ! k)), ts))"
    proof (rule Cons.IH)
      show "k < length ts" "carries_lifetime (ts ! k)" using Cons.prems(1,2) Suc by simp_all
      show "without_lifetimes (ts ! j)" if "j < k" for j using Cons.prems(3) [of "Suc j"] that Suc by simp
    qed
    ultimately show ?thesis by (simp add: Suc without_lifetimes_def)
  qed
qed simp

section \<open>Properties\<close>


text \<open>Theorem: defect. An elided lifetime inside a type argument of the output is overlooked: a function from a
  shared reference to, say, a \<open>Vec\<close> of references is taken not to borrow from its input, although the elided
  lifetime of the output is noticed.\<close>

theorem nested_output_borrows_nothing:
  assumes "ca_invocation_style c = FunctionCall"
    and "ca_output c = Some (boxed base (Reference m Elided (ScalarPrimitive p)))"
    and "ca_inputs c = [Reference False Elided t]"
  shows "has_implicit_lifetime_parameters (boxed base (Reference m Elided (ScalarPrimitive p)))
    \<and> inputs_that_output_borrows_immutably_from c = []
    \<and> inputs_with_lifetime_tied_with_output c = []"
proof -
  have "unelide_output_lifetimes c = c\<lparr>ca_output := Some (boxed base (Reference m Elided (ScalarPrimitive p))),
      ca_inputs := [set_implicit_lifetimes (elided_name (ca_inputs c) (boxed base (Reference m Elided (ScalarPrimitive p))))
        (Reference False Elided t)]\<rparr>"
    using assms by (simp add: unelide_output_lifetimes_def set_implicit_argument_def)
  moreover have "named_lifetime_parameters (boxed base (Reference m Elided (ScalarPrimitive p))) = []"
    by (simp add: named_lifetime_parameters_def)
  ultimately show ?thesis
    by (simp add: inputs_that_output_borrows_immutably_from_def inputs_with_lifetime_tied_with_output_def
        borrows_immutably_at_def set_implicit_reference_def list_ex_iff)
qed

section \<open>Witnesses\<close>

text \<open>\<open>fn f(x: u8, y: &str) -> &str\<close>\<close>

definition demo_callable :: "resolved_type \<Rightarrow> (string, nat) callable" where
  "demo_callable output_type =
     \<lparr>ca_is_async = False, ca_takes_self_as_ref = False, ca_output = Some output_type, ca_path = ''f'',
      ca_inputs = [Reference False Elided (ScalarPrimitive Str)], ca_invocation_style = FunctionCall,
      ca_source_coordinates = None\<rparr>"


theorem nested_output_borrows_nothing_witness:
  "inputs_that_output_borrows_immutably_from (demo_callable (boxed [''alloc'', ''Vec''] (Reference False Elided (ScalarPrimitive Str)))) = []"
  using nested_output_borrows_nothing
    [where c = "demo_callable (boxed [''alloc'', ''Vec''] (Reference False Elided (ScalarPrimitive Str)))"
      and base = "[''alloc'', ''Vec'']" and m = False and p = Str and t = "ScalarPrimitive Str"]
  by (simp add: demo_callable_def)

end
