(* ===== verification/Input_Parameters_Properties.thy ===== *)
theory Input_Parameters_Properties
  imports Input_Parameters Callable_Properties
begin

text \<open>
  The input parameters that are computed for a set of types are enough to write down an expression of each of
  these types, and their lifetimes are named apart and declared.
\<close>

section \<open>Entries\<close>

definition metadata_le :: "input_metadata \<Rightarrow> input_metadata \<Rightarrow> bool" where
  "metadata_le v w \<longleftrightarrow> (im_by_value v \<longrightarrow> im_by_value w) \<and> (im_mutable v \<longrightarrow> im_mutable w)"

lemma metadata_le_refl [simp]: "metadata_le v v"
  by (simp add: metadata_le_def)

lemma entry_or_insert_keeps:
  assumes "\<And>v. metadata_le v (f v)"
  shows "(k', v) \<in> set es \<Longrightarrow> \<exists>w. (k', w) \<in> set (entry_or_insert same_key k d f es) \<and> metadata_le v w"
proof (induction es)
  case (Cons e es)
  obtain k0 v0 where e: "e = (k0, v0)" by (cases e)
  show ?case
  proof (cases "same_key k0 k")
    case True
    with Cons.prems assms show ?thesis by (auto simp: e intro: metadata_le_refl)
  next
    case False
    with Cons show ?thesis by (auto simp: e intro: metadata_le_refl)
  qed
qed simp

lemma entry_or_insert_has:
  assumes "\<And>k'. same_key k' k \<Longrightarrow> type_eq k' k"
  shows "\<exists>k' v. (k', f v) \<in> set (entry_or_insert same_key k d f es) \<and> type_eq k' k"
proof (induction es)
  case (Cons e es)
  obtain k0 v0 where e: "e = (k0, v0)" by (cases e)
  show ?case
  proof (cases "same_key k0 k")
    case True
    with assms show ?thesis by (auto simp: e)
  next
    case False
    with Cons.IH show ?thesis by (auto simp: e)
  qed
qed auto

text \<open>What the entries say of a requested type.\<close>

definition entry_covers :: "resolved_type \<Rightarrow> resolved_type \<times> input_metadata \<Rightarrow> bool" where
  "entry_covers ty e \<longleftrightarrow>
     (type_eq (fst e) ty \<and> im_by_value (snd e))
     \<or> (\<exists>m lt inner. ty = Reference m lt inner \<and> \<not> is_static lt \<and> type_eq (fst e) inner \<and> (m \<longrightarrow> im_mutable (snd e)))"

lemma entry_covers_le: "entry_covers ty (k, v) \<Longrightarrow> metadata_le v w \<Longrightarrow> entry_covers ty (k, w)"
  by (auto simp: entry_covers_def metadata_le_def)

lemma add_input_type_cases:
  obtains (value_type) "add_input_type same_key ty es =
      entry_or_insert same_key ty \<lparr>im_by_value = True, im_mutable = False\<rparr> (\<lambda>m. m\<lparr>im_by_value := True\<rparr>) es"
  | (ref_type) m lt inner where "ty = Reference m lt inner" "\<not> is_static lt"
      "add_input_type same_key ty es =
        entry_or_insert same_key inner \<lparr>im_by_value = False, im_mutable = False\<rparr>
          (\<lambda>v. v\<lparr>im_mutable := im_mutable v \<or> m\<rparr>) es"
proof (cases ty)
  case (Reference m lt inner)
  show thesis
  proof (cases "is_static lt")
    case True
    then show thesis by (intro value_type) (simp add: add_input_type_def Reference)
  next
    case False
    then show thesis by (intro ref_type [OF Reference]) (simp_all add: add_input_type_def Reference)
  qed
qed (rule value_type, simp add: add_input_type_def)+

lemma add_input_type_keeps:
  assumes "entry_covers ty' e" and "e \<in> set es"
  shows "\<exists>e \<in> set (add_input_type same_key ty es). entry_covers ty' e"
proof -
  obtain k v where e: "e = (k, v)" by (cases e)
  have "\<exists>w. (k, w) \<in> set (add_input_type same_key ty es) \<and> metadata_le v w"
  proof (cases rule: add_input_type_cases [of same_key ty es])
    case value_type
    show ?thesis
      unfolding value_type using assms(2) by (intro entry_or_insert_keeps) (simp_all add: e metadata_le_def)
  next
    case (ref_type m lt inner)
    show ?thesis
      unfolding ref_type(3) using assms(2) by (intro entry_or_insert_keeps) (simp_all add: e metadata_le_def)
  qed
  with assms(1) entry_covers_le show ?thesis by (fastforce simp: e)
qed

lemma add_input_type_covers:
  assumes "key_test_ok same_key"
  shows "\<exists>e \<in> set (add_input_type same_key ty es). entry_covers ty e"
proof -
  have sound: "same_key k' k \<Longrightarrow> type_eq k' k" for k k' using assms by (simp add: key_test_ok_def)
  show ?thesis
  proof (cases rule: add_input_type_cases [of same_key ty es])
    case value_type
    from entry_or_insert_has [OF sound, where k = ty and f = "\<lambda>m. m\<lparr>im_by_value := True\<rparr>"] obtain k v where
      "(k, v\<lparr>im_by_value := True\<rparr>) \<in> set (add_input_type same_key ty es)" "type_eq k ty"
      unfolding value_type by blast
    then show ?thesis by (intro bexI) (simp_all add: entry_covers_def)
  next
    case (ref_type m lt inner)
    from entry_or_insert_has [OF sound, where k = inner and f = "\<lambda>v. v\<lparr>im_mutable := im_mutable v \<or> m\<rparr>"] obtain k v where
      "(k, v\<lparr>im_mutable := im_mutable v \<or> m\<rparr>) \<in> set (add_input_type same_key ty es)" "type_eq k inner"
      unfolding ref_type(3) by blast
    then show ?thesis by (intro bexI) (simp_all add: entry_covers_def ref_type(1,2))
  qed
qed

lemma input_entries_cover:
  assumes "key_test_ok same_key"
  shows "ty \<in> set types \<Longrightarrow> \<exists>e \<in> set (input_entries same_key types). entry_covers ty e"
proof (induction types rule: rev_induct)
  case (snoc ty' types)
  show ?case
  proof (cases "ty = ty'")
    case True
    with add_input_type_covers [OF assms] show ?thesis by (simp add: input_entries_def)
  next
    case False
    with snoc obtain e where "e \<in> set (input_entries same_key types)" "entry_covers ty e" by auto
    with add_input_type_keeps show ?thesis by (fastforce simp: input_entries_def)
  qed
qed simp

section \<open>Bindings\<close>

text \<open>A binding gives a value of a type: directly, or by borrowing it.\<close>

definition binding_covers :: "resolved_type \<Rightarrow> type_binding \<Rightarrow> bool" where
  "binding_covers ty b \<longleftrightarrow>
     type_eq (bi_type b) ty
     \<or> (\<exists>m lt inner. ty = Reference m lt inner \<and>
          (type_eq inner (bi_type b) \<or> \<not> m \<and> type_eq (bi_type b) (Reference True lt inner)))"

lemma entry_binding_covers:
  assumes "entry_covers ty e"
  shows "binding_covers ty (entry_binding i e)"
proof -
  obtain k v where e: "e = (k, v)" by (cases e)
  from assms show ?thesis
    unfolding entry_covers_def
  proof
    assume "type_eq (fst e) ty \<and> im_by_value (snd e)"
    then show ?thesis by (simp add: binding_covers_def entry_binding_def e)
  next
    assume "\<exists>m lt inner. ty = Reference m lt inner \<and> \<not> is_static lt \<and> type_eq (fst e) inner \<and> (m \<longrightarrow> im_mutable (snd e))"
    then obtain m lt inner where ty: "ty = Reference m lt inner" "\<not> is_static lt" and k: "type_eq k inner"
      and m: "m \<longrightarrow> im_mutable v" by (auto simp: e)
    show ?thesis
    proof (cases "im_by_value v")
      case True
      with ty type_eq_sym [OF k] show ?thesis by (auto simp: binding_covers_def entry_binding_def e)
    next
      case False
      with ty k m show ?thesis by (auto simp: binding_covers_def entry_binding_def e lifetime_eq_iff)
    qed
  qed
qed

text \<open>Naming the lifetimes keeps the name, the mutability and, up to equality, the type of a binding.\<close>

definition same_binding :: "type_binding \<Rightarrow> type_binding \<Rightarrow> bool" where
  "same_binding b b' \<longleftrightarrow> bi_ident b' = bi_ident b \<and> bi_mutable b' = bi_mutable b
     \<and> (\<forall>u. type_eq (bi_type b') u = type_eq (bi_type b) u)"

lemma name_lifetimes_same: "same_binding b (fst (name_lifetimes b st))"
  by (auto simp: name_lifetimes_def same_binding_def type_eq_set_implicit type_eq_rename Let_def split: prod.splits)

lemma name_all_lifetimes_same: "list_all2 same_binding bs (fst (name_all_lifetimes bs st))"
proof (induction bs arbitrary: st)
  case (Cons b bs)
  have "same_binding b (fst (name_lifetimes b st))" by (rule name_lifetimes_same)
  with Cons.IH [of "snd (name_lifetimes b st)"] show ?case by (simp add: case_prod_unfold)
qed simp

lemma same_binding_covers: "same_binding b b' \<Longrightarrow> binding_covers ty b \<Longrightarrow> binding_covers ty b'"
  unfolding binding_covers_def same_binding_def by (metis type_eq_sym)

lemma from_iter_bindings:
  "ip_bindings (input_parameters_from_iter same_key types) =
     fst (name_all_lifetimes (get_input_types same_key types) ([], lifetime_generator_new))"
  "ip_lifetimes (input_parameters_from_iter same_key types) =
     fst (snd (name_all_lifetimes (get_input_types same_key types) ([], lifetime_generator_new)))"
  by (simp_all add: input_parameters_from_iter_def case_prod_unfold)

lemma bindings_cover:
  assumes "key_test_ok same_key" and "ty \<in> set types"
  shows "\<exists>b \<in> set (ip_bindings (input_parameters_from_iter same_key types)). binding_covers ty b"
proof -
  obtain e where e: "e \<in> set (input_entries same_key types)" "entry_covers ty e"
    using input_entries_cover [OF assms] by blast
  then obtain i where i: "i < length (input_entries same_key types)" "input_entries same_key types ! i = e"
    by (auto simp: in_set_conv_nth)
  let ?bs = "get_input_types same_key types"
  have len: "length ?bs = length (input_entries same_key types)" by (simp add: get_input_types_def)
  have "?bs ! i = entry_binding i e" using i by (simp add: get_input_types_def nth_enumerate_eq)
  with entry_binding_covers [OF e(2)] have "binding_covers ty (?bs ! i)" by simp
  moreover have "list_all2 same_binding ?bs (ip_bindings (input_parameters_from_iter same_key types))"
    by (simp add: from_iter_bindings name_all_lifetimes_same)
  then have "same_binding (?bs ! i) (ip_bindings (input_parameters_from_iter same_key types) ! i)"
    "i < length (ip_bindings (input_parameters_from_iter same_key types))"
    using i(1) len by (auto simp: list_all2_conv_all_nth)
  ultimately show ?thesis using same_binding_covers nth_mem by blast
qed

section \<open>Expressions\<close>

text \<open>The meaning of an expression over bindings: a binding itself, which may have to be reborrowed as shared, or
  a reference to a binding, which has to be marked as mutable for a mutable one.\<close>

fun expr_provides :: "resolved_type \<Rightarrow> type_binding list \<Rightarrow> binding_expr \<Rightarrow> bool" where
  "expr_provides ty bs (UseBinding x) =
     (\<exists>b \<in> set bs. bi_ident b = x \<and> (type_eq (bi_type b) ty
        \<or> (\<exists>lt inner. ty = Reference False lt inner \<and> type_eq (bi_type b) (Reference True lt inner))))"
| "expr_provides ty bs (BorrowBinding m x) =
     (\<exists>b \<in> set bs. bi_ident b = x \<and> (m \<longrightarrow> bi_mutable b)
        \<and> (\<exists>lt inner. ty = Reference m lt inner \<and> type_eq inner (bi_type b)))"

lemma find_binding_some: "find_binding P bs = Some b \<Longrightarrow> b \<in> set bs \<and> P (bi_type b)"
  by (auto simp: find_binding_def find_Some_iff in_set_conv_nth)

lemma find_binding_none: "find_binding P bs = None \<longleftrightarrow> (\<forall>b \<in> set bs. \<not> P (bi_type b))"
  by (auto simp: find_binding_def find_None_iff)

lemma mark_mutable_finds:
  "find_binding P bs = Some b \<Longrightarrow> \<exists>b' \<in> set (mark_mutable P bs).
     bi_ident b' = bi_ident b \<and> bi_type b' = bi_type b \<and> bi_mutable b'"
  by (induction bs) (auto simp: find_binding_def split: if_splits)

lemma get_expr_provides:
  assumes "b \<in> set bs" and "binding_covers ty b"
  shows "\<exists>expr bs'. get_expr_for_type ty bs = (Some expr, bs') \<and> expr_provides ty bs' expr"
proof (cases "find_binding (\<lambda>t. type_eq t ty) bs")
  case (Some b0)
  with find_binding_some [OF Some] show ?thesis by (auto simp: get_expr_for_type_def)
next
  case None
  then have none: "\<not> type_eq (bi_type b) ty" using assms(1) by (simp add: find_binding_none)
  with assms(2) obtain m lt inner where ty: "ty = Reference m lt inner"
    and c: "type_eq inner (bi_type b) \<or> \<not> m \<and> type_eq (bi_type b) (Reference True lt inner)"
    by (auto simp: binding_covers_def)
  show ?thesis
  proof (cases "find_binding (\<lambda>t. type_eq inner t) bs")
    case inner: (Some b0)
    show ?thesis
    proof (cases m)
      case True
      obtain b' where "b' \<in> set (mark_mutable (\<lambda>t. type_eq inner t) bs)"
        "bi_ident b' = bi_ident b0" "bi_type b' = bi_type b0" "bi_mutable b'"
        using mark_mutable_finds [OF inner] by blast
      with None inner True find_binding_some [OF inner] ty show ?thesis
        by (auto simp: get_expr_for_type_def intro!: bexI [of _ b'])
    next
      case False
      with None inner find_binding_some [OF inner] ty show ?thesis by (auto simp: get_expr_for_type_def)
    qed
  next
    case no_inner: None
    with c assms(1) have c': "\<not> m" "type_eq (bi_type b) (Reference True lt inner)" by (auto simp: find_binding_none)
    then obtain b0 where b0: "find_binding (\<lambda>t. type_eq t (Reference True lt inner)) bs = Some b0"
      using assms(1) by (cases "find_binding (\<lambda>t. type_eq t (Reference True lt inner)) bs") (auto simp: find_binding_none)
    with None no_inner c'(1) find_binding_some [OF b0] ty show ?thesis by (auto simp: get_expr_for_type_def)
  qed
qed

section \<open>Lifetimes\<close>

lemma fresh_renaming_zip:
  "fresh_renaming ls g = (zip ls (map lifetime_name [lg_next g..<lg_next g + length ls]), g\<lparr>lg_next := lg_next g + length ls\<rparr>)"
proof (induction ls arbitrary: g)
  case (Cons l ls)
  have "[lg_next g..<Suc (lg_next g + length ls)] = lg_next g # [Suc (lg_next g)..<Suc (lg_next g + length ls)]"
    by (rule upt_conv_Cons) simp
  then show ?case by (simp add: next_lifetime_def Cons.IH)
qed simp

text \<open>The lifetimes that a generator has given out.\<close>

definition given_out :: "nat \<Rightarrow> nat \<Rightarrow> string set" where
  "given_out m n = lifetime_name ` {m..<n}"

lemma given_out_disjoint: "n \<le> m' \<Longrightarrow> given_out m n \<inter> given_out m' n' = {}"
  by (auto simp: given_out_def lifetime_name_inject)

lemma rename_name_zip:
  assumes "distinct ls" and "length ks = length ls" and "l \<in> set ls"
  shows "rename_name (fmap_of_list (zip ls ks)) l \<in> set ks"
proof -
  from assms(3) obtain i where i: "i < length ls" "ls ! i = l" by (auto simp: in_set_conv_nth)
  then have "(l, ks ! i) \<in> set (zip ls ks)" using assms(2) by (auto simp: set_zip)
  moreover have "distinct (map fst (zip ls ks))" using assms by simp
  ultimately have "map_of (zip ls ks) l = Some (ks ! i)" by (simp add: map_of_is_SomeI)
  then show ?thesis using i assms(2) by (simp add: rename_name_def fmlookup_of_list)
qed

lemma name_lifetimes_names:
  assumes "name_lifetimes b (ls, g) = (b', ls', g')" and "distinct ls" and "set ls = given_out 0 (lg_next g)"
  shows "distinct ls'" and "set ls' = given_out 0 (lg_next g')" and "lg_next g \<le> lg_next g'"
    and "set (named_lifetime_parameters (bi_type b')) \<subseteq> given_out (lg_next g) (lg_next g')"
    and "\<not> surface_implicit (bi_type b')" and "hidden_implicit (bi_type b') = hidden_implicit (bi_type b)"
proof -
  define names where "names = named_lifetime_parameters (bi_type b)"
  define n where "n = lg_next g"
  define new where "new = map lifetime_name [n..<n + length names]"
  define m where "m = fmap_of_list (zip names new)"
  define ty where "ty = rename_lifetime_parameters m (bi_type b)"
  have len: "length new = length names" by (simp add: new_def)
  have new_set: "set new = given_out n (n + length names)" by (simp add: new_def given_out_def)
  have ok: "renaming_ok m"
  proof -
    have "''_'' \<notin> set names" using underscore_unnamed by (simp add: names_def named_set)
    moreover have "k \<noteq> ''_''" if "map_of (zip names new) l = Some k" for l k
    proof -
      from map_of_SomeD [OF that] have "k \<in> set new" by (auto dest: set_zip_rightD)
      then show ?thesis by (auto simp: new_def lifetime_name_not_implicit)
    qed
    ultimately show ?thesis
      using len by (auto simp: renaming_ok_def m_def fmlookup_of_list map_of_eq_None_iff dest: set_zip_leftD)
  qed
  have ty_names: "set (lifetime_names ty) \<subseteq> set new"
    unfolding ty_def rename_names [OF ok]
    using rename_name_zip [of names new] named_distinct len by (auto simp: m_def names_def named_set)
  have ty_impl: "surface_implicit ty = surface_implicit (bi_type b)" "hidden_implicit ty = hidden_implicit (bi_type b)"
    by (simp_all add: ty_def rename_implicit [OF ok])
  define ls1 where "ls1 = index_extend ls new"
  have ext: "set (index_extend xs ys) = set xs \<union> set ys" "distinct xs \<Longrightarrow> distinct (index_extend xs ys)" for xs ys :: "string list"
    by (induction ys arbitrary: xs) (auto simp: index_extend_def distinct_index_insert)
  have given: "given_out 0 n \<union> given_out n (n + k) = given_out 0 (n + k)" for k
    by (auto simp: given_out_def image_iff) (metis atLeastLessThan_iff linorder_not_le zero_le)
  have ls1: "distinct ls1" "set ls1 = given_out 0 (n + length names)"
    using assms(2,3) by (simp_all add: ls1_def ext new_set given n_def [symmetric])
  have "distinct ls' \<and> set ls' = given_out 0 (lg_next g') \<and> lg_next g \<le> lg_next g'
      \<and> set (named_lifetime_parameters (bi_type b')) \<subseteq> given_out (lg_next g) (lg_next g')
      \<and> \<not> surface_implicit (bi_type b') \<and> hidden_implicit (bi_type b') = hidden_implicit (bi_type b)"
  proof (cases "has_implicit_lifetime_parameters ty")
    case False
    then have r: "b' = b\<lparr>bi_type := ty\<rparr>" "ls' = ls1" "lg_next g' = n + length names"
      using assms(1) by (auto simp: name_lifetimes_def fresh_renaming_zip Let_def names_def [symmetric] n_def [symmetric]
          new_def [symmetric] m_def [symmetric] ty_def [symmetric] ls1_def len)
    from False have "\<not> surface_implicit ty" by (simp add: implicit_split)
    then show ?thesis
      using ls1 ty_names ty_impl by (simp add: r named_set new_set n_def [symmetric])
  next
    case True
    define l where "l = lifetime_name (n + length names)"
    have r: "b' = b\<lparr>bi_type := set_implicit_lifetimes l ty\<rparr>" "ls' = index_insert l ls1"
      "lg_next g' = Suc (n + length names)"
      using assms(1) True by (auto simp: name_lifetimes_def fresh_renaming_zip Let_def names_def [symmetric] n_def [symmetric]
          new_def [symmetric] m_def [symmetric] ty_def [symmetric] ls1_def len next_lifetime_def l_def)
    have lu: "l \<noteq> ''_''" by (simp add: l_def lifetime_name_not_implicit)
    have last: "given_out k (Suc (n + length names)) = insert l (given_out k (n + length names))" if "k \<le> n" for k
      using that by (auto simp: given_out_def l_def less_Suc_eq)
    have "set (lifetime_names (set_implicit_lifetimes l ty)) \<subseteq> insert l (set new)"
      using ty_names set_implicit_names [OF lu, of ty] by auto
    then have sub: "set (named_lifetime_parameters (set_implicit_lifetimes l ty)) \<subseteq> given_out n (Suc (n + length names))"
      by (simp add: named_set new_set last)
    show ?thesis
      using ls1 ty_impl sub set_implicit_surface [OF lu] set_implicit_hidden [of l ty]
      by (simp add: r n_def [symmetric] distinct_index_insert last)
  qed
  then show "distinct ls'" and "set ls' = given_out 0 (lg_next g')" and "lg_next g \<le> lg_next g'"
    and "set (named_lifetime_parameters (bi_type b')) \<subseteq> given_out (lg_next g) (lg_next g')"
    and "\<not> surface_implicit (bi_type b')" and "hidden_implicit (bi_type b') = hidden_implicit (bi_type b)"
    by simp_all
qed

lemma name_all_lifetimes_names:
  assumes "name_all_lifetimes bs (ls, g) = (bs', ls', g')" and "distinct ls" and "set ls = given_out 0 (lg_next g)"
  shows "distinct ls' \<and> set ls' = given_out 0 (lg_next g') \<and> lg_next g \<le> lg_next g'
    \<and> (\<forall>b \<in> set bs'. set (named_lifetime_parameters (bi_type b)) \<subseteq> given_out (lg_next g) (lg_next g')
         \<and> \<not> surface_implicit (bi_type b))
    \<and> (\<forall>i j. i < j \<longrightarrow> j < length bs' \<longrightarrow>
         set (named_lifetime_parameters (bi_type (bs' ! i))) \<inter> set (named_lifetime_parameters (bi_type (bs' ! j))) = {})"
  using assms
proof (induction bs arbitrary: ls g bs')
  case (Cons b bs)
  obtain b1 ls1 g1 where s1: "name_lifetimes b (ls, g) = (b1, ls1, g1)" by (cases "name_lifetimes b (ls, g)") auto
  obtain bs2 where s2: "name_all_lifetimes bs (ls1, g1) = (bs2, ls', g')" and bs': "bs' = b1 # bs2"
    using Cons.prems(1) s1 by (auto split: prod.splits)
  note h = name_lifetimes_names [OF s1 Cons.prems(2,3)]
  note t = Cons.IH [OF s2 h(1,2)]
  have le: "lg_next g1 \<le> lg_next g'" using t by blast
  have mono: "given_out m n \<subseteq> given_out m' n'" if "m' \<le> m" "n \<le> n'" for m n m' n'
    using that by (auto simp: given_out_def)
  have tail: "set (named_lifetime_parameters (bi_type b2)) \<subseteq> given_out (lg_next g1) (lg_next g')" "\<not> surface_implicit (bi_type b2)"
    if "b2 \<in> set bs2" for b2
    using t that by blast+
  have apart: "set (named_lifetime_parameters (bi_type b1)) \<inter> set (named_lifetime_parameters (bi_type b2)) = {}"
    if "b2 \<in> set bs2" for b2
    using h(4) tail(1) [OF that] given_out_disjoint [of "lg_next g1" "lg_next g1" "lg_next g" "lg_next g'"] by blast
  have "set (named_lifetime_parameters (bi_type (bs' ! i))) \<inter> set (named_lifetime_parameters (bi_type (bs' ! j))) = {}"
    if ij: "i < j" "j < length bs'" for i j
  proof (cases i)
    case 0
    from ij obtain k where "j = Suc k" by (cases j) auto
    with 0 ij apart [of "bs2 ! k"] show ?thesis by (simp add: bs')
  next
    case (Suc i')
    from ij obtain k where "j = Suc k" by (cases j) auto
    with Suc ij t show ?thesis by (simp add: bs')
  qed
  moreover have "\<forall>b2 \<in> set bs'. set (named_lifetime_parameters (bi_type b2)) \<subseteq> given_out (lg_next g) (lg_next g')
      \<and> \<not> surface_implicit (bi_type b2)"
  proof
    fix b2 assume "b2 \<in> set bs'"
    then consider "b2 = b1" | "b2 \<in> set bs2" by (auto simp: bs')
    then show "set (named_lifetime_parameters (bi_type b2)) \<subseteq> given_out (lg_next g) (lg_next g') \<and> \<not> surface_implicit (bi_type b2)"
    proof cases
      case 1
      with h(4,5) mono [of "lg_next g" "lg_next g" "lg_next g1" "lg_next g'"] le show ?thesis by blast
    next
      case 2
      with tail [OF 2] mono [of "lg_next g" "lg_next g1" "lg_next g'" "lg_next g'"] h(3) show ?thesis by blast
    qed
  qed
  ultimately show ?case using t h(3) by (meson le_trans)
qed simp

lemma bindings_idents:
  "map bi_ident (ip_bindings (input_parameters_from_iter same_key types)) =
     map (\<lambda>i. ''s_'' @ show_nat i) [0..<length (input_entries same_key types)]"
proof -
  let ?bs = "get_input_types same_key types" and ?bs' = "ip_bindings (input_parameters_from_iter same_key types)"
  have l: "list_all2 same_binding ?bs ?bs'" by (simp add: from_iter_bindings name_all_lifetimes_same)
  then have "map bi_ident ?bs' = map bi_ident ?bs"
    by (induction rule: list_all2_induct) (simp_all add: same_binding_def)
  also have "\<dots> = map (\<lambda>i. ''s_'' @ show_nat i) [0..<length (input_entries same_key types)]"
    by (rule nth_equalityI)
       (auto simp: get_input_types_def nth_enumerate_eq entry_binding_def split: prod.splits)
  finally show ?thesis .
qed

section \<open>Properties\<close>

text \<open>C26: every type that was asked for can be produced from the computed bindings: as a binding of an
  equal type, as a reference to one (which is then marked as mutable if the reference is), or by reborrowing a
  mutable reference as shared. It would not be so if a request for a mutable reference, or for
  the value itself, were forgotten when the same type is also requested by shared reference.\<close>

theorem input_types_are_available:
  assumes "key_test_ok same_key" and "ty \<in> set types"
  shows "\<exists>expr bs. get_expr_for_type ty (ip_bindings (input_parameters_from_iter same_key types)) = (Some expr, bs)
    \<and> expr_provides ty bs expr"
  using bindings_cover [OF assms] get_expr_provides by blast

text \<open>Theorem: the bindings have different names; the lifetimes of different bindings are different; all of
  them are declared, once; and no implicit lifetime is left, except those inside type arguments. It would
  not be so if the generator repeated a name or if a lifetime kept the name that it had in its own type.\<close>

theorem input_lifetimes_are_declared:
  "let params = input_parameters_from_iter same_key types in
    distinct (map bi_ident (ip_bindings params))
    \<and> distinct (ip_lifetimes params)
    \<and> (\<forall>b \<in> set (ip_bindings params).
         set (named_lifetime_parameters (bi_type b)) \<subseteq> set (ip_lifetimes params) \<and> \<not> surface_implicit (bi_type b))
    \<and> (\<forall>i j. i < j \<longrightarrow> j < length (ip_bindings params) \<longrightarrow>
         set (named_lifetime_parameters (bi_type (ip_bindings params ! i)))
         \<inter> set (named_lifetime_parameters (bi_type (ip_bindings params ! j))) = {})"
proof -
  obtain bs ls g where r: "name_all_lifetimes (get_input_types same_key types) ([], lifetime_generator_new) = (bs, ls, g)"
    by (cases "name_all_lifetimes (get_input_types same_key types) ([], lifetime_generator_new)") auto
  have p: "ip_bindings (input_parameters_from_iter same_key types) = bs"
    "ip_lifetimes (input_parameters_from_iter same_key types) = ls"
    by (simp_all add: from_iter_bindings r)
  have start: "set [] = given_out 0 (lg_next lifetime_generator_new)"
    by (simp add: given_out_def lifetime_generator_new_def)
  have z: "lg_next lifetime_generator_new = 0" by (simp add: lifetime_generator_new_def)
  note names = name_all_lifetimes_names [OF r _ start, unfolded z]
  have "distinct (map bi_ident (ip_bindings (input_parameters_from_iter same_key types)))"
    unfolding bindings_idents by (simp add: distinct_map inj_on_def)
  then show ?thesis unfolding Let_def p using names by simp
qed

text \<open>Two parameters with the same elided lifetime get different names.\<close>

theorem input_lifetimes_are_declared_witness:
  "let params = input_parameters_from_iter type_eq
       [Reference False Elided (ScalarPrimitive Str), Reference False (NamedLifetime ''b'') (Slice (ScalarPrimitive U8))] in
    length (ip_bindings params) = 2 \<and> distinct (ip_lifetimes params)
    \<and> set (named_lifetime_parameters (bi_type (ip_bindings params ! 0)))
      \<inter> set (named_lifetime_parameters (bi_type (ip_bindings params ! 1))) = {}"
proof -
  define types where "types = [Reference False Elided (ScalarPrimitive Str),
    Reference False (NamedLifetime ''b'') (Slice (ScalarPrimitive U8))]"
  have len: "length (ip_bindings (input_parameters_from_iter type_eq types)) = 2"
    unfolding types_def by code_simp
  have "(0 :: nat) < 1" "1 < length (ip_bindings (input_parameters_from_iter type_eq types))" by (simp_all add: len)
  then show ?thesis
    using input_lifetimes_are_declared [of type_eq types] len unfolding Let_def types_def [symmetric] by blast
qed

theorem input_types_are_available_witness:
  "\<exists>expr bs. get_expr_for_type (Reference True Elided (ScalarPrimitive Str))
     (ip_bindings (input_parameters_from_iter type_eq
       [Reference False Elided (ScalarPrimitive Str), Reference True Elided (ScalarPrimitive Str)])) = (Some expr, bs)"
  using input_types_are_available [of type_eq "Reference True Elided (ScalarPrimitive Str)"
    "[Reference False Elided (ScalarPrimitive Str), Reference True Elided (ScalarPrimitive Str)]"]
  by (auto simp: key_test_ok_def)

end
