(* ===== verification/Raw_Identifiers.thy ===== *)
theory Raw_Identifiers
  imports Prelude
begin

text \<open>
  How a registered component is identified (\<^verbatim>\<open>pavex_reflection/src/lib.rs\<close>): where
  it was created, by which registration system, and the path to its item. The path can be
  relative to the crate or module of its creation; \<open>fully_qualified_path\<close> makes it absolute.

  A string is the list of its characters. \<open>overflow_checks\<close> is the build setting of that
  name: an arithmetic operation on \<^verbatim>\<open>usize\<close> that overflows panics when it is set,
  and wraps around when it is not.
\<close>

section \<open>Identifiers\<close>

record location =
  line :: "32 word"
  column :: "32 word"
  source_file :: string

datatype created_by =
    AttributeMacro (macro: string)
  | ByBlueprint
  | ByFramework

record created_at =
  package_name :: string
  package_version :: string
  module_path :: string

record raw_identifiers =
  ri_created_at :: created_at
  ri_created_by :: created_by
  import_path :: string

definition from_raw_parts :: "string \<Rightarrow> created_at \<Rightarrow> created_by \<Rightarrow> raw_identifiers" where
  "from_raw_parts p at by' = \<lparr>ri_created_at = at, ri_created_by = by', import_path = p\<rparr>"

definition macro_name :: "string \<Rightarrow> (unit, created_by) result" where
  "macro_name value =
     (if value = ''f'' \<or> value = ''t'' then Inr ByBlueprint
      else if value \<in> {''pre_process'', ''post_process'', ''wrap'', ''constructor'', ''request_scoped'',
          ''transient'', ''singleton'', ''config'', ''error_observer''} then Inr (AttributeMacro value)
      else Inl (Panicked (''Pavex doesn't recognize `'' @ value
        @ ''` as one of its macros to register components'')))"

section \<open>Paths\<close>

text \<open>
  \<^verbatim>\<open>str::split("::")\<close>: the separator is searched for from the left, and two
  occurrences do not overlap. \<^verbatim>\<open>str::trim\<close> removes white space at both ends.
\<close>

fun split_colons :: "string \<Rightarrow> string \<Rightarrow> string list" where
  "split_colons acc [] = [acc]"
| "split_colons acc [c] = [acc @ [c]]"
| "split_colons acc (c # d # s) =
     (if c = CHR '':'' \<and> d = CHR '':'' then acc # split_colons [] s
      else split_colons (acc @ [c]) (d # s))"

definition is_whitespace :: "char \<Rightarrow> bool" where
  "is_whitespace c \<longleftrightarrow> (let n = of_char c :: nat in 9 \<le> n \<and> n \<le> 13 \<or> n = 32 \<or> n = 133 \<or> n = 160)"

definition trim :: "string \<Rightarrow> string" where
  "trim s = rev (dropWhile is_whitespace (rev (dropWhile is_whitespace s)))"

definition path_segments :: "string \<Rightarrow> string list" where
  "path_segments s = map trim (split_colons [] s)"

definition fully_qualified_path :: "bool \<Rightarrow> raw_identifiers \<Rightarrow> (unit, string list) result" where
  "fully_qualified_path overflow_checks ri =
     (let segments = path_segments (import_path ri)
      in if segments ! 0 = ''crate'' then
           Inr (segments[0 := map (\<lambda>c. if c = CHR ''-'' then CHR ''_'' else c)
                               (package_name (ri_created_at ri))])
         else if segments ! 0 = ''self'' then
           (let new_segments = path_segments (module_path (ri_created_at ri))
            in Inr (new_segments @ drop 1 segments))
         else if segments ! 0 = ''super'' then
           (let n_super = length (takeWhile (\<lambda>p. p = ''super'') segments);
                module_segments = path_segments (module_path (ri_created_at ri));
                n_module_segments = length module_segments
            in if overflow_checks \<and> n_module_segments < n_super then
                 Inl (Panicked ''attempt to subtract with overflow'')
               else Inr (take (unat (of_nat n_module_segments - of_nat n_super :: 64 word)) module_segments
                           @ drop n_super segments))
         else Inr segments)"

definition raw_path :: "raw_identifiers \<Rightarrow> string" where
  "raw_path ri = import_path ri"

section \<open>Splitting a joined path\<close>

text \<open>\<^verbatim>\<open>["a", "b"].join("::")\<close>\<close>

fun join_colons :: "string list \<Rightarrow> string" where
  "join_colons [] = []"
| "join_colons [s] = s"
| "join_colons (s # t # ss) = s @ '':'' @ '':'' @ join_colons (t # ss)"

text \<open>The segments of a path that is written in the usual way.\<close>

definition plain_segment :: "string \<Rightarrow> bool" where
  "plain_segment s \<longleftrightarrow> (\<forall>c \<in> set s. c \<noteq> CHR '':'' \<and> \<not> is_whitespace c)"

lemma split_colons_plain:
  assumes "\<forall>c \<in> set s. c \<noteq> CHR '':''"
  shows "split_colons acc s = [acc @ s]"
    and "split_colons acc (s @ '':'' @ '':'' @ rest) = (acc @ s) # split_colons [] rest"
proof -
  show "split_colons acc s = [acc @ s]"
    using assms by (induction acc s rule: split_colons.induct) auto
  show "split_colons acc (s @ '':'' @ '':'' @ rest) = (acc @ s) # split_colons [] rest"
    using assms
  proof (induction s arbitrary: acc)
    case Nil
    then show ?case by simp
  next
    case (Cons c s)
    then show ?case by (cases s) auto
  qed
qed

lemma trim_plain: "plain_segment s \<Longrightarrow> trim s = s"
proof -
  assume p: "plain_segment s"
  have id: "dropWhile is_whitespace t = t" if "\<forall>c \<in> set t. \<not> is_whitespace c" for t
    using that by (cases t) auto
  show ?thesis using p by (simp add: trim_def plain_segment_def id)
qed

lemma path_segments_join:
  "ss \<noteq> [] \<Longrightarrow> \<forall>s \<in> set ss. plain_segment s \<Longrightarrow> path_segments (join_colons ss) = ss"
proof (induction ss rule: join_colons.induct)
  case 1
  then show ?case by simp
next
  case (2 s)
  then show ?case
    using split_colons_plain(1) [of s "[]"] trim_plain [of s]
    by (simp add: path_segments_def plain_segment_def)
next
  case (3 s t ss)
  have "split_colons [] (s @ '':'' @ '':'' @ join_colons (t # ss)) = s # split_colons [] (join_colons (t # ss))"
    using split_colons_plain(2) [of s "[]"] 3 by (simp add: plain_segment_def)
  then show ?case using 3 trim_plain [of s] by (simp add: path_segments_def)
qed

section \<open>What a path resolves to\<close>

lemma word_of_nat_diff: "k \<le> n \<Longrightarrow> n < 2 ^ 64 \<Longrightarrow> unat (of_nat n - of_nat k :: 64 word) = n - k"
  by (simp add: of_nat_diff [symmetric] unsigned_of_nat take_bit_nat_eq_self del: of_nat_diff)

lemma take_while_supers:
  "rest = [] \<or> hd rest \<noteq> ''super'' \<Longrightarrow>
     length (takeWhile (\<lambda>p. p = ''super'') (replicate k ''super'' @ rest)) = k"
  by (induction k) (cases rest; auto)+

text \<open>Theorem: A relative import path is rebased on the place where the component was created.
  For paths that are written in the usual way, \<^verbatim>\<open>crate::rest\<close> is resolved to the name
  of the package, with underscores for hyphens, \<^verbatim>\<open>self::rest\<close> to the module,
  \<^verbatim>\<open>super::...::rest\<close> to the module that is as many levels up as there are
  \<^verbatim>\<open>super\<close> segments, and every other path to itself. With more \<^verbatim>\<open>super\<close>
  segments than the module has levels the function panics, or it ignores them all if overflows
  are not checked.\<close>

theorem import_path_is_rebased:
  assumes "\<forall>s \<in> set module. plain_segment s" and "module \<noteq> []" and "length module < 2 ^ 64"
    and "module_path (ri_created_at ri) = join_colons module"
    and "\<forall>s \<in> set segments. plain_segment s" and "segments \<noteq> []" and "import_path ri = join_colons segments"
  shows "(segments = ''crate'' # rest \<longrightarrow> fully_qualified_path checks ri =
        Inr (map (\<lambda>c. if c = CHR ''-'' then CHR ''_'' else c) (package_name (ri_created_at ri)) # rest))
    \<and> (segments = ''self'' # rest \<longrightarrow> fully_qualified_path checks ri = Inr (module @ rest))
    \<and> (segments = replicate k ''super'' @ rest \<and> 0 < k \<and> (rest = [] \<or> hd rest \<noteq> ''super'') \<longrightarrow>
        (k \<le> length module \<longrightarrow>
          fully_qualified_path checks ri = Inr (take (length module - k) module @ rest))
        \<and> (length module < k \<and> checks \<longrightarrow> panicked (fully_qualified_path checks ri)))
    \<and> (hd segments \<notin> {''crate'', ''self'', ''super''} \<longrightarrow> fully_qualified_path checks ri = Inr segments)"
proof -
  have ps: "path_segments (import_path ri) = segments" "path_segments (module_path (ri_created_at ri)) = module"
    using assms by (simp_all add: path_segments_join)
  have hd: "segments ! 0 = hd segments" using assms(6) by (simp add: hd_conv_nth)
  note [simp] = fully_qualified_path_def ps Let_def
  have 1: "segments = ''crate'' # rest \<longrightarrow> fully_qualified_path checks ri =
      Inr (map (\<lambda>c. if c = CHR ''-'' then CHR ''_'' else c) (package_name (ri_created_at ri)) # rest)"
    by simp
  have 2: "segments = ''self'' # rest \<longrightarrow> fully_qualified_path checks ri = Inr (module @ rest)"
    by simp
  have 3: "(k \<le> length module \<longrightarrow>
        fully_qualified_path checks ri = Inr (take (length module - k) module @ rest))
      \<and> (length module < k \<and> checks \<longrightarrow> panicked (fully_qualified_path checks ri))"
    if s: "segments = replicate k ''super'' @ rest" "0 < k" "rest = [] \<or> hd rest \<noteq> ''super''"
  proof -
    have "segments ! 0 = ''super''" using s(1, 2) by (cases k) simp_all
    moreover have "length (takeWhile (\<lambda>p. p = ''super'') segments) = k"
      using take_while_supers [OF s(3)] by (simp add: s(1))
    moreover have "drop k segments = rest" by (simp add: s(1))
    ultimately show ?thesis using word_of_nat_diff [of k "length module"] assms(3) by auto
  qed
  have 4: "hd segments \<notin> {''crate'', ''self'', ''super''} \<longrightarrow> fully_qualified_path checks ri = Inr segments"
    by (simp add: hd)
  from 1 2 3 4 show ?thesis by blast
qed

theorem import_path_is_rebased_witness:
  "fully_qualified_path True \<lparr>ri_created_at = \<lparr>package_name = ''my-app'', package_version = ''0.1.0'',
        module_path = ''my_app::routes::users''\<rparr>, ri_created_by = ByBlueprint,
      import_path = ''super::get''\<rparr> = Inr [''my_app'', ''routes'', ''get'']"
  using import_path_is_rebased [of "[''my_app'', ''routes'', ''users'']"
      "\<lparr>ri_created_at = \<lparr>package_name = ''my-app'', package_version = ''0.1.0'',
        module_path = ''my_app::routes::users''\<rparr>, ri_created_by = ByBlueprint,
      import_path = ''super::get''\<rparr>" "[''super'', ''get'']" "[''get'']" True 1]
  by (simp add: plain_segment_def is_whitespace_def)

end
