(* ===== verification/Blueprint.thy ===== *)
theory Blueprint
  imports Raw_Identifiers Interner Scope_Graph Domain_Guard
begin

text \<open>
  Blueprints and the components that are registered against them.

  \<^item> The schema of a blueprint (\<^verbatim>\<open>pavex_bp_schema/src/lib.rs\<close>), as far as the compiler
    reads it. A \<^verbatim>\<open>BTreeSet\<close> of method names is a finite set, a \<^verbatim>\<open>BTreeMap\<close> a
    finite map.
  \<^item> User components and the tables about them
    (\<^verbatim>\<open>pavexc/src/compiler/analyses/user_components/\<close>, \<^verbatim>\<open>component.rs\<close>,
    \<^verbatim>\<open>router_key.rs\<close>, \<^verbatim>\<open>source.rs\<close>, \<^verbatim>\<open>auxiliary.rs\<close>). Two tables
    that only later passes write are left out of \<open>auxiliary_data\<close>: the interner of annotated
    items and the types of configuration components.

  Arenas and graphs are data structures of other crates; with the identifier test of another
  crate and the version that the build puts into the binary they form the argument
  \<open>libs\<close> of the definitions. \<open>registry_libs\<close> says what the code relies on.
\<close>

section \<open>The schema\<close>

datatype lifecycle = Singleton | RequestScoped | Transient

datatype cloning_strategy = NeverClone | CloneIfNecessary

datatype lint = Unused

datatype lint_setting = Ignore | Enforce

datatype bp_method_guard =
    AnyMethod
  | SomeMethods "string fset"

record callable_ref =
  callable :: raw_identifiers
  callable_registered_at :: location

record type_ref =
  type_identifiers :: raw_identifiers
  type_registered_at :: location

datatype sources = AllSources | SomeSources "string list"

record import_ref =
  im_sources :: sources
  im_created_at :: created_at
  im_registered_at :: location

record route =
  route_path :: string
  route_method_guard :: bp_method_guard
  route_handler :: callable_ref
  route_error_handler :: "callable_ref option"

record fallback_ref =
  fallback_handler :: callable_ref
  fallback_error_handler :: "callable_ref option"

record constructor_ref =
  ctor_callable :: callable_ref
  ctor_lifecycle :: lifecycle
  ctor_cloning_strategy :: "cloning_strategy option"
  ctor_error_handler :: "callable_ref option"
  ctor_lints :: "(lint, lint_setting) fmap"

text \<open>The three kinds of middleware have the same two fields.\<close>

record middleware_ref =
  mw_callable :: callable_ref
  mw_error_handler :: "callable_ref option"

record prebuilt_ref =
  pre_input :: type_ref
  pre_cloning_strategy :: "cloning_strategy option"

record config_ref =
  cfg_input :: type_ref
  cfg_key :: string
  cfg_cloning_strategy :: "cloning_strategy option"
  cfg_default_if_missing :: "bool option"
  cfg_include_if_unused :: "bool option"

record path_prefix =
  prefix_path :: string
  prefix_registered_at :: location

record domain_ref =
  domain_name :: string
  domain_registered_at :: location

datatype blueprint =
    Blueprint (creation_location: location) (bp_components: "bp_component list")
and bp_component =
    CConstructor constructor_ref
  | CWrappingMiddleware middleware_ref
  | CPostProcessingMiddleware middleware_ref
  | CPreProcessingMiddleware middleware_ref
  | CRoute route
  | CFallbackRequestHandler fallback_ref
  | CNestedBlueprint nested_blueprint
  | CErrorObserver callable_ref
  | CPrebuiltType prebuilt_ref
  | CConfigType config_ref
  | CImport import_ref
and nested_blueprint =
    NestedBlueprint (nb_blueprint: blueprint) (nb_path_prefix: "path_prefix option")
      (nb_domain: "domain_ref option") (nb_nested_at: location)

section \<open>User components\<close>

record router_key =
  rk_path :: string
  rk_method_guard :: bp_method_guard
  rk_domain_guard :: "domain_guard option"

datatype component_source =
    Identifiers nat
  | Annotation nat

datatype user_component =
    RequestHandler nat router_key
  | Fallback nat
  | ErrorHandler component_source nat
  | Constructor component_source
  | PrebuiltType component_source
  | ConfigType component_source string
  | WrappingMiddleware nat
  | PostProcessingMiddleware nat
  | PreProcessingMiddleware nat
  | ErrorObserver nat

datatype component_kind =
    KRequestHandler
  | KFallback
  | KConstructor
  | KErrorHandler
  | KWrappingMiddleware
  | KPostProcessingMiddleware
  | KPreProcessingMiddleware
  | KErrorObserver
  | KPrebuiltType
  | KConfigType

fun source_identifiers :: "component_source \<Rightarrow> nat option" where
  "source_identifiers (Identifiers i) = Some i"
| "source_identifiers (Annotation i) = None"

fun raw_identifiers_id :: "user_component \<Rightarrow> nat option" where
  "raw_identifiers_id (RequestHandler s k) = Some s"
| "raw_identifiers_id (Fallback s) = Some s"
| "raw_identifiers_id (ErrorHandler s i) = source_identifiers s"
| "raw_identifiers_id (Constructor s) = source_identifiers s"
| "raw_identifiers_id (PrebuiltType s) = source_identifiers s"
| "raw_identifiers_id (ConfigType s k) = source_identifiers s"
| "raw_identifiers_id (WrappingMiddleware s) = Some s"
| "raw_identifiers_id (PostProcessingMiddleware s) = Some s"
| "raw_identifiers_id (PreProcessingMiddleware s) = Some s"
| "raw_identifiers_id (ErrorObserver s) = Some s"

fun component_kind_of :: "user_component \<Rightarrow> component_kind" where
  "component_kind_of (RequestHandler s k) = KRequestHandler"
| "component_kind_of (Fallback s) = KFallback"
| "component_kind_of (ErrorHandler s i) = KErrorHandler"
| "component_kind_of (Constructor s) = KConstructor"
| "component_kind_of (PrebuiltType s) = KPrebuiltType"
| "component_kind_of (ConfigType s k) = KConfigType"
| "component_kind_of (WrappingMiddleware s) = KWrappingMiddleware"
| "component_kind_of (PostProcessingMiddleware s) = KPostProcessingMiddleware"
| "component_kind_of (PreProcessingMiddleware s) = KPreProcessingMiddleware"
| "component_kind_of (ErrorObserver s) = KErrorObserver"

section \<open>The tables about components\<close>

datatype registration_kind = RegisteredWithBlueprint | RegisteredWithAttribute

record registration =
  reg_location :: location
  reg_kind :: registration_kind

definition registration_from :: "location \<Rightarrow> registration" where
  "registration_from l = \<lparr>reg_location = l, reg_kind = RegisteredWithBlueprint\<rparr>"

datatype default_strategy = DefaultIfMissing | Required

record ('a, 'b) auxiliary_data =
  component_interner :: 'a
  id2scope_id :: "nat \<rightharpoonup> scope_id"
  imports_to_resolve :: "(import_ref \<times> scope_id) list"
  identifiers_interner :: "('b, nat, raw_identifiers) interner"
  id2registration :: "nat \<rightharpoonup> registration"
  id2lifecycle :: "nat \<rightharpoonup> lifecycle"
  id2lints :: "nat \<rightharpoonup> (lint, lint_setting) fmap"
  id2cloning_strategy :: "nat \<rightharpoonup> cloning_strategy"
  fallible_id2error_handler_id :: "nat \<rightharpoonup> nat"
  config_id2default_strategy :: "nat \<rightharpoonup> default_strategy"
  config_id2include_if_unused :: "nat \<rightharpoonup> bool"
  handler_id2middleware_ids :: "nat \<rightharpoonup> nat list"
  handler_id2error_observer_ids :: "nat \<rightharpoonup> nat list"
  fallback_id2path_prefix :: "nat \<rightharpoonup> string option"
  fallback_id2domain_guard :: "nat \<rightharpoonup> domain_guard option"
  domain_guard2locations :: "(domain_guard \<times> location list) list"

section \<open>What other crates provide\<close>

record ('a, 'b, 'g) registry_libs =
  lib_components :: "('a, nat, user_component) arena_lib"
  lib_iter :: "'a \<Rightarrow> (nat \<times> user_component) list"
  lib_identifiers :: "('b, nat, raw_identifiers) arena_lib"
  lib_graph :: "'g graph_lib"
  lib_is_ident :: "string \<Rightarrow> bool"
  lib_version :: string

locale registry =
  components: arena "lib_components libs" +
  identifiers: arena "lib_identifiers libs" +
  scopes: digraph "lib_graph libs"
  for libs :: "('a, 'b, 'g) registry_libs" +
  assumes iter_new: "lib_iter libs (al_new (lib_components libs)) = []"
    and iter_alloc: "al_alloc (lib_components libs) c a = (i, a') \<Longrightarrow>
      lib_iter libs a' = lib_iter libs a @ [(i, c)]"

section \<open>Registering a component\<close>

definition aux_new :: "('a, 'b, 'g) registry_libs \<Rightarrow> ('a, 'b) auxiliary_data" where
  "aux_new libs =
     \<lparr>component_interner = al_new (lib_components libs), id2scope_id = Map.empty,
      imports_to_resolve = [], identifiers_interner = interner_new (lib_identifiers libs),
      id2registration = Map.empty, id2lifecycle = Map.empty, id2lints = Map.empty,
      id2cloning_strategy = Map.empty, fallible_id2error_handler_id = Map.empty,
      config_id2default_strategy = Map.empty, config_id2include_if_unused = Map.empty,
      handler_id2middleware_ids = Map.empty, handler_id2error_observer_ids = Map.empty,
      fallback_id2path_prefix = Map.empty, fallback_id2domain_guard = Map.empty,
      domain_guard2locations = []\<rparr>"

definition intern_component :: "('a, 'b, 'g) registry_libs \<Rightarrow> user_component \<Rightarrow> scope_id \<Rightarrow> lifecycle
    \<Rightarrow> registration \<Rightarrow> ('a, 'b) auxiliary_data \<Rightarrow> nat \<times> ('a, 'b) auxiliary_data" where
  "intern_component libs component scope_id lifecycle registration aux =
     (let (component_id, arena) = al_alloc (lib_components libs) component (component_interner aux);
          aux = aux\<lparr>component_interner := arena\<rparr>;
          aux = aux\<lparr>id2lifecycle := (id2lifecycle aux)(component_id \<mapsto> lifecycle)\<rparr>;
          aux = aux\<lparr>id2registration := (id2registration aux)(component_id \<mapsto> registration)\<rparr>;
          aux = aux\<lparr>id2scope_id := (id2scope_id aux)(component_id \<mapsto> scope_id)\<rparr>
      in (component_id, aux))"

definition intern_identifiers :: "('a, 'b, 'g) registry_libs \<Rightarrow> raw_identifiers
    \<Rightarrow> ('a, 'b) auxiliary_data \<Rightarrow> nat \<times> ('a, 'b) auxiliary_data" where
  "intern_identifiers libs ri aux =
     (let (i, interner) = get_or_intern (lib_identifiers libs) ri (identifiers_interner aux)
      in (i, aux\<lparr>identifiers_interner := interner\<rparr>))"

abbreviation aux_iter :: "('a, 'b, 'g) registry_libs \<Rightarrow> ('a, 'b) auxiliary_data
    \<Rightarrow> (nat \<times> user_component) list" where
  "aux_iter libs aux \<equiv> lib_iter libs (component_interner aux)"

definition component_at :: "('a, 'b, 'g) registry_libs \<Rightarrow> ('a, 'b) auxiliary_data \<Rightarrow> nat
    \<Rightarrow> user_component option" where
  "component_at libs aux i = al_index (lib_components libs) (component_interner aux) i"

text \<open>
  The assertions of \<^verbatim>\<open>check_invariants\<close>. The result is the first one that fails, here
  the table that lacks an entry, for the first component in the order of the arena.
\<close>

definition missing_entries :: "('a, 'b) auxiliary_data \<Rightarrow> nat \<Rightarrow> user_component \<Rightarrow> string list" where
  "missing_entries aux i c =
     filter (\<lambda>s. s \<noteq> [])
       ([if id2lifecycle aux i = None then ''lifecycle'' else [],
         if id2registration aux i = None then ''location'' else [],
         if id2scope_id aux i = None then ''scope'' else []]
        @ (case c of
             Constructor s \<Rightarrow> [if id2cloning_strategy aux i = None then ''cloning strategy'' else []]
           | PrebuiltType s \<Rightarrow> [if id2cloning_strategy aux i = None then ''cloning strategy'' else []]
           | ConfigType s k \<Rightarrow>
               [if id2cloning_strategy aux i = None then ''cloning strategy'' else [],
                if config_id2default_strategy aux i = None then ''default strategy'' else []]
           | RequestHandler s k \<Rightarrow>
               [if handler_id2middleware_ids aux i = None then ''middleware chain'' else [],
                if handler_id2error_observer_ids aux i = None then ''error observers'' else []]
           | Fallback s \<Rightarrow>
               [if handler_id2middleware_ids aux i = None then ''middleware chain'' else [],
                if handler_id2error_observer_ids aux i = None then ''error observers'' else [],
                if fallback_id2path_prefix aux i = None then ''path prefix'' else [],
                if fallback_id2domain_guard aux i = None then ''domain guard'' else []]
           | _ \<Rightarrow> []))"

definition check_invariants :: "('a, 'b, 'g) registry_libs \<Rightarrow> ('a, 'b) auxiliary_data
    \<Rightarrow> (unit, unit) result" where
  "check_invariants libs aux =
     (case concat (map (\<lambda>(i, c). missing_entries aux i c) (aux_iter libs aux)) of
        [] \<Rightarrow> Inr ()
      | m # ms \<Rightarrow> Inl (Panicked m))"

end
