(* ===== verification/Blueprint_Processing.thy ===== *)
theory Blueprint_Processing
  imports Blueprint
begin

text \<open>
  The pass that registers the components of a blueprint and of the blueprints nested in it
  (\<^verbatim>\<open>pavexc/src/compiler/analyses/user_components/blueprint.rs\<close>).

  The mutable arguments of the Rust functions are the record \<open>processing\<close>. Nested
  blueprints are processed after the blueprint they are nested in, from a queue of which the
  code takes the last item first. A diagnostic is its kind and the data in its message; the
  lookup of the source code that is shown with it is left out.
\<close>

section \<open>State\<close>

record queue_item =
  qi_parent_scope_id :: scope_id
  qi_parent_path_prefix :: "string option"
  qi_parent_domain_guard :: "domain_guard option"
  qi_nested_bp :: nested_blueprint
  qi_middleware_chain :: "nat list"
  qi_observer_chain :: "nat list"

datatype bp_diagnostic =
    RoutePathMustStartWithASlash nat string
  | PathPrefixCannotBeEmpty location
  | PathPrefixMustStartWithASlash string location
  | PathPrefixCannotEndWithASlash string location
  | InvalidDomainGuard location invalid_domain_constraint

record ('a, 'b, 'g) processing =
  ps_aux :: "('a, 'b) auxiliary_data"
  ps_builder :: "('g, location) scope_graph_builder"
  ps_middlewares :: "nat list"
  ps_observers :: "nat list"
  ps_queue :: "queue_item list"
  ps_diagnostics :: "bp_diagnostic list"

definition push_diagnostic :: "bp_diagnostic \<Rightarrow> ('a, 'b, 'g) processing \<Rightarrow> ('a, 'b, 'g) processing" where
  "push_diagnostic d ps = ps\<lparr>ps_diagnostics := ps_diagnostics ps @ [d]\<rparr>"

definition new_scope :: "('a, 'b, 'g) registry_libs \<Rightarrow> scope_id \<Rightarrow> location option
    \<Rightarrow> ('a, 'b, 'g) processing \<Rightarrow> scope_id \<times> ('a, 'b, 'g) processing" where
  "new_scope libs parent l ps =
     (let (s, b) = add_scope (lib_graph libs) parent l (ps_builder ps)
      in (s, ps\<lparr>ps_builder := b\<rparr>))"

section \<open>Error handlers\<close>

definition process_error_handler :: "('a, 'b, 'g) registry_libs \<Rightarrow> callable_ref option \<Rightarrow> lifecycle
    \<Rightarrow> scope_id \<Rightarrow> nat \<Rightarrow> ('a, 'b) auxiliary_data \<Rightarrow> ('a, 'b) auxiliary_data" where
  "process_error_handler libs error_handler lifecycle scope_id fallible_id aux =
     (case error_handler of
        None \<Rightarrow> aux
      | Some eh \<Rightarrow>
          (let (identifiers_id, aux) = intern_identifiers libs (callable eh) aux;
               (error_handler_id, aux) = intern_component libs
                 (ErrorHandler (Identifiers identifiers_id) fallible_id) scope_id lifecycle
                 (registration_from (callable_registered_at eh)) aux
           in aux\<lparr>fallible_id2error_handler_id :=
                (fallible_id2error_handler_id aux)(fallible_id \<mapsto> error_handler_id)\<rparr>))"

section \<open>Routes and fallbacks\<close>

definition add_chains :: "nat \<Rightarrow> nat list \<Rightarrow> nat list \<Rightarrow> ('a, 'b) auxiliary_data
    \<Rightarrow> ('a, 'b) auxiliary_data" where
  "add_chains i middlewares observers aux =
     aux\<lparr>handler_id2middleware_ids := (handler_id2middleware_ids aux)(i \<mapsto> middlewares),
         handler_id2error_observer_ids := (handler_id2error_observer_ids aux)(i \<mapsto> observers)\<rparr>"

definition validate_route :: "nat \<Rightarrow> route \<Rightarrow> ('a, 'b, 'g) processing \<Rightarrow> ('a, 'b, 'g) processing" where
  "validate_route route_id r ps =
     (if route_path r = [] then ps
      else if hd (route_path r) \<noteq> CHR ''/'' then
        push_diagnostic (RoutePathMustStartWithASlash route_id (route_path r)) ps
      else ps)"

definition prefixed :: "string option \<Rightarrow> string \<Rightarrow> string" where
  "prefixed prefix path = (case prefix of Some p \<Rightarrow> p @ path | None \<Rightarrow> path)"

definition process_route :: "('a, 'b, 'g) registry_libs \<Rightarrow> route \<Rightarrow> scope_id \<Rightarrow> domain_guard option
    \<Rightarrow> string option \<Rightarrow> ('a, 'b, 'g) processing \<Rightarrow> ('a, 'b, 'g) processing" where
  "process_route libs r current_scope_id guard path_prefix ps =
     (let (identifiers_id, aux) = intern_identifiers libs (callable (route_handler r)) (ps_aux ps);
          (route_scope_id, ps) = new_scope libs current_scope_id None ps;
          router_key = \<lparr>rk_path = prefixed path_prefix (route_path r),
                        rk_method_guard = route_method_guard r, rk_domain_guard = guard\<rparr>;
          (request_handler_id, aux) = intern_component libs (RequestHandler identifiers_id router_key)
            route_scope_id RequestScoped
            (registration_from (callable_registered_at (route_handler r))) aux;
          aux = add_chains request_handler_id (ps_middlewares ps) (ps_observers ps) aux;
          ps = validate_route request_handler_id r ps;
          aux = process_error_handler libs (route_error_handler r) RequestScoped current_scope_id
            request_handler_id aux
      in ps\<lparr>ps_aux := aux\<rparr>)"

definition process_fallback :: "('a, 'b, 'g) registry_libs \<Rightarrow> fallback_ref \<Rightarrow> string option
    \<Rightarrow> domain_guard option \<Rightarrow> scope_id \<Rightarrow> ('a, 'b, 'g) processing \<Rightarrow> ('a, 'b, 'g) processing" where
  "process_fallback libs f path_prefix guard current_scope_id ps =
     (let (identifiers_id, aux) = intern_identifiers libs (callable (fallback_handler f)) (ps_aux ps);
          (route_scope_id, ps) = new_scope libs current_scope_id None ps;
          (fallback_id, aux) = intern_component libs (Fallback identifiers_id) route_scope_id RequestScoped
            (registration_from (callable_registered_at (fallback_handler f))) aux;
          aux = add_chains fallback_id (ps_middlewares ps) (ps_observers ps) aux;
          aux = aux\<lparr>fallback_id2path_prefix := (fallback_id2path_prefix aux)(fallback_id \<mapsto> path_prefix)\<rparr>;
          aux = aux\<lparr>fallback_id2domain_guard := (fallback_id2domain_guard aux)(fallback_id \<mapsto> guard)\<rparr>;
          aux = process_error_handler libs (fallback_error_handler f) RequestScoped current_scope_id
            fallback_id aux
      in ps\<lparr>ps_aux := aux\<rparr>)"

section \<open>Middlewares and error observers\<close>

text \<open>The functions for the three kinds of middleware differ in the component they build.\<close>

definition process_middleware_as :: "(nat \<Rightarrow> user_component) \<Rightarrow> ('a, 'b, 'g) registry_libs
    \<Rightarrow> middleware_ref \<Rightarrow> scope_id \<Rightarrow> ('a, 'b, 'g) processing \<Rightarrow> ('a, 'b, 'g) processing" where
  "process_middleware_as component libs m current_scope_id ps =
     (let (middleware_scope_id, ps) = new_scope libs current_scope_id None ps;
          (identifiers_id, aux) = intern_identifiers libs (callable (mw_callable m)) (ps_aux ps);
          (component_id, aux) = intern_component libs (component identifiers_id) middleware_scope_id
            RequestScoped (registration_from (callable_registered_at (mw_callable m))) aux;
          ps = ps\<lparr>ps_middlewares := ps_middlewares ps @ [component_id]\<rparr>;
          aux = process_error_handler libs (mw_error_handler m) RequestScoped current_scope_id component_id aux
      in ps\<lparr>ps_aux := aux\<rparr>)"

definition process_middleware :: "('a, 'b, 'g) registry_libs \<Rightarrow> middleware_ref \<Rightarrow> scope_id
    \<Rightarrow> ('a, 'b, 'g) processing \<Rightarrow> ('a, 'b, 'g) processing" where
  "process_middleware = process_middleware_as WrappingMiddleware"

definition process_pre_processing_middleware :: "('a, 'b, 'g) registry_libs \<Rightarrow> middleware_ref \<Rightarrow> scope_id
    \<Rightarrow> ('a, 'b, 'g) processing \<Rightarrow> ('a, 'b, 'g) processing" where
  "process_pre_processing_middleware = process_middleware_as PreProcessingMiddleware"

definition process_post_processing_middleware :: "('a, 'b, 'g) registry_libs \<Rightarrow> middleware_ref \<Rightarrow> scope_id
    \<Rightarrow> ('a, 'b, 'g) processing \<Rightarrow> ('a, 'b, 'g) processing" where
  "process_post_processing_middleware = process_middleware_as PostProcessingMiddleware"

definition process_error_observer :: "('a, 'b, 'g) registry_libs \<Rightarrow> callable_ref \<Rightarrow> scope_id
    \<Rightarrow> ('a, 'b, 'g) processing \<Rightarrow> ('a, 'b, 'g) processing" where
  "process_error_observer libs eo current_scope_id ps =
     (let (identifiers_id, aux) = intern_identifiers libs (callable eo) (ps_aux ps);
          (i, aux) = intern_component libs (ErrorObserver identifiers_id) current_scope_id Transient
            (registration_from (callable_registered_at eo)) aux
      in ps\<lparr>ps_aux := aux, ps_observers := ps_observers ps @ [i]\<rparr>)"

section \<open>Constructors and types\<close>

definition process_constructor :: "('a, 'b, 'g) registry_libs \<Rightarrow> constructor_ref \<Rightarrow> scope_id
    \<Rightarrow> ('a, 'b) auxiliary_data \<Rightarrow> ('a, 'b) auxiliary_data" where
  "process_constructor libs c current_scope_id aux =
     (let (identifiers_id, aux) = intern_identifiers libs (callable (ctor_callable c)) aux;
          (constructor_id, aux) = intern_component libs (Constructor (Identifiers identifiers_id))
            current_scope_id (ctor_lifecycle c)
            (registration_from (callable_registered_at (ctor_callable c))) aux;
          aux = aux\<lparr>id2cloning_strategy := (id2cloning_strategy aux)(constructor_id \<mapsto>
            (case ctor_cloning_strategy c of Some s \<Rightarrow> s | None \<Rightarrow> NeverClone))\<rparr>;
          aux = (if ctor_lints c \<noteq> fmempty then
                   aux\<lparr>id2lints := (id2lints aux)(constructor_id \<mapsto> ctor_lints c)\<rparr>
                 else aux)
      in process_error_handler libs (ctor_error_handler c) (ctor_lifecycle c) current_scope_id
           constructor_id aux)"

definition process_prebuilt_type :: "('a, 'b, 'g) registry_libs \<Rightarrow> prebuilt_ref \<Rightarrow> scope_id
    \<Rightarrow> ('a, 'b) auxiliary_data \<Rightarrow> ('a, 'b) auxiliary_data" where
  "process_prebuilt_type libs si current_scope_id aux =
     (let (identifiers_id, aux) = intern_identifiers libs (type_identifiers (pre_input si)) aux;
          (i, aux) = intern_component libs (PrebuiltType (Identifiers identifiers_id))
            current_scope_id Singleton (registration_from (type_registered_at (pre_input si))) aux
      in aux\<lparr>id2cloning_strategy := (id2cloning_strategy aux)(i \<mapsto>
           (case pre_cloning_strategy si of Some s \<Rightarrow> s | None \<Rightarrow> NeverClone))\<rparr>)"

definition process_config_type :: "('a, 'b, 'g) registry_libs \<Rightarrow> config_ref \<Rightarrow> scope_id
    \<Rightarrow> ('a, 'b) auxiliary_data \<Rightarrow> ('a, 'b) auxiliary_data" where
  "process_config_type libs t current_scope_id aux =
     (let (identifiers_id, aux) = intern_identifiers libs (type_identifiers (cfg_input t)) aux;
          (i, aux) = intern_component libs (ConfigType (Identifiers identifiers_id) (cfg_key t))
            current_scope_id Singleton (registration_from (type_registered_at (cfg_input t))) aux;
          aux = aux\<lparr>id2cloning_strategy := (id2cloning_strategy aux)(i \<mapsto>
            (case cfg_cloning_strategy t of Some s \<Rightarrow> s | None \<Rightarrow> CloneIfNecessary))\<rparr>;
          default_strategy =
            (case cfg_default_if_missing t of
               Some b \<Rightarrow> if b then DefaultIfMissing else Required
             | None \<Rightarrow> Required);
          aux = aux\<lparr>config_id2default_strategy := (config_id2default_strategy aux)(i \<mapsto> default_strategy)\<rparr>
      in aux\<lparr>config_id2include_if_unused := (config_id2include_if_unused aux)(i \<mapsto>
           (case cfg_include_if_unused t of Some b \<Rightarrow> b | None \<Rightarrow> False))\<rparr>)"

section \<open>One blueprint\<close>

definition process_component :: "('a, 'b, 'g) registry_libs \<Rightarrow> scope_id \<Rightarrow> domain_guard option
    \<Rightarrow> string option \<Rightarrow> bp_component \<Rightarrow> ('a, 'b, 'g) processing \<times> fallback_ref option
    \<Rightarrow> ('a, 'b, 'g) processing \<times> fallback_ref option" where
  "process_component libs current_scope_id guard path_prefix component s =
     (let (ps, fallback) = s
      in case component of
           CConstructor c \<Rightarrow>
             (ps\<lparr>ps_aux := process_constructor libs c current_scope_id (ps_aux ps)\<rparr>, fallback)
         | CWrappingMiddleware w \<Rightarrow> (process_middleware libs w current_scope_id ps, fallback)
         | CPreProcessingMiddleware p \<Rightarrow>
             (process_pre_processing_middleware libs p current_scope_id ps, fallback)
         | CPostProcessingMiddleware p \<Rightarrow>
             (process_post_processing_middleware libs p current_scope_id ps, fallback)
         | CRoute r \<Rightarrow> (process_route libs r current_scope_id guard path_prefix ps, fallback)
         | CFallbackRequestHandler f \<Rightarrow> (ps, Some f)
         | CNestedBlueprint b \<Rightarrow>
             (ps\<lparr>ps_queue := ps_queue ps @
                [\<lparr>qi_parent_scope_id = current_scope_id, qi_parent_path_prefix = path_prefix,
                  qi_parent_domain_guard = guard, qi_nested_bp = b,
                  qi_middleware_chain = ps_middlewares ps, qi_observer_chain = ps_observers ps\<rparr>]\<rparr>,
              fallback)
         | CErrorObserver eo \<Rightarrow> (process_error_observer libs eo current_scope_id ps, fallback)
         | CPrebuiltType si \<Rightarrow>
             (ps\<lparr>ps_aux := process_prebuilt_type libs si current_scope_id (ps_aux ps)\<rparr>, fallback)
         | CConfigType t \<Rightarrow>
             (ps\<lparr>ps_aux := process_config_type libs t current_scope_id (ps_aux ps)\<rparr>, fallback)
         | CImport im \<Rightarrow>
             (ps\<lparr>ps_aux := (ps_aux ps)\<lparr>imports_to_resolve :=
                imports_to_resolve (ps_aux ps) @ [(im, current_scope_id)]\<rparr>\<rparr>, fallback))"

definition default_fallback :: "('a, 'b, 'g) registry_libs \<Rightarrow> blueprint \<Rightarrow> fallback_ref" where
  "default_fallback libs bp =
     \<lparr>fallback_handler =
        \<lparr>callable = from_raw_parts ''pavex::router::default_fallback''
           \<lparr>package_name = ''pavex'', package_version = lib_version libs, module_path = ''pavex''\<rparr>
           ByFramework,
         callable_registered_at = creation_location bp\<rparr>,
      fallback_error_handler = None\<rparr>"

definition process_one_blueprint :: "('a, 'b, 'g) registry_libs \<Rightarrow> blueprint \<Rightarrow> scope_id
    \<Rightarrow> domain_guard option \<Rightarrow> string option \<Rightarrow> bool \<Rightarrow> ('a, 'b, 'g) processing
    \<Rightarrow> ('a, 'b, 'g) processing" where
  "process_one_blueprint libs bp current_scope_id guard path_prefix is_root ps =
     (let (ps, fallback) =
        fold (process_component libs current_scope_id guard path_prefix) (bp_components bp) (ps, None)
      in case fallback of
           Some f \<Rightarrow> process_fallback libs f path_prefix guard current_scope_id ps
         | None \<Rightarrow>
             if is_root then
               process_fallback libs (default_fallback libs bp) path_prefix guard current_scope_id ps
             else ps)"

section \<open>Nested blueprints\<close>

text \<open>\<^verbatim>\<open>entry(k).or_default().push(v)\<close> on an \<^verbatim>\<open>IndexMap\<close>\<close>

fun entry_push :: "'k \<Rightarrow> 'v \<Rightarrow> ('k \<times> 'v list) list \<Rightarrow> ('k \<times> 'v list) list" where
  "entry_push k v [] = [(k, [v])]"
| "entry_push k v ((k', vs) # m) = (if k' = k then (k', vs @ [v]) # m else (k', vs) # entry_push k v m)"

definition prefix_errors :: "path_prefix \<Rightarrow> bp_diagnostic list" where
  "prefix_errors p =
     (let s = prefix_path p; l = prefix_registered_at p
      in (if s = [] then [PathPrefixCannotBeEmpty l] else [])
       @ (if s = [] \<or> hd s \<noteq> CHR ''/'' then [PathPrefixMustStartWithASlash s l] else [])
       @ (if s \<noteq> [] \<and> last s = CHR ''/'' then [PathPrefixCannotEndWithASlash s l] else []))"

definition process_nesting_constraints :: "('a, 'b, 'g) registry_libs \<Rightarrow> nested_blueprint
    \<Rightarrow> ('a, 'b, 'g) processing
    \<Rightarrow> (string option \<times> domain_guard option) option \<times> ('a, 'b, 'g) processing" where
  "process_nesting_constraints libs nested ps =
     (let errors = (case nb_path_prefix nested of None \<Rightarrow> [] | Some p \<Rightarrow> prefix_errors p);
          ps = fold push_diagnostic errors ps;
          prefix = map_option prefix_path (nb_path_prefix nested)
      in if errors \<noteq> [] then (None, ps)
         else
           (case nb_domain nested of
              None \<Rightarrow> (Some (prefix, None), ps)
            | Some d \<Rightarrow>
                (case domain_guard_new (lib_is_ident libs) (domain_name d) of
                   Inr guard \<Rightarrow>
                     (Some (prefix, Some guard),
                      ps\<lparr>ps_aux := (ps_aux ps)\<lparr>domain_guard2locations :=
                        entry_push guard (domain_registered_at d) (domain_guard2locations (ps_aux ps))\<rparr>\<rparr>)
                 | Inl e \<Rightarrow>
                     (None, push_diagnostic (InvalidDomainGuard (domain_registered_at d) e) ps))))"

definition nested_prefix :: "string option \<Rightarrow> string option \<Rightarrow> string option" where
  "nested_prefix parent current =
     (case parent of
        Some p \<Rightarrow> Some (p @ (case current of Some q \<Rightarrow> q | None \<Rightarrow> []))
      | None \<Rightarrow> current)"

definition process_queue_item :: "('a, 'b, 'g) registry_libs \<Rightarrow> queue_item \<Rightarrow> ('a, 'b, 'g) processing
    \<Rightarrow> ('a, 'b, 'g) processing" where
  "process_queue_item libs item ps =
     (let nested = qi_nested_bp item;
          ps = ps\<lparr>ps_middlewares := qi_middleware_chain item, ps_observers := qi_observer_chain item\<rparr>;
          (nested_scope_id, ps) =
            new_scope libs (qi_parent_scope_id item) (Some (nb_nested_at nested)) ps
      in case process_nesting_constraints libs nested ps of
           (None, ps) \<Rightarrow> ps
         | (Some (current_prefix, current_domain), ps) \<Rightarrow>
             (let path_prefix = nested_prefix (qi_parent_path_prefix item) current_prefix;
                  guard = (case current_domain of Some d \<Rightarrow> Some d | None \<Rightarrow> qi_parent_domain_guard item)
              in process_one_blueprint libs (nb_blueprint nested) nested_scope_id guard path_prefix False ps))"

text \<open>What one blueprint adds to the queue: an item for every blueprint nested in it.\<close>

definition nested_of :: "bp_component list \<Rightarrow> nested_blueprint list" where
  "nested_of cs = concat (map (\<lambda>c. case c of CNestedBlueprint b \<Rightarrow> [b] | _ \<Rightarrow> []) cs)"

lemma nested_of_simps [simp]:
  "nested_of [] = []"
  "nested_of (c # cs) = (case c of CNestedBlueprint b \<Rightarrow> b # nested_of cs | _ \<Rightarrow> nested_of cs)"
  by (simp_all add: nested_of_def split: bp_component.split)

definition nested_size :: "nested_blueprint list \<Rightarrow> nat" where
  "nested_size nbs = sum_list (map size nbs)"

lemma nested_size_append: "nested_size (xs @ ys) = nested_size xs + nested_size ys"
  by (simp add: nested_size_def)

lemma nested_size_last: "nested_size [b] = size b"
  by (simp add: nested_size_def)

lemma nested_size_le: "nested_size (nested_of cs) \<le> size_list size cs"
  by (induction cs) (auto simp: nested_size_def split: bp_component.split)

lemma new_scope_queue [simp]: "ps_queue (snd (new_scope libs p l ps)) = ps_queue ps"
  by (simp add: new_scope_def split: prod.split)

lemma process_route_queue [simp]: "ps_queue (process_route libs r sc g p ps) = ps_queue ps"
  by (simp add: process_route_def new_scope_def validate_route_def push_diagnostic_def Let_def
      split: prod.split)

lemma process_middleware_queue [simp]: "ps_queue (process_middleware_as k libs m sc ps) = ps_queue ps"
  by (simp add: process_middleware_as_def new_scope_def Let_def split: prod.split)

lemma process_fallback_queue [simp]: "ps_queue (process_fallback libs f p g sc ps) = ps_queue ps"
  by (simp add: process_fallback_def new_scope_def Let_def split: prod.split)

lemma process_observer_queue [simp]: "ps_queue (process_error_observer libs e sc ps) = ps_queue ps"
  by (simp add: process_error_observer_def Let_def split: prod.split)

lemma push_diagnostics_queue [simp]: "ps_queue (fold push_diagnostic ds ps) = ps_queue ps"
  by (induction ds arbitrary: ps) (simp_all add: push_diagnostic_def)

lemma process_components_queue:
  "map qi_nested_bp (ps_queue (fst (fold (process_component libs sc g p) cs (ps, f)))) =
     map qi_nested_bp (ps_queue ps) @ nested_of cs"
proof (induction cs arbitrary: ps f)
  case Nil
  then show ?case by simp
next
  case (Cons c cs)
  have step: "map qi_nested_bp (ps_queue (fst (process_component libs sc g p c (ps, f)))) =
      map qi_nested_bp (ps_queue ps) @ nested_of [c]"
    by (cases c) (simp_all add: process_component_def process_middleware_def
        process_pre_processing_middleware_def process_post_processing_middleware_def)
  show ?case
    using Cons [of "fst (process_component libs sc g p c (ps, f))" "snd (process_component libs sc g p c (ps, f))"] step
    by (cases c) simp_all
qed

lemma process_one_queue:
  "map qi_nested_bp (ps_queue (process_one_blueprint libs bp sc g p root ps)) =
     map qi_nested_bp (ps_queue ps) @ nested_of (bp_components bp)"
  using process_components_queue [of libs sc g p "bp_components bp" ps None]
  by (auto simp: process_one_blueprint_def split: prod.split option.split)

lemma process_constraints_queue [simp]:
  "ps_queue (snd (process_nesting_constraints libs nested ps)) = ps_queue ps"
proof -
  have [simp]: "ps_queue (push_diagnostic d q) = ps_queue q" for d and q :: "('a, 'b, 'g) processing"
    by (simp add: push_diagnostic_def)
  show ?thesis
    by (simp add: process_nesting_constraints_def Let_def split: option.split sum.split)
qed

lemma process_item_queue:
  "nested_size (map qi_nested_bp (ps_queue (process_queue_item libs item ps))) <
     nested_size (map qi_nested_bp (ps_queue ps)) + size (qi_nested_bp item)"
proof -
  obtain bp pp d l where n: "qi_nested_bp item = NestedBlueprint bp pp d l" by (cases "qi_nested_bp item")
  obtain cl cs where bp: "bp = Blueprint cl cs" by (cases bp)
  let ?ps = "ps\<lparr>ps_middlewares := qi_middleware_chain item, ps_observers := qi_observer_chain item\<rparr>"
  obtain s ps1 where s: "new_scope libs (qi_parent_scope_id item) (Some l) ?ps = (s, ps1)" by fastforce
  then have q1: "ps_queue ps1 = ps_queue ps"
    using new_scope_queue [of libs "qi_parent_scope_id item" "Some l" ?ps] by simp
  obtain c ps2 where c: "process_nesting_constraints libs (qi_nested_bp item) ps1 = (c, ps2)" by fastforce
  then have q2: "ps_queue ps2 = ps_queue ps"
    using process_constraints_queue [of libs "qi_nested_bp item" ps1] by (simp add: q1)
  have one: "nested_size (map qi_nested_bp (ps_queue (process_one_blueprint libs bp s g p False ps2))) <
      nested_size (map qi_nested_bp (ps_queue ps)) + size (qi_nested_bp item)" for g p
    using nested_size_le [of cs] by (simp add: process_one_queue n bp q2 nested_size_append)
  show ?thesis
    using s c by (auto simp: process_queue_item_def Let_def n q2 one [simplified n, simplified] split: option.split)
qed

lemma process_item_decreases:
  assumes "ps_queue ps \<noteq> []"
  shows "nested_size (map qi_nested_bp (ps_queue
      (process_queue_item libs (last (ps_queue ps)) (ps\<lparr>ps_queue := butlast (ps_queue ps)\<rparr>)))) <
    nested_size (map qi_nested_bp (ps_queue ps))"
proof -
  from assms have "ps_queue ps = butlast (ps_queue ps) @ [last (ps_queue ps)]" by simp
  then have "nested_size (map qi_nested_bp (ps_queue ps)) =
      nested_size (map qi_nested_bp (butlast (ps_queue ps))) + size (qi_nested_bp (last (ps_queue ps)))"
    by (metis (no_types) map_append nested_size_append nested_size_last list.simps(8,9))
  then show ?thesis
    using process_item_queue [of libs "last (ps_queue ps)" "ps\<lparr>ps_queue := butlast (ps_queue ps)\<rparr>"] by simp
qed

function process_queue :: "('a, 'b, 'g) registry_libs \<Rightarrow> ('a, 'b, 'g) processing
    \<Rightarrow> ('a, 'b, 'g) processing" where
  "process_queue libs ps =
     (if ps_queue ps = [] then ps
      else process_queue libs
        (process_queue_item libs (last (ps_queue ps)) (ps\<lparr>ps_queue := butlast (ps_queue ps)\<rparr>)))"
  by pat_completeness auto

termination
  by (relation "measure (\<lambda>(libs, ps). nested_size (map qi_nested_bp (ps_queue ps)))")
    (simp_all add: process_item_decreases)

declare process_queue.simps [simp del]

definition process_blueprint :: "('a, 'b, 'g) registry_libs \<Rightarrow> blueprint \<Rightarrow> ('a, 'b) auxiliary_data
    \<Rightarrow> bp_diagnostic list \<Rightarrow> ('a, 'b, 'g) processing" where
  "process_blueprint libs bp aux diagnostics =
     (let builder = builder_new (lib_graph libs) (creation_location bp);
          ps = \<lparr>ps_aux = aux, ps_builder = builder, ps_middlewares = [], ps_observers = [],
                ps_queue = [], ps_diagnostics = diagnostics\<rparr>;
          ps = process_one_blueprint libs bp (sb_root builder) None None True ps
      in process_queue libs ps)"

text \<open>The scope graph that the pass returns.\<close>

definition processed_scope_graph :: "('a, 'b, 'g) registry_libs \<Rightarrow> ('a, 'b, 'g) processing
    \<Rightarrow> ('g, location) scope_graph" where
  "processed_scope_graph libs ps = scope_build (lib_graph libs) (ps_builder ps)"

end
