(* ===== verification/Route_Path.thy ===== *)
theory Route_Path
  imports Prelude
begin

text \<open>
  Path templates (\<^verbatim>\<open>pavexc/src/compiler/analyses/route_path.rs\<close>): the parameters of
  a template, with the positions of their braces. Braces are escaped by doubling them. The
  parameters are an \<^verbatim>\<open>IndexMap\<close>, here an association list in insertion order.
\<close>

section \<open>Parsing\<close>

record path_parameter_details =
  pp_start :: nat
  pp_end :: nat
  pp_catch_all :: bool

record route_path_parsed =
  rp_raw :: string
  rp_parameters :: "(string \<times> path_parameter_details) list"

record current_param =
  cp_start :: nat
  cp_catch_all :: bool
  cp_name :: string

text \<open>\<^verbatim>\<open>IndexMap::insert\<close>: a key that is there keeps its position.\<close>

fun index_map_insert :: "'k \<Rightarrow> 'v \<Rightarrow> ('k \<times> 'v) list \<Rightarrow> ('k \<times> 'v) list" where
  "index_map_insert k v [] = [(k, v)]"
| "index_map_insert k v ((k', v') # m) =
     (if k' = k then (k, v) # m else (k', v') # index_map_insert k v m)"

text \<open>\<^verbatim>\<open>CurrentParam::reset\<close>\<close>

definition reset_param :: "nat \<Rightarrow> current_param" where
  "reset_param position = \<lparr>cp_start = position, cp_catch_all = False, cp_name = []\<rparr>"

fun parse_chars :: "string \<Rightarrow> nat \<Rightarrow> bool \<Rightarrow> current_param
    \<Rightarrow> (string \<times> path_parameter_details) list \<Rightarrow> (string \<times> path_parameter_details) list" where
  "parse_chars [] position inside_braces current_param parameters = parameters"
| "parse_chars (c # cs) position inside_braces current_param parameters =
     (if c = CHR ''{'' then
        (case cs of
           [] \<Rightarrow> parse_chars cs (position + 1) True (reset_param position) parameters
         | d # ds \<Rightarrow>
             if d = CHR ''{'' then parse_chars ds (position + 2) inside_braces current_param parameters
             else if d = CHR ''*'' then
               parse_chars ds (position + 2) True ((reset_param position)\<lparr>cp_catch_all := True\<rparr>) parameters
             else parse_chars cs (position + 1) True (reset_param position) parameters)
      else if c = CHR ''}'' then
        (if cs \<noteq> [] \<and> hd cs = CHR ''}'' then
           parse_chars (tl cs) (position + 2) inside_braces current_param parameters
         else if inside_braces then
           parse_chars cs (position + 1) False current_param
             (index_map_insert (cp_name current_param)
               \<lparr>pp_start = cp_start current_param, pp_end = position,
                pp_catch_all = cp_catch_all current_param\<rparr> parameters)
         else parse_chars cs (position + 1) inside_braces current_param parameters)
      else
        parse_chars cs (position + 1) inside_braces
          (if inside_braces then current_param\<lparr>cp_name := cp_name current_param @ [c]\<rparr> else current_param)
          parameters)"

definition parse_route_path :: "string \<Rightarrow> route_path_parsed" where
  "parse_route_path raw =
     \<lparr>rp_raw = raw,
      rp_parameters = parse_chars raw 0 False \<lparr>cp_start = 0, cp_catch_all = False, cp_name = []\<rparr> []\<rparr>"

section \<open>The syntax of templates\<close>

datatype path_piece =
    Literal string
  | Parameter string
  | CatchAll string

definition escape_braces :: "string \<Rightarrow> string" where
  "escape_braces s = concat (map (\<lambda>c. if c = CHR ''{'' \<or> c = CHR ''}'' then [c, c] else [c]) s)"

fun piece_text :: "path_piece \<Rightarrow> string" where
  "piece_text (Literal s) = escape_braces s"
| "piece_text (Parameter n) = ''{'' @ n @ ''}''"
| "piece_text (CatchAll n) = ''{*'' @ n @ ''}''"

definition template_text :: "path_piece list \<Rightarrow> string" where
  "template_text ps = concat (map piece_text ps)"

fun piece_name :: "path_piece \<Rightarrow> string list" where
  "piece_name (Literal s) = []"
| "piece_name (Parameter n) = [n]"
| "piece_name (CatchAll n) = [n]"

definition template_names :: "path_piece list \<Rightarrow> string list" where
  "template_names ps = concat (map piece_name ps)"

fun piece_params :: "nat \<Rightarrow> path_piece \<Rightarrow> (string \<times> path_parameter_details) list" where
  "piece_params position (Literal s) = []"
| "piece_params position (Parameter n) =
     [(n, \<lparr>pp_start = position, pp_end = position + length n + 1, pp_catch_all = False\<rparr>)]"
| "piece_params position (CatchAll n) =
     [(n, \<lparr>pp_start = position, pp_end = position + length n + 2, pp_catch_all = True\<rparr>)]"

fun template_params :: "nat \<Rightarrow> path_piece list \<Rightarrow> (string \<times> path_parameter_details) list" where
  "template_params position [] = []"
| "template_params position (p # ps) =
     piece_params position p @ template_params (position + length (piece_text p)) ps"

text \<open>
  A name has no brace, and the one of a plain parameter does not start with an asterisk. A
  closing brace right after a parameter would be read together with the one that closes it.
\<close>

definition plain_name :: "string \<Rightarrow> bool" where
  "plain_name n \<longleftrightarrow> CHR ''{'' \<notin> set n \<and> CHR ''}'' \<notin> set n"

fun piece_ok :: "path_piece \<Rightarrow> bool" where
  "piece_ok (Literal s) \<longleftrightarrow> True"
| "piece_ok (Parameter n) \<longleftrightarrow> plain_name n \<and> (n = [] \<or> hd n \<noteq> CHR ''*'')"
| "piece_ok (CatchAll n) \<longleftrightarrow> plain_name n"

fun template_ok :: "path_piece list \<Rightarrow> bool" where
  "template_ok [] \<longleftrightarrow> True"
| "template_ok (p # ps) \<longleftrightarrow>
     piece_ok p \<and> template_ok ps
     \<and> (piece_name p \<noteq> [] \<longrightarrow> template_text ps = [] \<or> hd (template_text ps) \<noteq> CHR ''}'')"

section \<open>Parsing inverts the syntax\<close>

lemma index_map_insert_fresh: "k \<notin> set (map fst m) \<Longrightarrow> index_map_insert k v m = m @ [(k, v)]"
  by (induction m rule: index_map_insert.induct [of _ k v]) auto

lemma parse_chars_literal:
  "parse_chars (escape_braces s @ rest) pos False cur ps =
     parse_chars rest (pos + length (escape_braces s)) False cur ps"
proof (induction s arbitrary: pos)
  case Nil
  then show ?case by (simp add: escape_braces_def)
next
  case (Cons c s)
  then show ?case by (auto simp: escape_braces_def add.assoc)
qed

lemma parse_chars_name:
  "plain_name n \<Longrightarrow> parse_chars (n @ rest) pos True cur ps =
     parse_chars rest (pos + length n) True (cur\<lparr>cp_name := cp_name cur @ n\<rparr>) ps"
proof (induction n arbitrary: pos cur)
  case Nil
  then show ?case by simp
next
  case (Cons c n)
  then have c: "c \<noteq> CHR ''{''" "c \<noteq> CHR ''}''" "plain_name n" by (auto simp: plain_name_def)
  have "parse_chars ((c # n) @ rest) pos True cur ps =
      parse_chars (n @ rest) (pos + 1) True (cur\<lparr>cp_name := cp_name cur @ [c]\<rparr>) ps"
    using c(1,2) by simp
  then show ?case using Cons.IH [OF c(3), of "pos + 1" "cur\<lparr>cp_name := cp_name cur @ [c]\<rparr>"] by simp
qed

lemma parse_chars_close:
  "rest = [] \<or> hd rest \<noteq> CHR ''}'' \<Longrightarrow>
     parse_chars (CHR ''}'' # rest) pos True cur ps =
       parse_chars rest (pos + 1) False cur
         (index_map_insert (cp_name cur)
           \<lparr>pp_start = cp_start cur, pp_end = pos, pp_catch_all = cp_catch_all cur\<rparr> ps)"
  by auto

lemma parse_chars_open:
  assumes "plain_name n" and "n = [] \<or> hd n \<noteq> CHR ''*''"
  shows "parse_chars (CHR ''{'' # n @ CHR ''}'' # rest) pos False cur ps =
     parse_chars (n @ CHR ''}'' # rest) (pos + 1) True (reset_param pos) ps"
  using assms by (cases n) (auto simp: plain_name_def)

lemma parse_chars_piece:
  assumes "piece_ok p" and "piece_name p \<noteq> [] \<longrightarrow> rest = [] \<or> hd rest \<noteq> CHR ''}''"
    and "set (piece_name p) \<inter> set (map fst ps) = {}"
  shows "\<exists>cur'. parse_chars (piece_text p @ rest) pos False cur ps =
     parse_chars rest (pos + length (piece_text p)) False cur' (ps @ piece_params pos p)"
proof (cases p)
  case (Literal s)
  then show ?thesis using parse_chars_literal [of s rest pos cur ps] by auto
next
  case (Parameter n)
  have n: "plain_name n" "n = [] \<or> hd n \<noteq> CHR ''*''" and r: "rest = [] \<or> hd rest \<noteq> CHR ''}''"
    and f: "n \<notin> set (map fst ps)" using assms Parameter by auto
  have "parse_chars (piece_text p @ rest) pos False cur ps =
      parse_chars (CHR ''}'' # rest) (pos + 1 + length n) True ((reset_param pos)\<lparr>cp_name := n\<rparr>) ps"
    using parse_chars_open [OF n, of rest pos cur ps] parse_chars_name [OF n(1), of "CHR ''}'' # rest" "pos + 1" "reset_param pos" ps]
    by (simp add: Parameter reset_param_def)
  also have "\<dots> = parse_chars rest (pos + length (piece_text p)) False ((reset_param pos)\<lparr>cp_name := n\<rparr>)
      (ps @ piece_params pos p)"
    using parse_chars_close [OF r] index_map_insert_fresh [OF f]
    by (simp add: Parameter reset_param_def)
  finally show ?thesis by blast
next
  case (CatchAll n)
  have n: "plain_name n" and r: "rest = [] \<or> hd rest \<noteq> CHR ''}''"
    and f: "n \<notin> set (map fst ps)" using assms CatchAll by auto
  have "parse_chars (piece_text p @ rest) pos False cur ps =
      parse_chars (CHR ''}'' # rest) (pos + 2 + length n) True
        ((reset_param pos)\<lparr>cp_catch_all := True, cp_name := n\<rparr>) ps"
    using parse_chars_name [OF n, of "CHR ''}'' # rest" "pos + 2" "(reset_param pos)\<lparr>cp_catch_all := True\<rparr>" ps]
    by (simp add: CatchAll reset_param_def)
  also have "\<dots> = parse_chars rest (pos + length (piece_text p)) False
      ((reset_param pos)\<lparr>cp_catch_all := True, cp_name := n\<rparr>) (ps @ piece_params pos p)"
    using parse_chars_close [OF r] index_map_insert_fresh [OF f]
    by (simp add: CatchAll reset_param_def)
  finally show ?thesis by blast
qed

lemma piece_params_names: "map fst (piece_params pos p) = piece_name p"
  by (cases p) simp_all

lemma parse_chars_template_end:
  "template_ok ts \<Longrightarrow> distinct (map fst ps @ template_names ts) \<Longrightarrow>
     parse_chars (template_text ts) pos False cur ps = ps @ template_params pos ts"
proof (induction ts arbitrary: pos cur ps)
  case Nil
  then show ?case by (simp add: template_text_def)
next
  case (Cons p ts)
  have d: "set (piece_name p) \<inter> set (map fst ps) = {}"
    using Cons.prems(2) by (auto simp: template_names_def)
  obtain cur' where c: "parse_chars (piece_text p @ template_text ts) pos False cur ps =
      parse_chars (template_text ts) (pos + length (piece_text p)) False cur' (ps @ piece_params pos p)"
    using parse_chars_piece [of p "template_text ts" ps pos cur] Cons.prems(1) d by auto
  have d': "distinct (map fst (ps @ piece_params pos p) @ template_names ts)"
    using Cons.prems(2) by (simp add: piece_params_names template_names_def)
  have ts: "template_ok ts" using Cons.prems(1) by simp
  have tt: "template_text (p # ts) = piece_text p @ template_text ts" by (simp add: template_text_def)
  show ?case unfolding tt c Cons.IH [OF ts d'] by simp
qed

text \<open>C34: A template that is written with escaped braces and with parameters of different names is
  parsed to these parameters, in order, with the positions of their braces and the flag that tells
  a catch-all parameter from a plain one.\<close>

theorem route_path_roundtrip:
  assumes "template_ok ts" and "distinct (template_names ts)"
  shows "parse_route_path (template_text ts) =
    \<lparr>rp_raw = template_text ts, rp_parameters = template_params 0 ts\<rparr>"
  using parse_chars_template_end [OF assms(1), of "[]"] assms(2) by (simp add: parse_route_path_def)

theorem route_path_roundtrip_witness:
  "rp_parameters (parse_route_path ''/a{{b/{id}/{*rest}'') =
     [(''id'', \<lparr>pp_start = 6, pp_end = 9, pp_catch_all = False\<rparr>),
      (''rest'', \<lparr>pp_start = 11, pp_end = 17, pp_catch_all = True\<rparr>)]"
  using route_path_roundtrip [of "[Literal ''/a{b/'', Parameter ''id'', Literal ''/'', CatchAll ''rest'']"]
  by (simp add: template_text_def template_names_def escape_braces_def plain_name_def)

end
