(* ===== verification/Fallback_Tree.thy ===== *)
theory Fallback_Tree
  imports Scope_Graph
begin

text \<open>
  The tree of fallbacks (\<^verbatim>\<open>ScopeBasedFallbackTree\<close> in
  \<^verbatim>\<open>pavexc/src/compiler/analyses/user_components/router.rs\<close>): which fallback serves the
  requests that no route of a scope serves. The tree is built by a walk over the scope graph with
  a stack whose top is the last element of the list, and searched from its root downwards. Both
  loops end only if the graph lets them, so not returning is the value \<open>None\<close>.

  The map from scopes to fallbacks comes from a two-way hash map of another crate: inserting a
  pair removes the pairs that share a side with it.
\<close>

section \<open>Building\<close>

record fallback_node =
  fn_scope_id :: scope_id
  fn_fallback_id :: nat
  fn_children_ids :: "nat list"

definition bihash_insert :: "scope_id \<Rightarrow> nat \<Rightarrow> (scope_id \<times> nat) list \<Rightarrow> (scope_id \<times> nat) list" where
  "bihash_insert s i m = (s, i) # filter (\<lambda>(s', i'). s' \<noteq> s \<and> i' \<noteq> i) m"

text \<open>A \<^verbatim>\<open>BTreeSet\<close> of scopes is iterated over in ascending order.\<close>

definition ascending :: "scope_id set \<Rightarrow> scope_id list" where
  "ascending S = map ScopeId (sorted_list_of_set (scope_index ` S))"

partial_function (option) tree_loop ::
    "'g graph_lib \<Rightarrow> (scope_id \<times> nat) list \<Rightarrow> ('g, 'l) scope_graph \<Rightarrow> (scope_id \<times> nat) list
     \<Rightarrow> fallback_node list \<Rightarrow> fallback_node list option" where
  "tree_loop lib fallbacks sg stack nodes =
     (if stack = [] then Some nodes
      else
        (let (scope_id, parent_index) = last stack;
             stack = butlast stack;
             (parent_index, nodes) =
               (case map_of fallbacks scope_id of
                  Some fallback_id \<Rightarrow>
                    (let node = \<lparr>fn_scope_id = scope_id, fn_fallback_id = fallback_id, fn_children_ids = []\<rparr>;
                         node_index = length nodes;
                         parent = nodes ! parent_index;
                         parent = parent\<lparr>fn_children_ids := fn_children_ids parent @ [node_index]\<rparr>
                     in (node_index, nodes[parent_index := parent] @ [node]))
                | None \<Rightarrow> (parent_index, nodes));
             children = filter (\<lambda>c. c \<noteq> sg_application_state sg) (ascending (direct_children_ids lib scope_id sg))
         in tree_loop lib fallbacks sg (stack @ map (\<lambda>c. (c, parent_index)) children) nodes))"

definition tree_new :: "'g graph_lib \<Rightarrow> (scope_id \<times> nat) list \<Rightarrow> ('g, 'l) scope_graph
    \<Rightarrow> (unit, fallback_node list) result option" where
  "tree_new lib fallbacks sg =
     (case map_of fallbacks (sg_root sg) of
        None \<Rightarrow> Some (Inl (Panicked ''called `Option::unwrap()` on a `None` value''))
      | Some fallback_id \<Rightarrow>
          map_option Inr
            (tree_loop lib fallbacks sg
              (map (\<lambda>c. (c, 0)) (ascending (direct_children_ids lib (sg_root sg) sg)))
              [\<lparr>fn_scope_id = sg_root sg, fn_fallback_id = fallback_id, fn_children_ids = []\<rparr>]))"

section \<open>Searching\<close>

partial_function (option) find_loop ::
    "'g graph_lib \<Rightarrow> fallback_node list \<Rightarrow> ('g, 'l) scope_graph \<Rightarrow> scope_id \<Rightarrow> fallback_node \<Rightarrow> nat option" where
  "find_loop lib nodes sg route_scope_id current =
     (if fn_scope_id current = route_scope_id then Some (fn_fallback_id current)
      else
        (case find (\<lambda>i. is_descendant_of lib route_scope_id (fn_scope_id (nodes ! i)) sg)
                (fn_children_ids current) of
           Some i \<Rightarrow> find_loop lib nodes sg route_scope_id (nodes ! i)
         | None \<Rightarrow> Some (fn_fallback_id current)))"

definition find_fallback_id :: "'g graph_lib \<Rightarrow> fallback_node list \<Rightarrow> ('g, 'l) scope_graph \<Rightarrow> scope_id
    \<Rightarrow> nat option" where
  "find_fallback_id lib nodes sg route_scope_id = find_loop lib nodes sg route_scope_id (nodes ! 0)"

end
