(* ===== verification/Router.thy ===== *)
theory Router
  imports Blueprint_Processing Route_Path Fallback_Tree Ordered_Map
    "HOL-Library.List_Lexorder" "HOL-Library.Char_ord"
begin

text \<open>
  The routers that the compiler builds from the tables about components
  (\<^verbatim>\<open>pavexc/src/compiler/analyses/user_components/router.rs\<close>), with every check on the
  way. The tree of fallbacks is in \<open>Fallback_Tree\<close>.

  Matching a path against templates is the work of another crate: its router is the record
  \<open>matchit_lib\<close>, an argument of the definitions that use it. Values in it are numbers, \<open>0\<close> for
  the unit value. Identifiers of components come from the iteration over the arena.

  A function reports diagnostics, here as values, and returns a value, an error or a panic. A
  loop that might not end makes the whole an option.
\<close>

section \<open>The path matcher\<close>

datatype insert_error =
    Conflict (conflict_with: string)
  | InvalidParam
  | InvalidParamSegment
  | InvalidCatchAll

record 'm matchit_lib =
  mt_new :: 'm
  mt_insert :: "string \<Rightarrow> nat \<Rightarrow> 'm \<Rightarrow> insert_error option \<times> 'm"
  mt_at :: "'m \<Rightarrow> string \<Rightarrow> nat option"

section \<open>Diagnostics and control flow\<close>

datatype routing_diagnostic =
    MixedDomains nat nat
  | MethodConflict string string "nat list"
  | PathConflict string nat insert_error
  | FallbackAmbiguity nat nat nat
  | FallbackMethodAmbiguity "string list" "(nat \<times> (nat \<times> string fset) list) list"
  | DomainConflict domain_guard domain_guard

type_synonym 'a routing = "(routing_diagnostic list \<times> (unit, 'a) result) option"

definition routing_bind :: "'a routing \<Rightarrow> ('a \<Rightarrow> 'b routing) \<Rightarrow> 'b routing" where
  "routing_bind x f =
     (case x of
        None \<Rightarrow> None
      | Some (ds, Inl e) \<Rightarrow> Some (ds, Inl e)
      | Some (ds, Inr a) \<Rightarrow> (case f a of None \<Rightarrow> None | Some (ds', r) \<Rightarrow> Some (ds @ ds', r)))"

definition silently :: "(unit, 'a) result \<Rightarrow> 'a routing" where
  "silently r = Some ([], r)"

definition loop_value :: "'a option \<Rightarrow> 'a routing" where
  "loop_value x = map_option (\<lambda>a. ([], Inr a)) x"

text \<open>The end of a check: an error if it reported anything.\<close>

definition checked :: "routing_diagnostic list \<Rightarrow> 'a \<Rightarrow> 'a routing" where
  "checked ds a = Some (ds, if ds = [] then Inr a else Inl (Failed ()))"

definition index_panic :: "(unit, 'a) result" where
  "index_panic = Inl (Panicked ''no entry found for key'')"

definition lookup :: "('k \<rightharpoonup> 'v) \<Rightarrow> 'k \<Rightarrow> (unit, 'v) result" where
  "lookup m k = (case m k of None \<Rightarrow> index_panic | Some v \<Rightarrow> Inr v)"

section \<open>Routers\<close>

record leaf_router =
  lr_handler_id2methods :: "(nat \<times> string fset) list"
  lr_fallback_id :: nat

definition leaf_new :: "nat \<Rightarrow> leaf_router" where
  "leaf_new fallback_id = \<lparr>lr_handler_id2methods = [], lr_fallback_id = fallback_id\<rparr>"

record path_router =
  pr_path2method_router :: "(string \<times> leaf_router) list"
  pr_root_fallback_id :: nat

instantiation domain_guard :: linorder
begin

definition less_eq_domain_guard :: "domain_guard \<Rightarrow> domain_guard \<Rightarrow> bool" where
  "less_eq_domain_guard a b \<longleftrightarrow> domain a \<le> domain b"

definition less_domain_guard :: "domain_guard \<Rightarrow> domain_guard \<Rightarrow> bool" where
  "less_domain_guard a b \<longleftrightarrow> domain a < domain b"

instance
  by standard (auto simp: less_eq_domain_guard_def less_domain_guard_def intro: domain_guard.expand)

end

record domain_router =
  dr_domain2path_router :: "(domain_guard \<times> path_router) list"
  dr_root_fallback_id :: nat

datatype router =
    DomainAgnostic path_router
  | DomainBased domain_router

definition well_known_methods :: "string list" where
  "well_known_methods =
     [''GET'', ''POST'', ''PUT'', ''DELETE'', ''PATCH'', ''HEAD'', ''OPTIONS'', ''CONNECT'', ''TRACE'']"

definition handler_key :: "('a, 'b, 'g) registry_libs \<Rightarrow> ('a, 'b) auxiliary_data \<Rightarrow> nat \<Rightarrow> router_key option" where
  "handler_key libs aux i =
     (case component_at libs aux i of Some (RequestHandler s k) \<Rightarrow> Some k | _ \<Rightarrow> None)"

definition is_fallback :: "('a, 'b, 'g) registry_libs \<Rightarrow> ('a, 'b) auxiliary_data \<Rightarrow> nat \<Rightarrow> bool" where
  "is_fallback libs aux i = (case component_at libs aux i of Some (Fallback s) \<Rightarrow> True | _ \<Rightarrow> False)"

section \<open>Conflicts between handlers\<close>

fun accepts :: "bp_method_guard \<Rightarrow> string \<Rightarrow> bool" where
  "accepts AnyMethod m = True"
| "accepts (SomeMethods ms) m = (m |\<in>| ms)"

definition group_routes :: "('a, 'b, 'g) registry_libs \<Rightarrow> ('a, 'b) auxiliary_data \<Rightarrow> nat list
    \<Rightarrow> (string \<times> (bp_method_guard \<times> nat) list) list" where
  "group_routes libs aux ids =
     fold (\<lambda>i m. case handler_key libs aux i of
                   None \<Rightarrow> m
                 | Some k \<Rightarrow> entry_push (rk_path k) (rk_method_guard k, i) m) ids []"

fun unique_by :: "('a \<Rightarrow> 'k) \<Rightarrow> 'k list \<Rightarrow> 'a list \<Rightarrow> 'a list" where
  "unique_by f seen [] = []"
| "unique_by f seen (x # xs) =
     (if f x \<in> set seen then unique_by f seen xs else x # unique_by f (f x # seen) xs)"

definition unique_handlers :: "('a, 'b, 'g) registry_libs \<Rightarrow> ('a, 'b) auxiliary_data
    \<Rightarrow> (bp_method_guard \<times> nat) list \<Rightarrow> string \<Rightarrow> nat list" where
  "unique_handlers libs aux routes m =
     unique_by (\<lambda>i. Option.bind (component_at libs aux i) raw_identifiers_id) []
       (fold (\<lambda>(guard, i) relevant. if accepts guard m then index_insert i relevant else relevant) routes [])"

definition method_conflicts :: "('a, 'b, 'g) registry_libs \<Rightarrow> ('a, 'b) auxiliary_data \<Rightarrow> nat list
    \<Rightarrow> routing_diagnostic list" where
  "method_conflicts libs aux ids =
     concat (map (\<lambda>(path, routes).
       concat (map (\<lambda>m.
         let unique = unique_handlers libs aux routes m
         in if 1 < length unique then [MethodConflict path m unique] else []) well_known_methods))
       (group_routes libs aux ids))"

definition detect_method_conflicts :: "('a, 'b, 'g) registry_libs \<Rightarrow> ('a, 'b) auxiliary_data \<Rightarrow> nat list
    \<Rightarrow> unit routing" where
  "detect_method_conflicts libs aux ids = checked (method_conflicts libs aux ids) ()"

fun path_loop :: "'m matchit_lib \<Rightarrow> ('a, 'b, 'g) registry_libs \<Rightarrow> ('a, 'b) auxiliary_data \<Rightarrow> nat list
    \<Rightarrow> 'm \<Rightarrow> routing_diagnostic list \<Rightarrow> 'm \<times> routing_diagnostic list" where
  "path_loop mt libs aux [] router ds = (router, ds)"
| "path_loop mt libs aux (i # ids) router ds =
     (case handler_key libs aux i of
        None \<Rightarrow> path_loop mt libs aux ids router ds
      | Some k \<Rightarrow>
          (case mt_insert mt (rk_path k) 0 router of
             (None, router) \<Rightarrow> path_loop mt libs aux ids router ds
           | (Some e, router) \<Rightarrow>
               if e = Conflict (rk_path k) then path_loop mt libs aux ids router ds
               else path_loop mt libs aux ids router (ds @ [PathConflict (rk_path k) i e])))"

definition detect_path_conflicts :: "'m matchit_lib \<Rightarrow> ('a, 'b, 'g) registry_libs \<Rightarrow> ('a, 'b) auxiliary_data
    \<Rightarrow> nat list \<Rightarrow> 'm routing" where
  "detect_path_conflicts mt libs aux ids =
     (let (router, ds) = path_loop mt libs aux ids (mt_new mt) [] in checked ds router)"

section \<open>Fallbacks of paths\<close>

text \<open>
  The path under which the fallback of a blueprint is registered, if it needs one. The last
  characters are dropped as the code drops them: from the end, as many as there are from the
  opening to the closing brace.
\<close>

definition fallback_path :: "string \<Rightarrow> string option" where
  "fallback_path prefix =
     (let parsed = parse_route_path prefix;
          default = rp_raw parsed @ ''{*catch_all}''
      in case rev (rp_parameters parsed) of
           [] \<Rightarrow> Some default
         | (name, details) # _ \<Rightarrow>
             if length (rp_raw parsed) - 1 = pp_end details then
               if pp_catch_all details then None
               else Some (take (length (rp_raw parsed) - (pp_end details - pp_start details)) (rp_raw parsed)
                          @ ''{*catch_all}'')
             else Some default)"

record 'm fallback_state =
  fs_validation :: 'm
  fs_router :: 'm
  fs_catch_alls :: "(string \<times> nat) list"

definition register_fallback :: "'m matchit_lib \<Rightarrow> string \<Rightarrow> nat \<Rightarrow> 'm fallback_state
    \<Rightarrow> (unit, 'm fallback_state) result" where
  "register_fallback mt path i st =
     (case mt_insert mt path 0 (fs_validation st) of
        (Some (Conflict w), validation) \<Rightarrow> Inr (st\<lparr>fs_validation := validation\<rparr>)
      | (Some e, validation) \<Rightarrow> Inl (Panicked ''internal error: entered unreachable code'')
      | (None, validation) \<Rightarrow>
          (case mt_insert mt path i (fs_router st) of
             (Some e, router) \<Rightarrow> Inl (Panicked ''called `Result::unwrap()` on an `Err` value'')
           | (None, router) \<Rightarrow>
               Inr \<lparr>fs_validation = validation, fs_router = router,
                    fs_catch_alls = bt_insert path i (fs_catch_alls st)\<rparr>))"

fun fallback_loop :: "'m matchit_lib \<Rightarrow> ('a, 'b, 'g) registry_libs \<Rightarrow> ('a, 'b) auxiliary_data \<Rightarrow> nat list
    \<Rightarrow> 'm fallback_state \<Rightarrow> (unit, 'm fallback_state) result" where
  "fallback_loop mt libs aux [] st = Inr st"
| "fallback_loop mt libs aux (i # ids) st =
     (if \<not> is_fallback libs aux i then fallback_loop mt libs aux ids st
      else
        (case fallback_id2path_prefix aux i of
           None \<Rightarrow> index_panic
         | Some None \<Rightarrow> fallback_loop mt libs aux ids st
         | Some (Some prefix) \<Rightarrow>
             (case fallback_path prefix of
                None \<Rightarrow> fallback_loop mt libs aux ids st
              | Some path \<Rightarrow>
                  (case register_fallback mt path i st of
                     Inl e \<Rightarrow> Inl e
                   | Inr st \<Rightarrow> fallback_loop mt libs aux ids st))))"

definition first_parent :: "('a, 'b, 'g) registry_libs \<Rightarrow> ('a, 'b) auxiliary_data
    \<Rightarrow> ('g, location) scope_graph \<Rightarrow> nat \<Rightarrow> (unit, scope_id) result" where
  "first_parent libs aux sg i =
     (case id2scope_id aux i of
        None \<Rightarrow> index_panic
      | Some s \<Rightarrow>
          (case ascending (direct_parent_ids (lib_graph libs) s sg) of
             [] \<Rightarrow> Inl (Panicked ''called `Option::unwrap()` on a `None` value'')
           | p # ps \<Rightarrow> Inr p))"

text \<open>
  The fallback for the path of a handler and the one for its scope. The first result is \<open>None\<close> if
  they disagree and neither takes precedence.
\<close>

definition choose_fallback :: "('a, 'b, 'g) registry_libs \<Rightarrow> ('a, 'b) auxiliary_data
    \<Rightarrow> ('g, location) scope_graph \<Rightarrow> nat option \<Rightarrow> nat \<Rightarrow> (unit, nat option) result" where
  "choose_fallback libs aux sg path_fallback scope_fallback_id =
     (case path_fallback of
        None \<Rightarrow> Inr (Some scope_fallback_id)
      | Some path_fallback_id \<Rightarrow>
          if path_fallback_id \<noteq> scope_fallback_id then
            (case first_parent libs aux sg path_fallback_id of
               Inl e \<Rightarrow> Inl e
             | Inr path_scope \<Rightarrow>
                 (case first_parent libs aux sg scope_fallback_id of
                    Inl e \<Rightarrow> Inl e
                  | Inr fallback_scope \<Rightarrow>
                      if is_descendant_of (lib_graph libs) fallback_scope path_scope sg
                      then Inr (Some scope_fallback_id) else Inr None))
          else Inr (Some path_fallback_id))"

fun assign_loop :: "'m matchit_lib \<Rightarrow> 'm \<Rightarrow> fallback_node list \<Rightarrow> ('a, 'b, 'g) registry_libs
    \<Rightarrow> ('a, 'b) auxiliary_data \<Rightarrow> ('g, location) scope_graph \<Rightarrow> nat list \<Rightarrow> (nat \<times> nat) list
    \<Rightarrow> routing_diagnostic list \<Rightarrow> (routing_diagnostic list \<times> (unit, (nat \<times> nat) list) result) option" where
  "assign_loop mt router tree libs aux sg [] assigned ds = Some (ds, Inr assigned)"
| "assign_loop mt router tree libs aux sg (i # ids) assigned ds =
     (case handler_key libs aux i of
        None \<Rightarrow> assign_loop mt router tree libs aux sg ids assigned ds
      | Some k \<Rightarrow>
          (case id2scope_id aux i of
             None \<Rightarrow> Some (ds, index_panic)
           | Some scope \<Rightarrow>
               (case find_fallback_id (lib_graph libs) tree sg scope of
                  None \<Rightarrow> None
                | Some scope_fallback_id \<Rightarrow>
                    (case choose_fallback libs aux sg (mt_at mt router (rk_path k)) scope_fallback_id of
                       Inl e \<Rightarrow> Some (ds, Inl e)
                     | Inr (Some f) \<Rightarrow>
                         assign_loop mt router tree libs aux sg ids (bt_insert i f assigned) ds
                     | Inr None \<Rightarrow>
                         assign_loop mt router tree libs aux sg ids assigned
                           (ds @ [FallbackAmbiguity scope_fallback_id
                                   (the (mt_at mt router (rk_path k))) i])))))"

definition assign_fallbacks :: "'m matchit_lib \<Rightarrow> 'm \<Rightarrow> fallback_node list \<Rightarrow> ('a, 'b, 'g) registry_libs
    \<Rightarrow> ('a, 'b) auxiliary_data \<Rightarrow> ('g, location) scope_graph \<Rightarrow> nat list
    \<Rightarrow> ((nat \<times> nat) list \<times> (string \<times> nat) list) routing" where
  "assign_fallbacks mt validation_router tree libs aux sg ids =
     routing_bind (silently (fallback_loop mt libs aux ids
         \<lparr>fs_validation = validation_router, fs_router = mt_new mt, fs_catch_alls = []\<rparr>))
       (\<lambda>st. case assign_loop mt (fs_router st) tree libs aux sg ids [] [] of
          None \<Rightarrow> None
        | Some (ds, Inl e) \<Rightarrow> Some (ds, Inl e)
        | Some (ds, Inr assigned) \<Rightarrow> checked ds (assigned, fs_catch_alls st))"

section \<open>Fallbacks of methods\<close>

type_synonym method_fallbacks = "(nat \<times> (nat \<times> (nat \<times> string fset) list) list) list"

record 'm method_state =
  ms_router :: 'm
  ms_next_route_id :: nat
  ms_map :: method_fallbacks

definition route_id_for :: "'m matchit_lib \<Rightarrow> string \<Rightarrow> 'm method_state
    \<Rightarrow> (unit, nat \<times> 'm method_state) result" where
  "route_id_for mt path st =
     (case mt_at mt (ms_router st) path of
        Some route_id \<Rightarrow> Inr (route_id, st)
      | None \<Rightarrow>
          (let route_id = ms_next_route_id st
           in case mt_insert mt path route_id (ms_router st) of
                (Some e, router) \<Rightarrow> Inl (Panicked ''called `Result::unwrap()` on an `Err` value'')
              | (None, router) \<Rightarrow>
                  Inr (route_id, st\<lparr>ms_router := router, ms_next_route_id := route_id + 1\<rparr>)))"

fun method_loop :: "'m matchit_lib \<Rightarrow> (nat \<times> nat) list \<Rightarrow> ('a, 'b, 'g) registry_libs
    \<Rightarrow> ('a, 'b) auxiliary_data \<Rightarrow> nat list \<Rightarrow> 'm method_state \<Rightarrow> (unit, 'm method_state) result" where
  "method_loop mt assigned libs aux [] st = Inr st"
| "method_loop mt assigned libs aux (i # ids) st =
     (case handler_key libs aux i of
        None \<Rightarrow> method_loop mt assigned libs aux ids st
      | Some k \<Rightarrow>
          (case rk_method_guard k of
             AnyMethod \<Rightarrow> method_loop mt assigned libs aux ids st
           | SomeMethods methods \<Rightarrow>
               (case route_id_for mt (rk_path k) st of
                  Inl e \<Rightarrow> Inl e
                | Inr (route_id, st) \<Rightarrow>
                    (case map_of assigned i of
                       None \<Rightarrow> index_panic
                     | Some fallback_id \<Rightarrow>
                         method_loop mt assigned libs aux ids
                           (st\<lparr>ms_map := bt_entry route_id [] (bt_entry fallback_id [] (bt_insert i methods))
                                          (ms_map st)\<rparr>)))))"

definition methods_without_handler :: "(nat \<times> (nat \<times> string fset) list) list \<Rightarrow> string list" where
  "methods_without_handler m =
     filter (\<lambda>s. \<forall>(f, hs) \<in> set m. \<forall>(i, ms) \<in> set hs. s |\<notin>| ms) (sort well_known_methods)"

definition method_ambiguities :: "method_fallbacks \<Rightarrow> routing_diagnostic list" where
  "method_ambiguities m =
     concat (map (\<lambda>(route_id, fs).
       if length fs = 1 then [] else [FallbackMethodAmbiguity (methods_without_handler fs) fs]) m)"

definition check_method_not_allowed_fallbacks :: "'m matchit_lib \<Rightarrow> (nat \<times> nat) list
    \<Rightarrow> ('a, 'b, 'g) registry_libs \<Rightarrow> ('a, 'b) auxiliary_data \<Rightarrow> nat list \<Rightarrow> unit routing" where
  "check_method_not_allowed_fallbacks mt assigned libs aux ids =
     routing_bind (silently (method_loop mt assigned libs aux ids
         \<lparr>ms_router = mt_new mt, ms_next_route_id = 0, ms_map = []\<rparr>))
       (\<lambda>st. checked (method_ambiguities (ms_map st)) ())"

section \<open>The router of a domain\<close>

fun leaf_loop :: "(nat \<times> nat) list \<Rightarrow> ('a, 'b, 'g) registry_libs \<Rightarrow> ('a, 'b) auxiliary_data \<Rightarrow> nat list
    \<Rightarrow> (string \<times> leaf_router) list \<Rightarrow> (unit, (string \<times> leaf_router) list) result" where
  "leaf_loop assigned libs aux [] leaves = Inr leaves"
| "leaf_loop assigned libs aux (i # ids) leaves =
     (case handler_key libs aux i of
        None \<Rightarrow> leaf_loop assigned libs aux ids leaves
      | Some k \<Rightarrow>
          (case rk_method_guard k of
             AnyMethod \<Rightarrow> leaf_loop assigned libs aux ids (bt_insert (rk_path k) (leaf_new i) leaves)
           | SomeMethods methods \<Rightarrow>
               (case (case map_of leaves (rk_path k) of
                        Some leaf \<Rightarrow> Inr leaf
                      | None \<Rightarrow>
                          (case map_of assigned i of None \<Rightarrow> index_panic | Some f \<Rightarrow> Inr (leaf_new f))) of
                  Inl e \<Rightarrow> Inl e
                | Inr leaf \<Rightarrow>
                    leaf_loop assigned libs aux ids
                      (bt_insert (rk_path k)
                        (leaf\<lparr>lr_handler_id2methods := bt_insert i methods (lr_handler_id2methods leaf)\<rparr>)
                        leaves))))"

definition add_catch_alls :: "(string \<times> nat) list \<Rightarrow> (string \<times> leaf_router) list
    \<Rightarrow> (string \<times> leaf_router) list" where
  "add_catch_alls catch_alls leaves =
     fold (\<lambda>(path, fallback_id). bt_entry path (leaf_new fallback_id) (\<lambda>leaf. leaf)) catch_alls leaves"

definition scopes_of :: "('a, 'b) auxiliary_data \<Rightarrow> nat list \<Rightarrow> (unit, scope_id list) result" where
  "scopes_of aux ids =
     (if None \<in> set (map (id2scope_id aux) ids) then index_panic
      else Inr (map (\<lambda>i. the (id2scope_id aux i)) ids))"

definition path_router_new :: "'m matchit_lib \<Rightarrow> ('a, 'b, 'g) registry_libs \<Rightarrow> ('a, 'b) auxiliary_data
    \<Rightarrow> ('g, location) scope_graph \<Rightarrow> fallback_node list \<Rightarrow> nat list \<Rightarrow> path_router routing" where
  "path_router_new mt libs aux sg tree ids =
     routing_bind (silently (scopes_of aux ids)) (\<lambda>scopes.
     routing_bind (loop_value (find_common_ancestor (lib_graph libs) sg scopes)) (\<lambda>ancestor.
     routing_bind (silently ancestor) (\<lambda>root_scope_id.
     routing_bind (loop_value (find_fallback_id (lib_graph libs) tree sg root_scope_id)) (\<lambda>root_fallback_id.
     routing_bind (detect_method_conflicts libs aux ids) (\<lambda>_.
     routing_bind (detect_path_conflicts mt libs aux ids) (\<lambda>runtime_router.
     routing_bind (assign_fallbacks mt runtime_router tree libs aux sg ids) (\<lambda>(assigned, catch_alls).
     routing_bind (check_method_not_allowed_fallbacks mt assigned libs aux ids) (\<lambda>_.
     routing_bind (silently (leaf_loop assigned libs aux ids [])) (\<lambda>leaves.
       silently (Inr \<lparr>pr_path2method_router = add_catch_alls catch_alls leaves,
                      pr_root_fallback_id = root_fallback_id\<rparr>))))))))))"

section \<open>The router over domains\<close>

fun domains_loop :: "('a, 'b) auxiliary_data \<Rightarrow> (nat \<times> user_component) list
    \<Rightarrow> (domain_guard \<times> nat list) list \<Rightarrow> nat option
    \<Rightarrow> (unit, (domain_guard \<times> nat list) list \<times> nat option) result" where
  "domains_loop aux [] m root = Inr (m, root)"
| "domains_loop aux ((i, c) # cs) m root =
     (case c of
        RequestHandler s k \<Rightarrow>
          (case rk_domain_guard k of
             None \<Rightarrow> Inl (Panicked ''called `Option::unwrap()` on a `None` value'')
           | Some g \<Rightarrow> domains_loop aux cs (bt_entry g [] (\<lambda>is'. is' @ [i]) m) root)
      | Fallback s \<Rightarrow>
          (case fallback_id2domain_guard aux i of
             None \<Rightarrow> index_panic
           | Some (Some g) \<Rightarrow> domains_loop aux cs (bt_entry g [] (\<lambda>is'. is' @ [i]) m) root
           | Some None \<Rightarrow> domains_loop aux cs m (Some i))
      | _ \<Rightarrow> domains_loop aux cs m root)"

fun domain_conflict_loop :: "'m matchit_lib \<Rightarrow> domain_guard list \<Rightarrow> 'm \<Rightarrow> (string \<rightharpoonup> domain_guard)
    \<Rightarrow> routing_diagnostic list \<Rightarrow> routing_diagnostic list \<times> (unit, unit) result" where
  "domain_conflict_loop mt [] router pattern2guard ds =
     (ds, if ds = [] then Inr () else Inl (Failed ()))"
| "domain_conflict_loop mt (g # gs) router pattern2guard ds =
     (let pattern = matchit_pattern g;
          pattern2guard = pattern2guard(pattern \<mapsto> g)
      in case mt_insert mt pattern 0 router of
           (None, router) \<Rightarrow> domain_conflict_loop mt gs router pattern2guard ds
         | (Some (Conflict w), router) \<Rightarrow>
             (case pattern2guard w of
                None \<Rightarrow> (ds, index_panic)
              | Some g' \<Rightarrow> domain_conflict_loop mt gs router pattern2guard (ds @ [DomainConflict g g']))
         | (Some e, router) \<Rightarrow>
             (ds, Inl (Panicked ''All other domain guard errors should have been caught and reported by now'')))"

definition detect_domain_conflicts :: "'m matchit_lib \<Rightarrow> ('a, 'b) auxiliary_data \<Rightarrow> unit routing" where
  "detect_domain_conflicts mt aux =
     Some (domain_conflict_loop mt (map fst (domain_guard2locations aux)) (mt_new mt) Map.empty [])"

fun path_routers :: "'m matchit_lib \<Rightarrow> ('a, 'b, 'g) registry_libs \<Rightarrow> ('a, 'b) auxiliary_data
    \<Rightarrow> ('g, location) scope_graph \<Rightarrow> fallback_node list \<Rightarrow> (domain_guard \<times> nat list) list
    \<Rightarrow> (domain_guard \<times> path_router) list \<Rightarrow> (domain_guard \<times> path_router) list routing" where
  "path_routers mt libs aux sg tree [] routers = silently (Inr routers)"
| "path_routers mt libs aux sg tree ((g, ids) # ds) routers =
     routing_bind (path_router_new mt libs aux sg tree ids) (\<lambda>r.
       path_routers mt libs aux sg tree ds (bt_insert g r routers))"

definition domain_router_new :: "'m matchit_lib \<Rightarrow> ('a, 'b, 'g) registry_libs \<Rightarrow> ('a, 'b) auxiliary_data
    \<Rightarrow> ('g, location) scope_graph \<Rightarrow> fallback_node list \<Rightarrow> domain_router routing" where
  "domain_router_new mt libs aux sg tree =
     routing_bind (silently (domains_loop aux (aux_iter libs aux) [] None)) (\<lambda>(domain2components, root).
       case root of
         None \<Rightarrow> silently (Inl (Panicked ''There must always be a top-level fallback, either user-provided or framework-provided''))
       | Some root_fallback_id \<Rightarrow>
           routing_bind (path_routers mt libs aux sg tree domain2components []) (\<lambda>routers.
           routing_bind (detect_domain_conflicts mt aux) (\<lambda>_.
             silently (Inr \<lparr>dr_domain2path_router = routers, dr_root_fallback_id = root_fallback_id\<rparr>))))"

section \<open>The router\<close>

fun domain_based_loop :: "bool \<Rightarrow> bool \<Rightarrow> user_component list \<Rightarrow> bool option" where
  "domain_based_loop based agnostic [] = Some based"
| "domain_based_loop based agnostic (c # cs) =
     (case c of
        RequestHandler s k \<Rightarrow>
          (let based = (based \<or> rk_domain_guard k \<noteq> None);
               agnostic = (agnostic \<or> rk_domain_guard k = None)
           in if based \<and> agnostic then None else domain_based_loop based agnostic cs)
      | _ \<Rightarrow> domain_based_loop based agnostic cs)"

definition is_domain_based :: "('a, 'b, 'g) registry_libs \<Rightarrow> ('a, 'b) auxiliary_data \<Rightarrow> bool option" where
  "is_domain_based libs aux = domain_based_loop False False (map snd (aux_iter libs aux))"

definition find_handler :: "(router_key \<Rightarrow> bool) \<Rightarrow> (nat \<times> user_component) list \<Rightarrow> nat option" where
  "find_handler p cs =
     map_option fst (find (\<lambda>(i, c). case c of RequestHandler s k \<Rightarrow> p k | _ \<Rightarrow> False) cs)"

definition either_all_domain_based_or_all_agnostic :: "('a, 'b, 'g) registry_libs \<Rightarrow> ('a, 'b) auxiliary_data
    \<Rightarrow> 'r routing" where
  "either_all_domain_based_or_all_agnostic libs aux =
     (case (find_handler (\<lambda>k. rk_domain_guard k \<noteq> None) (aux_iter libs aux),
            find_handler (\<lambda>k. rk_domain_guard k = None) (aux_iter libs aux)) of
        (Some i, Some j) \<Rightarrow> Some ([MixedDomains i j], Inl (Failed ()))
      | _ \<Rightarrow> silently (Inl (Panicked ''called `Option::unwrap()` on a `None` value'')))"

fun fallback_scopes :: "('a, 'b, 'g) registry_libs \<Rightarrow> ('a, 'b) auxiliary_data
    \<Rightarrow> ('g, location) scope_graph \<Rightarrow> (nat \<times> user_component) list \<Rightarrow> (scope_id \<times> nat) list
    \<Rightarrow> (unit, (scope_id \<times> nat) list) result" where
  "fallback_scopes libs aux sg [] m = Inr m"
| "fallback_scopes libs aux sg ((i, c) # cs) m =
     (if component_kind_of c \<noteq> KFallback then fallback_scopes libs aux sg cs m
      else
        (case id2scope_id aux i of
           None \<Rightarrow> index_panic
         | Some s \<Rightarrow>
             (case ascending (direct_parent_ids (lib_graph libs) s sg) of
                [p] \<Rightarrow> fallback_scopes libs aux sg cs (bihash_insert p i m)
              | _ \<Rightarrow> Inl (Panicked ''Fallbacks are always encapsulated in their own sub-scope and should only have one parent scope.''))))"

definition endpoint_ids :: "('a, 'b, 'g) registry_libs \<Rightarrow> ('a, 'b) auxiliary_data \<Rightarrow> nat list" where
  "endpoint_ids libs aux =
     map fst (filter (\<lambda>(i, c). case c of RequestHandler s k \<Rightarrow> True | Fallback s \<Rightarrow> True | _ \<Rightarrow> False)
       (aux_iter libs aux))"

definition router_new :: "'m matchit_lib \<Rightarrow> ('a, 'b, 'g) registry_libs \<Rightarrow> ('a, 'b) auxiliary_data
    \<Rightarrow> ('g, location) scope_graph \<Rightarrow> router routing" where
  "router_new mt libs aux sg =
     (case is_domain_based libs aux of
        None \<Rightarrow> either_all_domain_based_or_all_agnostic libs aux
      | Some domain_based \<Rightarrow>
          routing_bind (silently (fallback_scopes libs aux sg (aux_iter libs aux) [])) (\<lambda>scope_id2fallback_id.
          routing_bind (loop_value (tree_new (lib_graph libs) scope_id2fallback_id sg)) (\<lambda>built.
          routing_bind (silently built) (\<lambda>tree.
            if domain_based then
              routing_bind (domain_router_new mt libs aux sg tree) (\<lambda>r. silently (Inr (DomainBased r)))
            else
              routing_bind (path_router_new mt libs aux sg tree (endpoint_ids libs aux))
                (\<lambda>r. silently (Inr (DomainAgnostic r)))))))"

end
