(* ===== verification/Path_Matching.thy ===== *)
theory Path_Matching
  imports Router
begin

text \<open>
  What the routers rely on in the crate that matches paths (locale \<open>path_matching\<close>), and a list of
  routes that provides it.

  A router accepts a path if it is well-formed and conflicts with none of the paths it has
  accepted before; otherwise it says why and stays as it is. Whether two paths conflict depends
  on these two paths only, whether a path is well-formed on itself only. A lookup finds a route
  whose path matches, and finds one if there is any.
\<close>

section \<open>The interface\<close>

locale path_matching =
  fixes mt :: "'m matchit_lib"
    and routes :: "'m \<Rightarrow> (string \<times> nat) list"
    and valid :: "string \<Rightarrow> bool"
    and conflicts :: "string \<Rightarrow> string \<Rightarrow> bool"
    and matches :: "string \<Rightarrow> string \<Rightarrow> bool"
  assumes routes_new: "routes (mt_new mt) = []"
    and insert_accepted: "mt_insert mt p v m1 = (None, m2) \<Longrightarrow>
      valid p \<and> (\<forall>q \<in> fst ` set (routes m1). \<not> conflicts p q) \<and> routes m2 = routes m1 @ [(p, v)]"
    and insert_rejected: "mt_insert mt p v m1 = (Some e, m2) \<Longrightarrow> routes m2 = routes m1 \<and>
      (if valid p then \<exists>q \<in> fst ` set (routes m1). conflicts p q \<and> e = Conflict q
       else \<forall>q. e \<noteq> Conflict q)"
    and conflicts_sym: "conflicts p q \<Longrightarrow> conflicts q p"
    and conflicts_self: "valid p \<Longrightarrow> conflicts p p"
    and at_matches: "mt_at mt m s = Some v \<Longrightarrow> \<exists>p. (p, v) \<in> set (routes m) \<and> matches p s"
    and at_finds: "(p, v) \<in> set (routes m) \<Longrightarrow> matches p s \<Longrightarrow> mt_at mt m s \<noteq> None"
begin

text \<open>The routes that a router can have.\<close>

definition coherent :: "(string \<times> nat) list \<Rightarrow> bool" where
  "coherent rs \<longleftrightarrow> (\<forall>p \<in> fst ` set rs. valid p) \<and> distinct (map fst rs)
     \<and> (\<forall>p \<in> fst ` set rs. \<forall>q \<in> fst ` set rs. conflicts p q \<longrightarrow> p = q)"

lemma coherent_new: "coherent (routes (mt_new mt))"
  by (simp add: routes_new coherent_def)

lemma insert_coherent:
  assumes "coherent (routes m1)" and "mt_insert mt p v m1 = (r, m2)"
  shows "coherent (routes m2)"
proof (cases r)
  case None
  then have "valid p \<and> (\<forall>q \<in> fst ` set (routes m1). \<not> conflicts p q) \<and> routes m2 = routes m1 @ [(p, v)]"
    using assms(2) insert_accepted by blast
  then show ?thesis
    using assms(1) conflicts_self [of p] conflicts_sym by (auto simp: coherent_def)
next
  case (Some e)
  then show ?thesis using assms insert_rejected by metis
qed

text \<open>An insertion succeeds if nothing stands against it.\<close>

lemma insert_ok:
  assumes "valid p" and "\<forall>q \<in> fst ` set (routes m1). \<not> conflicts p q"
  shows "\<exists>m2. mt_insert mt p v m1 = (None, m2) \<and> routes m2 = routes m1 @ [(p, v)]"
proof (cases "mt_insert mt p v m1")
  case (Pair r m2)
  show ?thesis
  proof (cases r)
    case None
    then show ?thesis using Pair insert_accepted by blast
  next
    case (Some e)
    then show ?thesis using Pair insert_rejected [of p v m1 e m2] assms by auto
  qed
qed

end

section \<open>A list of routes\<close>

text \<open>
  Templates as the crate documents them, without escapes: a segment can end in a parameter in
  braces; one that starts with an asterisk inside the braces takes the rest of the path and is
  in the last segment.
\<close>

datatype segment = Static string | Param string | Rest string

fun segments :: "string \<Rightarrow> string list" where
  "segments [] = [[]]"
| "segments (c # s) =
     (if c = CHR ''/'' then [] # segments s
      else (case segments s of [] \<Rightarrow> [[c]] | t # ts \<Rightarrow> (c # t) # ts))"

definition braces :: "string \<Rightarrow> bool" where
  "braces s \<longleftrightarrow> CHR ''{'' \<in> set s \<or> CHR ''}'' \<in> set s"

definition segment_of :: "string \<Rightarrow> segment option" where
  "segment_of s =
     (let front = takeWhile (\<lambda>c. c \<noteq> CHR ''{'') s;
          tail = dropWhile (\<lambda>c. c \<noteq> CHR ''{'') s;
          parameter = butlast (tl tail)
      in if tail = [] then (if braces s then None else Some (Static s))
         else if braces front \<or> braces parameter \<or> length tail < 3 \<or> last tail \<noteq> CHR ''}'' then None
         else if hd parameter \<noteq> CHR ''*'' then Some (Param front)
         else if length parameter = 1 then None
         else Some (Rest front))"

fun segments_ok :: "segment option list \<Rightarrow> bool" where
  "segments_ok [] \<longleftrightarrow> True"
| "segments_ok (None # ss) \<longleftrightarrow> False"
| "segments_ok (Some (Rest s) # ss) \<longleftrightarrow> ss = []"
| "segments_ok (Some s # ss) \<longleftrightarrow> segments_ok ss"

fun segments_match :: "segment option list \<Rightarrow> string list \<Rightarrow> bool" where
  "segments_match [] [] \<longleftrightarrow> True"
| "segments_match (Some (Static t) # ps) (s # ss) \<longleftrightarrow> s = t \<and> segments_match ps ss"
| "segments_match (Some (Param t) # ps) (s # ss) \<longleftrightarrow>
     take (length t) s = t \<and> length t < length s \<and> segments_match ps ss"
| "segments_match (Some (Rest t) # ps) (s # ss) \<longleftrightarrow>
     take (length t) s = t \<and> (length t < length s \<or> ss \<noteq> [])"
| "segments_match _ _ \<longleftrightarrow> False"

definition template_shape :: "string \<Rightarrow> segment option list" where
  "template_shape p = map segment_of (segments p)"

definition template_valid :: "string \<Rightarrow> bool" where
  "template_valid p \<longleftrightarrow> segments_ok (template_shape p)"

definition template_matches :: "string \<Rightarrow> string \<Rightarrow> bool" where
  "template_matches p s \<longleftrightarrow> segments_match (template_shape p) (segments s)"

text \<open>
  Static segments take precedence over parameters, parameters over the rest of a path, and a longer
  text in front of a parameter over a shorter one.
\<close>

fun more_specific :: "segment option list \<Rightarrow> segment option list \<Rightarrow> bool" where
  "more_specific (Some (Static s) # ps) (Some (Static t) # qs) \<longleftrightarrow> more_specific ps qs"
| "more_specific (Some (Static s) # ps) (q # qs) \<longleftrightarrow> True"
| "more_specific (Some (Param s) # ps) (Some (Param t) # qs) \<longleftrightarrow>
     length t < length s \<or> s = t \<and> more_specific ps qs"
| "more_specific (Some (Param s) # ps) (Some (Rest t) # qs) \<longleftrightarrow> True"
| "more_specific (Some (Rest s) # ps) (Some (Rest t) # qs) \<longleftrightarrow> length t < length s"
| "more_specific _ _ \<longleftrightarrow> False"

fun best_route :: "(string \<times> nat) option \<Rightarrow> (string \<times> nat) list \<Rightarrow> (string \<times> nat) option" where
  "best_route b [] = b"
| "best_route b ((p, v) # rs) =
     best_route
       (case b of
          None \<Rightarrow> Some (p, v)
        | Some (q, w) \<Rightarrow> if more_specific (template_shape p) (template_shape q) then Some (p, v) else b) rs"

definition list_matchit :: "(string \<times> nat) list matchit_lib" where
  "list_matchit =
     \<lparr>mt_new = [],
      mt_insert = (\<lambda>p v rs.
        if \<not> template_valid p then (Some InvalidParam, rs)
        else (case find (\<lambda>r. template_shape (fst r) = template_shape p) rs of
                Some (q, w) \<Rightarrow> (Some (Conflict q), rs)
              | None \<Rightarrow> (None, rs @ [(p, v)]))),
      mt_at = (\<lambda>rs s. map_option snd (best_route None (filter (\<lambda>r. template_matches (fst r) s) rs)))\<rparr>"

lemma best_route_some: "best_route (Some b) rs \<noteq> None"
  by (induction rs arbitrary: b) (auto split: if_splits)

lemma best_route_in: "best_route b rs = Some r \<Longrightarrow> b = Some r \<or> r \<in> set rs"
  by (induction b rs rule: best_route.induct) (auto split: option.splits if_splits)

lemma best_route_none: "best_route None rs = None \<longleftrightarrow> rs = []"
  using best_route_some by (cases rs) (simp, metis best_route.simps(2) list.distinct(1) option.simps(4) surj_pair)

lemma find_in: "find P xs = Some x \<Longrightarrow> P x \<and> x \<in> set xs"
  by (auto simp: find_Some_iff)

interpretation lm: path_matching list_matchit "\<lambda>rs. rs" template_valid
  "\<lambda>p q. template_shape p = template_shape q" template_matches
proof unfold_locales
  show "mt_new list_matchit = []" by (simp add: list_matchit_def)
  show "template_valid p \<and> (\<forall>q \<in> fst ` set m1. template_shape p \<noteq> template_shape q) \<and> m2 = m1 @ [(p, v)]"
    if "mt_insert list_matchit p v m1 = (None, m2)" for p v m1 m2
    using that by (auto simp: list_matchit_def find_None_iff split: if_splits option.splits)
  show "m2 = m1 \<and> (if template_valid p then \<exists>q \<in> fst ` set m1. template_shape p = template_shape q \<and> e = Conflict q
      else \<forall>q. e \<noteq> Conflict q)"
    if ins: "mt_insert list_matchit p v m1 = (Some e, m2)" for p v m1 e m2
  proof (cases "template_valid p")
    case True
    then obtain q w where q: "find (\<lambda>r. template_shape (fst r) = template_shape p) m1 = Some (q, w)"
        "e = Conflict q" "m2 = m1"
      using ins by (auto simp: list_matchit_def split: option.splits)
    from find_in [OF q(1)] have "q \<in> fst ` set m1" "template_shape p = template_shape q" by force+
    with True q show ?thesis by auto
  qed (use ins in \<open>auto simp: list_matchit_def\<close>)
  show "\<exists>p. (p, v) \<in> set m \<and> template_matches p s" if at: "mt_at list_matchit m s = Some v" for m s v
  proof -
    obtain p where p: "best_route None (filter (\<lambda>r. template_matches (fst r) s) m) = Some (p, v)"
      using at by (auto simp: list_matchit_def)
    from best_route_in [OF p] show ?thesis by auto
  qed
  show "mt_at list_matchit m s \<noteq> None" if "(p, v) \<in> set m" "template_matches p s" for p v m s
    using that by (simp add: list_matchit_def best_route_none filter_empty_conv) force
qed simp_all

end
