(* ===== verification/Request_Routing.thy ===== *)
theory Request_Routing
  imports Router
begin

text \<open>
  From the router to the code that dispatches requests.

  \<^item> Lifting a router to the identifiers of a later pass, and what it says of its handlers
    (\<^verbatim>\<open>pavexc/src/compiler/analyses/router.rs\<close>). Both kinds of identifier are numbers, so
    the routers have the same type.
  \<^item> The generated dispatch (\<^verbatim>\<open>pavexc/src/compiler/codegen/router.rs\<close>): tables from route
    numbers to paths and to the handlers by method, and what the emitted functions
    \<^verbatim>\<open>router\<close>, \<^verbatim>\<open>domain_router\<close> and \<^verbatim>\<open>route\<close> compute
    with them. A request is its host, the path of its target and its method; the answer is
    the pipeline of a handler, a value of the type \<open>'p\<close>.
\<close>

section \<open>Lifting\<close>

fun collect_leaves :: "(nat \<rightharpoonup> nat) \<Rightarrow> (string \<times> leaf_router) list \<Rightarrow> (unit, (string \<times> leaf_router) list) result" where
  "collect_leaves ids [] = Inr []"
| "collect_leaves ids ((path, leaf) # leaves) =
     (case lookup ids (lr_fallback_id leaf) of
        Inl e \<Rightarrow> Inl e
      | Inr fallback_id \<Rightarrow>
          (case collect_leaves ids leaves of
             Inl e \<Rightarrow> Inl e
           | Inr rest \<Rightarrow>
               Inr ((path,
                 \<lparr>lr_handler_id2methods =
                    fold (\<lambda>(i, ms) m. case ids i of None \<Rightarrow> m | Some j \<Rightarrow> bt_insert j ms m)
                      (lr_handler_id2methods leaf) [],
                  lr_fallback_id = fallback_id\<rparr>) # rest)))"

definition lift_path_router :: "(nat \<rightharpoonup> nat) \<Rightarrow> path_router \<Rightarrow> (unit, path_router) result" where
  "lift_path_router ids r =
     (case collect_leaves ids (pr_path2method_router r) of
        Inl e \<Rightarrow> Inl e
      | Inr leaves \<Rightarrow>
          (case lookup ids (pr_root_fallback_id r) of
             Inl e \<Rightarrow> Inl e
           | Inr root \<Rightarrow> Inr \<lparr>pr_path2method_router = leaves, pr_root_fallback_id = root\<rparr>))"

fun lift_path_routers :: "(nat \<rightharpoonup> nat) \<Rightarrow> (domain_guard \<times> path_router) list
    \<Rightarrow> (unit, (domain_guard \<times> path_router) list) result" where
  "lift_path_routers ids [] = Inr []"
| "lift_path_routers ids ((g, r) # rs) =
     (case lift_path_router ids r of
        Inl e \<Rightarrow> Inl e
      | Inr r \<Rightarrow> (case lift_path_routers ids rs of Inl e \<Rightarrow> Inl e | Inr rest \<Rightarrow> Inr ((g, r) # rest)))"

definition lift_domain_router :: "(nat \<rightharpoonup> nat) \<Rightarrow> domain_router \<Rightarrow> (unit, domain_router) result" where
  "lift_domain_router ids r =
     (case lift_path_routers ids (dr_domain2path_router r) of
        Inl e \<Rightarrow> Inl e
      | Inr routers \<Rightarrow>
          (case lookup ids (dr_root_fallback_id r) of
             Inl e \<Rightarrow> Inl e
           | Inr root \<Rightarrow> Inr \<lparr>dr_domain2path_router = routers, dr_root_fallback_id = root\<rparr>))"

fun lift_router :: "(nat \<rightharpoonup> nat) \<Rightarrow> router \<Rightarrow> (unit, router) result" where
  "lift_router ids (DomainAgnostic r) =
     (case lift_path_router ids r of Inl e \<Rightarrow> Inl e | Inr r \<Rightarrow> Inr (DomainAgnostic r))"
| "lift_router ids (DomainBased r) =
     (case lift_domain_router ids r of Inl e \<Rightarrow> Inl e | Inr r \<Rightarrow> Inr (DomainBased r))"

section \<open>Handlers and routes\<close>

definition leaf_handler_ids :: "leaf_router \<Rightarrow> nat list" where
  "leaf_handler_ids leaf = map fst (lr_handler_id2methods leaf) @ [lr_fallback_id leaf]"

definition path_handler_ids :: "path_router \<Rightarrow> nat list" where
  "path_handler_ids r =
     concat (map (\<lambda>(path, leaf). leaf_handler_ids leaf) (pr_path2method_router r)) @ [pr_root_fallback_id r]"

text \<open>The result is an ordered set.\<close>

fun handler_ids :: "router \<Rightarrow> nat list" where
  "handler_ids (DomainAgnostic r) =
     sorted_list_of_set (set (path_handler_ids r @ [pr_root_fallback_id r]))"
| "handler_ids (DomainBased r) =
     sorted_list_of_set
       (set (concat (map (\<lambda>(g, p). path_handler_ids p) (dr_domain2path_router r)) @ [dr_root_fallback_id r]))"

record route_info =
  ri_methods :: "string fset"
  ri_path :: string
  ri_domain :: "domain_guard option"

type_synonym route_info_map = "(nat \<times> route_info) list"

fun insert_handlers :: "string \<Rightarrow> domain_guard option \<Rightarrow> (nat \<times> string fset) list \<Rightarrow> route_info_map
    \<Rightarrow> (unit, route_info_map) result" where
  "insert_handlers path guard [] infos = Inr infos"
| "insert_handlers path guard ((i, ms) # hs) infos =
     (if map_of infos i \<noteq> None then
        Inl (Panicked ''Each handler ID is uniquely associated with a route.'')
      else
        insert_handlers path guard hs
          (bt_insert i \<lparr>ri_methods = ms, ri_path = path, ri_domain = guard\<rparr> infos))"

fun insert_leaves :: "domain_guard option \<Rightarrow> (string \<times> leaf_router) list \<Rightarrow> route_info_map
    \<Rightarrow> (unit, route_info_map) result" where
  "insert_leaves guard [] infos = Inr infos"
| "insert_leaves guard ((path, leaf) # leaves) infos =
     (case insert_handlers path guard (lr_handler_id2methods leaf) infos of
        Inl e \<Rightarrow> Inl e
      | Inr infos \<Rightarrow>
          insert_leaves guard leaves
            (bt_insert (lr_fallback_id leaf) \<lparr>ri_methods = {||}, ri_path = path, ri_domain = guard\<rparr> infos))"

definition path_route_infos :: "path_router \<Rightarrow> domain_guard option \<Rightarrow> route_info_map
    \<Rightarrow> (unit, route_info_map) result" where
  "path_route_infos r guard infos =
     (case insert_leaves guard (pr_path2method_router r) infos of
        Inl e \<Rightarrow> Inl e
      | Inr infos \<Rightarrow>
          Inr (bt_insert (pr_root_fallback_id r) \<lparr>ri_methods = {||}, ri_path = ''*'', ri_domain = guard\<rparr> infos))"

fun domain_route_infos :: "(domain_guard \<times> path_router) list \<Rightarrow> route_info_map
    \<Rightarrow> (unit, route_info_map) result" where
  "domain_route_infos [] infos = Inr infos"
| "domain_route_infos ((g, r) # rs) infos =
     (case path_route_infos r (Some g) infos of Inl e \<Rightarrow> Inl e | Inr infos \<Rightarrow> domain_route_infos rs infos)"

fun route_infos :: "router \<Rightarrow> (unit, route_info_map) result" where
  "route_infos (DomainAgnostic r) = path_route_infos r None []"
| "route_infos (DomainBased r) =
     (case domain_route_infos (dr_domain2path_router r) [] of
        Inl e \<Rightarrow> Inl e
      | Inr infos \<Rightarrow>
          Inr (bt_insert (dr_root_fallback_id r) \<lparr>ri_methods = {||}, ri_path = ''*'', ri_domain = None\<rparr> infos))"

section \<open>Tables of the generated code\<close>

record 'p codegen_method_router =
  methods_and_pipelines :: "(string fset \<times> 'p) list"
  catch_all_pipeline :: 'p

fun pipelines_of :: "(nat \<rightharpoonup> 'p) \<Rightarrow> (nat \<times> string fset) list \<Rightarrow> (unit, (string fset \<times> 'p) list) result" where
  "pipelines_of pipelines [] = Inr []"
| "pipelines_of pipelines ((i, ms) # hs) =
     (case lookup pipelines i of
        Inl e \<Rightarrow> Inl e
      | Inr p \<Rightarrow> (case pipelines_of pipelines hs of Inl e \<Rightarrow> Inl e | Inr ps \<Rightarrow> Inr ((ms, p) # ps)))"

fun router_entries :: "(nat \<rightharpoonup> 'p) \<Rightarrow> (string \<times> leaf_router) list
    \<Rightarrow> (unit, (string \<times> 'p codegen_method_router) list) result" where
  "router_entries pipelines [] = Inr []"
| "router_entries pipelines ((path, leaf) # leaves) =
     (case pipelines_of pipelines (lr_handler_id2methods leaf) of
        Inl e \<Rightarrow> Inl e
      | Inr ps \<Rightarrow>
          (case lookup pipelines (lr_fallback_id leaf) of
             Inl e \<Rightarrow> Inl e
           | Inr catch_all \<Rightarrow>
               (case router_entries pipelines leaves of
                  Inl e \<Rightarrow> Inl e
                | Inr rest \<Rightarrow>
                    Inr ((path, \<lparr>methods_and_pipelines = ps, catch_all_pipeline = catch_all\<rparr>) # rest))))"

text \<open>
  The paths of a router are distinct and come in ascending order, so numbering its entries gives
  the two tables of the code.
\<close>

definition route_mappings :: "path_router \<Rightarrow> (nat \<rightharpoonup> 'p)
    \<Rightarrow> (unit, (nat \<times> string) list \<times> (nat \<times> 'p codegen_method_router) list) result" where
  "route_mappings r pipelines =
     (case router_entries pipelines (pr_path2method_router r) of
        Inl e \<Rightarrow> Inl e
      | Inr entries \<Rightarrow>
          Inr (zip [0..<length entries] (map fst entries), zip [0..<length entries] (map snd entries)))"

section \<open>The generated functions\<close>

text \<open>\<^verbatim>\<open>router()\<close>: every insertion is unwrapped.\<close>

fun insert_all :: "'m matchit_lib \<Rightarrow> (nat \<times> string) list \<Rightarrow> 'm \<Rightarrow> (unit, 'm) result" where
  "insert_all mt [] router = Inr router"
| "insert_all mt ((route_id, path) # rs) router =
     (case mt_insert mt path route_id router of
        (None, router) \<Rightarrow> insert_all mt rs router
      | (Some e, router) \<Rightarrow> Inl (Panicked ''called `Result::unwrap()` on an `Err` value''))"

definition path_router_init :: "'m matchit_lib \<Rightarrow> (nat \<times> string) list \<Rightarrow> (unit, 'm) result" where
  "path_router_init mt route_id2path = insert_all mt route_id2path (mt_new mt)"

definition domain_router_init :: "'m matchit_lib \<Rightarrow> (domain_guard \<times> path_router) list \<Rightarrow> (unit, 'm) result" where
  "domain_router_init mt domain2path_router =
     insert_all mt
       (zip [0..<length domain2path_router] (map (matchit_pattern \<circ> fst) domain2path_router)) (mt_new mt)"

text \<open>
  The \<^verbatim>\<open>match\<close> on the method. Every handler, in the order of the identifiers, has an
  arm for its well-known methods and one for its other methods, both with its pipeline.
\<close>

definition dispatch :: "'p codegen_method_router \<Rightarrow> string \<Rightarrow> 'p" where
  "dispatch r m =
     (case find (\<lambda>(ms, p). m |\<in>| ms) (methods_and_pipelines r) of
        Some (ms, p) \<Rightarrow> p
      | None \<Rightarrow> catch_all_pipeline r)"

text \<open>\<^verbatim>\<open>route()\<close> of a path router\<close>

definition route_request :: "'m matchit_lib \<Rightarrow> 'm \<Rightarrow> (nat \<times> 'p codegen_method_router) list \<Rightarrow> 'p
    \<Rightarrow> string \<Rightarrow> string \<Rightarrow> (unit, 'p) result" where
  "route_request mt router table root_fallback path m =
     (case mt_at mt router path of
        None \<Rightarrow> Inr root_fallback
      | Some route_id \<Rightarrow>
          (case map_of table route_id of
             None \<Rightarrow> Inl (Panicked (''Unknown route id: '' @ show_nat route_id))
           | Some r \<Rightarrow> Inr (dispatch r m)))"

text \<open>
  A server with a path router: the tables are computed by the compiler, the matcher when the
  server starts, the answer for a request.
\<close>

definition serve_path :: "'m matchit_lib \<Rightarrow> path_router \<Rightarrow> (nat \<rightharpoonup> 'p) \<Rightarrow> string \<Rightarrow> string \<Rightarrow> (unit, 'p) result" where
  "serve_path mt r pipelines path m =
     (case route_mappings r pipelines of
        Inl e \<Rightarrow> Inl e
      | Inr (route_id2path, table) \<Rightarrow>
          (case lookup pipelines (pr_root_fallback_id r) of
             Inl e \<Rightarrow> Inl e
           | Inr root_fallback \<Rightarrow>
               (case path_router_init mt route_id2path of
                  Inl e \<Rightarrow> Inl e
                | Inr router \<Rightarrow> route_request mt router table root_fallback path m)))"

text \<open>What the generated code looks a host up by.\<close>

definition host_key :: "string \<Rightarrow> string" where
  "host_key host =
     rev (map (\<lambda>c. if c = CHR ''.'' then CHR ''/'' else c)
       (rev (dropWhile (\<lambda>c. c = CHR ''.'') (rev host))))"

definition serve_domains :: "'m matchit_lib \<Rightarrow> domain_router \<Rightarrow> (nat \<rightharpoonup> 'p) \<Rightarrow> string option
    \<Rightarrow> string \<Rightarrow> string \<Rightarrow> (unit, 'p) result" where
  "serve_domains mt r pipelines host path m =
     (case domain_router_init mt (dr_domain2path_router r) of
        Inl e \<Rightarrow> Inl e
      | Inr domains \<Rightarrow>
          (case Option.bind host (\<lambda>h. mt_at mt domains (host_key h)) of
             None \<Rightarrow> lookup pipelines (dr_root_fallback_id r)
           | Some i \<Rightarrow>
               if i < length (dr_domain2path_router r) then
                 serve_path mt (snd (dr_domain2path_router r ! i)) pipelines path m
               else Inl (Panicked (''Unknown domain id: '' @ show_nat i))))"

fun serve :: "'m matchit_lib \<Rightarrow> router \<Rightarrow> (nat \<rightharpoonup> 'p) \<Rightarrow> string option \<Rightarrow> string \<Rightarrow> string \<Rightarrow> (unit, 'p) result" where
  "serve mt (DomainAgnostic r) pipelines host path m = serve_path mt r pipelines path m"
| "serve mt (DomainBased r) pipelines host path m = serve_domains mt r pipelines host path m"

end
