(* ===== verification/Fallback_Tree_Properties.thy ===== *)
theory Fallback_Tree_Properties
  imports Fallback_Tree Scope_Graph_Properties
begin

text \<open>
  The tree of fallbacks is built and searched in finitely many steps, and the search returns
  the fallback of the innermost scope, around the scope of a route, that has one.
\<close>

section \<open>Trees of scopes\<close>

lemma tree_edge: "scope_tree E n \<Longrightarrow> (a, b) \<in> E \<Longrightarrow> a < b \<and> b < n"
  unfolding scope_tree_def by blast

lemma tree_parent: "scope_tree E n \<Longrightarrow> (a, b) \<in> E \<Longrightarrow> (a', b) \<in> E \<Longrightarrow> a = a'"
  unfolding scope_tree_def by (metis gr_zeroI not_less_zero)

lemma tree_le: "scope_tree E n \<Longrightarrow> (a, b) \<in> E\<^sup>* \<Longrightarrow> a \<le> b"
  by (rotate_tac, induction rule: rtrancl.induct) (auto dest: tree_edge)

lemma tree_less: "scope_tree E n \<Longrightarrow> (a, b) \<in> E\<^sup>+ \<Longrightarrow> a < b \<and> b < n"
  by (rotate_tac, induction rule: trancl.induct) (auto dest: tree_edge)

lemma tree_up: "scope_tree E n \<Longrightarrow> (a, b) \<in> E\<^sup>* \<Longrightarrow> (p, b) \<in> E \<Longrightarrow> a = b \<or> (a, p) \<in> E\<^sup>*"
  by (metis rtranclE tree_parent)

lemma tree_chain:
  assumes "scope_tree E n"
  shows "(b, x) \<in> E\<^sup>* \<Longrightarrow> (a, x) \<in> E\<^sup>* \<Longrightarrow> (a, b) \<in> E\<^sup>* \<or> (b, a) \<in> E\<^sup>*"
proof (induction rule: rtrancl.induct)
  case (rtrancl_into_rtrancl b x y)
  have "(b, y) \<in> E\<^sup>*" using rtrancl_into_rtrancl.hyps by (rule rtrancl.rtrancl_into_rtrancl)
  moreover have "a = y \<or> (a, x) \<in> E\<^sup>*"
    using tree_up [OF assms] rtrancl_into_rtrancl.prems rtrancl_into_rtrancl.hyps(2) by blast
  ultimately show ?case using rtrancl_into_rtrancl.IH by blast
qed simp

lemma tree_outside: "scope_tree E n \<Longrightarrow> n \<le> b \<Longrightarrow> (a, b) \<in> E\<^sup>* \<Longrightarrow> a = b"
  by (meson linorder_not_less rtranclE tree_edge)

lemma with_state_below:
  assumes "scope_tree E n"
  shows "(a, b) \<in> (with_state E n)\<^sup>* \<Longrightarrow> b < n \<Longrightarrow> (a, b) \<in> E\<^sup>*"
proof (induction rule: rtrancl.induct)
  case (rtrancl_into_rtrancl a b c)
  then have "(b, c) \<in> E" using with_state_parent [OF assms] by blast
  then show ?case
    using rtrancl_into_rtrancl tree_edge [OF assms] by (meson less_trans rtrancl.rtrancl_into_rtrancl)
qed simp

text \<open>The innermost scope of \<open>F\<close> strictly around a scope.\<close>

definition near :: "(nat \<times> nat) set \<Rightarrow> nat set \<Rightarrow> nat \<Rightarrow> nat \<Rightarrow> bool" where
  "near E F s q \<longleftrightarrow> q \<in> F \<and> (q, s) \<in> E\<^sup>+ \<and> (\<forall>r \<in> F. (r, s) \<in> E\<^sup>+ \<longrightarrow> (r, q) \<in> E\<^sup>*)"

lemma near_unique: "scope_tree E n \<Longrightarrow> near E F s q \<Longrightarrow> near E F s r \<Longrightarrow> q = r"
  unfolding near_def by (meson antisym tree_le)

lemma tree_child_above: "scope_tree E n \<Longrightarrow> (s, c) \<in> E \<Longrightarrow> (r, c) \<in> E\<^sup>+ \<longleftrightarrow> (r, s) \<in> E\<^sup>*"
  by (metis rtrancl_into_trancl1 tranclD2 tree_parent)

lemma near_child:
  assumes "scope_tree E n" and "(s, c) \<in> E"
  shows "s \<in> F \<Longrightarrow> near E F c s" and "s \<notin> F \<Longrightarrow> near E F s q \<Longrightarrow> near E F c q"
proof -
  show "s \<in> F \<Longrightarrow> near E F c s"
    using assms(2) tree_child_above [OF assms] by (auto simp: near_def)
  show "s \<notin> F \<Longrightarrow> near E F s q \<Longrightarrow> near E F c q"
    using tree_child_above [OF assms] by (auto simp: near_def) (metis rtranclD)
qed

section \<open>The walk\<close>

text \<open>What the stack still has to visit.\<close>

definition pending :: "(nat \<times> nat) set \<Rightarrow> nat list \<Rightarrow> nat set" where
  "pending E ss = {x. \<exists>s \<in> set ss. (s, x) \<in> E\<^sup>*}"

definition apart :: "(nat \<times> nat) set \<Rightarrow> nat list \<Rightarrow> bool" where
  "apart E ss \<longleftrightarrow> distinct ss \<and> (\<forall>s \<in> set ss. \<forall>t \<in> set ss. (s, t) \<in> E\<^sup>* \<longrightarrow> s = t)"

lemma pending_step:
  assumes t: "scope_tree E n" and a: "apart E (ss @ [s])" and c: "set cs = {c. (s, c) \<in> E}" "distinct cs"
  shows "apart E (ss @ cs)" and "pending E (ss @ [s]) = insert s (pending E (ss @ cs))" and "s \<notin> pending E (ss @ cs)"
proof -
  have old: "(r, r') \<in> E\<^sup>* \<Longrightarrow> r = r'" if "r \<in> set (ss @ [s])" "r' \<in> set (ss @ [s])" for r r'
    using a that unfolding apart_def by blast
  have down: "\<not> (c, r) \<in> E\<^sup>*" if "(s, c) \<in> E" "r \<in> set (ss @ [s])" for c r
  proof
    assume cr: "(c, r) \<in> E\<^sup>*"
    then have "(s, r) \<in> E\<^sup>*" using that(1) by (meson converse_rtrancl_into_rtrancl)
    then have "r = s" using old that(2) by force
    then show False using cr tree_le [OF t] tree_edge [OF t that(1)] by fastforce
  qed
  have up: "\<not> (r, c) \<in> E\<^sup>*" if "(s, c) \<in> E" "r \<in> set ss" for c r
  proof
    assume rc: "(r, c) \<in> E\<^sup>*"
    have "r \<noteq> c" using down [OF that(1), of r] that(2) by auto
    then have "(r, s) \<in> E\<^sup>*" using tree_up [OF t rc that(1)] by blast
    then have "r = s" using old that(2) by force
    then show False using a that(2) by (simp add: apart_def)
  qed
  have sib: "c = d" if "(s, c) \<in> E" "(s, d) \<in> E" "(c, d) \<in> E\<^sup>*" for c d
    using tree_up [OF t that(3) that(2)] down [OF that(1), of s] by auto
  have ne: "c \<notin> set ss" if "(s, c) \<in> E" for c using up [OF that] by blast
  show "apart E (ss @ cs)"
    unfolding apart_def
  proof (intro conjI ballI impI)
    show "distinct (ss @ cs)" using a c ne by (auto simp: apart_def)
    show "p = q" if "p \<in> set (ss @ cs)" "q \<in> set (ss @ cs)" "(p, q) \<in> E\<^sup>*" for p q
    proof -
      have "p \<in> set ss \<or> (s, p) \<in> E" "q \<in> set ss \<or> (s, q) \<in> E" using that(1,2) by (auto simp: c(1))
      then consider "p \<in> set ss" "q \<in> set ss" | "p \<in> set ss" "(s, q) \<in> E" | "(s, p) \<in> E" "q \<in> set ss"
        | "(s, p) \<in> E" "(s, q) \<in> E" by blast
      then show ?thesis
      proof cases
        case 1
        then show ?thesis using old [of p q] that(3) by simp
      next
        case 2
        then show ?thesis using up [OF 2(2,1)] that(3) by blast
      next
        case 3
        then show ?thesis using down [OF 3(1), of q] that(3) by simp
      next
        case 4
        then show ?thesis using sib [OF 4 that(3)] by blast
      qed
    qed
  qed
  have split: "(s, x) \<in> E\<^sup>* \<longleftrightarrow> x = s \<or> (\<exists>c. (s, c) \<in> E \<and> (c, x) \<in> E\<^sup>*)" for x
    by (auto elim: converse_rtranclE intro: converse_rtrancl_into_rtrancl)
  have p1: "x \<in> pending E (ss @ [s]) \<longleftrightarrow> (\<exists>r \<in> set ss. (r, x) \<in> E\<^sup>*) \<or> (s, x) \<in> E\<^sup>*" for x
    by (auto simp: pending_def)
  have p2: "x \<in> pending E (ss @ cs) \<longleftrightarrow> (\<exists>r \<in> set ss. (r, x) \<in> E\<^sup>*) \<or> (\<exists>c. (s, c) \<in> E \<and> (c, x) \<in> E\<^sup>*)" for x
    by (auto simp: pending_def c(1))
  show "pending E (ss @ [s]) = insert s (pending E (ss @ cs))"
    by (rule set_eqI) (simp only: insert_iff p1 p2 split disj_ac)
  show "s \<notin> pending E (ss @ cs)"
  proof
    assume "s \<in> pending E (ss @ cs)"
    then obtain r where r: "r \<in> set ss \<or> (s, r) \<in> E" "(r, s) \<in> E\<^sup>*" by (auto simp: pending_def c(1))
    from r(1) show False
    proof
      assume "r \<in> set ss"
      then show False using old [of r s] r(2) a by (auto simp: apart_def)
    next
      assume "(s, r) \<in> E"
      then show False using down [of r s] r(2) by simp
    qed
  qed
qed

section \<open>The invariant of the walk\<close>

abbreviation sc :: "fallback_node list \<Rightarrow> nat \<Rightarrow> nat" where
  "sc nodes j \<equiv> scope_index (fn_scope_id (nodes ! j))"

abbreviation owners :: "(scope_id \<rightharpoonup> nat) \<Rightarrow> nat set" where
  "owners fb \<equiv> {s. fb (ScopeId s) \<noteq> None}"

definition nodes_inv :: "(nat \<times> nat) set \<Rightarrow> nat \<Rightarrow> (scope_id \<rightharpoonup> nat) \<Rightarrow> fallback_node list \<Rightarrow> bool" where
  "nodes_inv E n fb nodes \<longleftrightarrow> nodes \<noteq> [] \<and> sc nodes 0 = 0
     \<and> (\<forall>j < length nodes. fb (fn_scope_id (nodes ! j)) = Some (fn_fallback_id (nodes ! j)) \<and> sc nodes j < n)
     \<and> (\<forall>j < length nodes. \<forall>k < length nodes. sc nodes j = sc nodes k \<longrightarrow> j = k)
     \<and> (\<forall>j < length nodes. \<forall>k \<in> set (fn_children_ids (nodes ! j)).
          k < length nodes \<and> near E (owners fb) (sc nodes k) (sc nodes j))"

definition stack_inv :: "(nat \<times> nat) set \<Rightarrow> nat \<Rightarrow> (scope_id \<rightharpoonup> nat) \<Rightarrow> fallback_node list
    \<Rightarrow> (scope_id \<times> nat) list \<Rightarrow> bool" where
  "stack_inv E n fb nodes stack \<longleftrightarrow> apart E (map (scope_index \<circ> fst) stack)
     \<and> (\<forall>(s, j) \<in> set stack. j < length nodes \<and> scope_index s \<le> n
          \<and> (scope_index s < n \<longrightarrow> near E (owners fb) (scope_index s) (sc nodes j)))
     \<and> (\<forall>j < length nodes. sc nodes j \<notin> pending E (map (scope_index \<circ> fst) stack))
     \<and> (\<forall>s \<in> owners fb. s \<noteq> 0 \<longrightarrow>
          (\<exists>j < length nodes. \<exists>k \<in> set (fn_children_ids (nodes ! j)). sc nodes k = s)
          \<or> s \<in> pending E (map (scope_index \<circ> fst) stack))"

definition visit :: "(scope_id \<rightharpoonup> nat) \<Rightarrow> scope_id \<Rightarrow> nat \<Rightarrow> fallback_node list \<Rightarrow> nat \<times> fallback_node list" where
  "visit fb s j nodes =
     (case fb s of
        Some f \<Rightarrow>
          (length nodes,
           nodes[j := (nodes ! j)\<lparr>fn_children_ids := fn_children_ids (nodes ! j) @ [length nodes]\<rparr>]
             @ [\<lparr>fn_scope_id = s, fn_fallback_id = f, fn_children_ids = []\<rparr>])
      | None \<Rightarrow> (j, nodes))"

lemma visit_new:
  assumes "fb s = Some f" and "j < length nodes" and "visit fb s j nodes = (j', nodes')"
  shows "j' = length nodes" and "length nodes' = Suc (length nodes)"
    and "sc nodes' (length nodes) = scope_index s"
    and "fn_scope_id (nodes' ! length nodes) = s" and "fn_fallback_id (nodes' ! length nodes) = f"
    and "fn_children_ids (nodes' ! length nodes) = []"
    and "k < length nodes \<Longrightarrow> fn_scope_id (nodes' ! k) = fn_scope_id (nodes ! k)"
    and "k < length nodes \<Longrightarrow> fn_fallback_id (nodes' ! k) = fn_fallback_id (nodes ! k)"
    and "k < length nodes \<Longrightarrow> set (fn_children_ids (nodes' ! k)) =
      set (fn_children_ids (nodes ! k)) \<union> (if k = j then {length nodes} else {})"
proof -
  let ?p = "(nodes ! j)\<lparr>fn_children_ids := fn_children_ids (nodes ! j) @ [length nodes]\<rparr>"
  let ?new = "\<lparr>fn_scope_id = s, fn_fallback_id = f, fn_children_ids = []\<rparr>"
  have j': "j' = length nodes" and n': "nodes' = nodes[j := ?p] @ [?new]"
    using assms(1,3) by (auto simp: visit_def)
  have new: "nodes' ! length nodes = ?new" by (simp add: n' nth_append)
  have old: "nodes' ! k = (if k = j then ?p else nodes ! k)" if "k < length nodes" for k
    using that assms(2) by (simp add: n' nth_append)
  show "j' = length nodes" by (rule j')
  show "length nodes' = Suc (length nodes)" by (simp add: n')
  show "sc nodes' (length nodes) = scope_index s" "fn_scope_id (nodes' ! length nodes) = s"
    "fn_fallback_id (nodes' ! length nodes) = f" "fn_children_ids (nodes' ! length nodes) = []"
    by (simp_all add: new)
  show "k < length nodes \<Longrightarrow> fn_scope_id (nodes' ! k) = fn_scope_id (nodes ! k)"
    "k < length nodes \<Longrightarrow> fn_fallback_id (nodes' ! k) = fn_fallback_id (nodes ! k)"
    "k < length nodes \<Longrightarrow> set (fn_children_ids (nodes' ! k)) =
      set (fn_children_ids (nodes ! k)) \<union> (if k = j then {length nodes} else {})"
    using old [of k] by simp_all
qed

lemma visit_nodes:
  assumes inv: "nodes_inv E n fb nodes" and j: "j < length nodes" and v: "visit fb s j nodes = (j', nodes')"
    and near: "fb s \<noteq> None \<Longrightarrow> near E (owners fb) (scope_index s) (sc nodes j) \<and> scope_index s < n"
    and new: "\<And>k. k < length nodes \<Longrightarrow> sc nodes k \<noteq> scope_index s"
  shows "nodes_inv E n fb nodes'"
proof (cases "fb s")
  case None
  then show ?thesis using inv v by (simp add: visit_def)
next
  case (Some f)
  note n = visit_new [OF Some j v]
  have near': "near E (owners fb) (scope_index s) (sc nodes j)" "scope_index s < n" using near Some by simp_all
  have ne: "nodes \<noteq> []" "sc nodes 0 = 0" using inv by (simp_all add: nodes_inv_def)
  have a: "fb (fn_scope_id (nodes' ! k)) = Some (fn_fallback_id (nodes' ! k)) \<and> sc nodes' k < n"
    if "k < length nodes'" for k
  proof (cases "k < length nodes")
    case True
    then show ?thesis using inv n(7,8) [of k] by (simp add: nodes_inv_def)
  next
    case False
    then have "k = length nodes" using that n(2) by simp
    then show ?thesis using n(4,5) Some near'(2) by simp
  qed
  have b: "i = k" if lt: "i < length nodes'" "k < length nodes'" and eq: "sc nodes' i = sc nodes' k" for i k
  proof -
    consider "i < length nodes" "k < length nodes" | "i < length nodes" "k = length nodes"
      | "i = length nodes" "k < length nodes" | "i = length nodes" "k = length nodes"
      using lt n(2) by linarith
    then show ?thesis
    proof cases
      case 1
      then show ?thesis using inv eq n(7) [of i] n(7) [of k] by (simp add: nodes_inv_def)
    next
      case 2
      then show ?thesis using new [of i] eq n(7) [of i] n(3) by simp
    next
      case 3
      then show ?thesis using new [of k] eq n(7) [of k] n(3) by simp
    qed simp
  qed
  have c: "k < length nodes' \<and> near E (owners fb) (sc nodes' k) (sc nodes' i)"
    if lt: "i < length nodes'" and mem: "k \<in> set (fn_children_ids (nodes' ! i))" for i k
  proof (cases "i < length nodes")
    case True
    then consider "k \<in> set (fn_children_ids (nodes ! i))" | "i = j" "k = length nodes"
      using mem n(9) [of i] by (auto split: if_splits)
    then show ?thesis
    proof cases
      case 1
      then have "k < length nodes" "near E (owners fb) (sc nodes k) (sc nodes i)"
        using inv True unfolding nodes_inv_def by blast+
      then show ?thesis using n(2) n(7) [of k] n(7) [OF True] by simp
    next
      case 2
      then show ?thesis using n(2,3) n(7) [OF True] near'(1) by simp
    qed
  next
    case False
    then have "i = length nodes" using lt n(2) by simp
    then show ?thesis using mem n(6) by simp
  qed
  have "sc nodes' 0 = 0" using ne n(7) [of 0] by simp
  moreover have "nodes' \<noteq> []" using n(2) by auto
  ultimately show ?thesis using a b c unfolding nodes_inv_def by blast
qed

lemma visit_stack:
  assumes t: "scope_tree E n" and inv: "nodes_inv E n fb nodes" and st: "stack_inv E n fb nodes (stack @ [(s, j)])"
    and v: "visit fb s j nodes = (j', nodes')"
    and cs: "set cs = {c. (scope_index s, c) \<in> E}" "distinct cs" and small: "\<forall>x \<in> owners fb. x < n"
  shows "nodes_inv E n fb nodes'"
    and "stack_inv E n fb nodes' (stack @ map (\<lambda>c. (ScopeId c, j')) cs)"
    and "pending E (map (scope_index \<circ> fst) (stack @ map (\<lambda>c. (ScopeId c, j')) cs))
      \<subset> pending E (map (scope_index \<circ> fst) (stack @ [(s, j)]))"
proof -
  let ?sc = "map (scope_index \<circ> fst) stack" and ?F = "owners fb"
  have new_scopes: "map (scope_index \<circ> fst) (stack @ map (\<lambda>c. (ScopeId c, j')) cs) = ?sc @ cs"
    by (simp add: comp_def)
  have ap: "apart E (?sc @ [scope_index s])" using st by (simp add: stack_inv_def)
  note step = pending_step [OF t ap cs]
  have top: "j < length nodes" "scope_index s < n \<Longrightarrow> near E ?F (scope_index s) (sc nodes j)"
    using st by (auto simp: stack_inv_def)
  have old: "\<forall>(r, i) \<in> set stack. i < length nodes \<and> scope_index r \<le> n
      \<and> (scope_index r < n \<longrightarrow> near E ?F (scope_index r) (sc nodes i))"
    using st by (simp add: stack_inv_def)
  have apart_nodes: "sc nodes k \<notin> pending E (?sc @ [scope_index s])" if "k < length nodes" for k
    using st that by (simp add: stack_inv_def)
  then have s_new: "sc nodes k \<noteq> scope_index s" if "k < length nodes" for k
    using that step(2) by blast
  have owner: "scope_index s < n" if "fb s \<noteq> None" using small that by (cases s) simp
  show nodes': "nodes_inv E n fb nodes'"
    by (rule visit_nodes [OF inv top(1) v]) (use owner top(2) s_new in blast)+
  have child: "(scope_index s, c) \<in> E" if "c \<in> set cs" for c using that cs(1) by simp
  have facts: "j' < length nodes' \<and> (\<forall>c \<in> set cs. near E ?F c (sc nodes' j'))
      \<and> (\<forall>i < length nodes. i < length nodes' \<and> sc nodes' i = sc nodes i
           \<and> set (fn_children_ids (nodes ! i)) \<subseteq> set (fn_children_ids (nodes' ! i)))
      \<and> (\<forall>k < length nodes'. sc nodes' k \<notin> pending E (?sc @ cs))
      \<and> (scope_index s \<in> ?F \<longrightarrow> (\<exists>i < length nodes'. \<exists>k \<in> set (fn_children_ids (nodes' ! i)). sc nodes' k = scope_index s))"
  proof (cases "fb s")
    case None
    then have [simp]: "j' = j" "nodes' = nodes" using v by (simp_all add: visit_def)
    have "scope_index s \<notin> ?F" using None by (cases s) simp
    then have "near E ?F c (sc nodes j)" if "c \<in> set cs" for c
      using near_child(2) [OF t child [OF that]] top(2) tree_edge [OF t child [OF that]] by simp
    then show ?thesis using top(1) apart_nodes step(2) \<open>scope_index s \<notin> ?F\<close> by simp
  next
    case (Some f)
    note n = visit_new [OF Some top(1) v]
    have "scope_index s \<in> ?F" using Some by (cases s) simp
    then have "near E ?F c (sc nodes' j')" if "c \<in> set cs" for c
      using near_child(1) [OF t child [OF that]] n(1,3) by simp
    moreover have "sc nodes' k \<notin> pending E (?sc @ cs)" if "k < length nodes'" for k
    proof (cases "k < length nodes")
      case True
      then show ?thesis using apart_nodes [OF True] step(2) n(7) [OF True] by simp
    next
      case False
      then have "k = length nodes" using that n(2) by simp
      then show ?thesis using step(3) n(3) by simp
    qed
    moreover have "length nodes \<in> set (fn_children_ids (nodes' ! j))" using n(9) [OF top(1)] by simp
    ultimately show ?thesis using n(1,2,3,7,9) top(1) by (auto simp: less_Suc_eq)
  qed
  show "stack_inv E n fb nodes' (stack @ map (\<lambda>c. (ScopeId c, j')) cs)"
    unfolding stack_inv_def new_scopes
  proof (intro conjI)
    show "apart E (?sc @ cs)" by (rule step(1))
    show "\<forall>k < length nodes'. sc nodes' k \<notin> pending E (?sc @ cs)" using facts by blast
    have "\<forall>(r, i) \<in> set stack. i < length nodes' \<and> scope_index r \<le> n
        \<and> (scope_index r < n \<longrightarrow> near E ?F (scope_index r) (sc nodes' i))"
      using old facts by fastforce
    moreover have "c \<le> n" if "c \<in> set cs" for c using tree_edge [OF t child [OF that]] by simp
    ultimately show "\<forall>(r, i) \<in> set (stack @ map (\<lambda>c. (ScopeId c, j')) cs). i < length nodes' \<and> scope_index r \<le> n
        \<and> (scope_index r < n \<longrightarrow> near E ?F (scope_index r) (sc nodes' i))"
      using facts by auto
    show "\<forall>x \<in> ?F. x \<noteq> 0 \<longrightarrow> (\<exists>i < length nodes'. \<exists>k \<in> set (fn_children_ids (nodes' ! i)). sc nodes' k = x)
        \<or> x \<in> pending E (?sc @ cs)"
    proof (intro ballI impI)
      fix x assume x: "x \<in> ?F" "x \<noteq> 0"
      have "(\<exists>i < length nodes. \<exists>k \<in> set (fn_children_ids (nodes ! i)). sc nodes k = x) \<or> x \<in> pending E (?sc @ [scope_index s])"
        using st x by (simp add: stack_inv_def)
      then consider i k where "i < length nodes" "k \<in> set (fn_children_ids (nodes ! i))" "sc nodes k = x"
        | "x = scope_index s" | "x \<in> pending E (?sc @ cs)"
        using step(2) by blast
      then show "(\<exists>i < length nodes'. \<exists>k \<in> set (fn_children_ids (nodes' ! i)). sc nodes' k = x) \<or> x \<in> pending E (?sc @ cs)"
      proof cases
        case 1
        then have "k < length nodes" using inv unfolding nodes_inv_def by blast
        then have "sc nodes' k = x" using facts 1(3) by simp
        moreover have "k \<in> set (fn_children_ids (nodes' ! i))" "i < length nodes'" using facts 1(1,2) by blast+
        ultimately show ?thesis by blast
      next
        case 2
        then show ?thesis using facts x(1) by blast
      qed blast
    qed
  qed
  show "pending E (map (scope_index \<circ> fst) (stack @ map (\<lambda>c. (ScopeId c, j')) cs))
      \<subset> pending E (map (scope_index \<circ> fst) (stack @ [(s, j)]))"
    unfolding new_scopes using step(2,3) by auto
qed

section \<open>The walk ends\<close>

definition child_list :: "'g graph_lib \<Rightarrow> ('g, 'l) scope_graph \<Rightarrow> scope_id \<Rightarrow> nat list" where
  "child_list lib sg s =
     map scope_index (filter (\<lambda>c. c \<noteq> sg_application_state sg) (ascending (direct_children_ids lib s sg)))"

lemma tree_loop_step:
  assumes "visit (map_of fallbacks) s j nodes = (j', nodes')"
  shows "tree_loop lib fallbacks sg (stack @ [(s, j)]) nodes =
    tree_loop lib fallbacks sg (stack @ map (\<lambda>c. (ScopeId c, j')) (child_list lib sg s)) nodes'"
  by (subst tree_loop.simps)
    (use assms in \<open>auto simp: visit_def child_list_def comp_def Let_def split: option.splits\<close>)

lemma finite_pending:
  assumes "scope_tree E n" and "\<forall>s \<in> set ss. s \<le> n"
  shows "finite (pending E ss)"
proof (rule finite_subset)
  show "pending E ss \<subseteq> {..n}"
  proof
    fix x assume "x \<in> pending E ss"
    then obtain s where s: "s \<in> set ss" "(s, x) \<in> E\<^sup>*" by (auto simp: pending_def)
    from s(2) show "x \<in> {..n}"
      by cases (use assms s(1) tree_edge [OF assms(1)] in \<open>auto simp: less_imp_le\<close>)
  qed
qed simp

lemma child_list_edges:
  assumes "digraph lib" and "scope_built lib b"
  shows "set (child_list lib (scope_build lib b) s) = {c. (scope_index s, c) \<in> builder_edges lib b}"
    and "distinct (child_list lib (scope_build lib b) s)"
proof -
  note f = scope_graph_facts [OF assms]
  let ?S = "direct_children_ids lib s (scope_build lib b)"
  have fin: "finite (scope_index ` ?S)" by (simp add: direct_children_ids_def)
  have index_iff: "scope_index x = c \<longleftrightarrow> x = ScopeId c" for x c by (cases x) simp
  have asc: "set (ascending ?S) = ?S" using fin index_iff by (auto simp: ascending_def image_iff)
  have "c \<in> set (child_list lib (scope_build lib b) s) \<longleftrightarrow>
      ScopeId c \<in> ?S \<and> c \<noteq> sb_next_node_id b" for c
    using index_iff by (auto simp: child_list_def asc f(4) image_iff)
  moreover have "ScopeId c \<in> ?S \<longleftrightarrow> (scope_index s, c) \<in> with_state (builder_edges lib b) (sb_next_node_id b)" for c
    by (simp add: digraph.child_edges [OF assms(1)] f(2))
  ultimately show "set (child_list lib (scope_build lib b) s) = {c. (scope_index s, c) \<in> builder_edges lib b}"
    using tree_edge [OF f(1)] by (auto simp: with_state_def)
  then show "distinct (child_list lib (scope_build lib b) s)"
    by (auto simp: child_list_def ascending_def distinct_map filter_map comp_def intro: inj_onI)
qed

lemma tree_loop_ends:
  assumes dg: "digraph lib" "scope_built lib b" and sg: "sg = scope_build lib b"
    and small: "\<forall>x \<in> owners (map_of fallbacks). x < sb_next_node_id b"
  shows "nodes_inv (builder_edges lib b) (sb_next_node_id b) (map_of fallbacks) nodes \<Longrightarrow>
    stack_inv (builder_edges lib b) (sb_next_node_id b) (map_of fallbacks) nodes stack \<Longrightarrow>
    \<exists>nodes'. tree_loop lib fallbacks sg stack nodes = Some nodes'
      \<and> nodes_inv (builder_edges lib b) (sb_next_node_id b) (map_of fallbacks) nodes'
      \<and> stack_inv (builder_edges lib b) (sb_next_node_id b) (map_of fallbacks) nodes' []"
proof (induction "card (pending (builder_edges lib b) (map (scope_index \<circ> fst) stack))"
    arbitrary: stack nodes rule: less_induct)
  case less
  let ?E = "builder_edges lib b" and ?n = "sb_next_node_id b" and ?fb = "map_of fallbacks"
  note f = scope_graph_facts [OF dg]
  show ?case
  proof (cases stack rule: rev_cases)
    case Nil
    then show ?thesis using less.prems by (simp add: tree_loop.simps)
  next
    case (snoc st top)
    obtain s j where top: "top = (s, j)" by (cases top)
    obtain j' nodes' where v: "visit ?fb s j nodes = (j', nodes')" by (cases "visit ?fb s j nodes")
    let ?st = "st @ map (\<lambda>c. (ScopeId c, j')) (child_list lib sg s)"
    have prems: "stack_inv ?E ?n ?fb nodes (st @ [(s, j)])" using less.prems(2) snoc top by simp
    note step = visit_stack [OF f(1) less.prems(1) prems v child_list_edges [OF dg, folded sg] small]
    have "finite (pending ?E (map (scope_index \<circ> fst) stack))"
      by (rule finite_pending [OF f(1)]) (use less.prems(2) in \<open>auto simp: stack_inv_def\<close>)
    then have "card (pending ?E (map (scope_index \<circ> fst) ?st)) < card (pending ?E (map (scope_index \<circ> fst) stack))"
      using step(3) unfolding snoc top by (rule psubset_card_mono)
    from less.hyps [OF this step(1,2)] show ?thesis
      unfolding snoc top tree_loop_step [OF v] .
  qed
qed

lemma walk_starts:
  assumes t: "scope_tree E n" and root: "fb (ScopeId 0) = Some f" and small: "\<forall>x \<in> owners fb. x < n"
    and cs: "set cs = {c. (0, c) \<in> with_state E n}" "distinct cs"
    and nodes: "nodes = [\<lparr>fn_scope_id = ScopeId 0, fn_fallback_id = f, fn_children_ids = []\<rparr>]"
  shows "nodes_inv E n fb nodes" and "stack_inv E n fb nodes (map (\<lambda>c. (ScopeId c, 0)) cs)"
proof -
  have pos: "0 < n" using t by (simp add: scope_tree_def)
  then show "nodes_inv E n fb nodes" using root by (simp add: nodes_inv_def nodes)
  have scopes: "map (scope_index \<circ> fst) (map (\<lambda>c. (ScopeId c, 0 :: nat)) cs) = cs" by (simp add: comp_def)
  have in_cs: "c = n \<or> (0, c) \<in> E" "0 < c" "c \<le> n" if "c \<in> set cs" for c
    using that cs(1) with_state_less [OF t, of 0 c] by (auto simp: with_state_def)
  have "apart E cs"
    unfolding apart_def
  proof (intro conjI ballI impI)
    fix c d assume cd: "c \<in> set cs" "d \<in> set cs" "(c, d) \<in> E\<^sup>*"
    show "c = d"
    proof (cases "d = n")
      case True
      then show ?thesis using tree_outside [OF t _ cd(3)] by simp
    next
      case False
      then have "(0, d) \<in> E" using in_cs(1) [OF cd(2)] by simp
      then have "c = d \<or> (c, 0) \<in> E\<^sup>*" by (rule tree_up [OF t cd(3)])
      then show ?thesis using tree_le [OF t, of c 0] in_cs(2) [OF cd(1)] by auto
    qed
  qed (rule cs(2))
  moreover have "sc nodes 0 \<notin> pending E cs"
    using tree_le [OF t] in_cs(2) by (fastforce simp: pending_def nodes)
  moreover have "s \<in> pending E cs" if s: "s \<in> owners fb" "s \<noteq> 0" for s
  proof -
    have "(0, s) \<in> E\<^sup>*" using scope_tree_root [OF t] small s(1) by blast
    then obtain c where "(0, c) \<in> E" "(c, s) \<in> E\<^sup>*" using s(2) by (auto elim: converse_rtranclE)
    then show ?thesis using cs(1) by (auto simp: pending_def with_state_def)
  qed
  moreover have "near E (owners fb) c (sc nodes 0)" if "c \<in> set cs" "c < n" for c
    using near_child(1) [OF t, of 0 c] in_cs(1) [OF that(1)] that(2) root by (simp add: nodes)
  ultimately show "stack_inv E n fb nodes (map (\<lambda>c. (ScopeId c, 0)) cs)"
    unfolding stack_inv_def scopes using in_cs(3) by (auto simp: nodes)
qed

section \<open>The search\<close>

lemma innermost_child:
  assumes t: "scope_tree E n" and inv: "nodes_inv E n fb nodes" and all: "stack_inv E n fb nodes []"
    and i: "i < length nodes" "(sc nodes i, r) \<in> E\<^sup>*"
    and x: "x \<in> owners fb" "(x, r) \<in> E\<^sup>*" "(x, sc nodes i) \<notin> E\<^sup>*"
  shows "\<exists>k \<in> set (fn_children_ids (nodes ! i)). (sc nodes k, r) \<in> E\<^sup>*"
  using x
proof (induction x rule: less_induct)
  case (less x)
  let ?q = "sc nodes i"
  have "x \<noteq> 0"
  proof
    assume "x = 0"
    moreover have "(0, ?q) \<in> E\<^sup>*" using scope_tree_root [OF t] inv i(1) by (auto simp: nodes_inv_def)
    ultimately show False using less.prems(3) by simp
  qed
  then obtain j k where jk: "j < length nodes" "k \<in> set (fn_children_ids (nodes ! j))" "sc nodes k = x"
    using all less.prems(1) by (auto simp: stack_inv_def pending_def)
  then have near: "near E (owners fb) x (sc nodes j)" using inv unfolding nodes_inv_def by blast
  have q: "?q \<in> owners fb" using inv i(1) by (cases "fn_scope_id (nodes ! i)") (auto simp: nodes_inv_def)
  have below: "(?q, x) \<in> E\<^sup>+"
    using tree_chain [OF t i(2) less.prems(2)] less.prems(3) by (auto dest: rtranclD)
  then have up: "(?q, sc nodes j) \<in> E\<^sup>*" using near q by (simp add: near_def)
  have j: "sc nodes j \<in> owners fb" "(sc nodes j, x) \<in> E\<^sup>+" using near by (simp_all add: near_def)
  show ?case
  proof (cases "sc nodes j = ?q")
    case True
    then have "j = i" using inv jk(1) i(1) unfolding nodes_inv_def by blast
    then show ?thesis using jk less.prems(2) by blast
  next
    case False
    then have "(sc nodes j, ?q) \<notin> E\<^sup>*" using up tree_le [OF t] by (meson antisym)
    moreover have "(sc nodes j, r) \<in> E\<^sup>*" using j(2) less.prems(2) by (meson rtrancl_trans trancl_into_rtrancl)
    moreover have "sc nodes j < x" using tree_less [OF t j(2)] by simp
    ultimately show ?thesis using less.IH [of "sc nodes j"] j(1) by blast
  qed
qed

lemma find_loop_correct:
  assumes dg: "digraph lib" "scope_built lib b" and sg: "sg = scope_build lib b"
    and inv: "nodes_inv (builder_edges lib b) (sb_next_node_id b) fb nodes"
      "stack_inv (builder_edges lib b) (sb_next_node_id b) fb nodes []"
    and r: "r < sb_next_node_id b"
  shows "i < length nodes \<Longrightarrow> (sc nodes i, r) \<in> (builder_edges lib b)\<^sup>* \<Longrightarrow>
    \<exists>k < length nodes. find_loop lib nodes sg (ScopeId r) (nodes ! i) = Some (fn_fallback_id (nodes ! k))
      \<and> (sc nodes k, r) \<in> (builder_edges lib b)\<^sup>*
      \<and> (\<forall>x \<in> owners fb. (x, r) \<in> (builder_edges lib b)\<^sup>* \<longrightarrow> (x, sc nodes k) \<in> (builder_edges lib b)\<^sup>*)"
proof (induction "sb_next_node_id b - sc nodes i" arbitrary: i rule: less_induct)
  case less
  let ?E = "builder_edges lib b" and ?n = "sb_next_node_id b"
  note f = scope_graph_facts [OF dg]
  have desc: "is_descendant_of lib (ScopeId r) s sg \<longleftrightarrow> (scope_index s, r) \<in> ?E\<^sup>*" for s
    using with_state_below [OF f(1) _ r] with_state_mono [of "scope_index s" r ?E ?n]
    by (auto simp: sg digraph.descendant_edges [OF dg(1)] f(2))
  show ?case
  proof (cases "fn_scope_id (nodes ! i) = ScopeId r")
    case True
    then have "find_loop lib nodes sg (ScopeId r) (nodes ! i) = Some (fn_fallback_id (nodes ! i))"
      by (simp add: find_loop.simps)
    then show ?thesis using less.prems True by (intro exI [of _ i]) simp
  next
    case other: False
    show ?thesis
    proof (cases "find (\<lambda>i. is_descendant_of lib (ScopeId r) (fn_scope_id (nodes ! i)) sg) (fn_children_ids (nodes ! i))")
      case None
      then have "find_loop lib nodes sg (ScopeId r) (nodes ! i) = Some (fn_fallback_id (nodes ! i))"
        using other by (simp add: find_loop.simps)
      moreover have "\<forall>k \<in> set (fn_children_ids (nodes ! i)). (sc nodes k, r) \<notin> ?E\<^sup>*"
        using None by (auto simp: find_None_iff desc)
      ultimately show ?thesis using innermost_child [OF f(1) inv less.prems] less.prems by blast
    next
      case (Some k)
      then have k: "k \<in> set (fn_children_ids (nodes ! i))" "(sc nodes k, r) \<in> ?E\<^sup>*"
        by (auto simp: find_Some_iff desc)
      then have "k < length nodes" "near ?E (owners fb) (sc nodes k) (sc nodes i)"
        using inv(1) less.prems(1) unfolding nodes_inv_def by blast+
      then have kn: "k < length nodes" "sc nodes i < sc nodes k \<and> sc nodes k < ?n"
        using tree_less [OF f(1), of "sc nodes i" "sc nodes k"] by (simp_all add: near_def)
      have "find_loop lib nodes sg (ScopeId r) (nodes ! i) = find_loop lib nodes sg (ScopeId r) (nodes ! k)"
        using other Some by (subst find_loop.simps) simp
      moreover have "?n - sc nodes k < ?n - sc nodes i" using kn(2) by linarith
      ultimately show ?thesis using less.hyps [of k] kn(1) k(2) by simp
    qed
  qed
qed

section \<open>The nearest fallback\<close>

lemma tree_fallbacks:
  assumes "digraph lib" and "scope_built lib b" and "sg = scope_build lib b"
    and "\<forall>x. map_of fallbacks (ScopeId x) \<noteq> None \<longrightarrow> x < sb_next_node_id b"
    and Some: "map_of fallbacks (sg_root sg) = Some f"
  shows "\<exists>nodes. tree_new lib fallbacks sg = Some (Inr nodes) \<and>
        (\<forall>r < sb_next_node_id b. \<exists>s i. find_fallback_id lib nodes sg (ScopeId r) = Some i
           \<and> map_of fallbacks s = Some i \<and> is_descendant_of lib (ScopeId r) s sg
           \<and> (\<forall>s'. map_of fallbacks s' \<noteq> None \<longrightarrow> is_descendant_of lib (ScopeId r) s' sg
                \<longrightarrow> is_descendant_of lib s s' sg))"
proof -
  let ?E = "builder_edges lib b" and ?n = "sb_next_node_id b" and ?fb = "map_of fallbacks"
  note g = scope_graph_facts [OF assms(1,2)]
  have root: "sg_root sg = ScopeId 0" by (simp add: assms(3) g(3) scope_root_def)
  have small: "\<forall>x \<in> owners ?fb. x < ?n" using assms(4) by simp
  let ?cs = "sorted_list_of_set (scope_index ` direct_children_ids lib (sg_root sg) sg)"
  let ?nodes = "[\<lparr>fn_scope_id = ScopeId 0, fn_fallback_id = f, fn_children_ids = []\<rparr>]"
  have "finite (scope_index ` direct_children_ids lib (sg_root sg) sg)" by (simp add: direct_children_ids_def)
  moreover have "c \<in> scope_index ` direct_children_ids lib (sg_root sg) sg \<longleftrightarrow> (0, c) \<in> with_state ?E ?n" for c
  proof -
    have "ScopeId c \<in> direct_children_ids lib (sg_root sg) sg \<longleftrightarrow> (0, c) \<in> with_state ?E ?n"
      by (simp add: digraph.child_edges [OF assms(1)] root) (simp add: assms(3) g(2))
    moreover have "c = scope_index x \<longleftrightarrow> x = ScopeId c" for x by (cases x) auto
    ultimately show ?thesis by (simp add: image_iff)
  qed
  ultimately have cs: "set ?cs = {c. (0, c) \<in> with_state ?E ?n}" "distinct ?cs" by auto
  note start = walk_starts [OF g(1) Some [unfolded root] small cs refl]
  obtain nodes where nodes: "tree_loop lib fallbacks sg (map (\<lambda>c. (ScopeId c, 0)) ?cs) ?nodes = Some nodes"
      "nodes_inv ?E ?n ?fb nodes" "stack_inv ?E ?n ?fb nodes []"
    using tree_loop_ends [OF assms(1-3) small start] by blast
  have "tree_new lib fallbacks sg = Some (Inr nodes)"
    using nodes(1) Some by (simp add: tree_new_def ascending_def root comp_def)
  moreover have "\<exists>s i. find_fallback_id lib nodes sg (ScopeId r) = Some i
           \<and> ?fb s = Some i \<and> is_descendant_of lib (ScopeId r) s sg
           \<and> (\<forall>s'. ?fb s' \<noteq> None \<longrightarrow> is_descendant_of lib (ScopeId r) s' sg \<longrightarrow> is_descendant_of lib s s' sg)"
    if r: "r < ?n" for r
  proof -
    have desc: "is_descendant_of lib x s sg \<longleftrightarrow> (scope_index s, scope_index x) \<in> ?E\<^sup>*" if "scope_index x < ?n" for x s
      using with_state_below [OF g(1) _ that] with_state_mono [of "scope_index s" "scope_index x" ?E ?n]
      by (auto simp: assms(3) digraph.descendant_edges [OF assms(1)] g(2))
    have z: "0 < length nodes" "sc nodes 0 = 0" using nodes(2) by (auto simp: nodes_inv_def)
    have "(sc nodes 0, r) \<in> ?E\<^sup>*" using scope_tree_root [OF g(1) r] z(2) by simp
    from find_loop_correct [OF assms(1-3) nodes(2,3) r z(1) this]
    obtain k where k: "k < length nodes" "find_fallback_id lib nodes sg (ScopeId r) = Some (fn_fallback_id (nodes ! k))"
        "(sc nodes k, r) \<in> ?E\<^sup>*" "\<forall>x \<in> owners ?fb. (x, r) \<in> ?E\<^sup>* \<longrightarrow> (x, sc nodes k) \<in> ?E\<^sup>*"
      by (auto simp: find_fallback_id_def)
    have kn: "?fb (fn_scope_id (nodes ! k)) = Some (fn_fallback_id (nodes ! k))" "sc nodes k < ?n"
      using nodes(2) k(1) by (simp_all add: nodes_inv_def)
    have "(scope_index s', sc nodes k) \<in> ?E\<^sup>*" if "?fb s' \<noteq> None" "(scope_index s', r) \<in> ?E\<^sup>*" for s'
      using k(4) that by (cases s') auto
    with k kn show ?thesis using desc [of "ScopeId r"] desc [of "fn_scope_id (nodes ! k)"] r by fastforce
  qed
  ultimately show ?thesis by blast
qed

text \<open>C39: If the root scope has a fallback, the tree of fallbacks is built without a panic, and the
  search in it returns, for every scope but the one of the application state, the fallback of
  the innermost scope around it that has one. If the root scope has none, building the tree
  panics.\<close>

theorem nearest_fallback_found:
  assumes "digraph lib" and "scope_built lib b" and "sg = scope_build lib b"
    and "\<forall>x. map_of fallbacks (ScopeId x) \<noteq> None \<longrightarrow> x < sb_next_node_id b"
  shows "(map_of fallbacks (sg_root sg) = None \<longrightarrow> (\<exists>e. tree_new lib fallbacks sg = Some (Inl (Panicked e))))
    \<and> (map_of fallbacks (sg_root sg) \<noteq> None \<longrightarrow>
      (\<exists>nodes. tree_new lib fallbacks sg = Some (Inr nodes) \<and>
        (\<forall>r < sb_next_node_id b. \<exists>s i. find_fallback_id lib nodes sg (ScopeId r) = Some i
           \<and> map_of fallbacks s = Some i \<and> is_descendant_of lib (ScopeId r) s sg
           \<and> (\<forall>s'. map_of fallbacks s' \<noteq> None \<longrightarrow> is_descendant_of lib (ScopeId r) s' sg
                \<longrightarrow> is_descendant_of lib s s' sg))))"
  using tree_fallbacks [OF assms] by (cases "map_of fallbacks (sg_root sg)") (simp_all add: tree_new_def)

theorem nearest_fallback_found_witness:
  "\<exists>nodes. tree_new list_graph_lib [(ScopeId 0, 7), (ScopeId 1, 8)] (scope_build list_graph_lib ex_builder) = Some (Inr nodes)
    \<and> (\<exists>s i. find_fallback_id list_graph_lib nodes (scope_build list_graph_lib ex_builder) (ScopeId 3) = Some i
        \<and> map_of [(ScopeId 0, 7), (ScopeId 1, 8)] s = Some i)"
proof -
  let ?f = "[(ScopeId 0, 7), (ScopeId 1, 8)]" and ?sg = "scope_build list_graph_lib ex_builder"
  have root: "map_of ?f (sg_root ?sg) \<noteq> None"
    using scope_graph_facts(3) [OF ex_scope_built] by (simp add: scope_root_def)
  have small: "\<forall>x. map_of ?f (ScopeId x) \<noteq> None \<longrightarrow> x < sb_next_node_id ex_builder"
    by (simp add: ex_builder_next)
  from nearest_fallback_found [OF ex_scope_built refl small] root obtain nodes where nodes:
    "tree_new list_graph_lib ?f ?sg = Some (Inr nodes)"
    "\<forall>r < sb_next_node_id ex_builder. \<exists>s i. find_fallback_id list_graph_lib nodes ?sg (ScopeId r) = Some i
       \<and> map_of ?f s = Some i" by blast
  have "3 < sb_next_node_id ex_builder" by (simp add: ex_builder_next)
  with nodes show ?thesis by blast
qed

end
