(* ===== verification/Router_Checks.thy ===== *)
theory Router_Checks
  imports Path_Matching Request_Routing Fallback_Tree_Properties
begin

text \<open>
  What each check and each loop of the construction of a router establishes: which handlers
  conflict, which paths are accepted, which fallback a handler is given, and what the leaves of
  the router hold.
\<close>

section \<open>Handlers of a path\<close>

definition route_at :: "('a, 'b, 'g) registry_libs \<Rightarrow> ('a, 'b) auxiliary_data \<Rightarrow> nat \<Rightarrow> string
    \<Rightarrow> bp_method_guard \<Rightarrow> bool" where
  "route_at libs aux i p g \<longleftrightarrow>
     (\<exists>k. handler_key libs aux i = Some k \<and> rk_path k = p \<and> rk_method_guard k = g)"

definition handlers_at :: "('a, 'b, 'g) registry_libs \<Rightarrow> ('a, 'b) auxiliary_data \<Rightarrow> nat list \<Rightarrow> string \<Rightarrow> nat list" where
  "handlers_at libs aux ids p = filter (\<lambda>i. \<exists>g. route_at libs aux i p g) ids"

abbreviation handler_identifiers :: "('a, 'b, 'g) registry_libs \<Rightarrow> ('a, 'b) auxiliary_data \<Rightarrow> nat \<Rightarrow> nat option" where
  "handler_identifiers libs aux i \<equiv> Option.bind (component_at libs aux i) raw_identifiers_id"

lemma route_at_unique: "route_at libs aux i p g \<Longrightarrow> route_at libs aux i q h \<Longrightarrow> p = q \<and> g = h"
  by (auto simp: route_at_def)

lemma handlers_at_append [simp]:
  "handlers_at libs aux (xs @ ys) p = handlers_at libs aux xs p @ handlers_at libs aux ys p"
  by (simp add: handlers_at_def)

section \<open>Conflicts\<close>

definition guards_at :: "('a, 'b, 'g) registry_libs \<Rightarrow> ('a, 'b) auxiliary_data \<Rightarrow> nat list \<Rightarrow> string
    \<Rightarrow> (bp_method_guard \<times> nat) list" where
  "guards_at libs aux ids p =
     concat (map (\<lambda>i. case handler_key libs aux i of
                        Some k \<Rightarrow> if rk_path k = p then [(rk_method_guard k, i)] else []
                      | None \<Rightarrow> []) ids)"

lemma guards_at_set: "(g, i) \<in> set (guards_at libs aux ids p) \<longleftrightarrow> i \<in> set ids \<and> route_at libs aux i p g"
  by (force simp: guards_at_def route_at_def split: option.splits if_splits)

lemma map_of_entry_push:
  "map_of (entry_push k v m) =
     (map_of m)(k \<mapsto> (case map_of m k of None \<Rightarrow> [v] | Some vs \<Rightarrow> vs @ [v]))"
  by (induction m rule: entry_push.induct [of _ k v]) (auto simp: fun_eq_iff)

lemma entry_push_keys: "fst ` set (entry_push k v m) = insert k (fst ` set m)"
  by (induction m rule: entry_push.induct [of _ k v]) auto

lemma entry_push_distinct: "distinct (map fst m) \<Longrightarrow> distinct (map fst (entry_push k v m))"
proof (induction m rule: entry_push.induct [of _ k v])
  case (2 k v k' vs m)
  then show ?case using entry_push_keys [of k v m] by auto
qed simp

lemma group_routes_lookup:
  "distinct (map fst (group_routes libs aux ids)) \<and>
   map_of (group_routes libs aux ids) p =
     (if guards_at libs aux ids p = [] then None else Some (guards_at libs aux ids p))"
proof (induction ids arbitrary: p rule: rev_induct)
  case Nil
  then show ?case by (simp add: group_routes_def guards_at_def)
next
  case (snoc i ids)
  have g: "guards_at libs aux (ids @ [i]) p = guards_at libs aux ids p @
      (case handler_key libs aux i of Some k \<Rightarrow> if rk_path k = p then [(rk_method_guard k, i)] else [] | None \<Rightarrow> [])"
    for p by (simp add: guards_at_def)
  have s: "group_routes libs aux (ids @ [i]) =
      (case handler_key libs aux i of
         None \<Rightarrow> group_routes libs aux ids
       | Some k \<Rightarrow> entry_push (rk_path k) (rk_method_guard k, i) (group_routes libs aux ids))"
    by (simp add: group_routes_def split: option.split)
  show ?case
  proof (cases "handler_key libs aux i")
    case None
    then show ?thesis using snoc.IH [of p] by (simp add: g s)
  next
    case (Some k)
    then show ?thesis
      using snoc.IH [of p] entry_push_distinct [of "group_routes libs aux ids"]
      by (cases "p = rk_path k") (simp_all add: g s map_of_entry_push del: map_of_eq_Some_iff)
  qed
qed

lemma group_routes_set:
  "(p, rs) \<in> set (group_routes libs aux ids) \<longleftrightarrow> rs = guards_at libs aux ids p \<and> rs \<noteq> []"
  using group_routes_lookup [of libs aux ids p] map_of_eq_Some_iff [of "group_routes libs aux ids" p rs]
  by (auto split: if_splits)

lemma unique_by_image: "f ` set (unique_by f seen xs) = f ` set xs - set seen"
  by (induction f seen xs rule: unique_by.induct) auto

lemma unique_by_distinct: "distinct (map f (unique_by f seen xs))"
proof (induction f seen xs rule: unique_by.induct)
  case (2 f seen x xs)
  then show ?case using unique_by_image [of f "f x # seen" xs] by auto
qed simp

lemma unique_by_length: "\<not> 1 < length (unique_by f [] xs) \<longleftrightarrow> (\<forall>x \<in> set xs. \<forall>y \<in> set xs. f x = f y)"
proof -
  let ?u = "unique_by f [] xs"
  have "length ?u = card (f ` set xs)"
    using unique_by_distinct [of f "[]" xs] unique_by_image [of f "[]" xs]
    by (metis Diff_empty distinct_card empty_set length_map set_map)
  moreover have "card (f ` set xs) \<le> 1 \<longleftrightarrow> (\<forall>x \<in> set xs. \<forall>y \<in> set xs. f x = f y)"
    by (simp add: card_le_Suc0_iff_eq)
  ultimately show ?thesis by (simp add: linorder_not_less)
qed

lemma relevant_set:
  "set (fold (\<lambda>(guard, i) relevant. if accepts guard m then index_insert i relevant else relevant) rs acc) =
     set acc \<union> {i. \<exists>g. (g, i) \<in> set rs \<and> accepts g m}"
  by (induction rs arbitrary: acc) (auto split: if_splits)

text \<open>Two handlers that are registered for the same path and a common method are the same item.\<close>

definition agreeing :: "('a, 'b, 'g) registry_libs \<Rightarrow> ('a, 'b) auxiliary_data \<Rightarrow> nat list \<Rightarrow> bool" where
  "agreeing libs aux ids \<longleftrightarrow>
     (\<forall>i \<in> set ids. \<forall>j \<in> set ids. \<forall>p g h m. route_at libs aux i p g \<longrightarrow> route_at libs aux j p h \<longrightarrow>
        m \<in> set well_known_methods \<longrightarrow> accepts g m \<longrightarrow> accepts h m \<longrightarrow>
        handler_identifiers libs aux i = handler_identifiers libs aux j)"

lemma method_conflicts_none: "method_conflicts libs aux ids = [] \<longleftrightarrow> agreeing libs aux ids"
proof -
  have "method_conflicts libs aux ids = [] \<longleftrightarrow>
      (\<forall>(p, rs) \<in> set (group_routes libs aux ids). \<forall>m \<in> set well_known_methods.
         \<not> 1 < length (unique_handlers libs aux rs m))"
    by (auto simp: method_conflicts_def Let_def split_beta)
  also have "\<dots> \<longleftrightarrow> (\<forall>p. \<forall>m \<in> set well_known_methods.
      \<not> 1 < length (unique_handlers libs aux (guards_at libs aux ids p) m))"
  proof -
    have "\<not> 1 < length (unique_handlers libs aux [] m)" for m by (simp add: unique_handlers_def)
    then show ?thesis unfolding Ball_def split_paired_All prod.case group_routes_set by metis
  qed
  also have "\<dots> \<longleftrightarrow> agreeing libs aux ids"
    unfolding unique_handlers_def unique_by_length relevant_set agreeing_def
    by (simp add: guards_at_set) blast
  finally show ?thesis .
qed

lemma detect_method_conflicts_ok:
  "detect_method_conflicts libs aux ids = Some (ds, Inr u) \<longleftrightarrow> ds = [] \<and> agreeing libs aux ids"
  by (auto simp: detect_method_conflicts_def checked_def method_conflicts_none)

section \<open>Accepted paths\<close>

text \<open>The path that a fallback is registered for.\<close>

definition prefix_fallback :: "('a, 'b, 'g) registry_libs \<Rightarrow> ('a, 'b) auxiliary_data \<Rightarrow> nat \<Rightarrow> string \<Rightarrow> bool" where
  "prefix_fallback libs aux i path \<longleftrightarrow> is_fallback libs aux i
     \<and> (\<exists>prefix. fallback_id2path_prefix aux i = Some (Some prefix) \<and> fallback_path prefix = Some path)"

context path_matching
begin

lemma path_loop_accepts:
  assumes "path_loop mt libs aux ids m1 ds1 = (m2, ds2)" and "coherent (routes m1)"
  shows "coherent (routes m2) \<and> (\<exists>new. ds2 = ds1 @ new) \<and> set (routes m1) \<subseteq> set (routes m2)
    \<and> (\<forall>p \<in> fst ` set (routes m2). p \<in> fst ` set (routes m1) \<or> handlers_at libs aux ids p \<noteq> [])
    \<and> (ds2 = ds1 \<longrightarrow> (\<forall>p. handlers_at libs aux ids p \<noteq> [] \<longrightarrow> p \<in> fst ` set (routes m2)))"
  using assms
proof (induction ids arbitrary: m1 ds1)
  case Nil
  then show ?case by (simp add: handlers_at_def)
next
  case (Cons i ids)
  show ?case
  proof (cases "handler_key libs aux i")
    case None
    then have "handlers_at libs aux (i # ids) p = handlers_at libs aux ids p" for p
      by (simp add: handlers_at_def route_at_def)
    then show ?thesis using Cons.IH [OF _ Cons.prems(2), of ds1] Cons.prems(1) None by simp
  next
    case (Some k)
    let ?p = "rk_path k"
    have at: "handlers_at libs aux (i # ids) p = (if p = ?p then [i] else []) @ handlers_at libs aux ids p" for p
      using Some by (auto simp: handlers_at_def route_at_def)
    obtain e m where ins: "mt_insert mt ?p 0 m1 = (e, m)" by fastforce
    have coh: "coherent (routes m)" by (rule insert_coherent [OF Cons.prems(2) ins])
    show ?thesis
    proof (cases e)
      case None
      then have r: "routes m = routes m1 @ [(?p, 0)]" using insert_accepted ins by blast
      have "path_loop mt libs aux ids m ds1 = (m2, ds2)" using Cons.prems(1) Some ins None by simp
      from Cons.IH [OF this coh] show ?thesis unfolding at by (force simp: r)
    next
      case e: (Some e')
      then have r: "routes m = routes m1" and conf: "e' = Conflict ?p \<Longrightarrow> ?p \<in> fst ` set (routes m1)"
        using insert_rejected [of ?p 0 m1 e' m] ins by (auto split: if_splits)
      show ?thesis
      proof (cases "e' = Conflict ?p")
        case True
        then have "path_loop mt libs aux ids m ds1 = (m2, ds2)" using Cons.prems(1) Some ins e by simp
        from Cons.IH [OF this coh] conf [OF True] show ?thesis unfolding at by (auto simp: r)
      next
        case False
        then have "path_loop mt libs aux ids m (ds1 @ [PathConflict ?p i e']) = (m2, ds2)"
          using Cons.prems(1) Some ins e by simp
        from Cons.IH [OF this coh] show ?thesis unfolding at by (auto simp: r)
      qed
    qed
  qed
qed

lemma detect_path_conflicts_ok:
  assumes "detect_path_conflicts mt libs aux ids = Some (ds, Inr m)"
  shows "coherent (routes m) \<and> (\<forall>p. p \<in> fst ` set (routes m) \<longleftrightarrow> handlers_at libs aux ids p \<noteq> [])"
proof -
  obtain m' ds' where l: "path_loop mt libs aux ids (mt_new mt) [] = (m', ds')" by fastforce
  then have "ds' = []" "m' = m"
    using assms by (auto simp: detect_path_conflicts_def checked_def split: if_splits)
  then show ?thesis
    using path_loop_accepts [OF l coherent_new] by (auto simp: routes_new)
qed

definition fallback_inv :: "('a, 'b, 'g) registry_libs \<Rightarrow> ('a, 'b) auxiliary_data \<Rightarrow> 'm fallback_state \<Rightarrow> bool" where
  "fallback_inv libs aux st \<longleftrightarrow> coherent (routes (fs_validation st)) \<and> bt_ok (fs_catch_alls st)
     \<and> set (routes (fs_router st)) = set (fs_catch_alls st)
     \<and> fst ` set (fs_catch_alls st) \<subseteq> fst ` set (routes (fs_validation st))
     \<and> (\<forall>(path, i) \<in> set (fs_catch_alls st). prefix_fallback libs aux i path)"

lemma register_fallback_step:
  assumes inv: "fallback_inv libs aux st" and new: "prefix_fallback libs aux i path"
  shows "valid path \<Longrightarrow> \<exists>st'. register_fallback mt path i st = Inr st'"
    and "register_fallback mt path i st = Inr st' \<Longrightarrow> fallback_inv libs aux st'
      \<and> set (routes (fs_validation st)) \<subseteq> set (routes (fs_validation st'))"
proof -
  obtain e v where ins: "mt_insert mt path 0 (fs_validation st) = (e, v)" by fastforce
  have coh: "coherent (routes v)"
    using insert_coherent [OF _ ins] inv by (simp add: fallback_inv_def)
  have ok: "\<exists>r. mt_insert mt path i (fs_router st) = (None, r) \<and> routes r = routes (fs_router st) @ [(path, i)]"
    if "e = None"
  proof -
    have a: "valid path" "\<forall>q \<in> fst ` set (routes (fs_validation st)). \<not> conflicts path q"
      using insert_accepted ins that by blast+
    moreover have "fst ` set (routes (fs_router st)) \<subseteq> fst ` set (routes (fs_validation st))"
      using inv by (simp add: fallback_inv_def)
    ultimately have "\<forall>q \<in> fst ` set (routes (fs_router st)). \<not> conflicts path q" by blast
    from insert_ok [OF a(1) this] show ?thesis by blast
  qed
  show "\<exists>st'. register_fallback mt path i st = Inr st'" if "valid path"
  proof (cases e)
    case None
    then show ?thesis using ok ins by (auto simp: register_fallback_def)
  next
    case (Some e')
    then have "\<exists>q. e' = Conflict q"
      using insert_rejected [of path 0 "fs_validation st" e' v] ins that by auto
    then show ?thesis using ins Some by (auto simp: register_fallback_def)
  qed
  show "fallback_inv libs aux st' \<and> set (routes (fs_validation st)) \<subseteq> set (routes (fs_validation st'))"
    if reg: "register_fallback mt path i st = Inr st'"
  proof (cases e)
    case None
    then obtain r where r: "mt_insert mt path i (fs_router st) = (None, r)" "routes r = routes (fs_router st) @ [(path, i)]"
      using ok by blast
    have v: "routes v = routes (fs_validation st) @ [(path, 0)]" "valid path"
        "\<forall>q \<in> fst ` set (routes (fs_validation st)). \<not> conflicts path q"
      using insert_accepted ins None by blast+
    have st': "st' = \<lparr>fs_validation = v, fs_router = r, fs_catch_alls = bt_insert path i (fs_catch_alls st)\<rparr>"
      using reg ins r(1) None by (simp add: register_fallback_def)
    have "path \<notin> fst ` set (fs_catch_alls st)"
      using inv v(3) conflicts_self [OF v(2)] unfolding fallback_inv_def by blast
    moreover have bt: "bt_ok (fs_catch_alls st)" using inv by (simp add: fallback_inv_def)
    ultimately have set_cs: "set (bt_insert path i (fs_catch_alls st)) = insert (path, i) (set (fs_catch_alls st))"
      using bt_insert_set [OF bt, of path i] by (auto simp: image_iff)
    show ?thesis
      unfolding fallback_inv_def st' fallback_state.simps set_cs r(2) v(1)
      using inv new coh bt v(1) by (simp add: fallback_inv_def) blast
  next
    case (Some e')
    then obtain q where "e' = Conflict q" using reg ins by (cases e') (auto simp: register_fallback_def)
    then have "st' = st\<lparr>fs_validation := v\<rparr>" using reg ins Some by (simp add: register_fallback_def)
    moreover have "routes v = routes (fs_validation st)" using insert_rejected ins Some by blast
    ultimately show ?thesis using inv by (simp add: fallback_inv_def)
  qed
qed

lemma fallback_loop_inv:
  "fallback_loop mt libs aux ids st = Inr st' \<Longrightarrow> fallback_inv libs aux st \<Longrightarrow> fallback_inv libs aux st'
     \<and> set (routes (fs_validation st)) \<subseteq> set (routes (fs_validation st'))"
proof (induction ids arbitrary: st)
  case (Cons i ids)
  show ?case
  proof (cases "\<exists>path. prefix_fallback libs aux i path")
    case True
    then obtain path prefix where p: "is_fallback libs aux i" "fallback_id2path_prefix aux i = Some (Some prefix)"
        "fallback_path prefix = Some path" "prefix_fallback libs aux i path"
      by (auto simp: prefix_fallback_def)
    then obtain st2 where st2: "register_fallback mt path i st = Inr st2" "fallback_loop mt libs aux ids st2 = Inr st'"
      using Cons.prems(1) by (auto split: sum.splits)
    from register_fallback_step(2) [OF Cons.prems(2) p(4) st2(1)] Cons.IH [OF st2(2)] show ?thesis by blast
  next
    case False
    then have "fallback_loop mt libs aux ids st = Inr st'"
      using Cons.prems(1) by (auto simp: prefix_fallback_def index_panic_def split: if_splits option.splits)
    then show ?thesis using Cons.IH Cons.prems(2) by blast
  qed
qed simp

lemma fallback_loop_ok:
  assumes "\<forall>i \<in> set ids. is_fallback libs aux i \<longrightarrow> fallback_id2path_prefix aux i \<noteq> None"
    and "\<forall>i \<in> set ids. \<forall>path. prefix_fallback libs aux i path \<longrightarrow> valid path"
  shows "fallback_inv libs aux st \<Longrightarrow> \<exists>st'. fallback_loop mt libs aux ids st = Inr st'"
  using assms
proof (induction ids arbitrary: st)
  case (Cons i ids)
  show ?case
  proof (cases "\<exists>path. prefix_fallback libs aux i path")
    case True
    then obtain path prefix where p: "is_fallback libs aux i" "fallback_id2path_prefix aux i = Some (Some prefix)"
        "fallback_path prefix = Some path" "prefix_fallback libs aux i path"
      by (auto simp: prefix_fallback_def)
    then obtain st2 where st2: "register_fallback mt path i st = Inr st2"
      using register_fallback_step(1) [OF Cons.prems(1) p(4)] Cons.prems(3) by auto
    then have "fallback_inv libs aux st2" using register_fallback_step(2) [OF Cons.prems(1) p(4)] by blast
    then have "\<exists>st'. fallback_loop mt libs aux ids st2 = Inr st'"
      using Cons.IH Cons.prems(2,3) by simp
    then show ?thesis using p st2 by auto
  next
    case False
    then have "fallback_loop mt libs aux (i # ids) st = fallback_loop mt libs aux ids st"
      using Cons.prems(2) by (auto simp: prefix_fallback_def split: option.split)
    then show ?thesis using Cons by auto
  qed
qed simp

end

section \<open>Assigned fallbacks\<close>

definition scope_fallback :: "('a, 'b, 'g) registry_libs \<Rightarrow> ('a, 'b) auxiliary_data
    \<Rightarrow> ('g, location) scope_graph \<Rightarrow> fallback_node list \<Rightarrow> nat \<Rightarrow> nat \<Rightarrow> bool" where
  "scope_fallback libs aux sg tree i f \<longleftrightarrow>
     (\<exists>s. id2scope_id aux i = Some s \<and> find_fallback_id (lib_graph libs) tree sg s = Some f)"

lemma choose_fallback_scope: "choose_fallback libs aux sg p s = Inr (Some f) \<Longrightarrow> f = s"
  by (auto simp: choose_fallback_def split: option.splits if_splits sum.splits)

lemma assign_loop_correct:
  assumes "assign_loop mt router tree libs aux sg ids assigned ds = Some (ds', Inr assigned')"
    and "bt_ok assigned" and "\<forall>(i, f) \<in> set assigned. scope_fallback libs aux sg tree i f"
  shows "bt_ok assigned' \<and> (\<forall>(i, f) \<in> set assigned'. scope_fallback libs aux sg tree i f)
    \<and> (\<exists>new. ds' = ds @ new) \<and> fst ` set assigned \<subseteq> fst ` set assigned'
    \<and> (ds' = ds \<longrightarrow> (\<forall>i \<in> set ids. handler_key libs aux i \<noteq> None \<longrightarrow> i \<in> fst ` set assigned'))"
  using assms
proof (induction ids arbitrary: assigned ds)
  case (Cons i ids)
  show ?case
  proof (cases "handler_key libs aux i")
    case None
    then show ?thesis using Cons.IH [OF _ Cons.prems(2,3), of ds] Cons.prems(1) by simp
  next
    case (Some k)
    let ?at = "mt_at mt router (rk_path k)"
    obtain s f where s: "id2scope_id aux i = Some s" "find_fallback_id (lib_graph libs) tree sg s = Some f"
      using Cons.prems(1) Some by (auto simp: index_panic_def split: option.splits)
    obtain c where c: "choose_fallback libs aux sg ?at f = Inr c"
      using Cons.prems(1) Some s by (auto split: sum.splits)
    show ?thesis
    proof (cases c)
      case None
      then have "assign_loop mt router tree libs aux sg ids assigned (ds @ [FallbackAmbiguity f (the ?at) i]) =
          Some (ds', Inr assigned')"
        using Cons.prems(1) Some s c by simp
      from Cons.IH [OF this Cons.prems(2,3)] show ?thesis by auto
    next
      case (Some g)
      then have g: "g = f" using c choose_fallback_scope by blast
      have l: "assign_loop mt router tree libs aux sg ids (bt_insert i f assigned) ds = Some (ds', Inr assigned')"
        using Cons.prems(1) \<open>handler_key libs aux i = Some k\<close> s c Some g by simp
      have "\<forall>(j, e) \<in> set (bt_insert i f assigned). scope_fallback libs aux sg tree j e"
        using Cons.prems(2,3) s
        by (auto simp: bt_insert_set scope_fallback_def)
      moreover have "fst ` set (bt_insert i f assigned) = insert i (fst ` set assigned)"
        using bt_insert_keys [of i f assigned] by simp
      ultimately show ?thesis using Cons.IH [OF l] Cons.prems(2) by auto
    qed
  qed
qed simp

lemma assign_fallbacks_ok:
  assumes "assign_fallbacks mt m tree libs aux sg ids = Some (ds, Inr (assigned, catch_alls))"
  obtains st where "fallback_loop mt libs aux ids
      \<lparr>fs_validation = m, fs_router = mt_new mt, fs_catch_alls = []\<rparr> = Inr st"
    and "catch_alls = fs_catch_alls st" and "ds = []"
    and "bt_ok assigned" and "\<forall>(i, f) \<in> set assigned. scope_fallback libs aux sg tree i f"
    and "\<forall>i \<in> set ids. handler_key libs aux i \<noteq> None \<longrightarrow> i \<in> fst ` set assigned"
proof -
  obtain st where st: "fallback_loop mt libs aux ids
      \<lparr>fs_validation = m, fs_router = mt_new mt, fs_catch_alls = []\<rparr> = Inr st"
    using assms by (auto simp: assign_fallbacks_def silently_def routing_bind_def split: sum.splits)
  then have l: "assign_loop mt (fs_router st) tree libs aux sg ids [] [] = Some ([], Inr assigned)"
      and "catch_alls = fs_catch_alls st" "ds = []"
    using assms by (auto simp: assign_fallbacks_def silently_def routing_bind_def checked_def
        split: option.splits sum.splits if_splits prod.splits)
  with assign_loop_correct [OF l] st that show ?thesis by auto
qed

end
