(* ===== verification/Router_Dispatch.thy ===== *)
theory Router_Dispatch
  imports Router_Checks
begin

text \<open>
  The leaves of a router, and what the generated code does with them: starting the server
  succeeds, and every request is answered by the leaf of a template that matches its path.
\<close>

section \<open>Leaves\<close>

definition leaf_of :: "('a, 'b, 'g) registry_libs \<Rightarrow> ('a, 'b) auxiliary_data \<Rightarrow> (nat \<times> nat) list
    \<Rightarrow> nat list \<Rightarrow> string \<Rightarrow> leaf_router \<Rightarrow> bool" where
  "leaf_of libs aux assigned ids p leaf \<longleftrightarrow> bt_ok (lr_handler_id2methods leaf)
     \<and> (\<forall>(j, ms) \<in> set (lr_handler_id2methods leaf). j \<in> set ids \<and> route_at libs aux j p (SomeMethods ms))
     \<and> (\<forall>j \<in> set ids. \<forall>ms. route_at libs aux j p (SomeMethods ms) \<longrightarrow>
          (j, ms) \<in> set (lr_handler_id2methods leaf) \<or> (\<exists>h \<in> set ids. route_at libs aux h p AnyMethod))
     \<and> (if \<exists>h \<in> set ids. route_at libs aux h p AnyMethod
        then lr_fallback_id leaf \<in> set ids \<and> route_at libs aux (lr_fallback_id leaf) p AnyMethod
        else map_of assigned (hd (handlers_at libs aux ids p)) = Some (lr_fallback_id leaf))"

definition leaves_of :: "('a, 'b, 'g) registry_libs \<Rightarrow> ('a, 'b) auxiliary_data \<Rightarrow> (nat \<times> nat) list
    \<Rightarrow> nat list \<Rightarrow> (string \<times> leaf_router) list \<Rightarrow> bool" where
  "leaves_of libs aux assigned ids leaves \<longleftrightarrow> bt_ok leaves \<and>
     (\<forall>p. if handlers_at libs aux ids p = [] then map_of leaves p = None
          else \<exists>leaf. map_of leaves p = Some leaf \<and> leaf_of libs aux assigned ids p leaf)"

lemma leaves_of_other:
  assumes "\<And>g. \<not> route_at libs aux i p g"
  shows "handlers_at libs aux (ids @ [i]) p = handlers_at libs aux ids p"
    and "leaf_of libs aux assigned (ids @ [i]) p leaf \<longleftrightarrow> leaf_of libs aux assigned ids p leaf"
proof -
  show h: "handlers_at libs aux (ids @ [i]) p = handlers_at libs aux ids p"
    using assms by (simp add: handlers_at_def)
  have any: "(\<exists>h \<in> set (ids @ [i]). route_at libs aux h p AnyMethod) \<longleftrightarrow> (\<exists>h \<in> set ids. route_at libs aux h p AnyMethod)"
    using assms by auto
  have mem: "j \<in> set (ids @ [i]) \<and> route_at libs aux j p g \<longleftrightarrow> j \<in> set ids \<and> route_at libs aux j p g" for j g
    using assms by auto
  show "leaf_of libs aux assigned (ids @ [i]) p leaf \<longleftrightarrow> leaf_of libs aux assigned ids p leaf"
    unfolding leaf_of_def h any mem using assms by simp
qed

lemma leaf_of_any:
  assumes "route_at libs aux i p AnyMethod"
  shows "leaf_of libs aux assigned (ids @ [i]) p (leaf_new i)"
  using assms by (auto simp: leaf_of_def leaf_new_def)

lemma leaf_of_some:
  assumes i: "route_at libs aux i p (SomeMethods ms)"
    and leaf: "handlers_at libs aux ids p = [] \<Longrightarrow> map_of assigned i = Some (lr_fallback_id leaf) \<and> lr_handler_id2methods leaf = []"
      "handlers_at libs aux ids p \<noteq> [] \<Longrightarrow> leaf_of libs aux assigned ids p leaf"
  shows "leaf_of libs aux assigned (ids @ [i]) p
    (leaf\<lparr>lr_handler_id2methods := bt_insert i ms (lr_handler_id2methods leaf)\<rparr>)"
proof -
  have not_any: "\<not> route_at libs aux i p AnyMethod" using i route_at_unique by blast
  have only: "route_at libs aux i p (SomeMethods ms') \<longleftrightarrow> ms' = ms" for ms' using i route_at_unique by blast
  have any: "(\<exists>h \<in> set (ids @ [i]). route_at libs aux h p AnyMethod) \<longleftrightarrow> (\<exists>h \<in> set ids. route_at libs aux h p AnyMethod)"
    using not_any by auto
  have hd: "handlers_at libs aux (ids @ [i]) p = handlers_at libs aux ids p @ [i]"
    using i by (auto simp: handlers_at_def)
  show ?thesis
  proof (cases "handlers_at libs aux ids p = []")
    case True
    then have none: "\<not> route_at libs aux j p g" if "j \<in> set ids" for j g
      using that by (auto simp: handlers_at_def filter_empty_conv)
    show ?thesis
      unfolding leaf_of_def any hd using leaf(1) [OF True] i True none only by (auto simp: bt_ok_def)
  next
    case False
    note l = leaf(2) [OF False]
    have ok: "bt_ok (lr_handler_id2methods leaf)" using l by (simp add: leaf_of_def)
    let ?hs = "lr_handler_id2methods leaf" and ?any = "\<exists>h \<in> set ids. route_at libs aux h p AnyMethod"
    have old: "\<forall>(j, ms) \<in> set ?hs. j \<in> set ids \<and> route_at libs aux j p (SomeMethods ms)"
        "\<forall>j \<in> set ids. \<forall>ms. route_at libs aux j p (SomeMethods ms) \<longrightarrow> (j, ms) \<in> set ?hs \<or> ?any"
        "if ?any then lr_fallback_id leaf \<in> set ids \<and> route_at libs aux (lr_fallback_id leaf) p AnyMethod
         else map_of assigned (hd (handlers_at libs aux ids p)) = Some (lr_fallback_id leaf)"
      using l unfolding leaf_of_def by blast+
    have 1: "\<forall>(j, ms') \<in> set (bt_insert i ms ?hs). j \<in> set (ids @ [i]) \<and> route_at libs aux j p (SomeMethods ms')"
      using old(1) i by (auto simp: bt_insert_set [OF ok])
    have 2: "(j, ms') \<in> set (bt_insert i ms ?hs) \<or> ?any"
      if "j \<in> set (ids @ [i])" "route_at libs aux j p (SomeMethods ms')" for j ms'
    proof (cases "j = i")
      case True
      then show ?thesis using that(2) only by (simp add: bt_insert_set [OF ok])
    next
      case j: False
      then show ?thesis using that old(2) by (auto simp: bt_insert_set [OF ok])
    qed
    have 3: "if ?any then lr_fallback_id leaf \<in> set (ids @ [i]) \<and> route_at libs aux (lr_fallback_id leaf) p AnyMethod
        else map_of assigned (hd (handlers_at libs aux ids p @ [i])) = Some (lr_fallback_id leaf)"
      using old(3) False by (simp add: if_bool_eq_conj)
    have upd: "lr_handler_id2methods (leaf\<lparr>lr_handler_id2methods := hs\<rparr>) = hs"
        "lr_fallback_id (leaf\<lparr>lr_handler_id2methods := hs\<rparr>) = lr_fallback_id leaf" for hs by simp_all
    show ?thesis
      unfolding leaf_of_def any hd upd
    proof (intro conjI)
      show "bt_ok (bt_insert i ms ?hs)" using ok by simp
      show "\<forall>j \<in> set (ids @ [i]). \<forall>ms'. route_at libs aux j p (SomeMethods ms') \<longrightarrow>
          (j, ms') \<in> set (bt_insert i ms ?hs) \<or> ?any" using 2 by blast
    qed (rule 1, rule 3)
  qed
qed

lemma leaf_loop_leaves:
  assumes "leaf_loop assigned libs aux ids leaves = Inr leaves'" and "leaves_of libs aux assigned done leaves"
  shows "leaves_of libs aux assigned (done @ ids) leaves'"
  using assms
proof (induction ids arbitrary: leaves "done")
  case (Cons i ids)
  have bt: "bt_ok leaves" using Cons.prems(2) by (simp add: leaves_of_def)
  show ?case
  proof (cases "handler_key libs aux i")
    case None
    then have "leaves_of libs aux assigned (done @ [i]) leaves"
      using Cons.prems(2) leaves_of_other [of libs aux i] by (simp add: leaves_of_def route_at_def)
    then show ?thesis using Cons.IH [of leaves "done @ [i]"] Cons.prems(1) None by simp
  next
    case (Some k)
    let ?p = "rk_path k"
    have other: "\<not> route_at libs aux i q g" if "q \<noteq> ?p" for q g using that Some by (simp add: route_at_def)
    have at: "handlers_at libs aux (done @ [i]) ?p \<noteq> []" using Some by (simp add: handlers_at_def route_at_def)
    have step: "leaves_of libs aux assigned (done @ [i]) (bt_insert ?p leaf leaves)"
      if "leaf_of libs aux assigned (done @ [i]) ?p leaf" for leaf
      unfolding leaves_of_def
    proof (intro conjI allI)
      show "bt_ok (bt_insert ?p leaf leaves)" using bt by simp
      show "if handlers_at libs aux (done @ [i]) q = [] then map_of (bt_insert ?p leaf leaves) q = None
          else \<exists>l. map_of (bt_insert ?p leaf leaves) q = Some l \<and> leaf_of libs aux assigned (done @ [i]) q l" for q
      proof (cases "q = ?p")
        case True
        then show ?thesis using that at bt by simp
      next
        case False
        then show ?thesis
          using Cons.prems(2) bt leaves_of_other [OF other [OF False]] by (simp add: leaves_of_def)
      qed
    qed
    show ?thesis
    proof (cases "rk_method_guard k")
      case AnyMethod
      then have "route_at libs aux i ?p AnyMethod" using Some by (simp add: route_at_def)
      from step [OF leaf_of_any [OF this]] show ?thesis
        using Cons.IH [of "bt_insert ?p (leaf_new i) leaves" "done @ [i]"] Cons.prems(1) Some AnyMethod by simp
    next
      case (SomeMethods ms)
      then have r: "route_at libs aux i ?p (SomeMethods ms)" using Some by (simp add: route_at_def)
      obtain leaf where leaf: "(case map_of leaves ?p of
              Some leaf \<Rightarrow> Inr leaf
            | None \<Rightarrow> (case map_of assigned i of None \<Rightarrow> index_panic | Some f \<Rightarrow> Inr (leaf_new f))) = Inr leaf"
          and rest: "leaf_loop assigned libs aux ids
            (bt_insert ?p (leaf\<lparr>lr_handler_id2methods := bt_insert i ms (lr_handler_id2methods leaf)\<rparr>) leaves) = Inr leaves'"
        using Cons.prems(1) Some SomeMethods by (auto split: sum.splits)
      have "leaf_of libs aux assigned (done @ [i]) ?p
          (leaf\<lparr>lr_handler_id2methods := bt_insert i ms (lr_handler_id2methods leaf)\<rparr>)"
      proof (rule leaf_of_some [OF r])
        assume "handlers_at libs aux done ?p = []"
        then have "map_of leaves ?p = None" using Cons.prems(2) by (metis leaves_of_def)
        then show "map_of assigned i = Some (lr_fallback_id leaf) \<and> lr_handler_id2methods leaf = []"
          using leaf by (auto simp: leaf_new_def index_panic_def split: option.splits)
      next
        assume "handlers_at libs aux done ?p \<noteq> []"
        then show "leaf_of libs aux assigned done ?p leaf"
          using Cons.prems(2) leaf unfolding leaves_of_def by (metis Inr_inject option.simps(5))
      qed
      from Cons.IH [OF rest step [OF this]] show ?thesis by simp
    qed
  qed
qed simp

lemma leaf_loop_ok:
  assumes "\<forall>i \<in> set ids. handler_key libs aux i \<noteq> None \<longrightarrow> i \<in> fst ` set assigned"
  shows "\<exists>leaves'. leaf_loop assigned libs aux ids leaves = Inr leaves'"
  using assms
proof (induction ids arbitrary: leaves)
  case (Cons i ids)
  then have "\<exists>leaves'. leaf_loop assigned libs aux ids l = Inr leaves'" for l by simp
  moreover have "map_of assigned i \<noteq> None" if "handler_key libs aux i \<noteq> None"
    using Cons.prems that by (simp add: map_of_eq_None_iff)
  ultimately show ?case by (auto split: option.split bp_method_guard.split sum.split)
qed simp

section \<open>The router of a domain\<close>

lemma add_catch_alls_lookup:
  "bt_ok leaves \<Longrightarrow> bt_ok (add_catch_alls cs leaves)
     \<and> (\<forall>p leaf. map_of leaves p = Some leaf \<longrightarrow> map_of (add_catch_alls cs leaves) p = Some leaf)
     \<and> (\<forall>p. map_of leaves p = None \<longrightarrow> map_of (add_catch_alls cs leaves) p = map_option leaf_new (map_of cs p))"
proof (induction cs arbitrary: leaves)
  case Nil
  then show ?case by (simp add: add_catch_alls_def)
next
  case (Cons c cs)
  obtain p f where c: "c = (p, f)" by (cases c)
  let ?l = "bt_entry p (leaf_new f) (\<lambda>leaf. leaf) leaves"
  have s: "add_catch_alls (c # cs) leaves = add_catch_alls cs ?l" by (simp add: add_catch_alls_def c)
  have "bt_ok ?l" using Cons.prems by simp
  note IH = Cons.IH [OF this]
  have l: "map_of ?l q = (if q = p then Some (case map_of leaves p of None \<Rightarrow> leaf_new f | Some v \<Rightarrow> v) else map_of leaves q)" for q
    using Cons.prems by simp
  show ?case
    unfolding s
  proof (intro conjI allI impI)
    show "bt_ok (add_catch_alls cs ?l)" using IH by blast
    show "map_of (add_catch_alls cs ?l) q = Some leaf" if "map_of leaves q = Some leaf" for q leaf
      using IH that l [of q] by (cases "q = p") simp_all
    show "map_of (add_catch_alls cs ?l) q = map_option leaf_new (map_of (c # cs) q)" if "map_of leaves q = None" for q
      using IH that l [of q] by (cases "q = p") (simp_all add: c)
  qed
qed

text \<open>How a router came about.\<close>

lemma routing_bind_Inr:
  "routing_bind x f = Some (ds, Inr b) \<longleftrightarrow>
     (\<exists>ds1 a ds2. x = Some (ds1, Inr a) \<and> f a = Some (ds2, Inr b) \<and> ds = ds1 @ ds2)"
  by (auto simp: routing_bind_def split: option.splits prod.splits sum.splits)

lemma silently_Inr: "silently r = Some (ds, Inr a) \<longleftrightarrow> ds = [] \<and> r = Inr a"
  by (auto simp: silently_def)

lemma loop_value_Inr: "loop_value x = Some (ds, Inr a) \<longleftrightarrow> ds = [] \<and> x = Some a"
  by (auto simp: loop_value_def)

lemmas routing_simps = routing_bind_Inr silently_Inr loop_value_Inr

context path_matching
begin

text \<open>What a path router guarantees about the paths and leaves in it.\<close>

definition router_for :: "('a, 'b, 'g) registry_libs \<Rightarrow> ('a, 'b) auxiliary_data \<Rightarrow> ('g, location) scope_graph
    \<Rightarrow> fallback_node list \<Rightarrow> nat list \<Rightarrow> path_router \<Rightarrow> bool" where
  "router_for libs aux sg tree ids r \<longleftrightarrow> bt_ok (pr_path2method_router r) \<and> agreeing libs aux ids
     \<and> (\<forall>p \<in> fst ` set (pr_path2method_router r). valid p)
     \<and> (\<forall>p \<in> fst ` set (pr_path2method_router r). \<forall>q \<in> fst ` set (pr_path2method_router r).
          conflicts p q \<longrightarrow> p = q)
     \<and> (\<exists>assigned. (\<forall>(i, f) \<in> set assigned. scope_fallback libs aux sg tree i f)
          \<and> (\<forall>p. handlers_at libs aux ids p \<noteq> [] \<longrightarrow>
               (\<exists>leaf. map_of (pr_path2method_router r) p = Some leaf \<and> leaf_of libs aux assigned ids p leaf)))
     \<and> (\<forall>p leaf. map_of (pr_path2method_router r) p = Some leaf \<longrightarrow> handlers_at libs aux ids p = [] \<longrightarrow>
          (\<exists>i. leaf = leaf_new i \<and> prefix_fallback libs aux i p))"

lemma path_router_new_correct:
  assumes new: "path_router_new mt libs aux sg tree ids = Some (ds, Inr r)"
  shows "ds = [] \<and> router_for libs aux sg tree ids r"
proof -
  obtain m assigned catch_alls leaves d1 d2 d3 d4 root where
      conf: "detect_method_conflicts libs aux ids = Some (d1, Inr ())"
    and paths: "detect_path_conflicts mt libs aux ids = Some (d2, Inr m)"
    and fbs: "assign_fallbacks mt m tree libs aux sg ids = Some (d3, Inr (assigned, catch_alls))"
    and check: "check_method_not_allowed_fallbacks mt assigned libs aux ids = Some (d4, Inr ())"
    and leaves: "leaf_loop assigned libs aux ids [] = Inr leaves"
    and r: "r = \<lparr>pr_path2method_router = add_catch_alls catch_alls leaves, pr_root_fallback_id = root\<rparr>"
    and ds: "ds = d1 @ d2 @ d3 @ d4"
    using new by (auto simp: path_router_new_def routing_simps)
  have d12: "d1 = []" "agreeing libs aux ids" "d2 = []"
    using conf paths by (auto simp: detect_method_conflicts_ok detect_path_conflicts_def checked_def
        split: prod.splits if_splits)
  have d4: "d4 = []"
    using check by (auto simp: check_method_not_allowed_fallbacks_def routing_simps checked_def split: if_splits)
  note acc = detect_path_conflicts_ok [OF paths]
  from assign_fallbacks_ok [OF fbs] obtain st where st: "fallback_loop mt libs aux ids
      \<lparr>fs_validation = m, fs_router = mt_new mt, fs_catch_alls = []\<rparr> = Inr st"
      "catch_alls = fs_catch_alls st" "d3 = []"
    and asg: "bt_ok assigned" "\<forall>(i, f) \<in> set assigned. scope_fallback libs aux sg tree i f" by metis
  have start: "fallback_inv libs aux \<lparr>fs_validation = m, fs_router = mt_new mt, fs_catch_alls = []\<rparr>"
    using acc by (simp add: fallback_inv_def routes_new)
  note fin = fallback_loop_inv [OF st(1) start]
  have coh: "coherent (routes (fs_validation st))" using fin by (simp add: fallback_inv_def)
  have lv: "leaves_of libs aux assigned ids leaves"
    using leaf_loop_leaves [OF leaves, of "[]"] by (simp add: leaves_of_def handlers_at_def)
  then have bt: "bt_ok leaves" by (simp add: leaves_of_def)
  note add = add_catch_alls_lookup [OF bt, of catch_alls]
  have bt': "bt_ok (pr_path2method_router r)" using add by (simp add: r)
  have handler: "\<exists>leaf. map_of (pr_path2method_router r) p = Some leaf \<and> leaf_of libs aux assigned ids p leaf"
    if "handlers_at libs aux ids p \<noteq> []" for p
    using lv that add unfolding leaves_of_def by (metis path_router.select_convs(1) r)
  have no_handler: "\<exists>i. leaf = leaf_new i \<and> (p, i) \<in> set catch_alls \<and> prefix_fallback libs aux i p"
    if leaf: "map_of (pr_path2method_router r) p = Some leaf" and none: "handlers_at libs aux ids p = []" for p leaf
  proof -
    have "map_of leaves p = None" using lv none unfolding leaves_of_def by metis
    then have "map_option leaf_new (map_of catch_alls p) = Some leaf" using leaf add by (simp add: r)
    then obtain i where i: "map_of catch_alls p = Some i" "leaf = leaf_new i" by auto
    then have "(p, i) \<in> set catch_alls" by (simp add: map_of_SomeD)
    then show ?thesis using i fin st(2) by (auto simp: fallback_inv_def)
  qed
  have in_routes: "p \<in> fst ` set (routes (fs_validation st))" if p: "p \<in> fst ` set (pr_path2method_router r)" for p
  proof (cases "handlers_at libs aux ids p = []")
    case True
    obtain leaf where "map_of (pr_path2method_router r) p = Some leaf"
      using p by (metis map_of_eq_None_iff not_Some_eq)
    from no_handler [OF this True] have "p \<in> fst ` set catch_alls" by force
    then show ?thesis using fin st(2) unfolding fallback_inv_def by blast
  next
    case False
    then show ?thesis using acc fin by (auto simp: image_iff)
  qed
  have valid: "valid p" if "p \<in> fst ` set (pr_path2method_router r)" for p
    using in_routes [OF that] coh unfolding coherent_def by blast
  have apart: "p = q" if "p \<in> fst ` set (pr_path2method_router r)" "q \<in> fst ` set (pr_path2method_router r)"
      "conflicts p q" for p q
    using in_routes [OF that(1)] in_routes [OF that(2)] that(3) coh unfolding coherent_def by blast
  have "router_for libs aux sg tree ids r"
    unfolding router_for_def
  proof (intro conjI)
    show "\<exists>assigned. (\<forall>(i, f) \<in> set assigned. scope_fallback libs aux sg tree i f)
          \<and> (\<forall>p. handlers_at libs aux ids p \<noteq> [] \<longrightarrow>
               (\<exists>leaf. map_of (pr_path2method_router r) p = Some leaf \<and> leaf_of libs aux assigned ids p leaf))"
      using asg(2) handler by (intro exI [of _ assigned]) simp
  qed (use bt' d12(2) valid apart no_handler in blast)+
  then show ?thesis using ds d12 d4 st(3) by simp
qed

end

section \<open>Dispatch\<close>

definition leaf_handler :: "leaf_router \<Rightarrow> string \<Rightarrow> nat" where
  "leaf_handler leaf m =
     (case find (\<lambda>(i, ms). m |\<in>| ms) (lr_handler_id2methods leaf) of
        Some (i, ms) \<Rightarrow> i
      | None \<Rightarrow> lr_fallback_id leaf)"

lemma leaf_handler_accepted:
  assumes leaf: "leaf_of libs aux assigned ids p leaf" and agree: "agreeing libs aux ids"
    and i: "i \<in> set ids" "route_at libs aux i p g" "accepts g m" and m: "m \<in> set well_known_methods"
  shows "handler_identifiers libs aux (leaf_handler leaf m) = handler_identifiers libs aux i"
proof -
  have "\<exists>h. leaf_handler leaf m \<in> set ids \<and> route_at libs aux (leaf_handler leaf m) p h \<and> accepts h m"
  proof (cases "find (\<lambda>(i, ms). m |\<in>| ms) (lr_handler_id2methods leaf)")
    case None
    have no: "m |\<notin>| ms" if "(j, ms) \<in> set (lr_handler_id2methods leaf)" for j ms
      using None that by (auto simp: find_None_iff)
    have "\<exists>h \<in> set ids. route_at libs aux h p AnyMethod"
    proof (cases g)
      case AnyMethod
      then show ?thesis using i by blast
    next
      case (SomeMethods ms)
      then show ?thesis using leaf i no [of i ms] unfolding leaf_of_def by auto
    qed
    then have "lr_fallback_id leaf \<in> set ids \<and> route_at libs aux (lr_fallback_id leaf) p AnyMethod"
      using leaf unfolding leaf_of_def by presburger
    then show ?thesis using None by (intro exI [of _ AnyMethod]) (simp add: leaf_handler_def)
  next
    case (Some x)
    obtain j ms where x: "x = (j, ms)" by (cases x)
    then have "(j, ms) \<in> set (lr_handler_id2methods leaf)" "m |\<in>| ms" using find_in [OF Some] by auto
    then show ?thesis
      using leaf Some x unfolding leaf_of_def by (intro exI [of _ "SomeMethods ms"]) (auto simp: leaf_handler_def)
  qed
  then show ?thesis using agree i m unfolding agreeing_def by blast
qed

lemma leaf_handler_rejected:
  assumes leaf: "leaf_of libs aux assigned ids p leaf" and none: "\<forall>i \<in> set ids. \<forall>g. route_at libs aux i p g \<longrightarrow> \<not> accepts g m"
    and asg: "\<forall>(i, f) \<in> set assigned. scope_fallback libs aux sg tree i f"
  shows "scope_fallback libs aux sg tree (hd (handlers_at libs aux ids p)) (leaf_handler leaf m)"
proof -
  have "find (\<lambda>(i, ms). m |\<in>| ms) (lr_handler_id2methods leaf) = None"
    using leaf none unfolding leaf_of_def find_None_iff by fastforce
  moreover have "\<not> (\<exists>h \<in> set ids. route_at libs aux h p AnyMethod)" using none by force
  ultimately have "map_of assigned (hd (handlers_at libs aux ids p)) = Some (leaf_handler leaf m)"
    using leaf unfolding leaf_of_def leaf_handler_def by simp
  then show ?thesis using asg by (auto dest: map_of_SomeD)
qed

lemma pipelines_of_ok:
  assumes "\<forall>(i, ms) \<in> set hs. pipelines i \<noteq> None"
  shows "pipelines_of pipelines hs = Inr (map (\<lambda>(i, ms). (ms, the (pipelines i))) hs)"
  using assms by (induction hs) (auto simp: lookup_def split: option.splits)

lemma router_entries_ok:
  assumes "\<forall>(p, leaf) \<in> set leaves. \<forall>i \<in> set (leaf_handler_ids leaf). pipelines i \<noteq> None"
  shows "router_entries pipelines leaves =
    Inr (map (\<lambda>(p, leaf). (p, \<lparr>methods_and_pipelines =
          map (\<lambda>(i, ms). (ms, the (pipelines i))) (lr_handler_id2methods leaf),
        catch_all_pipeline = the (pipelines (lr_fallback_id leaf))\<rparr>)) leaves)"
  using assms
proof (induction leaves)
  case (Cons x leaves)
  obtain p leaf where x: "x = (p, leaf)" by (cases x)
  have h: "\<forall>(i, ms) \<in> set (lr_handler_id2methods leaf). pipelines i \<noteq> None" "pipelines (lr_fallback_id leaf) \<noteq> None"
    using Cons.prems by (auto simp: x leaf_handler_ids_def)
  then show ?case using Cons by (auto simp: x pipelines_of_ok [OF h(1)] lookup_def)
qed simp

lemma dispatch_leaf:
  "dispatch \<lparr>methods_and_pipelines = map (\<lambda>(i, ms). (ms, f i)) (lr_handler_id2methods leaf),
      catch_all_pipeline = f (lr_fallback_id leaf)\<rparr> m = f (leaf_handler leaf m)"
proof -
  have "find (\<lambda>(ms, p). m |\<in>| ms) (map (\<lambda>(i, ms). (ms, f i)) hs) =
      map_option (\<lambda>(i, ms). (ms, f i)) (find (\<lambda>(i, ms). m |\<in>| ms) hs)" for hs
    by (induction hs) auto
  then show ?thesis by (auto simp: dispatch_def leaf_handler_def split: option.split)
qed

lemma leaf_handler_in: "leaf_handler leaf m \<in> set (leaf_handler_ids leaf)"
  by (auto simp: leaf_handler_def leaf_handler_ids_def split: option.split dest!: find_in) force

context path_matching
begin

text \<open>Starting the server: no insertion fails.\<close>

lemma in_numbered: "(p, k) \<in> set (zip xs [0..<length xs]) \<longleftrightarrow> k < length xs \<and> xs ! k = p"
  by (force simp: in_set_zip)

lemma map_of_numbered: "k < length xs \<Longrightarrow> map_of (zip [0..<length xs] xs) k = Some (xs ! k)"
  using map_of_zip_nth [of "[0..<length xs]" xs k] by simp

lemma insert_all_ok:
  "\<forall>p \<in> set ps. valid p \<Longrightarrow> distinct ps \<Longrightarrow> \<forall>p \<in> set ps. \<forall>q \<in> set ps. conflicts p q \<longrightarrow> p = q \<Longrightarrow>
   \<forall>p \<in> set ps. \<forall>q \<in> fst ` set (routes m1). \<not> conflicts p q \<Longrightarrow> length is = length ps \<Longrightarrow>
   \<exists>m2. insert_all mt (zip is ps) m1 = Inr m2 \<and> set (routes m2) = set (routes m1) \<union> set (zip ps is)"
proof (induction ps arbitrary: m1 "is")
  case (Cons p ps)
  obtain i is' where i: "is = i # is'" using Cons.prems(5) by (cases "is") auto
  have "valid p" "\<forall>q \<in> fst ` set (routes m1). \<not> conflicts p q" using Cons.prems(1,4) by simp_all
  from insert_ok [OF this] obtain m where m: "mt_insert mt p i m1 = (None, m)" "routes m = routes m1 @ [(p, i)]"
    by blast
  have "\<forall>r \<in> set ps. \<forall>q \<in> fst ` set (routes m). \<not> conflicts r q"
    using Cons.prems(2,3,4) by (auto simp: m(2))
  moreover have "\<forall>p \<in> set ps. valid p" "distinct ps" "\<forall>p \<in> set ps. \<forall>q \<in> set ps. conflicts p q \<longrightarrow> p = q"
      "length is' = length ps"
    using Cons.prems(1,2,3,5) i by simp_all
  ultimately obtain m2 where "insert_all mt (zip is' ps) m = Inr m2"
      "set (routes m2) = set (routes m) \<union> set (zip ps is')"
    using Cons.IH [of m is'] by blast
  then show ?case by (simp add: i m)
qed simp

lemma path_router_starts:
  assumes "router_for libs aux sg tree ids r"
  obtains m where "path_router_init mt (zip [0..<length (pr_path2method_router r)] (map fst (pr_path2method_router r))) = Inr m"
    and "set (routes m) = set (zip (map fst (pr_path2method_router r)) [0..<length (pr_path2method_router r)])"
proof -
  let ?ps = "map fst (pr_path2method_router r)"
  have "\<forall>p \<in> set ?ps. valid p" "distinct ?ps" "\<forall>p \<in> set ?ps. \<forall>q \<in> set ?ps. conflicts p q \<longrightarrow> p = q"
    using assms bt_ok_distinct unfolding router_for_def set_map by blast+
  from insert_all_ok [OF this, of "mt_new mt" "[0..<length (pr_path2method_router r)]"] that show ?thesis
    by (auto simp: routes_new path_router_init_def)
qed

lemma serve_path_correct:
  assumes r: "router_for libs aux sg tree ids r" and pipes: "\<forall>i \<in> set (path_handler_ids r). pipelines i \<noteq> None"
  shows "\<exists>h. serve_path mt r pipelines t m = Inr (the (pipelines h)) \<and> h \<in> set (path_handler_ids r)
    \<and> (if \<exists>p \<in> fst ` set (pr_path2method_router r). matches p t
       then \<exists>p leaf. map_of (pr_path2method_router r) p = Some leaf \<and> matches p t \<and> h = leaf_handler leaf m
       else h = pr_root_fallback_id r)"
proof -
  let ?leaves = "pr_path2method_router r"
  let ?entry = "\<lambda>leaf. \<lparr>methods_and_pipelines = map (\<lambda>(i, ms). (ms, the (pipelines i))) (lr_handler_id2methods leaf),
        catch_all_pipeline = the (pipelines (lr_fallback_id leaf))\<rparr>"
  have entries: "router_entries pipelines ?leaves = Inr (map (\<lambda>(p, leaf). (p, ?entry leaf)) ?leaves)"
    by (rule router_entries_ok) (use pipes in \<open>fastforce simp: path_handler_ids_def\<close>)
  have maps: "route_mappings r pipelines =
      Inr (zip [0..<length ?leaves] (map fst ?leaves), zip [0..<length ?leaves] (map (?entry \<circ> snd) ?leaves))"
    by (simp add: route_mappings_def entries comp_def split_beta)
  from path_router_starts [OF r] obtain router where router:
      "path_router_init mt (zip [0..<length ?leaves] (map fst ?leaves)) = Inr router"
      "set (routes router) = set (zip (map fst ?leaves) [0..<length ?leaves])" by blast
  have root: "lookup pipelines (pr_root_fallback_id r) = Inr (the (pipelines (pr_root_fallback_id r)))"
    using pipes by (auto simp: path_handler_ids_def lookup_def)
  have serve: "serve_path mt r pipelines t m = route_request mt router
      (zip [0..<length ?leaves] (map (?entry \<circ> snd) ?leaves)) (the (pipelines (pr_root_fallback_id r))) t m"
    by (simp add: serve_path_def maps root router(1))
  show ?thesis
  proof (cases "mt_at mt router t")
    case None
    have "\<not> matches p t" if "p \<in> fst ` set ?leaves" for p
    proof -
      obtain k where "k < length ?leaves" "fst (?leaves ! k) = p" using \<open>p \<in> fst ` set ?leaves\<close> by (auto simp: in_set_conv_nth)
      then have "(p, k) \<in> set (routes router)"
        using in_numbered [of p k "map fst ?leaves"] by (simp add: router(2))
      then show ?thesis using at_finds None by blast
    qed
    then show ?thesis
      using None by (intro exI [of _ "pr_root_fallback_id r"]) (auto simp: serve route_request_def path_handler_ids_def)
  next
    case (Some k)
    then obtain p where p: "(p, k) \<in> set (routes router)" "matches p t" using at_matches by blast
    then have k: "k < length ?leaves" "fst (?leaves ! k) = p"
      using in_numbered [of p k "map fst ?leaves"] by (auto simp: router(2))
    let ?leaf = "snd (?leaves ! k)"
    have "map_of (zip [0..<length ?leaves] (map (?entry \<circ> snd) ?leaves)) k = Some (?entry ?leaf)"
      using k(1) map_of_numbered [of k "map (?entry \<circ> snd) ?leaves"] by simp
    then have "serve_path mt r pipelines t m = Inr (the (pipelines (leaf_handler ?leaf m)))"
      using Some by (simp add: serve route_request_def dispatch_leaf [of "\<lambda>i. the (pipelines i)"])
    moreover have in_leaves: "(p, ?leaf) \<in> set ?leaves"
      using nth_mem [OF k(1)] by (simp only: k(2) [symmetric] prod.collapse)
    moreover have "bt_ok ?leaves" using r unfolding router_for_def by blast
    then have "map_of ?leaves p = Some ?leaf" using in_leaves bt_ok_lookup by metis
    moreover have "leaf_handler ?leaf m \<in> set (path_handler_ids r)"
      using in_leaves leaf_handler_in [of ?leaf m] by (force simp: path_handler_ids_def)
    moreover have "\<exists>p \<in> fst ` set ?leaves. matches p t" using in_leaves p(2) by force
    ultimately show ?thesis using p(2) by (intro exI [of _ "leaf_handler ?leaf m"]) auto
  qed
qed

end

end
