(* ===== verification/Blueprint_Registry.thy ===== *)
theory Blueprint_Registry
  imports Blueprint_Processing Scope_Graph_Properties
begin

text \<open>
  What every operation of \<open>Blueprint_Processing\<close> does to the tables about components: it keeps
  them well-formed (\<open>aux_wf\<close>) and complete (\<open>aux_complete\<close>), it never changes what they say about
  an older component (\<open>aux_extends\<close>), and it appends the endpoint it registers, if any
  (\<open>grows\<close>). An endpoint is a request handler or fallback with all that routing and the
  processing pipeline know of it, identifiers resolved.
\<close>

section \<open>Well-formed tables\<close>

definition component_map :: "('a, 'b, 'g) registry_libs \<Rightarrow> ('a, 'b) auxiliary_data
    \<Rightarrow> nat \<rightharpoonup> user_component" where
  "component_map libs aux = al_index (lib_components libs) (component_interner aux)"

definition identifiers_map :: "('a, 'b, 'g) registry_libs \<Rightarrow> ('a, 'b) auxiliary_data
    \<Rightarrow> nat \<rightharpoonup> raw_identifiers" where
  "identifiers_map libs aux = al_index (lib_identifiers libs) (in_arena (identifiers_interner aux))"

definition aux_wf :: "('a, 'b, 'g) registry_libs \<Rightarrow> ('a, 'b) auxiliary_data \<Rightarrow> bool" where
  "aux_wf libs aux \<longleftrightarrow>
     (\<forall>i c. (i, c) \<in> set (aux_iter libs aux) \<longleftrightarrow> component_map libs aux i = Some c)
   \<and> distinct (map fst (aux_iter libs aux))
   \<and> interner_inv (lib_identifiers libs) (identifiers_interner aux)
   \<and> (\<forall>i c k. component_map libs aux i = Some c \<longrightarrow> raw_identifiers_id c = Some k \<longrightarrow>
        k \<in> dom (identifiers_map libs aux))
   \<and> (\<forall>i ms. handler_id2middleware_ids aux i = Some ms \<longrightarrow> set ms \<subseteq> dom (component_map libs aux))
   \<and> (\<forall>i ms. handler_id2error_observer_ids aux i = Some ms \<longrightarrow> set ms \<subseteq> dom (component_map libs aux))
   \<and> dom (id2lifecycle aux) \<subseteq> dom (component_map libs aux)
   \<and> dom (id2registration aux) \<subseteq> dom (component_map libs aux)
   \<and> dom (id2scope_id aux) \<subseteq> dom (component_map libs aux)
   \<and> dom (id2cloning_strategy aux) \<subseteq> dom (component_map libs aux)
   \<and> dom (config_id2default_strategy aux) \<subseteq> dom (component_map libs aux)
   \<and> dom (handler_id2middleware_ids aux) \<subseteq> dom (component_map libs aux)
   \<and> dom (handler_id2error_observer_ids aux) \<subseteq> dom (component_map libs aux)
   \<and> dom (fallback_id2path_prefix aux) \<subseteq> dom (component_map libs aux)
   \<and> dom (fallback_id2domain_guard aux) \<subseteq> dom (component_map libs aux)"

definition aux_complete :: "('a, 'b, 'g) registry_libs \<Rightarrow> ('a, 'b) auxiliary_data \<Rightarrow> bool" where
  "aux_complete libs aux \<longleftrightarrow> (\<forall>i c. (i, c) \<in> set (aux_iter libs aux) \<longrightarrow> missing_entries aux i c = [])"

definition aux_extends :: "('a, 'b, 'g) registry_libs \<Rightarrow> ('a, 'b) auxiliary_data
    \<Rightarrow> ('a, 'b) auxiliary_data \<Rightarrow> bool" where
  "aux_extends libs aux aux' \<longleftrightarrow>
     component_map libs aux \<subseteq>\<^sub>m component_map libs aux'
   \<and> identifiers_map libs aux \<subseteq>\<^sub>m identifiers_map libs aux'
   \<and> id2lifecycle aux \<subseteq>\<^sub>m id2lifecycle aux'
   \<and> id2registration aux \<subseteq>\<^sub>m id2registration aux'
   \<and> id2scope_id aux \<subseteq>\<^sub>m id2scope_id aux'
   \<and> id2cloning_strategy aux \<subseteq>\<^sub>m id2cloning_strategy aux'
   \<and> config_id2default_strategy aux \<subseteq>\<^sub>m config_id2default_strategy aux'
   \<and> handler_id2middleware_ids aux \<subseteq>\<^sub>m handler_id2middleware_ids aux'
   \<and> handler_id2error_observer_ids aux \<subseteq>\<^sub>m handler_id2error_observer_ids aux'
   \<and> fallback_id2path_prefix aux \<subseteq>\<^sub>m fallback_id2path_prefix aux'
   \<and> fallback_id2domain_guard aux \<subseteq>\<^sub>m fallback_id2domain_guard aux'"

lemma aux_extends_refl [simp]: "aux_extends libs aux aux"
  by (simp add: aux_extends_def)

lemma aux_extends_trans: "aux_extends libs a b \<Longrightarrow> aux_extends libs b c \<Longrightarrow> aux_extends libs a c"
  unfolding aux_extends_def by (auto intro: map_le_trans)

lemma map_leD: "m \<subseteq>\<^sub>m m' \<Longrightarrow> m i = Some x \<Longrightarrow> m' i = Some x"
  by (metis domI map_le_def)

lemma map_le_upd_fresh: "m \<subseteq>\<^sub>m m' \<Longrightarrow> m i = None \<Longrightarrow> m \<subseteq>\<^sub>m m'(i \<mapsto> x)"
  by (auto simp: map_le_def)

lemma map_le_some: "m \<subseteq>\<^sub>m m' \<Longrightarrow> m i \<noteq> None \<Longrightarrow> m' i \<noteq> None"
  using map_leD by fastforce

lemma missing_entries_none:
  "missing_entries aux i c = [] \<longleftrightarrow>
     id2lifecycle aux i \<noteq> None \<and> id2registration aux i \<noteq> None \<and> id2scope_id aux i \<noteq> None
   \<and> (component_kind_of c \<in> {KConstructor, KPrebuiltType, KConfigType} \<longrightarrow> id2cloning_strategy aux i \<noteq> None)
   \<and> (component_kind_of c = KConfigType \<longrightarrow> config_id2default_strategy aux i \<noteq> None)
   \<and> (component_kind_of c \<in> {KRequestHandler, KFallback} \<longrightarrow>
        handler_id2middleware_ids aux i \<noteq> None \<and> handler_id2error_observer_ids aux i \<noteq> None)
   \<and> (component_kind_of c = KFallback \<longrightarrow>
        fallback_id2path_prefix aux i \<noteq> None \<and> fallback_id2domain_guard aux i \<noteq> None)"
  by (cases c) (simp_all add: missing_entries_def)

section \<open>Endpoints\<close>

datatype endpoint =
    RouteEndpoint (ep_key: router_key) (ep_handler: "raw_identifiers option")
      (ep_middlewares: "raw_identifiers option list") (ep_observers: "raw_identifiers option list")
  | is_FallbackEndpoint: FallbackEndpoint (ep_prefix: "string option") (ep_domain: "domain_guard option")
      (ep_handler: "raw_identifiers option") (ep_middlewares: "raw_identifiers option list")
      (ep_observers: "raw_identifiers option list")

definition component_identifiers :: "('a, 'b, 'g) registry_libs \<Rightarrow> ('a, 'b) auxiliary_data \<Rightarrow> nat
    \<Rightarrow> raw_identifiers option" where
  "component_identifiers libs aux i =
     (case component_map libs aux i of
        None \<Rightarrow> None
      | Some c \<Rightarrow> (case raw_identifiers_id c of None \<Rightarrow> None | Some k \<Rightarrow> identifiers_map libs aux k))"

definition chain_identifiers :: "('a, 'b, 'g) registry_libs \<Rightarrow> ('a, 'b) auxiliary_data \<Rightarrow> nat list option
    \<Rightarrow> raw_identifiers option list" where
  "chain_identifiers libs aux ms =
     (case ms of None \<Rightarrow> [] | Some ms \<Rightarrow> map (component_identifiers libs aux) ms)"

definition endpoint_of :: "('a, 'b, 'g) registry_libs \<Rightarrow> ('a, 'b) auxiliary_data
    \<Rightarrow> nat \<times> user_component \<Rightarrow> endpoint list" where
  "endpoint_of libs aux x =
     (case x of (i, c) \<Rightarrow>
       (case c of
          RequestHandler s k \<Rightarrow>
            [RouteEndpoint k (identifiers_map libs aux s)
               (chain_identifiers libs aux (handler_id2middleware_ids aux i))
               (chain_identifiers libs aux (handler_id2error_observer_ids aux i))]
        | Fallback s \<Rightarrow>
            (case (fallback_id2path_prefix aux i, fallback_id2domain_guard aux i) of
               (Some p, Some g) \<Rightarrow>
                 [FallbackEndpoint p g (identifiers_map libs aux s)
                    (chain_identifiers libs aux (handler_id2middleware_ids aux i))
                    (chain_identifiers libs aux (handler_id2error_observer_ids aux i))]
             | _ \<Rightarrow> [])
        | _ \<Rightarrow> []))"

definition endpoints :: "('a, 'b, 'g) registry_libs \<Rightarrow> ('a, 'b) auxiliary_data \<Rightarrow> endpoint list" where
  "endpoints libs aux = concat (map (endpoint_of libs aux) (aux_iter libs aux))"

lemma aux_wf_identifiers:
  "aux_wf libs aux \<Longrightarrow> component_map libs aux i = Some c \<Longrightarrow> raw_identifiers_id c = Some k \<Longrightarrow>
     \<exists>ri. identifiers_map libs aux k = Some ri"
  by (simp add: aux_wf_def domD)

lemma component_identifiers_extends:
  assumes "aux_wf libs aux" and "aux_extends libs aux aux'" and "i \<in> dom (component_map libs aux)"
  shows "component_identifiers libs aux' i = component_identifiers libs aux i"
proof -
  obtain c where c: "component_map libs aux i = Some c" using assms(3) by blast
  have c': "component_map libs aux' i = Some c"
    using assms(2) c by (auto simp: aux_extends_def dest: map_leD)
  show ?thesis
  proof (cases "raw_identifiers_id c")
    case None
    then show ?thesis by (simp add: component_identifiers_def c c')
  next
    case (Some k)
    then obtain ri where "identifiers_map libs aux k = Some ri"
      using aux_wf_identifiers [OF assms(1) c] by blast
    moreover from this have "identifiers_map libs aux' k = Some ri"
      using assms(2) by (auto simp: aux_extends_def dest: map_leD)
    ultimately show ?thesis by (simp add: component_identifiers_def c c' Some)
  qed
qed

lemma chain_extends:
  assumes "aux_wf libs aux" and "aux_extends libs aux aux'" and "set ms \<subseteq> dom (component_map libs aux)"
  shows "map (component_identifiers libs aux') ms = map (component_identifiers libs aux) ms"
  using assms(3) component_identifiers_extends [OF assms(1,2)] by auto

lemma endpoint_of_extends:
  assumes wf: "aux_wf libs aux" and complete: "aux_complete libs aux" and ext: "aux_extends libs aux aux'"
    and x: "(i, c) \<in> set (aux_iter libs aux)"
  shows "endpoint_of libs aux' (i, c) = endpoint_of libs aux (i, c)"
proof -
  have miss: "missing_entries aux i c = []" using complete x by (simp add: aux_complete_def)
  have cm: "component_map libs aux i = Some c" using wf x by (simp add: aux_wf_def)
  have idm: "identifiers_map libs aux' s = identifiers_map libs aux s" if k: "raw_identifiers_id c = Some s" for s
  proof -
    obtain ri where "identifiers_map libs aux s = Some ri"
      using aux_wf_identifiers [OF wf cm k] by blast
    with ext show ?thesis by (auto simp: aux_extends_def dest: map_leD)
  qed
  have chain: "chain_identifiers libs aux' (t aux' i) = chain_identifiers libs aux (t aux i)"
    if "t aux i = Some ms" "t aux \<subseteq>\<^sub>m t aux'" "set ms \<subseteq> dom (component_map libs aux)"
    for t :: "('a, 'b) auxiliary_data \<Rightarrow> nat \<rightharpoonup> nat list" and ms
    using that chain_extends [OF wf ext that(3)] map_leD [OF that(2,1)] by (simp add: chain_identifiers_def)
  have mw: "chain_identifiers libs aux' (handler_id2middleware_ids aux' i)
      = chain_identifiers libs aux (handler_id2middleware_ids aux i)"
    if "handler_id2middleware_ids aux i = Some ms" for ms
    using chain [of handler_id2middleware_ids, OF that] ext wf that by (simp add: aux_extends_def aux_wf_def)
  have ob: "chain_identifiers libs aux' (handler_id2error_observer_ids aux' i)
      = chain_identifiers libs aux (handler_id2error_observer_ids aux i)"
    if "handler_id2error_observer_ids aux i = Some ms" for ms
    using chain [of handler_id2error_observer_ids, OF that] ext wf that by (simp add: aux_extends_def aux_wf_def)
  show ?thesis
  proof (cases c)
    case (RequestHandler s k)
    with miss obtain ms os where "handler_id2middleware_ids aux i = Some ms"
        "handler_id2error_observer_ids aux i = Some os"
      by (auto simp: missing_entries_none)
    with mw ob idm RequestHandler show ?thesis by (simp add: endpoint_of_def)
  next
    case (Fallback s)
    with miss obtain ms os p g where "handler_id2middleware_ids aux i = Some ms"
        "handler_id2error_observer_ids aux i = Some os"
        "fallback_id2path_prefix aux i = Some p" "fallback_id2domain_guard aux i = Some g"
      by (auto simp: missing_entries_none)
    moreover from this have "fallback_id2path_prefix aux' i = Some p" "fallback_id2domain_guard aux' i = Some g"
      using ext by (auto simp: aux_extends_def dest: map_leD)
    ultimately show ?thesis using mw ob idm Fallback by (simp add: endpoint_of_def)
  qed (simp_all add: endpoint_of_def)
qed

lemma missing_entries_extends:
  assumes "aux_extends libs aux aux'" and "missing_entries aux i c = []"
  shows "missing_entries aux' i c = []"
proof -
  have "id2lifecycle aux \<subseteq>\<^sub>m id2lifecycle aux'" "id2registration aux \<subseteq>\<^sub>m id2registration aux'"
    "id2scope_id aux \<subseteq>\<^sub>m id2scope_id aux'" "id2cloning_strategy aux \<subseteq>\<^sub>m id2cloning_strategy aux'"
    "config_id2default_strategy aux \<subseteq>\<^sub>m config_id2default_strategy aux'"
    "handler_id2middleware_ids aux \<subseteq>\<^sub>m handler_id2middleware_ids aux'"
    "handler_id2error_observer_ids aux \<subseteq>\<^sub>m handler_id2error_observer_ids aux'"
    "fallback_id2path_prefix aux \<subseteq>\<^sub>m fallback_id2path_prefix aux'"
    "fallback_id2domain_guard aux \<subseteq>\<^sub>m fallback_id2domain_guard aux'"
    using assms(1) by (simp_all add: aux_extends_def)
  note some = this [THEN map_le_some]
  show ?thesis using assms(2) some unfolding missing_entries_none by blast
qed

text \<open>The contract of an operation on the tables that registers the endpoints \<open>es\<close>.\<close>

definition grows :: "('a, 'b, 'g) registry_libs \<Rightarrow> ('a, 'b) auxiliary_data \<Rightarrow> endpoint list
    \<Rightarrow> (nat \<times> user_component) list \<Rightarrow> ('a, 'b) auxiliary_data \<Rightarrow> bool" where
  "grows libs aux es new aux' \<longleftrightarrow> aux_wf libs aux' \<and> aux_complete libs aux' \<and> aux_extends libs aux aux'
     \<and> endpoints libs aux' = endpoints libs aux @ es \<and> aux_iter libs aux' = aux_iter libs aux @ new"

lemma grows_trans: "grows libs a es n b \<Longrightarrow> grows libs b es' n' c \<Longrightarrow> grows libs a (es @ es') (n @ n') c"
  unfolding grows_def using aux_extends_trans by fastforce

lemma grows_wf: "grows libs a es n b \<Longrightarrow> aux_wf libs b" "grows libs a es n b \<Longrightarrow> aux_complete libs b"
  "grows libs a es n b \<Longrightarrow> aux_extends libs a b"
  by (simp_all add: grows_def)

lemma growsI:
  assumes "aux_wf libs aux" and "aux_complete libs aux" and "aux_wf libs aux'" and "aux_extends libs aux aux'"
    and "aux_iter libs aux' = aux_iter libs aux @ new"
    and "\<And>i c. (i, c) \<in> set new \<Longrightarrow> missing_entries aux' i c = []"
    and "concat (map (endpoint_of libs aux') new) = es"
  shows "grows libs aux es new aux'"
proof -
  have e: "map (endpoint_of libs aux') (aux_iter libs aux) = map (endpoint_of libs aux) (aux_iter libs aux)"
    using endpoint_of_extends [OF assms(1,2,4)] by auto
  have "aux_complete libs aux'"
    using assms(2,5,6) missing_entries_extends [OF assms(4)] by (auto simp: aux_complete_def)
  then show ?thesis
    by (simp only: grows_def endpoints_def assms map_append concat_append e)
qed

section \<open>The primitive operations\<close>

definition same_but :: "'k \<Rightarrow> ('k \<rightharpoonup> 'v) \<Rightarrow> ('k \<rightharpoonup> 'v) \<Rightarrow> bool" where
  "same_but i m m' \<longleftrightarrow> (\<forall>j. j \<noteq> i \<longrightarrow> m' j = m j)"

lemma same_but_refl [simp]: "same_but i m m" and same_but_upd [simp]: "same_but i m (m(i \<mapsto> x))"
  by (simp_all add: same_but_def)

lemma same_but_le:
  assumes "same_but i m m'" and "dom m \<subseteq> D" and "i \<notin> D"
  shows "m \<subseteq>\<^sub>m m'"
  unfolding map_le_def using assms by (metis same_but_def subsetD)

lemma same_but_dom: "same_but i m m' \<Longrightarrow> dom m \<subseteq> D \<Longrightarrow> dom m' \<subseteq> insert i D"
  by (force simp: same_but_def)

context registry
begin

lemma intern_identifiers_grows:
  assumes wf: "aux_wf libs aux" and complete: "aux_complete libs aux"
    and step: "intern_identifiers libs ri aux = (k, aux')"
  shows "grows libs aux [] [] aux'" and "identifiers_map libs aux' k = Some ri"
    and "component_interner aux' = component_interner aux"
proof -
  obtain s where g: "get_or_intern (lib_identifiers libs) ri (identifiers_interner aux) = (k, s)"
    and aux': "aux' = aux\<lparr>identifiers_interner := s\<rparr>"
    using step by (auto simp: intern_identifiers_def split: prod.splits)
  have inv: "interner_inv (lib_identifiers libs) (identifiers_interner aux)"
    using wf by (simp add: aux_wf_def)
  note c = identifiers.get_or_intern_correct [OF inv g]
  show k: "identifiers_map libs aux' k = Some ri"
    using c by (auto simp: identifiers_map_def aux' interner_inv_def)
  show "component_interner aux' = component_interner aux" by (simp add: aux')
  have le: "identifiers_map libs aux \<subseteq>\<^sub>m identifiers_map libs aux'"
    using c inv by (auto simp: map_le_def identifiers_map_def aux' interner_inv_def)
  have cm: "component_map libs aux' = component_map libs aux" by (simp add: component_map_def aux')
  have dom: "dom (identifiers_map libs aux) \<subseteq> dom (identifiers_map libs aux')"
    using le by (auto simp: map_le_def dom_def)
  have "j \<in> dom (identifiers_map libs aux')"
    if "component_map libs aux i = Some x" "raw_identifiers_id x = Some j" for i x j
    using aux_wf_identifiers [OF wf that] dom by blast
  then have wf': "aux_wf libs aux'"
    using wf c cm by (simp add: aux_wf_def aux')
  have ext: "aux_extends libs aux aux'"
    using le cm by (simp add: aux_extends_def aux')
  show "grows libs aux [] [] aux'"
    by (rule growsI [OF wf complete wf' ext, of "[]"]) (simp_all add: aux')
qed

text \<open>Registering a component: the tables change at its identifier only.\<close>

lemma register_grows:
  assumes wf: "aux_wf libs aux" and complete: "aux_complete libs aux"
    and alloc: "al_alloc (lib_components libs) c (component_interner aux) = (i, component_interner aux')"
    and ids: "identifiers_interner aux' = identifiers_interner aux"
    and src: "\<And>k. raw_identifiers_id c = Some k \<Longrightarrow> k \<in> dom (identifiers_map libs aux)"
    and tables: "same_but i (id2lifecycle aux) (id2lifecycle aux')"
      "same_but i (id2registration aux) (id2registration aux')"
      "same_but i (id2scope_id aux) (id2scope_id aux')"
      "same_but i (id2cloning_strategy aux) (id2cloning_strategy aux')"
      "same_but i (config_id2default_strategy aux) (config_id2default_strategy aux')"
      "same_but i (handler_id2middleware_ids aux) (handler_id2middleware_ids aux')"
      "same_but i (handler_id2error_observer_ids aux) (handler_id2error_observer_ids aux')"
      "same_but i (fallback_id2path_prefix aux) (fallback_id2path_prefix aux')"
      "same_but i (fallback_id2domain_guard aux) (fallback_id2domain_guard aux')"
    and mw: "\<And>ms. handler_id2middleware_ids aux' i = Some ms \<Longrightarrow> handler_id2middleware_ids aux i = None \<Longrightarrow> set ms \<subseteq> dom (component_map libs aux)"
    and ob: "\<And>ms. handler_id2error_observer_ids aux' i = Some ms \<Longrightarrow> handler_id2error_observer_ids aux i = None \<Longrightarrow>
      set ms \<subseteq> dom (component_map libs aux)"
    and miss: "missing_entries aux' i c = []"
  shows "grows libs aux (endpoint_of libs aux' (i, c)) [(i, c)] aux'" and "component_map libs aux' = (component_map libs aux)(i \<mapsto> c)"
    and "component_map libs aux i = None"
proof -
  show none: "component_map libs aux i = None"
    unfolding component_map_def by (rule components.alloc_fresh [OF alloc])
  show cm: "component_map libs aux' = (component_map libs aux)(i \<mapsto> c)"
    unfolding component_map_def by (rule components.alloc_index [OF alloc])
  have idm: "identifiers_map libs aux' = identifiers_map libs aux" by (simp add: identifiers_map_def ids)
  have it: "aux_iter libs aux' = aux_iter libs aux @ [(i, c)]" by (rule iter_alloc [OF alloc])
  have doms: "dom (component_map libs aux') = insert i (dom (component_map libs aux))"
    using cm by simp
  have iter_map: "(j, x) \<in> set (aux_iter libs aux) \<longleftrightarrow> component_map libs aux j = Some x" for j x
    using wf by (simp add: aux_wf_def)
  have fresh: "i \<notin> dom (component_map libs aux)" using none by blast
  have no_chain: "handler_id2middleware_ids aux i = None" "handler_id2error_observer_ids aux i = None"
    using wf fresh by (auto simp: aux_wf_def domIff)
  have wf1: "(\<forall>j x. (j, x) \<in> set (aux_iter libs aux') \<longleftrightarrow> component_map libs aux' j = Some x)"
    using iter_map none by (auto simp: it cm)
  have wf2: "distinct (map fst (aux_iter libs aux'))"
    using wf none iter_map by (auto simp: it aux_wf_def image_iff)
  have wf3: "j \<in> dom (identifiers_map libs aux')"
    if "component_map libs aux' m = Some x" "raw_identifiers_id x = Some j" for m x j
    using that src aux_wf_identifiers [OF wf, of m x j] by (auto simp: cm idm split: if_splits)
  have chain: "set ms \<subseteq> dom (component_map libs aux')"
    if "t' j = Some ms" "same_but i t t'" "\<And>ms. t' i = Some ms \<Longrightarrow> set ms \<subseteq> dom (component_map libs aux)"
      "\<forall>i ms. t i = Some ms \<longrightarrow> set ms \<subseteq> dom (component_map libs aux)"
    for t t' :: "nat \<rightharpoonup> nat list" and j ms
    using that unfolding doms same_but_def by (metis subset_insertI2)
  have wf4: "\<forall>j ms. handler_id2middleware_ids aux' j = Some ms \<longrightarrow> set ms \<subseteq> dom (component_map libs aux')"
    using chain [OF _ tables(6) mw] no_chain wf by (simp add: aux_wf_def)
  have wf5: "\<forall>j ms. handler_id2error_observer_ids aux' j = Some ms \<longrightarrow> set ms \<subseteq> dom (component_map libs aux')"
    using chain [OF _ tables(7) ob] no_chain wf by (simp add: aux_wf_def)
  have wf': "aux_wf libs aux'"
    unfolding aux_wf_def
    using wf1 wf2 wf3 wf4 wf5 wf tables [THEN same_but_dom, of "dom (component_map libs aux)"]
    by (simp add: aux_wf_def doms ids)
  have le: "component_map libs aux \<subseteq>\<^sub>m component_map libs aux'"
    using none by (simp add: cm map_le_upd_fresh)
  have ext: "aux_extends libs aux aux'"
    unfolding aux_extends_def
    using wf le tables [THEN same_but_le, OF _ fresh] by (simp add: aux_wf_def idm)
  show "grows libs aux (endpoint_of libs aux' (i, c)) [(i, c)] aux'"
    by (rule growsI [OF wf complete wf' ext it]) (auto simp: miss)
qed

end

end
