(* ===== verification/Blueprint_Endpoints.thy ===== *)
theory Blueprint_Endpoints
  imports Blueprint_Registry
begin

text \<open>
  The endpoints of a blueprint as its reader sees them (\<open>ref_blueprint\<close>, a recursive function
  on the nesting of blueprints, without identifiers, scopes or a queue), and the proof that the
  pass of \<open>Blueprint_Processing\<close> registers exactly these, in this order.
\<close>

section \<open>The reference\<close>

text \<open>The identifiers of the middlewares and error observers that a list of components registers.\<close>

fun middleware_identifiers :: "bp_component \<Rightarrow> raw_identifiers option list" where
  "middleware_identifiers (CWrappingMiddleware m) = [Some (callable (mw_callable m))]"
| "middleware_identifiers (CPreProcessingMiddleware m) = [Some (callable (mw_callable m))]"
| "middleware_identifiers (CPostProcessingMiddleware m) = [Some (callable (mw_callable m))]"
| "middleware_identifiers c = []"

fun observer_identifiers :: "bp_component \<Rightarrow> raw_identifiers option list" where
  "observer_identifiers (CErrorObserver eo) = [Some (callable eo)]"
| "observer_identifiers c = []"

abbreviation all_middlewares :: "bp_component list \<Rightarrow> raw_identifiers option list" where
  "all_middlewares cs \<equiv> concat (map middleware_identifiers cs)"

abbreviation all_observers :: "bp_component list \<Rightarrow> raw_identifiers option list" where
  "all_observers cs \<equiv> concat (map observer_identifiers cs)"

text \<open>
  Where a blueprint is nested: its path prefix and domain, the middlewares and error observers
  that were registered before it.
\<close>

record nesting =
  nest_prefix :: "string option"
  nest_domain :: "domain_guard option"
  nest_middlewares :: "raw_identifiers option list"
  nest_observers :: "raw_identifiers option list"

text \<open>
  Prefixes are texts here: what has no prefix has the empty one, and a blueprint has a prefix
  if it or a blueprint around it has one.
\<close>

definition prefix_text :: "string option \<Rightarrow> string" where
  "prefix_text p = concat (case p of None \<Rightarrow> [] | Some s \<Rightarrow> [s])"

definition inside_prefix :: "string option \<Rightarrow> string option \<Rightarrow> string option" where
  "inside_prefix outer inner =
     (if outer = None \<and> inner = None then None else Some (prefix_text outer @ prefix_text inner))"

definition prefix_valid :: "string \<Rightarrow> bool" where
  "prefix_valid s \<longleftrightarrow> s \<noteq> [] \<and> hd s = CHR ''/'' \<and> last s \<noteq> CHR ''/''"

lemma prefix_text_append [simp]: "prefix_text p @ s = prefixed p s"
  by (simp add: prefix_text_def prefixed_def split: option.split)

lemma inside_prefix_eq: "inside_prefix = nested_prefix"
  by (intro ext) (simp add: inside_prefix_def prefix_text_def nested_prefix_def split: option.split)

lemma prefix_valid_iff: "prefix_valid (prefix_path p) \<longleftrightarrow> prefix_errors p = []"
  by (auto simp: prefix_valid_def prefix_errors_def Let_def)

lemmas reference_prefixes = prefix_text_append inside_prefix_eq prefix_valid_iff

definition after_component :: "bp_component \<Rightarrow> nesting \<Rightarrow> nesting" where
  "after_component c n =
     n\<lparr>nest_middlewares := nest_middlewares n @ middleware_identifiers c,
       nest_observers := nest_observers n @ observer_identifiers c\<rparr>"

fun route_endpoints :: "nesting \<Rightarrow> bp_component list \<Rightarrow> endpoint list" where
  "route_endpoints n [] = []"
| "route_endpoints n (c # cs) =
     (case c of
        CRoute r \<Rightarrow>
          [RouteEndpoint
             \<lparr>rk_path = prefix_text (nest_prefix n) @ route_path r, rk_method_guard = route_method_guard r,
              rk_domain_guard = nest_domain n\<rparr>
             (Some (callable (route_handler r))) (nest_middlewares n) (nest_observers n)]
      | _ \<Rightarrow> [])
     @ route_endpoints (after_component c n) cs"

fun last_fallback :: "fallback_ref option \<Rightarrow> bp_component list \<Rightarrow> fallback_ref option" where
  "last_fallback f [] = f"
| "last_fallback f (c # cs) =
     last_fallback (case c of CFallbackRequestHandler g \<Rightarrow> Some g | _ \<Rightarrow> f) cs"

definition fallback_endpoint :: "nesting \<Rightarrow> bp_component list \<Rightarrow> fallback_ref \<Rightarrow> endpoint" where
  "fallback_endpoint n cs f =
     FallbackEndpoint (nest_prefix n) (nest_domain n) (Some (callable (fallback_handler f)))
       (nest_middlewares n @ all_middlewares cs) (nest_observers n @ all_observers cs)"

definition own_endpoints :: "('a, 'b, 'g) registry_libs \<Rightarrow> nesting \<Rightarrow> bool \<Rightarrow> blueprint \<Rightarrow> endpoint list" where
  "own_endpoints libs n is_root bp =
     route_endpoints n (bp_components bp)
     @ (case last_fallback None (bp_components bp) of
          Some f \<Rightarrow> [fallback_endpoint n (bp_components bp) f]
        | None \<Rightarrow> if is_root then [fallback_endpoint n (bp_components bp) (default_fallback libs bp)] else [])"

text \<open>The nesting of a nested blueprint, if its constraints are valid.\<close>

definition enter :: "('a, 'b, 'g) registry_libs \<Rightarrow> nesting \<Rightarrow> path_prefix option \<Rightarrow> domain_ref option
    \<Rightarrow> nesting option" where
  "enter libs n prefix dm =
     (if \<exists>p. prefix = Some p \<and> \<not> prefix_valid (prefix_path p) then None
      else
        (let n = n\<lparr>nest_prefix := inside_prefix (nest_prefix n) (map_option prefix_path prefix)\<rparr>
         in case dm of
              None \<Rightarrow> Some n
            | Some d \<Rightarrow>
                (case domain_guard_new (lib_is_ident libs) (domain_name d) of
                   Inl e \<Rightarrow> None
                 | Inr g \<Rightarrow> Some (n\<lparr>nest_domain := Some g\<rparr>))))"

fun ref_blueprint :: "('a, 'b, 'g) registry_libs \<Rightarrow> nesting \<Rightarrow> bool \<Rightarrow> blueprint \<Rightarrow> endpoint list"
  and ref_components :: "('a, 'b, 'g) registry_libs \<Rightarrow> nesting \<Rightarrow> bp_component list \<Rightarrow> endpoint list"
  and ref_nested :: "('a, 'b, 'g) registry_libs \<Rightarrow> nesting \<Rightarrow> nested_blueprint \<Rightarrow> endpoint list" where
  "ref_blueprint libs n is_root (Blueprint l cs) =
     own_endpoints libs n is_root (Blueprint l cs) @ ref_components libs n cs"
| "ref_components libs n [] = []"
| "ref_components libs n (c # cs) =
     ref_components libs (after_component c n) cs
     @ (case c of CNestedBlueprint b \<Rightarrow> ref_nested libs n b | _ \<Rightarrow> [])"
| "ref_nested libs n (NestedBlueprint bp prefix dm l) =
     (case enter libs n prefix dm of None \<Rightarrow> [] | Some n \<Rightarrow> ref_blueprint libs n False bp)"

definition top_level :: nesting where
  "top_level = \<lparr>nest_prefix = None, nest_domain = None, nest_middlewares = [], nest_observers = []\<rparr>"

section \<open>Views of the state\<close>

definition mw_view :: "('a, 'b, 'g) registry_libs \<Rightarrow> ('a, 'b, 'g) processing \<Rightarrow> raw_identifiers option list" where
  "mw_view libs ps = map (component_identifiers libs (ps_aux ps)) (ps_middlewares ps)"

definition obs_view :: "('a, 'b, 'g) registry_libs \<Rightarrow> ('a, 'b, 'g) processing \<Rightarrow> raw_identifiers option list" where
  "obs_view libs ps = map (component_identifiers libs (ps_aux ps)) (ps_observers ps)"

definition ids_valid :: "('a, 'b, 'g) registry_libs \<Rightarrow> ('a, 'b) auxiliary_data \<Rightarrow> nat list \<Rightarrow> bool" where
  "ids_valid libs aux ms \<longleftrightarrow> set ms \<subseteq> dom (component_map libs aux)"

definition item_valid :: "('a, 'b, 'g) registry_libs \<Rightarrow> ('a, 'b) auxiliary_data \<Rightarrow> queue_item \<Rightarrow> bool" where
  "item_valid libs aux q \<longleftrightarrow>
     ids_valid libs aux (qi_middleware_chain q) \<and> ids_valid libs aux (qi_observer_chain q)"

definition item_view :: "('a, 'b, 'g) registry_libs \<Rightarrow> ('a, 'b) auxiliary_data \<Rightarrow> queue_item
    \<Rightarrow> nesting \<times> nested_blueprint" where
  "item_view libs aux q =
     (\<lparr>nest_prefix = qi_parent_path_prefix q, nest_domain = qi_parent_domain_guard q,
       nest_middlewares = map (component_identifiers libs aux) (qi_middleware_chain q),
       nest_observers = map (component_identifiers libs aux) (qi_observer_chain q)\<rparr>, qi_nested_bp q)"

definition ps_valid :: "('a, 'b, 'g) registry_libs \<Rightarrow> ('a, 'b, 'g) processing \<Rightarrow> bool" where
  "ps_valid libs ps \<longleftrightarrow> aux_wf libs (ps_aux ps) \<and> aux_complete libs (ps_aux ps)
     \<and> ids_valid libs (ps_aux ps) (ps_middlewares ps) \<and> ids_valid libs (ps_aux ps) (ps_observers ps)
     \<and> (\<forall>q \<in> set (ps_queue ps). item_valid libs (ps_aux ps) q)"

text \<open>
  Scopes: a request handler, fallback or middleware gets a scope of its own below the current
  one, every other component belongs to the current scope.
\<close>

definition own_scope :: "user_component \<Rightarrow> bool" where
  "own_scope c \<longleftrightarrow> component_kind_of c \<in> {KRequestHandler, KFallback, KWrappingMiddleware,
     KPreProcessingMiddleware, KPostProcessingMiddleware}"

definition placed :: "('a, 'b, 'g) registry_libs \<Rightarrow> scope_id \<Rightarrow> ('g, location) scope_graph_builder
    \<Rightarrow> (nat \<times> user_component) list \<Rightarrow> ('a, 'b, 'g) processing \<Rightarrow> bool" where
  "placed libs cur b new ps' \<longleftrightarrow>
     (scope_built (lib_graph libs) b \<and> scope_index cur < sb_next_node_id b \<longrightarrow>
        scope_built (lib_graph libs) (ps_builder ps'))
   \<and> sb_next_node_id b \<le> sb_next_node_id (ps_builder ps')
   \<and> builder_edges (lib_graph libs) b \<subseteq> builder_edges (lib_graph libs) (ps_builder ps')
   \<and> (\<forall>i c. (i, c) \<in> set new \<longrightarrow>
        (\<exists>s. id2scope_id (ps_aux ps') i = Some s
           \<and> (if own_scope c then
                sb_next_node_id b \<le> scope_index s \<and> scope_index s < sb_next_node_id (ps_builder ps')
                \<and> (scope_index cur, scope_index s) \<in> builder_edges (lib_graph libs) (ps_builder ps')
              else s = cur)))"

definition fallbacks_of :: "(nat \<times> user_component) list \<Rightarrow> nat list" where
  "fallbacks_of new = map fst (filter (\<lambda>(i, c). component_kind_of c = KFallback) new)"

definition ps_step :: "('a, 'b, 'g) registry_libs \<Rightarrow> scope_id \<Rightarrow> ('a, 'b, 'g) processing \<Rightarrow> endpoint list
    \<Rightarrow> raw_identifiers option list \<Rightarrow> raw_identifiers option list \<Rightarrow> ('a, 'b, 'g) processing \<Rightarrow> bool" where
  "ps_step libs cur ps es ms os ps' \<longleftrightarrow> ps_valid libs ps'
     \<and> (\<exists>new. grows libs (ps_aux ps) es new (ps_aux ps') \<and> placed libs cur (ps_builder ps) new ps'
          \<and> length (fallbacks_of new) = length (filter is_FallbackEndpoint es))
     \<and> mw_view libs ps' = mw_view libs ps @ ms \<and> obs_view libs ps' = obs_view libs ps @ os"

definition nesting_of :: "('a, 'b, 'g) registry_libs \<Rightarrow> domain_guard option \<Rightarrow> string option
    \<Rightarrow> ('a, 'b, 'g) processing \<Rightarrow> nesting" where
  "nesting_of libs g p ps =
     \<lparr>nest_prefix = p, nest_domain = g, nest_middlewares = mw_view libs ps, nest_observers = obs_view libs ps\<rparr>"

definition queue_view :: "('a, 'b, 'g) registry_libs \<Rightarrow> ('a, 'b, 'g) processing
    \<Rightarrow> (nesting \<times> nested_blueprint) list" where
  "queue_view libs ps = map (item_view libs (ps_aux ps)) (ps_queue ps)"

lemma ps_step_valid: "ps_step libs cur ps es ms os ps' \<Longrightarrow> ps_valid libs ps'"
  by (simp add: ps_step_def)

lemma ids_valid_extends: "ids_valid libs aux ms \<Longrightarrow> aux_extends libs aux aux' \<Longrightarrow> ids_valid libs aux' ms"
  by (auto simp: ids_valid_def aux_extends_def map_le_def dom_def; metis option.distinct(1))

lemma view_extends:
  "aux_wf libs aux \<Longrightarrow> aux_extends libs aux aux' \<Longrightarrow> ids_valid libs aux ms \<Longrightarrow>
     map (component_identifiers libs aux') ms = map (component_identifiers libs aux) ms"
  unfolding ids_valid_def by (rule chain_extends)

lemma item_extends:
  assumes "aux_wf libs aux" and "aux_extends libs aux aux'" and "item_valid libs aux q"
  shows "item_valid libs aux' q" and "item_view libs aux' q = item_view libs aux q"
  using assms ids_valid_extends view_extends [OF assms(1,2)]
  by (auto simp: item_valid_def item_view_def)

lemma ps_stepI:
  assumes valid: "ps_valid libs ps" and g: "grows libs (ps_aux ps) es new (ps_aux ps')"
    and placed: "placed libs cur (ps_builder ps) new ps'"
    and count: "length (fallbacks_of new) = length (filter is_FallbackEndpoint es)"
    and mw: "ps_middlewares ps' = ps_middlewares ps @ mids" "ids_valid libs (ps_aux ps') mids"
      "map (component_identifiers libs (ps_aux ps')) mids = ms"
    and ob: "ps_observers ps' = ps_observers ps @ oids" "ids_valid libs (ps_aux ps') oids"
      "map (component_identifiers libs (ps_aux ps')) oids = os"
    and q: "ps_queue ps' = ps_queue ps"
  shows "ps_step libs cur ps es ms os ps'"
proof -
  note ext = grows_wf(3) [OF g]
  have v: "aux_wf libs (ps_aux ps)" "ids_valid libs (ps_aux ps) (ps_middlewares ps)"
    "ids_valid libs (ps_aux ps) (ps_observers ps)" "\<And>q. q \<in> set (ps_queue ps) \<Longrightarrow> item_valid libs (ps_aux ps) q"
    using valid by (simp_all add: ps_valid_def)
  have "ids_valid libs (ps_aux ps') (ps_middlewares ps')" "ids_valid libs (ps_aux ps') (ps_observers ps')"
    using ids_valid_extends [OF v(2) ext] ids_valid_extends [OF v(3) ext] mw(1,2) ob(1,2)
    by (simp_all add: ids_valid_def)
  moreover have "\<forall>q \<in> set (ps_queue ps'). item_valid libs (ps_aux ps') q"
    using item_extends(1) [OF v(1) ext] v(4) q by simp
  ultimately have "ps_valid libs ps'" using grows_wf(1,2) [OF g] by (simp add: ps_valid_def)
  moreover have "mw_view libs ps' = mw_view libs ps @ ms" "obs_view libs ps' = obs_view libs ps @ os"
    using view_extends [OF v(1) ext v(2)] view_extends [OF v(1) ext v(3)] mw ob
    by (simp_all add: mw_view_def obs_view_def)
  ultimately show ?thesis using g placed count by (auto simp: ps_step_def)
qed

section \<open>The operations register what the reference says\<close>

lemma intern_component_eq:
  "intern_component libs c s lc reg aux = (i, aux') \<longleftrightarrow>
     (\<exists>a. al_alloc (lib_components libs) c (component_interner aux) = (i, a)
        \<and> aux' = aux\<lparr>component_interner := a, id2lifecycle := (id2lifecycle aux)(i \<mapsto> lc),
            id2registration := (id2registration aux)(i \<mapsto> reg), id2scope_id := (id2scope_id aux)(i \<mapsto> s)\<rparr>)"
  by (auto simp: intern_component_def Let_def split: prod.splits)

text \<open>An operation that registers components of the current scope only, without an endpoint.\<close>

definition registers :: "('a, 'b, 'g) registry_libs \<Rightarrow> scope_id \<Rightarrow> ('a, 'b) auxiliary_data
    \<Rightarrow> ('a, 'b) auxiliary_data \<Rightarrow> bool" where
  "registers libs s aux aux' \<longleftrightarrow>
     (\<exists>new. grows libs aux [] new aux' \<and>
        (\<forall>i c. (i, c) \<in> set new \<longrightarrow> \<not> own_scope c \<and> id2scope_id aux' i = Some s))"

lemma grows_refl: "aux_wf libs aux \<Longrightarrow> aux_complete libs aux \<Longrightarrow> grows libs aux [] [] aux"
  by (simp add: grows_def)

lemma registers_refl: "aux_wf libs aux \<Longrightarrow> aux_complete libs aux \<Longrightarrow> registers libs s aux aux"
  using grows_refl by (fastforce simp: registers_def)

lemma registers_wf: "registers libs s aux aux' \<Longrightarrow> aux_wf libs aux'" "registers libs s aux aux' \<Longrightarrow> aux_complete libs aux'"
  "registers libs s aux aux' \<Longrightarrow> aux_extends libs aux aux'"
  by (auto simp: registers_def grows_def)

lemma scope_extends: "aux_extends libs aux aux' \<Longrightarrow> id2scope_id aux i = Some s \<Longrightarrow> id2scope_id aux' i = Some s"
  by (auto simp: aux_extends_def dest: map_leD)

lemma no_fallbacks: "(\<And>i c. (i, c) \<in> set new \<Longrightarrow> \<not> own_scope c) \<Longrightarrow> fallbacks_of new = []"
  by (auto simp: fallbacks_of_def own_scope_def filter_empty_conv)

lemma new_scope_eq:
  "new_scope libs p l ps = (fst (add_scope (lib_graph libs) p l (ps_builder ps)),
     ps\<lparr>ps_builder := snd (add_scope (lib_graph libs) p l (ps_builder ps))\<rparr>)"
  by (simp add: new_scope_def split: prod.split)

context registry
begin

lemma process_error_handler_grows:
  assumes "aux_wf libs aux" and "aux_complete libs aux"
  shows "registers libs s aux (process_error_handler libs eh lc s f aux)"
proof (cases eh)
  case None
  with assms show ?thesis using registers_refl by (simp add: process_error_handler_def)
next
  case (Some h)
  obtain k aux1 where k: "intern_identifiers libs (callable h) aux = (k, aux1)" by fastforce
  note g1 = intern_identifiers_grows [OF assms k]
  obtain i aux2 where i: "intern_component libs (ErrorHandler (Identifiers k) f) s lc
      (registration_from (callable_registered_at h)) aux1 = (i, aux2)" by fastforce
  obtain a where a: "al_alloc (lib_components libs) (ErrorHandler (Identifiers k) f) (component_interner aux1) = (i, a)"
    and aux2: "aux2 = aux1\<lparr>component_interner := a, id2lifecycle := (id2lifecycle aux1)(i \<mapsto> lc),
        id2registration := (id2registration aux1)(i \<mapsto> registration_from (callable_registered_at h)),
        id2scope_id := (id2scope_id aux1)(i \<mapsto> s)\<rparr>"
    using i unfolding intern_component_eq by blast
  let ?aux3 = "aux2\<lparr>fallible_id2error_handler_id := (fallible_id2error_handler_id aux2)(f \<mapsto> i)\<rparr>"
  let ?c = "ErrorHandler (Identifiers k) f"
  have "grows libs aux1 (endpoint_of libs ?aux3 (i, ?c)) [(i, ?c)] ?aux3"
    by (rule register_grows) (use grows_wf [OF g1(1)] g1(2) in \<open>auto simp: aux2 a missing_entries_none\<close>)
  with grows_trans [OF g1(1)] have "grows libs aux [] [(i, ?c)] ?aux3" by (fastforce simp: endpoint_of_def)
  moreover have "id2scope_id ?aux3 i = Some s" by (simp add: aux2)
  ultimately have "registers libs s aux ?aux3" by (auto simp: registers_def own_scope_def)
  then show ?thesis by (simp add: process_error_handler_def Some k i)
qed

lemma ps_valid_parts:
  "ps_valid libs ps \<Longrightarrow> aux_wf libs (ps_aux ps)" "ps_valid libs ps \<Longrightarrow> aux_complete libs (ps_aux ps)"
  "ps_valid libs ps \<Longrightarrow> ids_valid libs (ps_aux ps) (ps_middlewares ps)"
  "ps_valid libs ps \<Longrightarrow> ids_valid libs (ps_aux ps) (ps_observers ps)"
  by (simp_all add: ps_valid_def)

lemma validate_route_fields [simp]:
  "ps_aux (validate_route i r ps) = ps_aux ps" "ps_middlewares (validate_route i r ps) = ps_middlewares ps"
  "ps_observers (validate_route i r ps) = ps_observers ps" "ps_queue (validate_route i r ps) = ps_queue ps"
  "ps_builder (validate_route i r ps) = ps_builder ps"
  by (simp_all add: validate_route_def push_diagnostic_def)

text \<open>An operation that interns an identifier, registers a component and then an error handler.\<close>

lemma register_chain:
  assumes valid: "aux_wf libs aux" "aux_complete libs aux"
    and k: "intern_identifiers libs ri aux = (k, aux1)"
    and i: "intern_component libs c s lc reg aux1 = (i, aux2)"
    and src: "raw_identifiers_id c = Some k"
    and upd: "component_interner aux3 = component_interner aux2" "identifiers_interner aux3 = identifiers_interner aux2"
      "id2lifecycle aux3 = id2lifecycle aux2" "id2registration aux3 = id2registration aux2"
      "id2scope_id aux3 = id2scope_id aux2"
      "same_but i (id2cloning_strategy aux2) (id2cloning_strategy aux3)"
      "same_but i (config_id2default_strategy aux2) (config_id2default_strategy aux3)"
      "same_but i (handler_id2middleware_ids aux2) (handler_id2middleware_ids aux3)"
      "same_but i (handler_id2error_observer_ids aux2) (handler_id2error_observer_ids aux3)"
      "same_but i (fallback_id2path_prefix aux2) (fallback_id2path_prefix aux3)"
      "same_but i (fallback_id2domain_guard aux2) (fallback_id2domain_guard aux3)"
    and mw: "\<And>ms. handler_id2middleware_ids aux3 i = Some ms \<Longrightarrow> handler_id2middleware_ids aux2 i = None \<Longrightarrow>
      ids_valid libs aux ms"
    and ob: "\<And>ms. handler_id2error_observer_ids aux3 i = Some ms \<Longrightarrow>
      handler_id2error_observer_ids aux2 i = None \<Longrightarrow> ids_valid libs aux ms"
    and tables: "component_kind_of c \<in> {KConstructor, KPrebuiltType, KConfigType} \<longrightarrow> id2cloning_strategy aux3 i \<noteq> None"
      "component_kind_of c = KConfigType \<longrightarrow> config_id2default_strategy aux3 i \<noteq> None"
      "component_kind_of c \<in> {KRequestHandler, KFallback} \<longrightarrow>
        handler_id2middleware_ids aux3 i \<noteq> None \<and> handler_id2error_observer_ids aux3 i \<noteq> None"
      "component_kind_of c = KFallback \<longrightarrow>
        fallback_id2path_prefix aux3 i \<noteq> None \<and> fallback_id2domain_guard aux3 i \<noteq> None"
  shows "\<exists>new. grows libs aux (endpoint_of libs aux3 (i, c)) ((i, c) # new) (process_error_handler libs eh lc' s' i aux3)
      \<and> id2scope_id (process_error_handler libs eh lc' s' i aux3) i = Some s
      \<and> (\<forall>j d. (j, d) \<in> set new \<longrightarrow>
          \<not> own_scope d \<and> id2scope_id (process_error_handler libs eh lc' s' i aux3) j = Some s')"
    and "grows libs aux (endpoint_of libs aux3 (i, c)) [(i, c)] aux3"
    and "component_map libs aux3 i = Some c" and "identifiers_map libs aux3 k = Some ri"
    and "id2scope_id aux3 i = Some s"
proof -
  note g1 = intern_identifiers_grows [OF valid k]
  note w1 = grows_wf [OF g1(1)]
  obtain a where a: "al_alloc (lib_components libs) c (component_interner aux1) = (i, a)"
    and aux2: "aux2 = aux1\<lparr>component_interner := a, id2lifecycle := (id2lifecycle aux1)(i \<mapsto> lc),
        id2registration := (id2registration aux1)(i \<mapsto> reg), id2scope_id := (id2scope_id aux1)(i \<mapsto> s)\<rparr>"
    using i unfolding intern_component_eq by blast
  have dom: "ids_valid libs aux ms \<Longrightarrow> set ms \<subseteq> dom (component_map libs aux1)" for ms
    using ids_valid_extends [OF _ w1(3)] by (simp add: ids_valid_def)
  have al3: "al_alloc (lib_components libs) c (component_interner aux1) = (i, component_interner aux3)"
    using a by (simp add: upd(1) aux2)
  have ii3: "identifiers_interner aux3 = identifiers_interner aux1" by (simp add: upd(2) aux2)
  have miss: "missing_entries aux3 i c = []"
    using tables unfolding missing_entries_none by (simp add: upd(3-5) aux2)
  have src1: "\<And>k'. raw_identifiers_id c = Some k' \<Longrightarrow> k' \<in> dom (identifiers_map libs aux1)"
    using src g1(2) by auto
  have base: "same_but i (id2lifecycle aux1) (id2lifecycle aux3)" "same_but i (id2registration aux1) (id2registration aux3)"
    "same_but i (id2scope_id aux1) (id2scope_id aux3)"
    by (simp_all add: upd(3-5) aux2)
  note more = upd(6-11) [simplified aux2, simplified]
  have mw1: "handler_id2middleware_ids aux3 i = Some ms \<Longrightarrow> handler_id2middleware_ids aux1 i = None \<Longrightarrow>
      set ms \<subseteq> dom (component_map libs aux1)" for ms
    using mw dom by (simp add: aux2)
  have ob1: "handler_id2error_observer_ids aux3 i = Some ms \<Longrightarrow> handler_id2error_observer_ids aux1 i = None \<Longrightarrow>
      set ms \<subseteq> dom (component_map libs aux1)" for ms
    using ob dom by (simp add: aux2)
  note r = register_grows [OF w1(1,2) al3 ii3 src1 base more mw1 ob1 miss]
  show g3: "grows libs aux (endpoint_of libs aux3 (i, c)) [(i, c)] aux3"
    using grows_trans [OF g1(1) r(1)] by simp
  show "component_map libs aux3 i = Some c" using r(2) by simp
  show "identifiers_map libs aux3 k = Some ri" using g1(2) by (simp add: identifiers_map_def ii3)
  show s3: "id2scope_id aux3 i = Some s" by (simp add: upd(5) aux2)
  obtain new where "grows libs aux3 [] new (process_error_handler libs eh lc' s' i aux3)"
    and new: "\<forall>j d. (j, d) \<in> set new \<longrightarrow>
      \<not> own_scope d \<and> id2scope_id (process_error_handler libs eh lc' s' i aux3) j = Some s'"
    using process_error_handler_grows [OF grows_wf(1,2) [OF g3], where s = s'] unfolding registers_def by blast
  from grows_trans [OF g3 this(1)] scope_extends [OF grows_wf(3) [OF this(1)] s3] new
  show "\<exists>new. grows libs aux (endpoint_of libs aux3 (i, c)) ((i, c) # new) (process_error_handler libs eh lc' s' i aux3)
      \<and> id2scope_id (process_error_handler libs eh lc' s' i aux3) i = Some s
      \<and> (\<forall>j d. (j, d) \<in> set new \<longrightarrow>
          \<not> own_scope d \<and> id2scope_id (process_error_handler libs eh lc' s' i aux3) j = Some s')" by auto
qed

text \<open>What that does to scopes, for a component with a scope of its own and for the others.\<close>

lemma placed_own:
  assumes "own_scope c" and "ps_builder ps' = snd (add_scope (lib_graph libs) cur l b)"
    and "id2scope_id (ps_aux ps') i = Some (fst (add_scope (lib_graph libs) cur l b))"
    and "\<forall>j d. (j, d) \<in> set new \<longrightarrow> \<not> own_scope d \<and> id2scope_id (ps_aux ps') j = Some cur"
  shows "placed libs cur b ((i, c) # new) ps'"
proof -
  have "fst (add_scope (lib_graph libs) cur l b) = ScopeId (sb_next_node_id b)"
    by (simp add: add_scope_def Let_def)
  then show ?thesis
    using assms built_add [of "lib_graph libs" b cur l] by (auto simp: placed_def scopes.add_scope_edges)
qed

lemma placed_same:
  assumes "ps_builder ps' = b"
    and "\<And>j d. (j, d) \<in> set new \<Longrightarrow> \<not> own_scope d \<and> id2scope_id (ps_aux ps') j = Some cur"
  shows "placed libs cur b new ps'"
  using assms by (auto simp: placed_def)

lemma ps_step_registers:
  assumes "ps_valid libs ps" and "registers libs cur (ps_aux ps) aux'"
  shows "ps_step libs cur ps [] [] [] (ps\<lparr>ps_aux := aux'\<rparr>)"
proof -
  obtain new where new: "grows libs (ps_aux ps) [] new aux'"
    "\<And>i c. (i, c) \<in> set new \<Longrightarrow> \<not> own_scope c \<and> id2scope_id aux' i = Some cur"
    using assms(2) by (auto simp: registers_def)
  show ?thesis
    by (rule ps_stepI [OF assms(1), where new = new and mids = "[]" and oids = "[]"])
      (use new no_fallbacks [of new] in \<open>auto simp: ids_valid_def intro!: placed_same\<close>)
qed

lemma process_route_step:
  assumes valid: "ps_valid libs ps"
  shows "ps_step libs sc ps
    [RouteEndpoint \<lparr>rk_path = prefixed p (route_path r), rk_method_guard = route_method_guard r, rk_domain_guard = g\<rparr>
       (Some (callable (route_handler r))) (mw_view libs ps) (obs_view libs ps)] [] []
    (process_route libs r sc g p ps)"
proof -
  note v = ps_valid_parts [OF valid]
  obtain k aux1 where k: "intern_identifiers libs (callable (route_handler r)) (ps_aux ps) = (k, aux1)" by fastforce
  let ?key = "\<lparr>rk_path = prefixed p (route_path r), rk_method_guard = route_method_guard r, rk_domain_guard = g\<rparr>"
  let ?reg = "registration_from (callable_registered_at (route_handler r))"
  let ?rs = "fst (add_scope (lib_graph libs) sc None (ps_builder ps))"
  let ?ps1 = "ps\<lparr>ps_builder := snd (add_scope (lib_graph libs) sc None (ps_builder ps))\<rparr>"
  obtain i aux2 where i: "intern_component libs (RequestHandler k ?key) ?rs RequestScoped ?reg aux1 = (i, aux2)"
    by fastforce
  let ?aux3 = "add_chains i (ps_middlewares ps) (ps_observers ps) aux2"
  let ?aux4 = "process_error_handler libs (route_error_handler r) RequestScoped sc i ?aux3"
  have pr: "process_route libs r sc g p ps = (validate_route i r ?ps1)\<lparr>ps_aux := ?aux4\<rparr>"
    by (simp add: process_route_def new_scope_eq k i Let_def)
  have c: "\<exists>new. grows libs (ps_aux ps) (endpoint_of libs ?aux3 (i, RequestHandler k ?key)) ((i, RequestHandler k ?key) # new) ?aux4
        \<and> id2scope_id ?aux4 i = Some ?rs
        \<and> (\<forall>j d. (j, d) \<in> set new \<longrightarrow> \<not> own_scope d \<and> id2scope_id ?aux4 j = Some sc)"
      "grows libs (ps_aux ps) (endpoint_of libs ?aux3 (i, RequestHandler k ?key)) [(i, RequestHandler k ?key)] ?aux3"
      "identifiers_map libs ?aux3 k = Some (callable (route_handler r))"
    by (rule register_chain [OF v(1,2) k i]; use v in \<open>simp add: add_chains_def\<close>)+
  then obtain new where n: "grows libs (ps_aux ps) (endpoint_of libs ?aux3 (i, RequestHandler k ?key)) ((i, RequestHandler k ?key) # new) ?aux4"
      "id2scope_id ?aux4 i = Some ?rs"
      "\<forall>j d. (j, d) \<in> set new \<longrightarrow> \<not> own_scope d \<and> id2scope_id ?aux4 j = Some sc" by blast
  have e: "endpoint_of libs ?aux3 (i, RequestHandler k ?key) =
      [RouteEndpoint ?key (Some (callable (route_handler r))) (mw_view libs ps) (obs_view libs ps)]"
    using view_extends [OF v(1) grows_wf(3) [OF c(2)] v(3)] view_extends [OF v(1) grows_wf(3) [OF c(2)] v(4)] c(3)
    by (simp add: endpoint_of_def chain_identifiers_def mw_view_def obs_view_def add_chains_def)
  have pl: "placed libs sc (ps_builder ps) ((i, RequestHandler k ?key) # new) (process_route libs r sc g p ps)"
    by (rule placed_own) (use n(2,3) in \<open>simp_all add: pr own_scope_def\<close>)
  show ?thesis
    by (rule ps_stepI [OF valid _ pl, where mids = "[]" and oids = "[]"])
      (use n(1) e no_fallbacks [of new] n(3) in \<open>simp_all add: pr ids_valid_def fallbacks_of_def\<close>)
qed

lemma process_fallback_step:
  assumes valid: "ps_valid libs ps"
  shows "ps_step libs sc ps
    [FallbackEndpoint p g (Some (callable (fallback_handler f))) (mw_view libs ps) (obs_view libs ps)] [] []
    (process_fallback libs f p g sc ps)"
proof -
  note v = ps_valid_parts [OF valid]
  obtain k aux1 where k: "intern_identifiers libs (callable (fallback_handler f)) (ps_aux ps) = (k, aux1)" by fastforce
  let ?reg = "registration_from (callable_registered_at (fallback_handler f))"
  let ?rs = "fst (add_scope (lib_graph libs) sc None (ps_builder ps))"
  let ?ps1 = "ps\<lparr>ps_builder := snd (add_scope (lib_graph libs) sc None (ps_builder ps))\<rparr>"
  obtain i aux2 where i: "intern_component libs (Fallback k) ?rs RequestScoped ?reg aux1 = (i, aux2)"
    by fastforce
  let ?aux3 = "(add_chains i (ps_middlewares ps) (ps_observers ps) aux2)
    \<lparr>fallback_id2path_prefix := (fallback_id2path_prefix aux2)(i \<mapsto> p),
     fallback_id2domain_guard := (fallback_id2domain_guard aux2)(i \<mapsto> g)\<rparr>"
  let ?aux4 = "process_error_handler libs (fallback_error_handler f) RequestScoped sc i ?aux3"
  have pr: "process_fallback libs f p g sc ps = ?ps1\<lparr>ps_aux := ?aux4\<rparr>"
    by (simp add: process_fallback_def new_scope_eq k i Let_def add_chains_def)
  have c: "\<exists>new. grows libs (ps_aux ps) (endpoint_of libs ?aux3 (i, Fallback k)) ((i, Fallback k) # new) ?aux4
        \<and> id2scope_id ?aux4 i = Some ?rs
        \<and> (\<forall>j d. (j, d) \<in> set new \<longrightarrow> \<not> own_scope d \<and> id2scope_id ?aux4 j = Some sc)"
      "grows libs (ps_aux ps) (endpoint_of libs ?aux3 (i, Fallback k)) [(i, Fallback k)] ?aux3"
      "identifiers_map libs ?aux3 k = Some (callable (fallback_handler f))"
    by (rule register_chain [OF v(1,2) k i]; use v in \<open>simp add: add_chains_def\<close>)+
  then obtain new where n: "grows libs (ps_aux ps) (endpoint_of libs ?aux3 (i, Fallback k)) ((i, Fallback k) # new) ?aux4"
      "id2scope_id ?aux4 i = Some ?rs"
      "\<forall>j d. (j, d) \<in> set new \<longrightarrow> \<not> own_scope d \<and> id2scope_id ?aux4 j = Some sc" by blast
  have e: "endpoint_of libs ?aux3 (i, Fallback k) =
      [FallbackEndpoint p g (Some (callable (fallback_handler f))) (mw_view libs ps) (obs_view libs ps)]"
    using view_extends [OF v(1) grows_wf(3) [OF c(2)] v(3)] view_extends [OF v(1) grows_wf(3) [OF c(2)] v(4)] c(3)
    by (simp add: endpoint_of_def chain_identifiers_def mw_view_def obs_view_def add_chains_def)
  have pl: "placed libs sc (ps_builder ps) ((i, Fallback k) # new) (process_fallback libs f p g sc ps)"
    by (rule placed_own) (use n(2,3) in \<open>simp_all add: pr own_scope_def\<close>)
  show ?thesis
    by (rule ps_stepI [OF valid _ pl, where mids = "[]" and oids = "[]"])
      (use n(1) e no_fallbacks [of new] n(3) in \<open>simp_all add: pr ids_valid_def fallbacks_of_def\<close>)
qed

text \<open>Components without an endpoint.\<close>

lemma process_middleware_step:
  assumes valid: "ps_valid libs ps"
    and kind: "\<And>k. raw_identifiers_id (mk k) = Some k"
      "\<And>k. component_kind_of (mk k) \<in> {KWrappingMiddleware, KPreProcessingMiddleware, KPostProcessingMiddleware}"
  shows "ps_step libs sc ps [] [Some (callable (mw_callable m))] [] (process_middleware_as mk libs m sc ps)"
proof -
  note v = ps_valid_parts [OF valid]
  obtain k aux1 where k: "intern_identifiers libs (callable (mw_callable m)) (ps_aux ps) = (k, aux1)" by fastforce
  let ?reg = "registration_from (callable_registered_at (mw_callable m))"
  let ?rs = "fst (add_scope (lib_graph libs) sc None (ps_builder ps))"
  let ?ps1 = "ps\<lparr>ps_builder := snd (add_scope (lib_graph libs) sc None (ps_builder ps))\<rparr>"
  obtain i aux2 where i: "intern_component libs (mk k) ?rs RequestScoped ?reg aux1 = (i, aux2)"
    by fastforce
  let ?aux4 = "process_error_handler libs (mw_error_handler m) RequestScoped sc i aux2"
  have pr: "process_middleware_as mk libs m sc ps =
      ?ps1\<lparr>ps_middlewares := ps_middlewares ps @ [i], ps_aux := ?aux4\<rparr>"
    by (simp add: process_middleware_as_def new_scope_eq k i Let_def)
  have c: "\<exists>new. grows libs (ps_aux ps) (endpoint_of libs aux2 (i, mk k)) ((i, mk k) # new) ?aux4
        \<and> id2scope_id ?aux4 i = Some ?rs
        \<and> (\<forall>j d. (j, d) \<in> set new \<longrightarrow> \<not> own_scope d \<and> id2scope_id ?aux4 j = Some sc)"
      "grows libs (ps_aux ps) (endpoint_of libs aux2 (i, mk k)) [(i, mk k)] aux2"
      "component_map libs aux2 i = Some (mk k)" "identifiers_map libs aux2 k = Some (callable (mw_callable m))"
    by (rule register_chain [OF v(1,2) k i]; use kind(2) [of k] in \<open>auto simp: kind(1)\<close>)+
  then obtain new where n: "grows libs (ps_aux ps) (endpoint_of libs aux2 (i, mk k)) ((i, mk k) # new) ?aux4"
      "id2scope_id ?aux4 i = Some ?rs"
      "\<forall>j d. (j, d) \<in> set new \<longrightarrow> \<not> own_scope d \<and> id2scope_id ?aux4 j = Some sc" by blast
  have e: "endpoint_of libs aux2 (i, mk k) = []"
    using kind(2) [of k] by (cases "mk k") (simp_all add: endpoint_of_def)
  have ext: "aux_extends libs aux2 ?aux4"
    using registers_wf(3) [OF process_error_handler_grows [OF grows_wf(1,2) [OF c(2)]]] .
  have m: "component_map libs ?aux4 i = Some (mk k)" "identifiers_map libs ?aux4 k = Some (callable (mw_callable m))"
    using ext c(3,4) by (auto simp: aux_extends_def dest: map_leD)
  have own: "own_scope (mk k)" "component_kind_of (mk k) \<noteq> KFallback"
    using kind(2) [of k] by (auto simp: own_scope_def)
  have pl: "placed libs sc (ps_builder ps) ((i, mk k) # new) (process_middleware_as mk libs m sc ps)"
    by (rule placed_own [OF own(1)]) (use n(2,3) in \<open>simp_all add: pr\<close>)
  show ?thesis
    by (rule ps_stepI [OF valid _ pl, where mids = "[i]" and oids = "[]"])
      (use n(1) e m no_fallbacks [of new] n(3) own(2) in
        \<open>simp_all add: pr ids_valid_def component_identifiers_def kind(1) domI fallbacks_of_def\<close>)
qed

lemma process_error_observer_step:
  assumes valid: "ps_valid libs ps"
  shows "ps_step libs sc ps [] [] [Some (callable eo)] (process_error_observer libs eo sc ps)"
proof -
  note v = ps_valid_parts [OF valid]
  obtain k aux1 where k: "intern_identifiers libs (callable eo) (ps_aux ps) = (k, aux1)" by fastforce
  let ?reg = "registration_from (callable_registered_at eo)"
  obtain i aux2 where i: "intern_component libs (ErrorObserver k) sc Transient ?reg aux1 = (i, aux2)" by fastforce
  have pr: "process_error_observer libs eo sc ps =
      ps\<lparr>ps_aux := aux2, ps_observers := ps_observers ps @ [i]\<rparr>"
    by (simp add: process_error_observer_def k i Let_def)
  have c: "grows libs (ps_aux ps) (endpoint_of libs aux2 (i, ErrorObserver k)) [(i, ErrorObserver k)] aux2"
      "component_map libs aux2 i = Some (ErrorObserver k)" "identifiers_map libs aux2 k = Some (callable eo)"
      "id2scope_id aux2 i = Some sc"
    by (rule register_chain [OF v(1,2) k i]; simp)+
  have pl: "placed libs sc (ps_builder ps) [(i, ErrorObserver k)] (process_error_observer libs eo sc ps)"
    by (rule placed_same) (use c(4) in \<open>auto simp: pr own_scope_def\<close>)
  show ?thesis
    by (rule ps_stepI [OF valid _ pl, where mids = "[]" and oids = "[i]"])
      (use c in \<open>simp_all add: pr ids_valid_def component_identifiers_def endpoint_of_def domI fallbacks_of_def\<close>)
qed

lemma process_constructor_registers:
  assumes "aux_wf libs aux" and "aux_complete libs aux"
  shows "registers libs sc aux (process_constructor libs c sc aux)"
proof -
  obtain k aux1 where k: "intern_identifiers libs (callable (ctor_callable c)) aux = (k, aux1)" by fastforce
  let ?reg = "registration_from (callable_registered_at (ctor_callable c))"
  let ?c = "Constructor (Identifiers k)"
  obtain i aux2 where i: "intern_component libs ?c sc (ctor_lifecycle c) ?reg aux1 = (i, aux2)"
    by fastforce
  let ?aux3 = "aux2\<lparr>id2cloning_strategy := (id2cloning_strategy aux2)(i \<mapsto>
      (case ctor_cloning_strategy c of Some s \<Rightarrow> s | None \<Rightarrow> NeverClone))\<rparr>"
  let ?aux4 = "if ctor_lints c \<noteq> fmempty then ?aux3\<lparr>id2lints := (id2lints ?aux3)(i \<mapsto> ctor_lints c)\<rparr> else ?aux3"
  let ?aux5 = "process_error_handler libs (ctor_error_handler c) (ctor_lifecycle c) sc i ?aux4"
  have pr: "process_constructor libs c sc aux = ?aux5"
    by (simp add: process_constructor_def k i Let_def)
  have "\<exists>new. grows libs aux (endpoint_of libs ?aux4 (i, ?c)) ((i, ?c) # new) ?aux5
      \<and> id2scope_id ?aux5 i = Some sc
      \<and> (\<forall>j d. (j, d) \<in> set new \<longrightarrow> \<not> own_scope d \<and> id2scope_id ?aux5 j = Some sc)"
    by (rule register_chain(1) [OF assms k i]) (simp_all split: if_splits)
  moreover have "endpoint_of libs ?aux4 (i, ?c) = []" "\<not> own_scope ?c"
    by (simp_all add: endpoint_of_def own_scope_def)
  ultimately show ?thesis unfolding pr registers_def by (metis set_ConsD prod.inject)
qed

lemma process_prebuilt_type_registers:
  assumes "aux_wf libs aux" and "aux_complete libs aux"
  shows "registers libs sc aux (process_prebuilt_type libs t sc aux)"
proof -
  obtain k aux1 where k: "intern_identifiers libs (type_identifiers (pre_input t)) aux = (k, aux1)" by fastforce
  let ?reg = "registration_from (type_registered_at (pre_input t))"
  let ?c = "PrebuiltType (Identifiers k)"
  obtain i aux2 where i: "intern_component libs ?c sc Singleton ?reg aux1 = (i, aux2)" by fastforce
  let ?aux3 = "process_prebuilt_type libs t sc aux"
  have "grows libs aux (endpoint_of libs ?aux3 (i, ?c)) [(i, ?c)] ?aux3" "id2scope_id ?aux3 i = Some sc"
    by (rule register_chain(2,5) [OF assms k i]; simp add: process_prebuilt_type_def k i Let_def)+
  then show ?thesis by (auto simp: registers_def endpoint_of_def own_scope_def)
qed

lemma process_config_type_registers:
  assumes "aux_wf libs aux" and "aux_complete libs aux"
  shows "registers libs sc aux (process_config_type libs t sc aux)"
proof -
  obtain k aux1 where k: "intern_identifiers libs (type_identifiers (cfg_input t)) aux = (k, aux1)" by fastforce
  let ?reg = "registration_from (type_registered_at (cfg_input t))"
  let ?c = "ConfigType (Identifiers k) (cfg_key t)"
  obtain i aux2 where i: "intern_component libs ?c sc Singleton ?reg aux1 = (i, aux2)" by fastforce
  let ?aux3 = "process_config_type libs t sc aux"
  have "grows libs aux (endpoint_of libs ?aux3 (i, ?c)) [(i, ?c)] ?aux3" "id2scope_id ?aux3 i = Some sc"
    by (rule register_chain(2,5) [OF assms k i]; simp add: process_config_type_def k i Let_def)+
  then show ?thesis by (auto simp: registers_def endpoint_of_def own_scope_def)
qed

lemma registers_irrelevant:
  assumes "aux_wf libs aux" and "aux_complete libs aux"
  shows "registers libs sc aux (aux\<lparr>imports_to_resolve := ims\<rparr>)"
    and "registers libs sc aux (aux\<lparr>domain_guard2locations := locs\<rparr>)"
proof -
  have wf: "aux_wf libs (aux\<lparr>imports_to_resolve := ims\<rparr>)" "aux_wf libs (aux\<lparr>domain_guard2locations := locs\<rparr>)"
    using assms(1) by (simp_all add: aux_wf_def component_map_def identifiers_map_def)
  have ext: "aux_extends libs aux (aux\<lparr>imports_to_resolve := ims\<rparr>)"
      "aux_extends libs aux (aux\<lparr>domain_guard2locations := locs\<rparr>)"
    by (simp_all add: aux_extends_def component_map_def identifiers_map_def)
  have "grows libs aux [] [] (aux\<lparr>imports_to_resolve := ims\<rparr>)"
    by (rule growsI [OF assms wf(1) ext(1), of "[]"]) simp_all
  then show "registers libs sc aux (aux\<lparr>imports_to_resolve := ims\<rparr>)" by (fastforce simp: registers_def)
  have "grows libs aux [] [] (aux\<lparr>domain_guard2locations := locs\<rparr>)"
    by (rule growsI [OF assms wf(2) ext(2), of "[]"]) simp_all
  then show "registers libs sc aux (aux\<lparr>domain_guard2locations := locs\<rparr>)" by (fastforce simp: registers_def)
qed

text \<open>One component.\<close>

lemma queue_view_step:
  assumes "ps_valid libs ps" and "ps_step libs cur ps es ms os ps'" and "ps_queue ps' = ps_queue ps"
  shows "queue_view libs ps' = queue_view libs ps"
  using assms item_extends(2) [of libs "ps_aux ps" "ps_aux ps'"]
  by (auto simp: queue_view_def ps_step_def ps_valid_def grows_def)

lemma nesting_of_step:
  "ps_step libs cur ps es (middleware_identifiers c) (observer_identifiers c) ps' \<Longrightarrow>
     nesting_of libs g p ps' = after_component c (nesting_of libs g p ps)"
  by (simp add: nesting_of_def after_component_def ps_step_def)

lemma process_component_step:
  assumes valid: "ps_valid libs ps"
  obtains ps' where
    "process_component libs sc g p c (ps, f) =
       (ps', case c of CFallbackRequestHandler h \<Rightarrow> Some h | _ \<Rightarrow> f)"
    "ps_step libs sc ps (route_endpoints (nesting_of libs g p ps) [c])
       (middleware_identifiers c) (observer_identifiers c) ps'"
    "queue_view libs ps' = queue_view libs ps
       @ (case c of CNestedBlueprint b \<Rightarrow> [(nesting_of libs g p ps, b)] | _ \<Rightarrow> [])"
proof -
  note v = ps_valid_parts [OF valid]
  let ?ps' = "fst (process_component libs sc g p c (ps, f))"
  have step: "ps_step libs sc ps (route_endpoints (nesting_of libs g p ps) [c])
       (middleware_identifiers c) (observer_identifiers c) ?ps'"
    and queue: "queue_view libs ?ps' = queue_view libs ps
       @ (case c of CNestedBlueprint b \<Rightarrow> [(nesting_of libs g p ps, b)] | _ \<Rightarrow> [])"
  proof -
    have "ps_step libs sc ps (route_endpoints (nesting_of libs g p ps) [c])
        (middleware_identifiers c) (observer_identifiers c) ?ps' \<and> ps_queue ?ps' = ps_queue ps"
      if "\<forall>b. c \<noteq> CNestedBlueprint b"
    proof (cases c)
      case (CNestedBlueprint b)
      with that show ?thesis by blast
    qed (use process_route_step [OF valid] process_error_observer_step [OF valid]
          ps_step_registers [OF valid process_constructor_registers [OF v(1,2)]]
          ps_step_registers [OF valid process_prebuilt_type_registers [OF v(1,2)]]
          ps_step_registers [OF valid process_config_type_registers [OF v(1,2)]]
          ps_step_registers [OF valid registers_irrelevant(1) [OF v(1,2)]]
          process_middleware_step [OF valid, of WrappingMiddleware]
          process_middleware_step [OF valid, of PreProcessingMiddleware]
          process_middleware_step [OF valid, of PostProcessingMiddleware]
          ps_step_registers [OF valid registers_refl [OF v(1,2)]] in
        \<open>simp_all add: process_component_def process_middleware_def nesting_of_def
          process_pre_processing_middleware_def process_post_processing_middleware_def\<close>)
    moreover have "ps_step libs sc ps (route_endpoints (nesting_of libs g p ps) [c])
        (middleware_identifiers c) (observer_identifiers c) ?ps'
        \<and> queue_view libs ?ps' = queue_view libs ps @ [(nesting_of libs g p ps, b)]"
      if c: "c = CNestedBlueprint b" for b
    proof -
      let ?q = "\<lparr>qi_parent_scope_id = sc, qi_parent_path_prefix = p, qi_parent_domain_guard = g,
        qi_nested_bp = b, qi_middleware_chain = ps_middlewares ps, qi_observer_chain = ps_observers ps\<rparr>"
      have ps': "fst (process_component libs sc g p (CNestedBlueprint b) (ps, f)) = ps\<lparr>ps_queue := ps_queue ps @ [?q]\<rparr>"
        by (simp add: process_component_def)
      have "item_valid libs (ps_aux ps) ?q" using v by (simp add: item_valid_def)
      moreover have "item_view libs (ps_aux ps) ?q = (nesting_of libs g p ps, b)"
        by (simp add: item_view_def nesting_of_def mw_view_def obs_view_def)
      ultimately have "ps_valid libs (ps\<lparr>ps_queue := ps_queue ps @ [?q]\<rparr>)"
          "queue_view libs (ps\<lparr>ps_queue := ps_queue ps @ [?q]\<rparr>) = queue_view libs ps @ [(nesting_of libs g p ps, b)]"
        using valid by (auto simp: ps_valid_def queue_view_def)
      moreover have "placed libs sc (ps_builder ps) [] (ps\<lparr>ps_queue := ps_queue ps @ [?q]\<rparr>)"
        by (rule placed_same) simp_all
      moreover have "grows libs (ps_aux ps) [] [] (ps_aux ps)" by (rule grows_refl [OF v(1,2)])
      ultimately show ?thesis
        unfolding c ps' ps_step_def
        by (intro conjI exI [of _ "[]"]) (simp_all add: fallbacks_of_def mw_view_def obs_view_def)
    qed
    ultimately show "ps_step libs sc ps (route_endpoints (nesting_of libs g p ps) [c])
       (middleware_identifiers c) (observer_identifiers c) ?ps'"
      and "queue_view libs ?ps' = queue_view libs ps
       @ (case c of CNestedBlueprint b \<Rightarrow> [(nesting_of libs g p ps, b)] | _ \<Rightarrow> [])"
      using queue_view_step [OF valid] by (cases c; auto)+
  qed
  have snd: "snd (process_component libs sc g p c (ps, f)) = (case c of CFallbackRequestHandler h \<Rightarrow> Some h | _ \<Rightarrow> f)"
    by (cases c) (simp_all add: process_component_def)
  show thesis by (rule that [OF _ step queue]) (simp add: snd [symmetric])
qed

text \<open>All components of a blueprint, then the queue.\<close>

lemma placed_trans:
  assumes "placed libs cur (ps_builder ps) n1 ps1" and "placed libs cur (ps_builder ps1) n2 ps2"
    and "aux_extends libs (ps_aux ps1) (ps_aux ps2)"
  shows "placed libs cur (ps_builder ps) (n1 @ n2) ps2"
proof -
  have le: "sb_next_node_id (ps_builder ps) \<le> sb_next_node_id (ps_builder ps1)"
      "sb_next_node_id (ps_builder ps1) \<le> sb_next_node_id (ps_builder ps2)"
      "builder_edges (lib_graph libs) (ps_builder ps1) \<subseteq> builder_edges (lib_graph libs) (ps_builder ps2)"
    using assms(1,2) by (simp_all add: placed_def)
  have "\<exists>s. id2scope_id (ps_aux ps2) i = Some s
       \<and> (if own_scope c then
            sb_next_node_id (ps_builder ps) \<le> scope_index s \<and> scope_index s < sb_next_node_id (ps_builder ps2)
            \<and> (scope_index cur, scope_index s) \<in> builder_edges (lib_graph libs) (ps_builder ps2)
          else s = cur)" if "(i, c) \<in> set (n1 @ n2)" for i c
  proof (cases "(i, c) \<in> set n1")
    case True
    then obtain s where s: "id2scope_id (ps_aux ps1) i = Some s"
      "if own_scope c then
            sb_next_node_id (ps_builder ps) \<le> scope_index s \<and> scope_index s < sb_next_node_id (ps_builder ps1)
            \<and> (scope_index cur, scope_index s) \<in> builder_edges (lib_graph libs) (ps_builder ps1)
          else s = cur"
      using assms(1) unfolding placed_def by blast
    show ?thesis
      using scope_extends [OF assms(3) s(1)] s(2) le by (intro exI [of _ s]) (auto split: if_splits)
  next
    case False
    with that have "(i, c) \<in> set n2" by simp
    then obtain s where s: "id2scope_id (ps_aux ps2) i = Some s"
      "if own_scope c then
            sb_next_node_id (ps_builder ps1) \<le> scope_index s \<and> scope_index s < sb_next_node_id (ps_builder ps2)
            \<and> (scope_index cur, scope_index s) \<in> builder_edges (lib_graph libs) (ps_builder ps2)
          else s = cur"
      using assms(2) unfolding placed_def by blast
    then show ?thesis using le(1) by (intro exI [of _ s]) (auto split: if_splits)
  qed
  then show ?thesis using assms(1,2) unfolding placed_def by auto
qed

lemma ps_step_trans:
  assumes "ps_step libs cur ps e1 m1 o1 ps1" and "ps_step libs cur ps1 e2 m2 o2 ps2"
  shows "ps_step libs cur ps (e1 @ e2) (m1 @ m2) (o1 @ o2) ps2"
proof -
  obtain n1 n2 where n: "grows libs (ps_aux ps) e1 n1 (ps_aux ps1)" "placed libs cur (ps_builder ps) n1 ps1"
      "length (fallbacks_of n1) = length (filter is_FallbackEndpoint e1)"
      "grows libs (ps_aux ps1) e2 n2 (ps_aux ps2)" "placed libs cur (ps_builder ps1) n2 ps2"
      "length (fallbacks_of n2) = length (filter is_FallbackEndpoint e2)"
    using assms unfolding ps_step_def by blast
  have "grows libs (ps_aux ps) (e1 @ e2) (n1 @ n2) (ps_aux ps2)" by (rule grows_trans [OF n(1,4)])
  moreover have "placed libs cur (ps_builder ps) (n1 @ n2) ps2"
    by (rule placed_trans [OF n(2,5) grows_wf(3) [OF n(4)]])
  moreover have "length (fallbacks_of (n1 @ n2)) = length (filter is_FallbackEndpoint (e1 @ e2))"
    using n(3,6) by (simp add: fallbacks_of_def)
  ultimately show ?thesis using assms unfolding ps_step_def by auto
qed

lemma ps_step_refl: "ps_valid libs ps \<Longrightarrow> ps_step libs cur ps [] [] [] ps"
  using ps_step_registers [OF _ registers_refl [OF ps_valid_parts(1,2)], of ps cur] by simp

lemma process_components_step:
  "ps_valid libs ps \<Longrightarrow>
    \<exists>ps'. fold (process_component libs sc g p) cs (ps, f) = (ps', last_fallback f cs)
      \<and> ps_step libs sc ps (route_endpoints (nesting_of libs g p ps) cs) (all_middlewares cs) (all_observers cs) ps'
      \<and> concat (map (\<lambda>(n, b). ref_nested libs n b) (rev (queue_view libs ps'))) =
          ref_components libs (nesting_of libs g p ps) cs
          @ concat (map (\<lambda>(n, b). ref_nested libs n b) (rev (queue_view libs ps)))"
proof (induction cs arbitrary: ps f)
  case Nil
  then show ?case using ps_step_refl by simp
next
  case (Cons c cs)
  let ?f = "case c of CFallbackRequestHandler h \<Rightarrow> Some h | _ \<Rightarrow> f"
  obtain ps1 where 1: "process_component libs sc g p c (ps, f) = (ps1, ?f)"
    "ps_step libs sc ps (route_endpoints (nesting_of libs g p ps) [c]) (middleware_identifiers c)
       (observer_identifiers c) ps1"
    "queue_view libs ps1 = queue_view libs ps
       @ (case c of CNestedBlueprint b \<Rightarrow> [(nesting_of libs g p ps, b)] | _ \<Rightarrow> [])"
    using process_component_step [OF Cons.prems] by blast
  have n: "nesting_of libs g p ps1 = after_component c (nesting_of libs g p ps)"
    by (rule nesting_of_step [OF 1(2)])
  obtain ps2 where 2: "fold (process_component libs sc g p) cs (ps1, ?f) = (ps2, last_fallback ?f cs)"
    "ps_step libs sc ps1 (route_endpoints (nesting_of libs g p ps1) cs) (all_middlewares cs) (all_observers cs) ps2"
    "concat (map (\<lambda>(n, b). ref_nested libs n b) (rev (queue_view libs ps2))) =
       ref_components libs (nesting_of libs g p ps1) cs
       @ concat (map (\<lambda>(n, b). ref_nested libs n b) (rev (queue_view libs ps1)))"
    using Cons.IH [OF ps_step_valid [OF 1(2)]] by blast
  have "ps_step libs sc ps (route_endpoints (nesting_of libs g p ps) (c # cs)) (all_middlewares (c # cs))
      (all_observers (c # cs)) ps2"
    using ps_step_trans [OF 1(2) 2(2)] by (simp add: n)
  moreover have "concat (map (\<lambda>(n, b). ref_nested libs n b) (rev (queue_view libs ps2))) =
      ref_components libs (nesting_of libs g p ps) (c # cs)
      @ concat (map (\<lambda>(n, b). ref_nested libs n b) (rev (queue_view libs ps)))"
    by (cases c) (simp_all add: 2(3) 1(3) n)
  ultimately show ?case using 1(1) 2(1) by simp
qed

lemma process_one_step:
  assumes "ps_valid libs ps"
  shows "\<exists>ms os. ps_step libs sc ps (own_endpoints libs (nesting_of libs g p ps) root bp) ms os
      (process_one_blueprint libs bp sc g p root ps)"
    and "concat (map (\<lambda>(n, b). ref_nested libs n b) (rev (queue_view libs (process_one_blueprint libs bp sc g p root ps)))) =
      ref_components libs (nesting_of libs g p ps) (bp_components bp)
      @ concat (map (\<lambda>(n, b). ref_nested libs n b) (rev (queue_view libs ps)))"
proof -
  let ?n = "nesting_of libs g p ps" and ?cs = "bp_components bp"
  obtain ps1 where 1: "fold (process_component libs sc g p) ?cs (ps, None) = (ps1, last_fallback None ?cs)"
    "ps_step libs sc ps (route_endpoints ?n ?cs) (all_middlewares ?cs) (all_observers ?cs) ps1"
    "concat (map (\<lambda>(n, b). ref_nested libs n b) (rev (queue_view libs ps1))) =
       ref_components libs ?n ?cs @ concat (map (\<lambda>(n, b). ref_nested libs n b) (rev (queue_view libs ps)))"
    using process_components_step [OF assms] by blast
  note v1 = ps_step_valid [OF 1(2)]
  have fb: "ps_step libs sc ps (route_endpoints ?n ?cs @ [fallback_endpoint ?n ?cs f]) (all_middlewares ?cs)
      (all_observers ?cs) (process_fallback libs f p g sc ps1)"
    and fq: "queue_view libs (process_fallback libs f p g sc ps1) = queue_view libs ps1" for f
  proof -
    have s: "ps_step libs sc ps1 [fallback_endpoint ?n ?cs f] [] [] (process_fallback libs f p g sc ps1)"
      using process_fallback_step [OF v1, of sc p g f] 1(2)
      by (simp add: fallback_endpoint_def nesting_of_def ps_step_def)
    show "ps_step libs sc ps (route_endpoints ?n ?cs @ [fallback_endpoint ?n ?cs f]) (all_middlewares ?cs)
        (all_observers ?cs) (process_fallback libs f p g sc ps1)"
      using ps_step_trans [OF 1(2) s] by simp
    show "queue_view libs (process_fallback libs f p g sc ps1) = queue_view libs ps1"
      by (rule queue_view_step [OF v1 s]) simp
  qed
  show "\<exists>ms os. ps_step libs sc ps (own_endpoints libs ?n root bp) ms os (process_one_blueprint libs bp sc g p root ps)"
    using 1(2) fb by (auto simp: process_one_blueprint_def 1(1) own_endpoints_def split: option.split)
  show "concat (map (\<lambda>(n, b). ref_nested libs n b) (rev (queue_view libs (process_one_blueprint libs bp sc g p root ps)))) =
      ref_components libs ?n ?cs @ concat (map (\<lambda>(n, b). ref_nested libs n b) (rev (queue_view libs ps)))"
    using 1(3) by (simp add: process_one_blueprint_def 1(1) fq split: option.split)
qed

lemma ref_blueprint_eq:
  "ref_blueprint libs n root bp = own_endpoints libs n root bp @ ref_components libs n (bp_components bp)"
  by (cases bp) simp

lemma push_diagnostics_fields [simp]:
  "ps_aux (fold push_diagnostic ds ps) = ps_aux ps" "ps_middlewares (fold push_diagnostic ds ps) = ps_middlewares ps"
  "ps_observers (fold push_diagnostic ds ps) = ps_observers ps"
  "ps_builder (fold push_diagnostic ds ps) = ps_builder ps"
  by (induction ds arbitrary: ps) (simp_all add: push_diagnostic_def)

lemma ps_valid_same_aux:
  "ps_valid libs ps \<Longrightarrow> ps_aux ps' = ps_aux ps \<Longrightarrow> ps_middlewares ps' = ps_middlewares ps \<Longrightarrow>
     ps_observers ps' = ps_observers ps \<Longrightarrow> ps_queue ps' = ps_queue ps \<Longrightarrow> ps_valid libs ps'"
  by (simp add: ps_valid_def)

lemma process_nesting_constraints_step:
  assumes valid: "ps_valid libs ps"
  obtains r ps' where "process_nesting_constraints libs (NestedBlueprint bp prefix dm l) ps = (r, ps')"
    "ps_step libs cur ps [] [] [] ps'" "ps_builder ps' = ps_builder ps" "queue_view libs ps' = queue_view libs ps"
    "enter libs n prefix dm =
      (case r of None \<Rightarrow> None
       | Some (q, d) \<Rightarrow> Some (n\<lparr>nest_prefix := nested_prefix (nest_prefix n) q,
           nest_domain := (case d of Some g \<Rightarrow> Some g | None \<Rightarrow> nest_domain n)\<rparr>))"
proof -
  let ?res = "process_nesting_constraints libs (NestedBlueprint bp prefix dm l) ps"
  let ?errors = "case prefix of None \<Rightarrow> [] | Some p \<Rightarrow> prefix_errors p"
  let ?ps1 = "fold push_diagnostic ?errors ps"
  note v = ps_valid_parts [OF valid]
  have fields: "ps_middlewares (snd ?res) = ps_middlewares ps" "ps_observers (snd ?res) = ps_observers ps"
    "ps_queue (snd ?res) = ps_queue ps" "ps_builder (snd ?res) = ps_builder ps"
    by (simp_all add: process_nesting_constraints_def push_diagnostic_def Let_def split: option.split sum.split)
  have aux: "ps_aux (snd ?res) = (ps_aux ps)\<lparr>domain_guard2locations := domain_guard2locations (ps_aux (snd ?res))\<rparr>"
    by (simp add: process_nesting_constraints_def push_diagnostic_def Let_def split: option.split sum.split)
  have step: "ps_step libs cur ps [] [] [] (snd ?res)"
  proof -
    have "registers libs cur (ps_aux ps) (ps_aux (snd ?res))"
      by (subst aux) (rule registers_irrelevant(2) [OF v(1,2)])
    then obtain new where new: "grows libs (ps_aux ps) [] new (ps_aux (snd ?res))"
      "\<And>i c. (i, c) \<in> set new \<Longrightarrow> \<not> own_scope c \<and> id2scope_id (ps_aux (snd ?res)) i = Some cur"
      by (auto simp: registers_def)
    show ?thesis
      by (rule ps_stepI [OF valid, where new = new and mids = "[]" and oids = "[]"])
        (use new no_fallbacks [of new] fields in \<open>auto simp: ids_valid_def intro!: placed_same\<close>)
  qed
  have err: "?errors = [] \<longleftrightarrow> \<not> (\<exists>p. prefix = Some p \<and> prefix_errors p \<noteq> [])"
    by (auto split: option.split)
  show thesis
  proof (rule that [of "fst ?res" "snd ?res"])
    show "?res = (fst ?res, snd ?res)" by simp
    show "ps_step libs cur ps [] [] [] (snd ?res)" by (rule step)
    show "ps_builder (snd ?res) = ps_builder ps" by (rule fields(4))
    show "queue_view libs (snd ?res) = queue_view libs ps"
      by (rule queue_view_step [OF valid step]) simp
    show "enter libs n prefix dm =
      (case fst ?res of None \<Rightarrow> None
       | Some (q, d) \<Rightarrow> Some (n\<lparr>nest_prefix := nested_prefix (nest_prefix n) q,
           nest_domain := (case d of Some g \<Rightarrow> Some g | None \<Rightarrow> nest_domain n)\<rparr>))"
    proof (cases "?errors = []")
      case True
      then show ?thesis
        using err by (cases dm)
          (simp_all add: enter_def reference_prefixes process_nesting_constraints_def Let_def split: sum.split)
    next
      case False
      then show ?thesis
        using err by (simp add: enter_def reference_prefixes process_nesting_constraints_def Let_def)
    qed
  qed
qed

lemma processing_scopes:
  "ps_queue (fst (process_component libs sc g p c (ps, f))) = ps_queue ps
   \<or> (\<exists>q. ps_queue (fst (process_component libs sc g p c (ps, f))) = ps_queue ps @ [q] \<and> qi_parent_scope_id q = sc)"
  by (cases c) (simp_all add: process_component_def process_middleware_def process_pre_processing_middleware_def
      process_post_processing_middleware_def)

lemma process_components_scopes:
  "q \<in> set (ps_queue (fst (fold (process_component libs sc g p) cs (ps, f)))) \<Longrightarrow>
     q \<in> set (ps_queue ps) \<or> qi_parent_scope_id q = sc"
proof (induction cs arbitrary: ps f)
  case Nil
  then show ?case by simp
next
  case (Cons c cs)
  let ?r = "process_component libs sc g p c (ps, f)"
  have "q \<in> set (ps_queue (fst ?r)) \<or> qi_parent_scope_id q = sc"
    using Cons.IH [of "fst ?r" "snd ?r"] Cons.prems by simp
  then show ?case using processing_scopes [of sc g p c ps f] by auto
qed

lemma process_one_scopes:
  "q \<in> set (ps_queue (process_one_blueprint libs bp sc g p root ps)) \<Longrightarrow>
     q \<in> set (ps_queue ps) \<or> qi_parent_scope_id q = sc"
  using process_components_scopes [of q sc g p "bp_components bp" ps None]
  by (auto simp: process_one_blueprint_def split: prod.splits option.splits if_splits)

end

section \<open>Scopes of components\<close>

text \<open>The scope of a component, and the scope that a component with a scope of its own is in.\<close>

definition parent_scope :: "('a, 'b, 'g) registry_libs \<Rightarrow> ('a, 'b, 'g) processing \<Rightarrow> nat \<Rightarrow> nat \<Rightarrow> bool" where
  "parent_scope libs ps i p \<longleftrightarrow>
     (\<exists>s. id2scope_id (ps_aux ps) i = Some s \<and> (p, scope_index s) \<in> builder_edges (lib_graph libs) (ps_builder ps))"

definition is_fallback_id :: "('a, 'b, 'g) registry_libs \<Rightarrow> ('a, 'b, 'g) processing \<Rightarrow> nat \<Rightarrow> bool" where
  "is_fallback_id libs ps i \<longleftrightarrow> i \<in> set (fallbacks_of (aux_iter libs (ps_aux ps)))"

definition scope_inv :: "('a, 'b, 'g) registry_libs \<Rightarrow> ('a, 'b, 'g) processing \<Rightarrow> bool" where
  "scope_inv libs ps \<longleftrightarrow> scope_built (lib_graph libs) (ps_builder ps)
     \<and> (\<forall>q \<in> set (ps_queue ps). scope_index (qi_parent_scope_id q) < sb_next_node_id (ps_builder ps))
     \<and> (\<forall>i c. (i, c) \<in> set (aux_iter libs (ps_aux ps)) \<longrightarrow>
          (\<exists>s. id2scope_id (ps_aux ps) i = Some s \<and> scope_index s < sb_next_node_id (ps_builder ps))
          \<and> (own_scope c \<longrightarrow> (\<exists>p. parent_scope libs ps i p)))
     \<and> (\<forall>i j p. is_fallback_id libs ps i \<longrightarrow> is_fallback_id libs ps j \<longrightarrow> parent_scope libs ps i p \<longrightarrow>
          parent_scope libs ps j p \<longrightarrow> i = j)"

context registry
begin

lemma unique_parent:
  assumes "scope_built (lib_graph libs) b"
    and "(p, s) \<in> builder_edges (lib_graph libs) b" and "(q, s) \<in> builder_edges (lib_graph libs) b"
  shows "p = q"
proof -
  have t: "scope_tree (builder_edges (lib_graph libs) b) (sb_next_node_id b)"
    using scopes.built_tree [OF assms(1)] by simp
  then have "p < s" "s < sb_next_node_id b" using assms(2) unfolding scope_tree_def by blast+
  then have "0 < s \<and> s < sb_next_node_id b" by simp
  then show ?thesis using t assms(2,3) unfolding scope_tree_def by blast
qed

lemma scope_inv_step:
  assumes inv: "scope_inv libs ps" and step: "ps_step libs cur ps es ms os ps'"
    and cur: "scope_index cur < sb_next_node_id (ps_builder ps)"
    and one: "length (filter is_FallbackEndpoint es) \<le> 1"
    and none: "\<And>i. is_fallback_id libs ps i \<Longrightarrow> \<not> parent_scope libs ps i (scope_index cur)"
    and queue: "\<And>q. q \<in> set (ps_queue ps') \<Longrightarrow> q \<in> set (ps_queue ps) \<or> qi_parent_scope_id q = cur"
  shows "scope_inv libs ps'"
    and "filter is_FallbackEndpoint es \<noteq> [] \<Longrightarrow> \<exists>i. is_fallback_id libs ps' i \<and> parent_scope libs ps' i (scope_index cur)"
    and "is_fallback_id libs ps j \<Longrightarrow> is_fallback_id libs ps' j"
    and "parent_scope libs ps j p \<Longrightarrow> parent_scope libs ps' j p"
proof -
  let ?E = "builder_edges (lib_graph libs) (ps_builder ps)" and ?E' = "builder_edges (lib_graph libs) (ps_builder ps')"
  let ?n = "sb_next_node_id (ps_builder ps)" and ?n' = "sb_next_node_id (ps_builder ps')"
  obtain new where g: "grows libs (ps_aux ps) es new (ps_aux ps')" and pl: "placed libs cur (ps_builder ps) new ps'"
    and count: "length (fallbacks_of new) = length (filter is_FallbackEndpoint es)"
    using step unfolding ps_step_def by blast
  note ext = grows_wf(3) [OF g]
  have it: "aux_iter libs (ps_aux ps') = aux_iter libs (ps_aux ps) @ new" using g by (simp add: grows_def)
  have built: "scope_built (lib_graph libs) (ps_builder ps')" and le: "?n \<le> ?n'" and sub: "?E \<subseteq> ?E'"
    using pl inv cur unfolding placed_def scope_inv_def by blast+
  have old: "(i, c) \<in> set (aux_iter libs (ps_aux ps)) \<Longrightarrow>
      (\<exists>s. id2scope_id (ps_aux ps) i = Some s \<and> scope_index s < ?n) \<and> (own_scope c \<longrightarrow> (\<exists>p. parent_scope libs ps i p))" for i c
    using inv unfolding scope_inv_def by blast
  have mono: "parent_scope libs ps i p \<Longrightarrow> parent_scope libs ps' i p" for i p
    using scope_extends [OF ext] sub by (auto simp: parent_scope_def)
  show "parent_scope libs ps j p \<Longrightarrow> parent_scope libs ps' j p" by (rule mono)
  have new: "\<exists>s. id2scope_id (ps_aux ps') i = Some s \<and> scope_index s < ?n'
      \<and> (own_scope c \<longrightarrow> (scope_index cur, scope_index s) \<in> ?E')" if ic: "(i, c) \<in> set new" for i c
  proof -
    obtain s where s: "id2scope_id (ps_aux ps') i = Some s"
      "if own_scope c then ?n \<le> scope_index s \<and> scope_index s < ?n' \<and> (scope_index cur, scope_index s) \<in> ?E'
       else s = cur"
      using pl ic unfolding placed_def by blast
    then show ?thesis using cur le by (auto split: if_splits)
  qed
  have unique: "parent_scope libs ps' i p \<Longrightarrow> parent_scope libs ps' i q \<Longrightarrow> p = q" for i p q
    using unique_parent [OF built] by (auto simp: parent_scope_def)
  have fb: "is_fallback_id libs ps' i \<longleftrightarrow> is_fallback_id libs ps i \<or> i \<in> set (fallbacks_of new)" for i
    by (simp add: is_fallback_id_def it fallbacks_of_def)
  then show "is_fallback_id libs ps j \<Longrightarrow> is_fallback_id libs ps' j" by blast
  have fb_old: "\<exists>p. parent_scope libs ps i p" if "is_fallback_id libs ps i" for i
    using that old by (force simp: is_fallback_id_def fallbacks_of_def own_scope_def)
  have fb_new: "parent_scope libs ps' i (scope_index cur)" if "i \<in> set (fallbacks_of new)" for i
    using that new by (force simp: fallbacks_of_def own_scope_def parent_scope_def)
  show "\<exists>i. is_fallback_id libs ps' i \<and> parent_scope libs ps' i (scope_index cur)"
    if "filter is_FallbackEndpoint es \<noteq> []"
  proof -
    have "fallbacks_of new \<noteq> []" using that count by auto
    then obtain i where "i \<in> set (fallbacks_of new)" by (meson last_in_set)
    then show ?thesis using fb fb_new by blast
  qed
  have separate: "i = j" if "is_fallback_id libs ps' i" "is_fallback_id libs ps' j"
      "parent_scope libs ps' i p" "parent_scope libs ps' j p" for i j p
  proof -
    have old_cur: "p \<noteq> scope_index cur" if "is_fallback_id libs ps k" "parent_scope libs ps' k p" for k p
      using fb_old [OF that(1)] none [OF that(1)] mono unique that(2) by blast
    show ?thesis
    proof (cases "is_fallback_id libs ps i"; cases "is_fallback_id libs ps j")
      assume ij: "is_fallback_id libs ps i" "is_fallback_id libs ps j"
      then have "parent_scope libs ps i p" "parent_scope libs ps j p"
        using fb_old mono unique that(3,4) by blast+
      then show ?thesis using inv ij unfolding scope_inv_def by blast
    next
      assume ij: "\<not> is_fallback_id libs ps i" "\<not> is_fallback_id libs ps j"
      then have "i \<in> set (fallbacks_of new)" "j \<in> set (fallbacks_of new)" using fb that(1,2) by blast+
      moreover have "length (fallbacks_of new) \<le> 1" using count one by simp
      ultimately show ?thesis by (cases "fallbacks_of new") auto
    qed (use fb fb_new unique old_cur that in blast)+
  qed
  have comps: "(\<exists>s. id2scope_id (ps_aux ps') i = Some s \<and> scope_index s < ?n')
      \<and> (own_scope c \<longrightarrow> (\<exists>p. parent_scope libs ps' i p))" if "(i, c) \<in> set (aux_iter libs (ps_aux ps'))" for i c
    using that old [of i c] new [of i c] mono scope_extends [OF ext] le
    by (auto simp: it) (fastforce simp: parent_scope_def)+
  have "\<forall>q \<in> set (ps_queue ps'). scope_index (qi_parent_scope_id q) < ?n'"
  proof
    fix q assume "q \<in> set (ps_queue ps')"
    then have "q \<in> set (ps_queue ps) \<or> qi_parent_scope_id q = cur" by (rule queue)
    moreover have "q \<in> set (ps_queue ps) \<Longrightarrow> scope_index (qi_parent_scope_id q) < ?n"
      using inv by (simp add: scope_inv_def)
    ultimately show "scope_index (qi_parent_scope_id q) < ?n'" using cur le by fastforce
  qed
  then show "scope_inv libs ps'"
    using built comps separate unfolding scope_inv_def by blast
qed

end

end
