(* ===== verification/Blueprint_Properties.thy ===== *)
theory Blueprint_Properties
  imports Blueprint_Endpoints
begin

text \<open>
  What the pass over a blueprint guarantees: its endpoints are those of the reference, its
  internal assertions hold, and the scopes it returns form a scope graph in which every
  component has its place, so that the theorems on scope graphs apply to it.
\<close>

section \<open>The queue\<close>

abbreviation ref_queue :: "('a, 'b, 'g) registry_libs \<Rightarrow> ('a, 'b, 'g) processing \<Rightarrow> endpoint list" where
  "ref_queue libs ps \<equiv> concat (map (\<lambda>(n, b). ref_nested libs n b) (rev (queue_view libs ps)))"

definition has_root_fallback :: "('a, 'b, 'g) registry_libs \<Rightarrow> ('a, 'b, 'g) processing \<Rightarrow> bool" where
  "has_root_fallback libs ps \<longleftrightarrow> (\<exists>i. is_fallback_id libs ps i \<and> parent_scope libs ps i 0)"

lemma route_endpoints_count [simp]: "filter is_FallbackEndpoint (route_endpoints n cs) = []"
  by (induction n cs rule: route_endpoints.induct) (auto split: bp_component.split)

lemma own_endpoints_count:
  "length (filter is_FallbackEndpoint (own_endpoints libs n root bp)) \<le> 1"
  "filter is_FallbackEndpoint (own_endpoints libs n True bp) \<noteq> []"
  by (simp_all add: own_endpoints_def fallback_endpoint_def split: option.split)

context registry
begin

lemma new_scope_inv:
  assumes inv: "scope_inv libs ps" and p: "scope_index p < sb_next_node_id (ps_builder ps)"
    and ps': "ps_builder ps' = snd (add_scope (lib_graph libs) p l (ps_builder ps))" "ps_aux ps' = ps_aux ps"
      "ps_queue ps' = ps_queue ps"
  shows "scope_inv libs ps'"
    and "is_fallback_id libs ps' i \<Longrightarrow> \<not> parent_scope libs ps' i (sb_next_node_id (ps_builder ps))"
    and "has_root_fallback libs ps \<Longrightarrow> has_root_fallback libs ps'"
    and "sb_next_node_id (ps_builder ps') = Suc (sb_next_node_id (ps_builder ps))"
proof -
  let ?n = "sb_next_node_id (ps_builder ps)"
  show n': "sb_next_node_id (ps_builder ps') = Suc ?n" by (simp add: ps'(1) scopes.add_scope_edges)
  have e': "builder_edges (lib_graph libs) (ps_builder ps')
      = insert (scope_index p, ?n) (builder_edges (lib_graph libs) (ps_builder ps))"
    by (simp add: ps'(1) scopes.add_scope_edges)
  have built: "scope_built (lib_graph libs) (ps_builder ps')"
    using inv p by (auto simp: ps'(1) scope_inv_def intro: built_add)
  have fb: "is_fallback_id libs ps' j \<longleftrightarrow> is_fallback_id libs ps j" for j by (simp add: is_fallback_id_def ps'(2))
  have low: "scope_index s < ?n" if "(j, c) \<in> set (aux_iter libs (ps_aux ps))" "id2scope_id (ps_aux ps) j = Some s" for j c s
    using inv that unfolding scope_inv_def by fastforce
  have par: "parent_scope libs ps' j q \<longleftrightarrow> parent_scope libs ps j q" if "(j, c) \<in> set (aux_iter libs (ps_aux ps))" for j c q
    using low [OF that] by (auto simp: parent_scope_def ps'(2) e')
  have fb_in: "\<exists>c. (j, c) \<in> set (aux_iter libs (ps_aux ps))" if "is_fallback_id libs ps j" for j
    using that by (auto simp: is_fallback_id_def fallbacks_of_def)
  have fpar: "parent_scope libs ps' j q \<longleftrightarrow> parent_scope libs ps j q" if "is_fallback_id libs ps j" for j q
    using fb_in [OF that] par by blast
  show "scope_inv libs ps'"
    unfolding scope_inv_def
  proof (intro conjI allI impI)
    show "\<forall>q \<in> set (ps_queue ps'). scope_index (qi_parent_scope_id q) < sb_next_node_id (ps_builder ps')"
      using inv by (auto simp: scope_inv_def ps'(3) n' less_SucI)
    show "\<exists>s. id2scope_id (ps_aux ps') j = Some s \<and> scope_index s < sb_next_node_id (ps_builder ps')"
      if "(j, c) \<in> set (aux_iter libs (ps_aux ps'))" for j c
      using inv that unfolding scope_inv_def ps'(2) n' by (metis less_SucI)
    show "\<exists>q. parent_scope libs ps' j q" if "(j, c) \<in> set (aux_iter libs (ps_aux ps'))" "own_scope c" for j c
      using inv that par unfolding scope_inv_def ps'(2) by metis
    show "j = k" if "is_fallback_id libs ps' j" "is_fallback_id libs ps' k" "parent_scope libs ps' j q"
        "parent_scope libs ps' k q" for j k q
      using inv that fpar unfolding scope_inv_def fb by blast
  qed (rule built)
  show "\<not> parent_scope libs ps' i ?n" if f: "is_fallback_id libs ps' i"
  proof
    assume a: "parent_scope libs ps' i ?n"
    then obtain s where "(?n, s) \<in> builder_edges (lib_graph libs) (ps_builder ps)"
      using fpar [of i ?n] f by (auto simp: fb) (auto simp: parent_scope_def)
    moreover have "scope_tree (builder_edges (lib_graph libs) (ps_builder ps)) ?n"
      using scopes.built_tree [of "ps_builder ps"] inv unfolding scope_inv_def by blast
    ultimately show False unfolding scope_tree_def by (meson less_asym)
  qed
  show "has_root_fallback libs ps \<Longrightarrow> has_root_fallback libs ps'"
    using fpar by (auto simp: has_root_fallback_def fb)
qed

lemma process_queue_item_step:
  assumes valid: "ps_valid libs ps" and item: "item_valid libs (ps_aux ps) q"
    and view: "item_view libs (ps_aux ps) q = (n, b)"
    and inv: "scope_inv libs ps" and parent: "scope_index (qi_parent_scope_id q) < sb_next_node_id (ps_builder ps)"
    and root: "has_root_fallback libs ps"
  shows "ps_valid libs (process_queue_item libs q ps)"
    and "endpoints libs (ps_aux (process_queue_item libs q ps)) @ ref_queue libs (process_queue_item libs q ps) =
      endpoints libs (ps_aux ps) @ ref_nested libs n b @ ref_queue libs ps"
    and "scope_inv libs (process_queue_item libs q ps)"
    and "has_root_fallback libs (process_queue_item libs q ps)"
proof -
  obtain bp prefix dm l where b: "b = NestedBlueprint bp prefix dm l" by (cases b)
  let ?ps1 = "ps\<lparr>ps_middlewares := qi_middleware_chain q, ps_observers := qi_observer_chain q\<rparr>"
  let ?s = "fst (add_scope (lib_graph libs) (qi_parent_scope_id q) (Some l) (ps_builder ?ps1))"
  let ?ps2 = "?ps1\<lparr>ps_builder := snd (add_scope (lib_graph libs) (qi_parent_scope_id q) (Some l) (ps_builder ?ps1))\<rparr>"
  have v2: "ps_valid libs ?ps2" using valid item by (simp add: ps_valid_def item_valid_def)
  have q2: "queue_view libs ?ps2 = queue_view libs ps" by (simp add: queue_view_def)
  have s2: "scope_index ?s = sb_next_node_id (ps_builder ps)" by (simp add: add_scope_def Let_def)
  have inv2: "scope_inv libs ?ps2" by (rule new_scope_inv(1) [OF inv parent]) simp_all
  have none2: "is_fallback_id libs ?ps2 i \<Longrightarrow> \<not> parent_scope libs ?ps2 i (scope_index ?s)" for i
    unfolding s2 by (rule new_scope_inv(2) [OF inv parent]) simp_all
  have root2: "has_root_fallback libs ?ps2" by (rule new_scope_inv(3) [OF inv parent _ _ _ root]) simp_all
  have cur: "scope_index ?s < sb_next_node_id (ps_builder ?ps2)"
    using s2 by (simp add: scopes.add_scope_edges)
  have nb: "qi_nested_bp q = NestedBlueprint bp prefix dm l" using view by (simp add: item_view_def b)
  obtain r ps3 where r: "process_nesting_constraints libs (NestedBlueprint bp prefix dm l) ?ps2 = (r, ps3)"
    "ps_step libs ?s ?ps2 [] [] [] ps3" "ps_builder ps3 = ps_builder ?ps2" "queue_view libs ps3 = queue_view libs ?ps2"
    "enter libs n prefix dm =
      (case r of None \<Rightarrow> None
       | Some (q, d) \<Rightarrow> Some (n\<lparr>nest_prefix := nested_prefix (nest_prefix n) q,
           nest_domain := (case d of Some g \<Rightarrow> Some g | None \<Rightarrow> nest_domain n)\<rparr>))"
    by (rule process_nesting_constraints_step [OF v2])
  have q3: "ps_queue ps3 = ps_queue ps"
    using arg_cong [OF r(1), of "\<lambda>x. ps_queue (snd x)"] by simp
  have scopes: "scope_inv libs ps'" "has_root_fallback libs ps'"
    if "ps_step libs ?s ?ps2 es ms os ps'" "length (filter is_FallbackEndpoint es) \<le> 1"
      "\<And>q. q \<in> set (ps_queue ps') \<Longrightarrow> q \<in> set (ps_queue ?ps2) \<or> qi_parent_scope_id q = ?s" for es ms os ps'
    using scope_inv_step [OF inv2 that(1) cur that(2) none2 that(3)] root2
    by (auto simp: has_root_fallback_def)
  have e3: "endpoints libs (ps_aux ps3) = endpoints libs (ps_aux ps)"
    using r(2) by (auto simp: ps_step_def grows_def)
  have "ps_valid libs (process_queue_item libs q ps)
    \<and> endpoints libs (ps_aux (process_queue_item libs q ps)) @ ref_queue libs (process_queue_item libs q ps) =
      endpoints libs (ps_aux ps) @ ref_nested libs n b @ ref_queue libs ps
    \<and> scope_inv libs (process_queue_item libs q ps) \<and> has_root_fallback libs (process_queue_item libs q ps)"
  proof (cases r)
    case None
    then have "process_queue_item libs q ps = ps3"
      using r(1) by (simp add: process_queue_item_def new_scope_eq Let_def nb)
    then show ?thesis using ps_step_valid [OF r(2)] r(4,5) e3 q2 None scopes [OF r(2)] q3 by (simp add: b)
  next
    case (Some qd)
    obtain cp d where qd: "qd = (cp, d)" by (cases qd)
    let ?g = "case d of Some d \<Rightarrow> Some d | None \<Rightarrow> qi_parent_domain_guard q"
    let ?p = "nested_prefix (qi_parent_path_prefix q) cp"
    let ?ps4 = "process_one_blueprint libs bp ?s ?g ?p False ps3"
    have pq: "process_queue_item libs q ps = ?ps4"
      using r(1) by (simp add: process_queue_item_def new_scope_eq Let_def nb Some qd)
    have en: "enter libs n prefix dm = Some (nesting_of libs ?g ?p ps3)"
    proof -
      have "mw_view libs ps3 = nest_middlewares n" "obs_view libs ps3 = nest_observers n"
        using r(2) view by (auto simp: ps_step_def mw_view_def obs_view_def item_view_def)
      moreover have "nest_prefix n = qi_parent_path_prefix q" "nest_domain n = qi_parent_domain_guard q"
        using view by (auto simp: item_view_def)
      ultimately have "n\<lparr>nest_prefix := nested_prefix (nest_prefix n) cp,
          nest_domain := (case d of Some g \<Rightarrow> Some g | None \<Rightarrow> nest_domain n)\<rparr> = nesting_of libs ?g ?p ps3"
        by (cases n) (simp add: nesting_of_def split: option.split)
      then show ?thesis by (simp add: r(5) Some qd)
    qed
    let ?own = "own_endpoints libs (nesting_of libs ?g ?p ps3) False bp"
    obtain ms os where one: "ps_step libs ?s ps3 ?own ms os ?ps4"
      using process_one_step(1) [OF ps_step_valid [OF r(2)]] by blast
    have "endpoints libs (ps_aux ?ps4) = endpoints libs (ps_aux ps) @ ?own"
      using one e3 by (auto simp: ps_step_def grows_def)
    moreover have "ref_queue libs ?ps4 = ref_components libs (nesting_of libs ?g ?p ps3) (bp_components bp) @ ref_queue libs ps"
      by (simp only: process_one_step(2) [OF ps_step_valid [OF r(2)]] r(4) q2)
    moreover have "scope_inv libs ?ps4" "has_root_fallback libs ?ps4"
    proof -
      have st: "ps_step libs ?s ?ps2 ?own ms os ?ps4" using ps_step_trans [OF r(2) one] by (simp only: append_Nil)
      have "ps_queue ps3 = ps_queue ?ps2" by (simp add: q3)
      note qs = process_one_scopes [of _ bp ?s ?g ?p False ps3, unfolded this]
      show "scope_inv libs ?ps4" "has_root_fallback libs ?ps4"
        by (rule scopes [OF st own_endpoints_count(1)], erule qs)+
    qed
    ultimately show ?thesis
      using ps_step_valid [OF one] by (simp add: pq b en ref_blueprint_eq)
  qed
  then show "ps_valid libs (process_queue_item libs q ps)"
    and "endpoints libs (ps_aux (process_queue_item libs q ps)) @ ref_queue libs (process_queue_item libs q ps) =
      endpoints libs (ps_aux ps) @ ref_nested libs n b @ ref_queue libs ps"
    and "scope_inv libs (process_queue_item libs q ps)"
    and "has_root_fallback libs (process_queue_item libs q ps)" by simp_all
qed

lemma process_queue_correct:
  "ps_valid libs ps \<Longrightarrow> scope_inv libs ps \<Longrightarrow> has_root_fallback libs ps \<Longrightarrow>
    ps_valid libs (process_queue libs ps) \<and> scope_inv libs (process_queue libs ps)
    \<and> has_root_fallback libs (process_queue libs ps)
    \<and> endpoints libs (ps_aux (process_queue libs ps)) = endpoints libs (ps_aux ps) @ ref_queue libs ps"
proof (induction "nested_size (map qi_nested_bp (ps_queue ps))" arbitrary: ps rule: less_induct)
  case less
  show ?case
  proof (cases "ps_queue ps = []")
    case True
    then show ?thesis using less.prems by (simp add: process_queue.simps [of libs ps] queue_view_def)
  next
    case False
    let ?q = "last (ps_queue ps)" and ?ps0 = "ps\<lparr>ps_queue := butlast (ps_queue ps)\<rparr>"
    let ?ps1 = "process_queue_item libs ?q ?ps0"
    obtain n b where view: "item_view libs (ps_aux ps) ?q = (n, b)" by fastforce
    have split: "ps_queue ps = butlast (ps_queue ps) @ [?q]" using False by simp
    have v0: "ps_valid libs ?ps0" "item_valid libs (ps_aux ps) ?q"
      using less.prems(1) False by (auto simp: ps_valid_def dest: in_set_butlastD)
    have s0: "scope_inv libs ?ps0" "has_root_fallback libs ?ps0"
      "scope_index (qi_parent_scope_id ?q) < sb_next_node_id (ps_builder ps)"
      using less.prems(2,3) False
      by (auto simp: scope_inv_def has_root_fallback_def parent_scope_def is_fallback_id_def dest: in_set_butlastD)
    have "queue_view libs ps = queue_view libs ?ps0 @ [(n, b)]"
      using map_append [of "item_view libs (ps_aux ps)" "butlast (ps_queue ps)" "[?q]"]
      by (simp add: queue_view_def view split [symmetric])
    then have rq: "ref_queue libs ps = ref_nested libs n b @ ref_queue libs ?ps0" by simp
    have item: "ps_valid libs ?ps1" "scope_inv libs ?ps1" "has_root_fallback libs ?ps1"
      "endpoints libs (ps_aux ?ps1) @ ref_queue libs ?ps1 = endpoints libs (ps_aux ps) @ ref_queue libs ps"
      using process_queue_item_step [of ?ps0 ?q n b] v0 s0 view rq by simp_all
    have eq: "process_queue libs ps = process_queue libs ?ps1"
      using False by (simp add: process_queue.simps [of libs ps])
    show ?thesis
      using less.hyps [OF process_item_decreases [OF False] item(1-3)] item(4) by (simp add: eq)
  qed
qed

lemma aux_new_valid: "aux_wf libs (aux_new libs)" "aux_complete libs (aux_new libs)"
  by (auto simp: aux_wf_def aux_complete_def aux_new_def component_map_def iter_new components.index_new
      identifiers.interner_new_inv)

lemma process_blueprint_correct:
  "ps_valid libs (process_blueprint libs bp (aux_new libs) ds)
    \<and> scope_inv libs (process_blueprint libs bp (aux_new libs) ds)
    \<and> has_root_fallback libs (process_blueprint libs bp (aux_new libs) ds)
    \<and> endpoints libs (ps_aux (process_blueprint libs bp (aux_new libs) ds)) = ref_blueprint libs top_level True bp"
proof -
  let ?b = "builder_new (lib_graph libs) (creation_location bp)"
  let ?ps = "\<lparr>ps_aux = aux_new libs, ps_builder = ?b, ps_middlewares = [], ps_observers = [],
      ps_queue = [], ps_diagnostics = ds\<rparr>"
  let ?ps1 = "process_one_blueprint libs bp (sb_root ?b) None None True ?ps"
  have v: "ps_valid libs ?ps" using aux_new_valid by (simp add: ps_valid_def ids_valid_def)
  have n: "nesting_of libs None None ?ps = top_level"
    by (simp add: nesting_of_def top_level_def mw_view_def obs_view_def)
  have it: "aux_iter libs (aux_new libs) = []" by (simp add: aux_new_def iter_new)
  then have e0: "endpoints libs (aux_new libs) = []" by (simp add: endpoints_def)
  have inv: "scope_inv libs ?ps"
    by (simp add: scope_inv_def it is_fallback_id_def fallbacks_of_def built_new)
  obtain ms os where one: "ps_step libs (sb_root ?b) ?ps (own_endpoints libs top_level True bp) ms os ?ps1"
    using process_one_step(1) [OF v, of "sb_root ?b" None None True bp] n by auto
  have root: "scope_index (sb_root ?b) = 0" "scope_index (sb_root ?b) < sb_next_node_id (ps_builder ?ps)"
    by (simp_all add: builder_new_def Let_def scope_root_def)
  have none: "is_fallback_id libs ?ps i \<Longrightarrow> \<not> parent_scope libs ?ps i (scope_index (sb_root ?b))" for i
    by (simp add: is_fallback_id_def it fallbacks_of_def)
  have queue: "q \<in> set (ps_queue ?ps1) \<Longrightarrow> q \<in> set (ps_queue ?ps) \<or> qi_parent_scope_id q = sb_root ?b" for q
    by (rule process_one_scopes)
  have inv1: "scope_inv libs ?ps1"
    by (rule scope_inv_step(1) [OF inv one root(2) own_endpoints_count(1)]; (erule none | erule queue))
  have "\<exists>i. is_fallback_id libs ?ps1 i \<and> parent_scope libs ?ps1 i (scope_index (sb_root ?b))"
    by (rule scope_inv_step(2) [OF inv one root(2) own_endpoints_count(1)];
        (erule none | erule queue | rule own_endpoints_count(2)))
  then have root1: "has_root_fallback libs ?ps1" by (simp only: has_root_fallback_def root(1))
  have e1: "endpoints libs (ps_aux ?ps1) = own_endpoints libs top_level True bp"
    using one e0 by (auto simp: ps_step_def grows_def)
  have q1: "ref_queue libs ?ps1 = ref_components libs top_level (bp_components bp)"
    using process_one_step(2) [OF v, of bp "sb_root ?b" None None True] n by (simp add: queue_view_def)
  show ?thesis
    using process_queue_correct [OF ps_step_valid [OF one] inv1 root1]
    by (simp add: process_blueprint_def Let_def e1 q1 ref_blueprint_eq)
qed

end

section \<open>Diagnostics\<close>

text \<open>What a blueprint has to satisfy so that nothing is reported.\<close>

fun bp_ok :: "('a, 'b, 'g) registry_libs \<Rightarrow> blueprint \<Rightarrow> bool"
  and component_ok :: "('a, 'b, 'g) registry_libs \<Rightarrow> bp_component \<Rightarrow> bool"
  and nested_ok :: "('a, 'b, 'g) registry_libs \<Rightarrow> nested_blueprint \<Rightarrow> bool" where
  "bp_ok libs (Blueprint l cs) \<longleftrightarrow> (\<forall>c \<in> set cs. component_ok libs c)"
| "component_ok libs (CRoute r) \<longleftrightarrow> route_path r = [] \<or> hd (route_path r) = CHR ''/''"
| "component_ok libs (CNestedBlueprint b) \<longleftrightarrow> nested_ok libs b"
| "component_ok libs c \<longleftrightarrow> True"
| "nested_ok libs (NestedBlueprint bp prefix dm l) \<longleftrightarrow>
     (case prefix of None \<Rightarrow> True
      | Some p \<Rightarrow> prefix_path p \<noteq> [] \<and> hd (prefix_path p) = CHR ''/'' \<and> last (prefix_path p) \<noteq> CHR ''/'')
     \<and> (case dm of None \<Rightarrow> True | Some d \<Rightarrow> \<exists>g. domain_guard_new (lib_is_ident libs) (domain_name d) = Inr g)
     \<and> bp_ok libs bp"

definition silent :: "('a, 'b, 'g) processing \<Rightarrow> bool" where
  "silent ps \<longleftrightarrow> ps_diagnostics ps = []"

lemma push_diagnostic_silent [simp]: "\<not> silent (push_diagnostic d ps)"
  "silent (fold push_diagnostic ds ps) \<longleftrightarrow> silent ps \<and> ds = []"
proof -
  show "\<not> silent (push_diagnostic d ps)" for d and ps :: "('a, 'b, 'g) processing"
    by (simp add: silent_def push_diagnostic_def)
  show "silent (fold push_diagnostic ds ps) \<longleftrightarrow> silent ps \<and> ds = []"
    by (induction ds arbitrary: ps) (simp_all add: silent_def push_diagnostic_def)
qed

lemma silent_fields [simp]:
  "silent (ps\<lparr>ps_aux := aux\<rparr>) = silent ps" "silent (ps\<lparr>ps_builder := b\<rparr>) = silent ps"
  "silent (ps\<lparr>ps_middlewares := ms\<rparr>) = silent ps" "silent (ps\<lparr>ps_observers := os\<rparr>) = silent ps"
  "silent (ps\<lparr>ps_queue := q\<rparr>) = silent ps"
  by (simp_all add: silent_def)

lemma process_route_silent:
  "silent (process_route libs r sc g p ps) \<longleftrightarrow> silent ps \<and> component_ok libs (CRoute r)"
  by (simp add: process_route_def new_scope_def validate_route_def Let_def split: prod.split)

lemma process_silent [simp]:
  "silent (process_middleware_as k libs m sc ps) = silent ps"
  "silent (process_fallback libs f p g sc ps) = silent ps"
  "silent (process_error_observer libs e sc ps) = silent ps"
  by (simp_all add: process_middleware_as_def process_fallback_def process_error_observer_def new_scope_def
      Let_def split: prod.split)

definition own_ok :: "('a, 'b, 'g) registry_libs \<Rightarrow> bp_component list \<Rightarrow> bool" where
  "own_ok libs cs \<longleftrightarrow> (\<forall>r. CRoute r \<in> set cs \<longrightarrow> component_ok libs (CRoute r))"

lemma process_components_silent:
  "silent (fst (fold (process_component libs sc g p) cs (ps, f))) \<longleftrightarrow> silent ps \<and> own_ok libs cs"
proof (induction cs arbitrary: ps f)
  case Nil
  then show ?case by (simp add: own_ok_def)
next
  case (Cons c cs)
  let ?r = "process_component libs sc g p c (ps, f)"
  have "silent (fst ?r) \<longleftrightarrow> silent ps \<and> own_ok libs [c]"
    using process_route_silent [of libs _ sc g p ps]
    by (cases c) (simp_all add: process_component_def process_middleware_def process_pre_processing_middleware_def
        process_post_processing_middleware_def own_ok_def)
  moreover have "own_ok libs (c # cs) \<longleftrightarrow> own_ok libs [c] \<and> own_ok libs cs" by (auto simp: own_ok_def)
  ultimately show ?case using Cons [of "fst ?r" "snd ?r"] by simp
qed

lemma process_one_silent:
  "silent (process_one_blueprint libs bp sc g p root ps) \<longleftrightarrow> silent ps \<and> own_ok libs (bp_components bp)"
  using process_components_silent [of libs sc g p "bp_components bp" ps None]
  by (auto simp: process_one_blueprint_def split: prod.split option.split)

lemma prefix_errors_none:
  "prefix_errors p = [] \<longleftrightarrow> prefix_path p \<noteq> [] \<and> hd (prefix_path p) = CHR ''/'' \<and> last (prefix_path p) \<noteq> CHR ''/''"
  by (auto simp: prefix_errors_def Let_def)

lemma nested_of_set: "b \<in> set (nested_of cs) \<longleftrightarrow> CNestedBlueprint b \<in> set cs"
  by (induction cs) (auto split: bp_component.split)

lemma bp_ok_parts:
  "bp_ok libs bp \<longleftrightarrow> own_ok libs (bp_components bp) \<and> (\<forall>b \<in> set (nested_of (bp_components bp)). nested_ok libs b)"
proof (cases bp)
  case (Blueprint l cs)
  have c: "component_ok libs c \<longleftrightarrow> (\<forall>r. c = CRoute r \<longrightarrow> component_ok libs (CRoute r))
      \<and> (\<forall>b. c = CNestedBlueprint b \<longrightarrow> nested_ok libs b)" for c
    by (cases c) simp_all
  show ?thesis
    unfolding Blueprint bp_ok.simps blueprint.sel own_ok_def nested_of_set Ball_def using c by blast
qed

lemma process_queue_item_silent:
  "silent (process_queue_item libs q ps)
      \<and> (\<forall>b \<in> set (map qi_nested_bp (ps_queue (process_queue_item libs q ps))). nested_ok libs b) \<longleftrightarrow>
   silent ps \<and> nested_ok libs (qi_nested_bp q) \<and> (\<forall>b \<in> set (map qi_nested_bp (ps_queue ps)). nested_ok libs b)"
proof -
  obtain bp prefix dm l where nb: "qi_nested_bp q = NestedBlueprint bp prefix dm l" by (cases "qi_nested_bp q")
  let ?ps1 = "ps\<lparr>ps_middlewares := qi_middleware_chain q, ps_observers := qi_observer_chain q\<rparr>"
  let ?s = "fst (add_scope (lib_graph libs) (qi_parent_scope_id q) (Some l) (ps_builder ?ps1))"
  let ?ps2 = "?ps1\<lparr>ps_builder := snd (add_scope (lib_graph libs) (qi_parent_scope_id q) (Some l) (ps_builder ?ps1))\<rparr>"
  obtain r ps3 where r: "process_nesting_constraints libs (NestedBlueprint bp prefix dm l) ?ps2 = (r, ps3)" by fastforce
  have q3: "ps_queue ps3 = ps_queue ps"
    using arg_cong [OF r, of "\<lambda>x. ps_queue (snd x)"] by simp
  have ok: "silent ps3 \<and> r \<noteq> None \<longleftrightarrow> silent ps \<and>
      (case prefix of None \<Rightarrow> True | Some p \<Rightarrow> prefix_errors p = [])
      \<and> (case dm of None \<Rightarrow> True | Some d \<Rightarrow> \<exists>g. domain_guard_new (lib_is_ident libs) (domain_name d) = Inr g)"
    and err: "r = None \<Longrightarrow> \<not> silent ps3"
    using r by (auto simp: process_nesting_constraints_def Let_def split: option.splits sum.splits if_splits)
  show ?thesis
  proof (cases r)
    case None
    then show ?thesis
      using r err ok q3 by (auto simp: process_queue_item_def new_scope_eq Let_def nb prefix_errors_none split: option.splits)
  next
    case (Some qd)
    obtain cp d where qd: "qd = (cp, d)" by (cases qd)
    let ?g = "case d of Some d \<Rightarrow> Some d | None \<Rightarrow> qi_parent_domain_guard q"
    let ?p = "nested_prefix (qi_parent_path_prefix q) cp"
    have pq: "process_queue_item libs q ps = process_one_blueprint libs bp ?s ?g ?p False ps3"
      using r by (simp add: process_queue_item_def new_scope_eq Let_def nb Some qd)
    show ?thesis
      unfolding pq process_one_silent process_one_queue
      using ok Some q3 by (auto simp: nb bp_ok_parts prefix_errors_none split: option.splits)
  qed
qed

lemma process_queue_silent:
  "silent (process_queue libs ps) \<longleftrightarrow>
     silent ps \<and> (\<forall>b \<in> set (map qi_nested_bp (ps_queue ps)). nested_ok libs b)"
proof (induction libs ps rule: process_queue.induct)
  case (1 libs ps)
  show ?case
  proof (cases "ps_queue ps = []")
    case True
    then show ?thesis by (simp add: process_queue.simps [of libs ps])
  next
    case False
    let ?q = "last (ps_queue ps)" and ?ps0 = "ps\<lparr>ps_queue := butlast (ps_queue ps)\<rparr>"
    have eq: "process_queue libs ps = process_queue libs (process_queue_item libs ?q ?ps0)"
      using False by (simp add: process_queue.simps [of libs ps])
    have "set (ps_queue ps) = insert ?q (set (butlast (ps_queue ps)))"
      using False by (metis append_butlast_last_id list.set(2) rotate1.simps(2) set_rotate1)
    then show ?thesis
      using "1.IH" [OF False] process_queue_item_silent [of libs ?q ?ps0] by (simp add: eq)
  qed
qed

lemma process_blueprint_silent:
  "silent (process_blueprint libs bp aux []) \<longleftrightarrow> bp_ok libs bp"
  by (simp add: process_blueprint_def Let_def process_queue_silent process_one_silent process_one_queue bp_ok_parts)
    (simp add: silent_def)

end
