(* ===== verification/Blueprint_Correctness.thy ===== *)
theory Blueprint_Correctness
  imports Blueprint_Properties
begin

text \<open>
  The theorems on the pass over a blueprint, with lists as the data structures of other crates
  and a small application for the witnesses.
\<close>

section \<open>Lists as arenas and graphs\<close>

definition list_registry :: "(user_component list, raw_identifiers list, list_graph) registry_libs" where
  "list_registry =
     \<lparr>lib_components = list_arena, lib_iter = (\<lambda>a. zip [0..<length a] a), lib_identifiers = list_arena,
      lib_graph = list_graph_lib, lib_is_ident = (\<lambda>s. s \<noteq> []), lib_version = ''0.1.80''\<rparr>"

interpretation lr: registry list_registry
proof unfold_locales
qed (auto simp: list_registry_def list_arena_def fun_eq_iff nth_append list_graph_nodes graph_edges_list
    list_graph_edges list_graph_search)

section \<open>An application\<close>

text \<open>
  Two routes and a nested blueprint with a route and a fallback. One middleware is registered
  before the nested blueprint, another one after it.
\<close>

definition ex_location :: location where
  "ex_location = \<lparr>line = 1, column = 1, source_file = ''main.rs''\<rparr>"

definition ex_identifiers :: "string \<Rightarrow> raw_identifiers" where
  "ex_identifiers p = from_raw_parts p
     \<lparr>package_name = ''app'', package_version = ''0.1.0'', module_path = ''app''\<rparr> ByBlueprint"

definition ex_callable :: "string \<Rightarrow> callable_ref" where
  "ex_callable p = \<lparr>callable = ex_identifiers p, callable_registered_at = ex_location\<rparr>"

definition ex_route :: "string \<Rightarrow> string \<Rightarrow> bp_component" where
  "ex_route path p = CRoute \<lparr>route_path = path, route_method_guard = SomeMethods {|''GET''|},
     route_handler = ex_callable p, route_error_handler = Some (ex_callable ''crate::on_error'')\<rparr>"

definition ex_middleware :: "string \<Rightarrow> bp_component" where
  "ex_middleware p = CWrappingMiddleware \<lparr>mw_callable = ex_callable p, mw_error_handler = None\<rparr>"

definition ex_nested :: blueprint where
  "ex_nested = Blueprint ex_location
     [ex_route ''/b'' ''crate::b'',
      CFallbackRequestHandler \<lparr>fallback_handler = ex_callable ''crate::not_found'', fallback_error_handler = None\<rparr>]"

definition ex_blueprint :: blueprint where
  "ex_blueprint = Blueprint ex_location
     [ex_route ''/a'' ''crate::a'', ex_middleware ''crate::m1'',
      CNestedBlueprint (NestedBlueprint ex_nested
        (Some \<lparr>prefix_path = ''/api'', prefix_registered_at = ex_location\<rparr>) None ex_location),
      ex_middleware ''crate::m2'', ex_route ''/c'' ''crate::c'']"

lemmas ex_defs = ex_blueprint_def ex_nested_def ex_route_def ex_middleware_def ex_callable_def

section \<open>The theorems\<close>

text \<open>C9: The pass over a blueprint registers exactly the endpoints that the nesting of the
  blueprint describes: every route with the prefixes of all blueprints around it, the domain of
  the innermost one that has a domain, the middlewares and error observers that were registered
  before it in its own blueprint, preceded by those registered before each blueprint around it;
  the last fallback of every blueprint with the full chains; the fallback of the framework if the
  outermost blueprint has none; and nothing from a nested blueprint with an invalid prefix or
  domain.\<close>

theorem endpoints_match_reference:
  assumes "registry libs"
  shows "endpoints libs (ps_aux (process_blueprint libs bp (aux_new libs) [])) = ref_blueprint libs top_level True bp"
  using registry.process_blueprint_correct [OF assms] by blast

theorem endpoints_match_reference_witness:
  "endpoints list_registry (ps_aux (process_blueprint list_registry ex_blueprint (aux_new list_registry) [])) =
     (let id = (\<lambda>p. Some (ex_identifiers p));
          key = (\<lambda>p. \<lparr>rk_path = p, rk_method_guard = SomeMethods {|''GET''|}, rk_domain_guard = None\<rparr>)
      in [RouteEndpoint (key ''/a'') (id ''crate::a'') [] [],
          RouteEndpoint (key ''/c'') (id ''crate::c'') [id ''crate::m1'', id ''crate::m2''] [],
          FallbackEndpoint None None (Some (callable (fallback_handler (default_fallback list_registry ex_blueprint))))
            [id ''crate::m1'', id ''crate::m2''] [],
          RouteEndpoint (key ''/api/b'') (id ''crate::b'') [id ''crate::m1''] [],
          FallbackEndpoint (Some ''/api'') None (id ''crate::not_found'') [id ''crate::m1''] []])"
  unfolding endpoints_match_reference [OF lr.registry_axioms]
  by (simp add: ex_defs own_endpoints_def fallback_endpoint_def after_component_def top_level_def prefixed_def
      enter_def reference_prefixes prefix_errors_def nested_prefix_def Let_def)

text \<open>C32: The internal assertions on the tables about components hold after the pass: every
  component has a lifecycle, a location and a scope, constructors and types have a cloning
  strategy, configuration types a default strategy, endpoints their chains, and fallbacks a path
  prefix and a domain guard, which can be empty.\<close>

theorem blueprint_invariants_hold:
  assumes "registry libs"
  shows "check_invariants libs (ps_aux (process_blueprint libs bp (aux_new libs) ds)) = Inr ()"
proof -
  let ?aux = "ps_aux (process_blueprint libs bp (aux_new libs) ds)"
  have "aux_complete libs ?aux"
    using registry.process_blueprint_correct [OF assms, of bp ds] by (simp add: ps_valid_def)
  then have "concat (map (\<lambda>(i, c). missing_entries ?aux i c) (aux_iter libs ?aux)) = []"
    by (auto simp: aux_complete_def)
  then show ?thesis by (simp only: check_invariants_def list.case)
qed

theorem blueprint_invariants_hold_witness:
  "check_invariants list_registry (ps_aux (process_blueprint list_registry ex_blueprint (aux_new list_registry) []))
     = Inr ()"
  by (rule blueprint_invariants_hold [OF lr.registry_axioms])

text \<open>C31: A diagnostic is reported exactly if a route has a path that is neither empty nor starts
  with a slash, or a blueprint is nested with an invalid domain or with a prefix that is empty,
  does not start with a slash or ends with one, outside of blueprints that are skipped for
  that reason.\<close>

theorem diagnostics_iff_invalid:
  "ps_diagnostics (process_blueprint libs bp aux []) = [] \<longleftrightarrow> bp_ok libs bp"
  using process_blueprint_silent [of libs bp aux] by (simp add: silent_def)

text \<open>
  The parent of the scope of a fallback is the scope of the blueprint that the fallback was
  registered against.
\<close>

definition has_parent :: "('a, 'b, 'g) registry_libs \<Rightarrow> ('a, 'b) auxiliary_data \<Rightarrow> ('g, location) scope_graph
    \<Rightarrow> nat \<Rightarrow> scope_id \<Rightarrow> bool" where
  "has_parent libs aux sg i p \<longleftrightarrow>
     (\<exists>s. id2scope_id aux i = Some s \<and> direct_parent_ids (lib_graph libs) s sg = {p})"

lemma has_parent_iff:
  assumes "registry libs" and "scope_inv libs ps" and "component_at libs (ps_aux ps) i = Some c" and "own_scope c"
    and "aux_wf libs (ps_aux ps)"
  shows "has_parent libs (ps_aux ps) (processed_scope_graph libs ps) i p \<longleftrightarrow> parent_scope libs ps i (scope_index p)"
proof -
  note dg = registry.axioms(3) [OF assms(1)]
  let ?b = "ps_builder ps" and ?sg = "processed_scope_graph libs ps"
  have built: "scope_built (lib_graph libs) ?b" using assms(2) by (simp add: scope_inv_def)
  note f = scope_graph_facts [OF dg built]
  have "(i, c) \<in> set (aux_iter libs (ps_aux ps))"
    using assms(3,5) by (simp add: aux_wf_def component_at_def component_map_def)
  then obtain s where s: "id2scope_id (ps_aux ps) i = Some s" "scope_index s < sb_next_node_id ?b"
    using assms(2) unfolding scope_inv_def by blast
  have "q \<in> direct_parent_ids (lib_graph libs) s ?sg \<longleftrightarrow> (scope_index q, scope_index s) \<in> builder_edges (lib_graph libs) ?b" for q
    using with_state_parent [OF f(1) s(2)] f(2)
    by (simp add: digraph.parent_edges [OF dg] processed_scope_graph_def)
  moreover have "q = p" if "(scope_index q, scope_index s) \<in> builder_edges (lib_graph libs) ?b"
      "(scope_index p, scope_index s) \<in> builder_edges (lib_graph libs) ?b" for q
    using registry.unique_parent [OF assms(1) built that] by (cases p; cases q) simp
  ultimately have "direct_parent_ids (lib_graph libs) s ?sg = {p} \<longleftrightarrow>
      (scope_index p, scope_index s) \<in> builder_edges (lib_graph libs) ?b" by blast
  then show ?thesis by (simp add: has_parent_def parent_scope_def s(1))
qed

text \<open>C21: The scopes that the pass returns are a scope graph, and every component has its place in
  it: the scope of a component is one of its scopes; the scope of a request handler, fallback or
  middleware has exactly one parent; no two fallbacks have scopes with the same parent, and one
  fallback has the root as the parent of its scope.\<close>

theorem components_have_their_scope:
  assumes "registry libs" and "ps = process_blueprint libs bp (aux_new libs) ds"
    and "sg = processed_scope_graph libs ps"
  shows "scope_built (lib_graph libs) (ps_builder ps)
    \<and> (\<forall>i c. component_at libs (ps_aux ps) i = Some c \<longrightarrow>
        (\<exists>s. id2scope_id (ps_aux ps) i = Some s \<and> scope_index s < scope_index (sg_application_state sg))
        \<and> (own_scope c \<longrightarrow> (\<exists>p. has_parent libs (ps_aux ps) sg i p)))
    \<and> (\<forall>i j a b p. component_at libs (ps_aux ps) i = Some (Fallback a) \<longrightarrow>
        component_at libs (ps_aux ps) j = Some (Fallback b) \<longrightarrow>
        has_parent libs (ps_aux ps) sg i p \<longrightarrow> has_parent libs (ps_aux ps) sg j p \<longrightarrow> i = j)
    \<and> (\<exists>i a. component_at libs (ps_aux ps) i = Some (Fallback a) \<and> has_parent libs (ps_aux ps) sg i (sg_root sg))"
proof -
  have c: "ps_valid libs ps" "scope_inv libs ps" "has_root_fallback libs ps"
    using registry.process_blueprint_correct [OF assms(1), of bp ds] by (simp_all add: assms(2))
  have wf: "aux_wf libs (ps_aux ps)" using c(1) by (simp add: ps_valid_def)
  have built: "scope_built (lib_graph libs) (ps_builder ps)" using c(2) by (simp add: scope_inv_def)
  note f = scope_graph_facts [OF registry.axioms(3) [OF assms(1)] built]
  have at: "component_at libs (ps_aux ps) i = Some d \<longleftrightarrow> (i, d) \<in> set (aux_iter libs (ps_aux ps))" for i d
    using wf by (simp add: aux_wf_def component_at_def component_map_def)
  have state: "scope_index (sg_application_state sg) = sb_next_node_id (ps_builder ps)"
    using f(4) by (simp add: assms(3) processed_scope_graph_def)
  have root: "sg_root sg = ScopeId 0" using f(3) by (simp add: assms(3) processed_scope_graph_def scope_root_def)
  have par: "has_parent libs (ps_aux ps) sg i p \<longleftrightarrow> parent_scope libs ps i (scope_index p)"
    if "component_at libs (ps_aux ps) i = Some d" "own_scope d" for i d p
    using has_parent_iff [OF assms(1) c(2) that wf] by (simp add: assms(3))
  have fb: "is_fallback_id libs ps i \<longleftrightarrow> (\<exists>a. component_at libs (ps_aux ps) i = Some (Fallback a))" for i
  proof -
    have "component_kind_of d = KFallback \<longleftrightarrow> (\<exists>a. d = Fallback a)" for d by (cases d) simp_all
    then show ?thesis by (auto simp: is_fallback_id_def fallbacks_of_def at image_iff)
  qed
  have own: "own_scope (Fallback a)" for a by (simp add: own_scope_def)
  have place: "(\<exists>s. id2scope_id (ps_aux ps) i = Some s \<and> scope_index s < scope_index (sg_application_state sg))
        \<and> (own_scope d \<longrightarrow> (\<exists>p. has_parent libs (ps_aux ps) sg i p))"
    if "component_at libs (ps_aux ps) i = Some d" for i d
  proof -
    have i: "(\<exists>s. id2scope_id (ps_aux ps) i = Some s \<and> scope_index s < scope_index (sg_application_state sg))
        \<and> (own_scope d \<longrightarrow> (\<exists>p. parent_scope libs ps i p))"
      using c(2) that unfolding scope_inv_def at state by blast
    moreover have "has_parent libs (ps_aux ps) sg i (ScopeId p)" if "own_scope d" "parent_scope libs ps i p" for p
      using par [OF \<open>component_at libs (ps_aux ps) i = Some d\<close> that(1), of "ScopeId p"] that(2) by simp
    ultimately show ?thesis by blast
  qed
  have separate: "i = j" if "component_at libs (ps_aux ps) i = Some (Fallback a)"
      "component_at libs (ps_aux ps) j = Some (Fallback b)"
      "has_parent libs (ps_aux ps) sg i p" "has_parent libs (ps_aux ps) sg j p" for i j a b p
    using c(2) that(3,4) fb that(1,2) unfolding scope_inv_def par [OF that(1) own] par [OF that(2) own] by blast
  obtain r where r: "is_fallback_id libs ps r" "parent_scope libs ps r 0"
    using c(3) by (auto simp: has_root_fallback_def)
  then obtain a where a: "component_at libs (ps_aux ps) r = Some (Fallback a)" by (auto simp: fb)
  have "has_parent libs (ps_aux ps) sg r (sg_root sg)" using r(2) par [OF a own] by (simp add: root)
  with a built place separate show ?thesis by blast
qed

theorem components_have_their_scope_witness:
  "\<exists>i a. let ps = process_blueprint list_registry ex_blueprint (aux_new list_registry) []; sg = processed_scope_graph list_registry ps
     in component_at list_registry (ps_aux ps) i = Some (Fallback a)
        \<and> has_parent list_registry (ps_aux ps) sg i (sg_root sg)"
  using components_have_their_scope [OF lr.registry_axioms refl refl] by (simp add: Let_def)

end
