(* ===== verification/Router_Totality.thy ===== *)
theory Router_Totality
  imports Router_Dispatch Blueprint_Correctness
begin

text \<open>
  Building the routers for the tables of a processed blueprint ends without a panic, provided
  that templates match their own text and that the paths and patterns made up for fallbacks and
  domains are well-formed.
\<close>

section \<open>Functions that neither panic nor run forever\<close>

definition safe :: "'a routing \<Rightarrow> bool" where
  "safe x \<longleftrightarrow> (\<exists>ds r. x = Some (ds, r) \<and> \<not> panicked r)"

lemma safe_bind [intro]:
  assumes "safe x" and "\<And>ds a. x = Some (ds, Inr a) \<Longrightarrow> safe (f a)"
  shows "safe (routing_bind x f)"
proof -
  obtain ds r where x: "x = Some (ds, r)" "\<not> panicked r" using assms(1) by (auto simp: safe_def)
  show ?thesis
  proof (cases r)
    case (Inl e)
    then show ?thesis using x by (cases e) (auto simp: safe_def routing_bind_def)
  next
    case (Inr a)
    then obtain ds' r' where "f a = Some (ds', r')" "\<not> panicked r'" using assms(2) x by (auto simp: safe_def)
    then show ?thesis using x Inr by (auto simp: safe_def routing_bind_def)
  qed
qed

lemma safe_simps [simp]:
  "safe (checked ds a)" "safe (silently (Inr a))" "safe (loop_value (Some a))"
  by (auto simp: safe_def checked_def silently_def loop_value_def)

lemma safe_silently: "\<exists>a. r = Inr a \<Longrightarrow> safe (silently r)"
  by auto

section \<open>Tables that a router can be built from\<close>

definition router_ready :: "('a, 'b, 'g) registry_libs \<Rightarrow> ('a, 'b) auxiliary_data \<Rightarrow> ('g, location) scope_graph
    \<Rightarrow> nat \<Rightarrow> bool" where
  "router_ready libs aux sg n \<longleftrightarrow>
     (\<forall>i c. (i, c) \<in> set (aux_iter libs aux) \<longleftrightarrow> component_at libs aux i = Some c)
   \<and> (\<forall>i c. (i, c) \<in> set (aux_iter libs aux) \<longrightarrow>
        (\<exists>s. id2scope_id aux i = Some s \<and> scope_index s < n))
   \<and> (\<forall>i k. (i, Fallback k) \<in> set (aux_iter libs aux) \<longrightarrow>
        (\<exists>p. has_parent libs aux sg i p \<and> scope_index p < n)
        \<and> fallback_id2path_prefix aux i \<noteq> None \<and> fallback_id2domain_guard aux i \<noteq> None)
   \<and> (\<forall>i j k l p. (i, Fallback k) \<in> set (aux_iter libs aux) \<longrightarrow> (j, Fallback l) \<in> set (aux_iter libs aux) \<longrightarrow>
        has_parent libs aux sg i p \<longrightarrow> has_parent libs aux sg j p \<longrightarrow> i = j)
   \<and> (\<exists>i k. (i, Fallback k) \<in> set (aux_iter libs aux) \<and> has_parent libs aux sg i (sg_root sg))
   \<and> (\<exists>i k. (i, Fallback k) \<in> set (aux_iter libs aux) \<and> fallback_id2domain_guard aux i = Some None)"

lemma router_readyD:
  assumes "router_ready libs aux sg n"
  shows "(i, c) \<in> set (aux_iter libs aux) \<longleftrightarrow> component_at libs aux i = Some c"
    and "(i, c) \<in> set (aux_iter libs aux) \<Longrightarrow> \<exists>s. id2scope_id aux i = Some s \<and> scope_index s < n"
    and "(i, Fallback k) \<in> set (aux_iter libs aux) \<Longrightarrow> \<exists>p. has_parent libs aux sg i p \<and> scope_index p < n"
    and "(i, Fallback k) \<in> set (aux_iter libs aux) \<Longrightarrow> fallback_id2path_prefix aux i \<noteq> None"
    and "(i, Fallback k) \<in> set (aux_iter libs aux) \<Longrightarrow> fallback_id2domain_guard aux i \<noteq> None"
    and "(i, Fallback k) \<in> set (aux_iter libs aux) \<Longrightarrow> (j, Fallback l) \<in> set (aux_iter libs aux) \<Longrightarrow>
      has_parent libs aux sg i p \<Longrightarrow> has_parent libs aux sg j p \<Longrightarrow> i = j"
    and "\<exists>i k. (i, Fallback k) \<in> set (aux_iter libs aux) \<and> has_parent libs aux sg i (sg_root sg)"
    and "\<exists>i k. (i, Fallback k) \<in> set (aux_iter libs aux) \<and> fallback_id2domain_guard aux i = Some None"
  using assms unfolding router_ready_def by (meson, meson, meson, meson, meson, meson, meson, meson)

lemma fallback_kind: "component_kind_of c = KFallback \<longleftrightarrow> (\<exists>k. c = Fallback k)"
  by (cases c) simp_all

lemma top_fallback: "\<exists>h ms os. FallbackEndpoint None None h ms os \<in> set (ref_blueprint libs top_level True bp)"
proof (cases bp)
  case (Blueprint l cs)
  then show ?thesis
    by (cases "last_fallback None cs") (auto simp: own_endpoints_def fallback_endpoint_def top_level_def)
qed

lemma complete_fallback:
  "missing_entries aux i (Fallback k) = [] \<Longrightarrow> fallback_id2path_prefix aux i \<noteq> None \<and> fallback_id2domain_guard aux i \<noteq> None"
  by (simp add: missing_entries_def split: if_splits)

lemma endpoint_of_fallback:
  "FallbackEndpoint p g h ms os \<in> set (endpoint_of libs aux (i, d)) \<Longrightarrow>
     \<exists>k. d = Fallback k \<and> fallback_id2domain_guard aux i = Some g"
  by (cases d) (auto simp: endpoint_of_def split: option.splits)

lemma blueprint_router_ready:
  assumes "registry libs" and "ps = process_blueprint libs bp (aux_new libs) ds"
    and "sg = processed_scope_graph libs ps"
  shows "router_ready libs (ps_aux ps) sg (sb_next_node_id (ps_builder ps))"
    and "scope_built (lib_graph libs) (ps_builder ps)" and "1 < sb_next_node_id (ps_builder ps)"
proof -
  let ?aux = "ps_aux ps" and ?n = "sb_next_node_id (ps_builder ps)"
  have c: "ps_valid libs ps" "scope_inv libs ps" "has_root_fallback libs ps"
      "endpoints libs ?aux = ref_blueprint libs top_level True bp"
    using registry.process_blueprint_correct [OF assms(1), of bp ds] by (simp_all add: assms(2))
  have wf: "aux_wf libs ?aux" and complete: "aux_complete libs ?aux" using c(1) by (simp_all add: ps_valid_def)
  show built: "scope_built (lib_graph libs) (ps_builder ps)" using c(2) by (simp add: scope_inv_def)
  note f = scope_graph_facts [OF registry.axioms(3) [OF assms(1)] built]
  have at: "(i, d) \<in> set (aux_iter libs ?aux) \<longleftrightarrow> component_at libs ?aux i = Some d" for i d
    using wf by (simp add: aux_wf_def component_at_def component_map_def)
  have fb: "is_fallback_id libs ps i \<longleftrightarrow> (\<exists>k. (i, Fallback k) \<in> set (aux_iter libs ?aux))" for i
    by (force simp: is_fallback_id_def fallbacks_of_def fallback_kind)
  have own: "own_scope (Fallback k)" for k by (simp add: own_scope_def)
  have par: "has_parent libs ?aux sg i p \<longleftrightarrow> parent_scope libs ps i (scope_index p)"
    if "(i, Fallback k) \<in> set (aux_iter libs ?aux)" for i k p
    using has_parent_iff [OF assms(1) c(2) that [unfolded at] own wf] by (simp add: assms(3))
  have small: "p < ?n" if "parent_scope libs ps i p" for i p
    using that tree_edge [OF f(1)] by (force simp: parent_scope_def)
  obtain r where r: "is_fallback_id libs ps r" "parent_scope libs ps r 0" using c(3) by (auto simp: has_root_fallback_def)
  then show "1 < ?n" using tree_edge [OF f(1)] by (force simp: parent_scope_def)
  have root: "sg_root sg = ScopeId 0" using f(3) by (simp add: assms(3) processed_scope_graph_def scope_root_def)
  show "router_ready libs ?aux sg ?n"
    unfolding router_ready_def
  proof (intro conjI allI impI)
    show "(i, d) \<in> set (aux_iter libs ?aux) \<longleftrightarrow> component_at libs ?aux i = Some d" for i d by (rule at)
    show "\<exists>s. id2scope_id ?aux i = Some s \<and> scope_index s < ?n" if "(i, d) \<in> set (aux_iter libs ?aux)" for i d
      using c(2) that unfolding scope_inv_def by blast
    show "\<exists>p. has_parent libs ?aux sg i p \<and> scope_index p < ?n" if i: "(i, Fallback k) \<in> set (aux_iter libs ?aux)" for i k
    proof -
      obtain p where "parent_scope libs ps i p" using c(2) i own unfolding scope_inv_def by blast
      then show ?thesis using par [OF i, of "ScopeId p"] small by (intro exI [of _ "ScopeId p"]) simp
    qed
    show "fallback_id2path_prefix ?aux i \<noteq> None" "fallback_id2domain_guard ?aux i \<noteq> None"
      if "(i, Fallback k) \<in> set (aux_iter libs ?aux)" for i k
      using complete that complete_fallback unfolding aux_complete_def by blast+
    show "i = j" if i: "(i, Fallback k) \<in> set (aux_iter libs ?aux)" and j: "(j, Fallback l) \<in> set (aux_iter libs ?aux)"
        and p: "has_parent libs ?aux sg i p" "has_parent libs ?aux sg j p" for i j k l p
    proof -
      have "is_fallback_id libs ps i" "is_fallback_id libs ps j" using fb i j by blast+
      then show ?thesis using c(2) p(1) [unfolded par [OF i]] p(2) [unfolded par [OF j]] unfolding scope_inv_def by blast
    qed
    show "\<exists>i k. (i, Fallback k) \<in> set (aux_iter libs ?aux) \<and> has_parent libs ?aux sg i (sg_root sg)"
    proof -
      obtain k where k: "(r, Fallback k) \<in> set (aux_iter libs ?aux)" using fb r(1) by blast
      then have "has_parent libs ?aux sg r (sg_root sg)" using r(2) par [OF k] by (simp add: root)
      with k show ?thesis by blast
    qed
    show "\<exists>i k. (i, Fallback k) \<in> set (aux_iter libs ?aux) \<and> fallback_id2domain_guard ?aux i = Some None"
    proof -
      obtain h ms os where "FallbackEndpoint None None h ms os \<in> set (endpoints libs ?aux)"
        using top_fallback [of libs bp] by (auto simp: c(4))
      then obtain i d where "(i, d) \<in> set (aux_iter libs ?aux)" "FallbackEndpoint None None h ms os \<in> set (endpoint_of libs ?aux (i, d))"
        by (auto simp: endpoints_def)
      then show ?thesis using endpoint_of_fallback by blast
    qed
  qed
qed

section \<open>The fallback of every scope\<close>

lemma ascending_single [simp]: "ascending {p} = [p]"
  by (simp add: ascending_def)

lemma has_parent_unique: "has_parent libs aux sg i p \<Longrightarrow> has_parent libs aux sg i q \<Longrightarrow> p = q"
  by (auto simp: has_parent_def)

definition fallback_pairs :: "('a, 'b, 'g) registry_libs \<Rightarrow> ('a, 'b) auxiliary_data
    \<Rightarrow> ('g, location) scope_graph \<Rightarrow> (nat \<times> user_component) list \<Rightarrow> (scope_id \<times> nat) set" where
  "fallback_pairs libs aux sg cs = {(p, i). has_parent libs aux sg i p \<and> (\<exists>k. (i, Fallback k) \<in> set cs)}"

lemma fallback_scopes_pairs:
  assumes ready: "router_ready libs aux sg n"
  shows "set cs \<subseteq> set (aux_iter libs aux) \<Longrightarrow> set m \<subseteq> fallback_pairs libs aux sg (aux_iter libs aux) \<Longrightarrow>
    \<exists>m'. fallback_scopes libs aux sg cs m = Inr m' \<and> set m' = set m \<union> fallback_pairs libs aux sg cs"
proof (induction cs arbitrary: m)
  case Nil
  then show ?case by (simp add: fallback_pairs_def)
next
  case (Cons x cs)
  obtain i c where x: "x = (i, c)" by (cases x)
  have IH: "\<exists>m'. fallback_scopes libs aux sg cs m = Inr m' \<and> set m' = set m \<union> fallback_pairs libs aux sg cs"
    if "set m \<subseteq> fallback_pairs libs aux sg (aux_iter libs aux)" for m
    using Cons.IH Cons.prems(1) that by simp
  show ?case
  proof (cases "component_kind_of c = KFallback")
    case False
    then have "fallback_pairs libs aux sg (x # cs) = fallback_pairs libs aux sg cs"
      by (auto simp: x fallback_pairs_def)
    then show ?thesis using IH [OF Cons.prems(2)] False by (simp add: x)
  next
    case True
    then obtain k where c: "c = Fallback k" by (auto simp: fallback_kind)
    have i: "(i, Fallback k) \<in> set (aux_iter libs aux)" using Cons.prems(1) by (simp add: x c)
    then obtain p where p: "has_parent libs aux sg i p" using router_readyD(3) [OF ready] by blast
    then obtain s where s: "id2scope_id aux i = Some s" "direct_parent_ids (lib_graph libs) s sg = {p}"
      by (auto simp: has_parent_def)
    have same: "q = p \<longleftrightarrow> j = i" if "(q, j) \<in> set m" for q j
    proof -
      have j: "has_parent libs aux sg j q" "\<exists>l. (j, Fallback l) \<in> set (aux_iter libs aux)"
        using that Cons.prems(2) by (auto simp: fallback_pairs_def)
      then obtain l where l: "(j, Fallback l) \<in> set (aux_iter libs aux)" by blast
      show ?thesis
        using has_parent_unique [OF j(1)] p router_readyD(6) [OF ready l i j(1)] by blast
    qed
    then have set_m: "set (bihash_insert p i m) = insert (p, i) (set m)"
      by (auto simp: bihash_insert_def)
    have "fallback_pairs libs aux sg (x # cs) = insert (p, i) (fallback_pairs libs aux sg cs)"
      using p has_parent_unique by (fastforce simp: x c fallback_pairs_def)
    moreover have "(p, i) \<in> fallback_pairs libs aux sg (aux_iter libs aux)"
      using p i by (auto simp: fallback_pairs_def)
    ultimately show ?thesis using IH [of "bihash_insert p i m"] Cons.prems(2) s by (simp add: x c set_m)
  qed
qed

lemma fallback_scopes_ok:
  assumes ready: "router_ready libs aux sg n"
  shows "\<exists>m. fallback_scopes libs aux sg (aux_iter libs aux) [] = Inr m
    \<and> (\<forall>p i. map_of m p = Some i \<longleftrightarrow> (p, i) \<in> fallback_pairs libs aux sg (aux_iter libs aux))"
proof -
  let ?pairs = "fallback_pairs libs aux sg (aux_iter libs aux)"
  obtain m where m: "fallback_scopes libs aux sg (aux_iter libs aux) [] = Inr m" "set m = ?pairs"
    using fallback_scopes_pairs [OF ready, of "aux_iter libs aux" "[]"] by auto
  have one: "i = j" if pairs: "(p, i) \<in> ?pairs" "(p, j) \<in> ?pairs" for p i j
  proof -
    have i: "has_parent libs aux sg i p" "\<exists>k. (i, Fallback k) \<in> set (aux_iter libs aux)"
      and j: "has_parent libs aux sg j p" "\<exists>l. (j, Fallback l) \<in> set (aux_iter libs aux)"
      using pairs by (simp_all add: fallback_pairs_def)
    from i(2) j(2) show ?thesis by (elim exE) (rule router_readyD(6) [OF ready _ _ i(1) j(1)])
  qed
  have found: "(p, i) \<in> ?pairs" if h: "map_of m p = Some i" for p i
    using map_of_SomeD [OF h] by (simp only: m(2))
  have keyed: "map_of m p = Some i" if pi: "(p, i) \<in> ?pairs" for p i
  proof -
    have "(p, i) \<in> set m" using pi by (simp only: m(2))
    then obtain j where j: "map_of m p = Some j" using weak_map_of_SomeI by fastforce
    then show ?thesis using one [OF pi found [OF j]] by simp
  qed
  have "\<forall>p i. map_of m p = Some i \<longleftrightarrow> (p, i) \<in> ?pairs"
    by (intro allI iffI) (rule found, assumption, rule keyed, assumption)
  with m(1) show ?thesis by (intro exI conjI)
qed

text \<open>The tree finds a fallback for every scope.\<close>

definition tree_ready :: "('a, 'b, 'g) registry_libs \<Rightarrow> ('a, 'b) auxiliary_data \<Rightarrow> ('g, location) scope_graph
    \<Rightarrow> nat \<Rightarrow> fallback_node list \<Rightarrow> bool" where
  "tree_ready libs aux sg n tree \<longleftrightarrow>
     (\<forall>s. scope_index s < n \<longrightarrow> (\<exists>i k. find_fallback_id (lib_graph libs) tree sg s = Some i
        \<and> (i, Fallback k) \<in> set (aux_iter libs aux)))"

lemma tree_new_ready:
  assumes dg: "digraph (lib_graph libs)" "scope_built (lib_graph libs) b" and sg: "sg = scope_build (lib_graph libs) b"
    and ready: "router_ready libs aux sg (sb_next_node_id b)"
    and m: "\<forall>p i. map_of m p = Some i \<longleftrightarrow> (p, i) \<in> fallback_pairs libs aux sg (aux_iter libs aux)"
  shows "\<exists>tree. tree_new (lib_graph libs) m sg = Some (Inr tree) \<and> tree_ready libs aux sg (sb_next_node_id b) tree"
proof -
  have small: "\<forall>x. map_of m (ScopeId x) \<noteq> None \<longrightarrow> x < sb_next_node_id b"
  proof (intro allI impI)
    fix x assume "map_of m (ScopeId x) \<noteq> None"
    then obtain i k where "has_parent libs aux sg i (ScopeId x)" "(i, Fallback k) \<in> set (aux_iter libs aux)"
      using m by (auto simp: fallback_pairs_def)
    then obtain p where "has_parent libs aux sg i p" "scope_index p < sb_next_node_id b"
      using router_readyD(3) [OF ready] by blast
    then show "x < sb_next_node_id b"
      using has_parent_unique [of libs aux sg i p "ScopeId x"] \<open>has_parent libs aux sg i (ScopeId x)\<close> by auto
  qed
  obtain f where f: "map_of m (sg_root sg) = Some f"
    using router_readyD(7) [OF ready] m by (auto simp: fallback_pairs_def)
  from tree_fallbacks [OF dg sg small f] obtain tree where tree: "tree_new (lib_graph libs) m sg = Some (Inr tree)"
      "\<forall>r < sb_next_node_id b. \<exists>s i. find_fallback_id (lib_graph libs) tree sg (ScopeId r) = Some i
           \<and> map_of m s = Some i" by blast
  have "\<exists>i k. find_fallback_id (lib_graph libs) tree sg s = Some i \<and> (i, Fallback k) \<in> set (aux_iter libs aux)"
    if small: "scope_index s < sb_next_node_id b" for s
  proof -
    obtain q i where "find_fallback_id (lib_graph libs) tree sg (ScopeId (scope_index s)) = Some i" "map_of m q = Some i"
      using tree(2) small by blast
    then show ?thesis using m by (auto simp: fallback_pairs_def)
  qed
  with tree(1) show ?thesis unfolding tree_ready_def by blast
qed

section \<open>Assigning fallbacks\<close>

lemma first_parent_ok:
  assumes "router_ready libs aux sg n" and "(i, Fallback k) \<in> set (aux_iter libs aux)"
  shows "\<exists>p. first_parent libs aux sg i = Inr p"
proof -
  obtain p where "has_parent libs aux sg i p" using router_readyD(3) [OF assms] by blast
  then show ?thesis by (auto simp: first_parent_def has_parent_def)
qed

lemma choose_fallback_ok:
  assumes "router_ready libs aux sg n" and "(f, Fallback k) \<in> set (aux_iter libs aux)"
    and "\<forall>j. p = Some j \<longrightarrow> (\<exists>l. (j, Fallback l) \<in> set (aux_iter libs aux))"
  shows "\<exists>c. choose_fallback libs aux sg p f = Inr c"
proof (cases p)
  case None
  then show ?thesis by (simp add: choose_fallback_def)
next
  case (Some j)
  then obtain l where "(j, Fallback l) \<in> set (aux_iter libs aux)" using assms(3) by blast
  from first_parent_ok [OF assms(1) this] first_parent_ok [OF assms(1,2)] show ?thesis
    by (auto simp: choose_fallback_def Some)
qed

lemma assign_loop_safe:
  assumes ready: "router_ready libs aux sg n" and tree: "tree_ready libs aux sg n tree"
    and fallback_ids: "\<And>p j. mt_at mt router p = Some j \<Longrightarrow> \<exists>l. (j, Fallback l) \<in> set (aux_iter libs aux)"
  shows "\<exists>ds' m. assign_loop mt router tree libs aux sg ids assigned ds = Some (ds', Inr m)"
proof (induction ids arbitrary: assigned ds)
  case (Cons i ids)
  show ?case
  proof (cases "handler_key libs aux i")
    case None
    then show ?thesis using Cons by simp
  next
    case (Some k)
    then obtain c where "component_at libs aux i = Some c" by (auto simp: handler_key_def split: option.splits)
    then obtain s where s: "id2scope_id aux i = Some s" "scope_index s < n"
      using router_readyD(1,2) [OF ready] by blast
    then obtain f l where f: "find_fallback_id (lib_graph libs) tree sg s = Some f" "(f, Fallback l) \<in> set (aux_iter libs aux)"
      using tree unfolding tree_ready_def by blast
    obtain d where "choose_fallback libs aux sg (mt_at mt router (rk_path k)) f = Inr d"
      using choose_fallback_ok [OF ready f(2)] fallback_ids by blast
    then show ?thesis using Cons Some s(1) f(1) by (cases d) simp_all
  qed
qed simp


section \<open>The router of a domain\<close>

lemma bind_safe: "x = Some (ds, Inr a) \<Longrightarrow> safe (f a) \<Longrightarrow> safe (routing_bind x f)"
  by (rule safe_bind) (auto simp: safe_def)

lemma ancestor_safe:
  assumes dg: "digraph (lib_graph libs)" "scope_built (lib_graph libs) b" "1 < sb_next_node_id b"
    and sg: "sg = scope_build (lib_graph libs) b"
    and ready: "router_ready libs aux sg (sb_next_node_id b)" and tree: "tree_ready libs aux sg (sb_next_node_id b) tree"
    and ids: "\<forall>i \<in> set ids. component_at libs aux i \<noteq> None" "ids \<noteq> []"
  shows "\<exists>scopes root f. scopes_of aux ids = Inr scopes
    \<and> find_common_ancestor (lib_graph libs) sg scopes = Some (Inr root)
    \<and> find_fallback_id (lib_graph libs) tree sg root = Some f"
proof -
  let ?n = "sb_next_node_id b" and ?scopes = "map (\<lambda>i. the (id2scope_id aux i)) ids"
  have scope: "\<exists>s. id2scope_id aux i = Some s \<and> scope_index s < ?n" if "i \<in> set ids" for i
    using ids(1) that router_readyD(1,2) [OF ready] by fastforce
  then have scopes: "scopes_of aux ids = Inr ?scopes" by (force simp: scopes_of_def)
  have small: "scope_index s < ?n" if "s \<in> set ?scopes" for s using that scope by force
  then have "\<forall>s \<in> set ?scopes. scope_index s \<le> ?n" using less_imp_le by blast
  moreover have "?scopes \<noteq> []" using ids(2) by simp
  ultimately obtain r where r: "find_common_ancestor (lib_graph libs) sg ?scopes = Some (Inr r)"
      "\<forall>s \<in> set ?scopes. is_descendant_of (lib_graph libs) s r sg"
    using find_common_ancestor_correct [OF dg sg] by blast
  have s: "hd ?scopes \<in> set ?scopes" (is "?s \<in> _") using ids(2) by (intro list.set_sel) simp
  note f = scope_graph_facts [OF dg(1,2)]
  have "(scope_index r, scope_index ?s) \<in> (with_state (builder_edges (lib_graph libs) b) ?n)\<^sup>*"
    using bspec [OF r(2) s] by (simp only: sg digraph.descendant_edges [OF dg(1)] f(2))
  then have "scope_index r \<le> scope_index ?s" by (rule with_state_le [OF f(1)])
  then have "scope_index r < ?n" using small [OF s] by simp
  then obtain g where "find_fallback_id (lib_graph libs) tree sg r = Some g" using tree unfolding tree_ready_def by blast
  with scopes r(1) show ?thesis by blast
qed

context path_matching
begin

definition paths_ok :: "('a, 'b, 'g) registry_libs \<Rightarrow> ('a, 'b) auxiliary_data \<Rightarrow> nat list \<Rightarrow> bool" where
  "paths_ok libs aux ids \<longleftrightarrow>
     (\<forall>i \<in> set ids. \<forall>k. handler_key libs aux i = Some k \<longrightarrow> matches (rk_path k) (rk_path k))
   \<and> (\<forall>i \<in> set ids. \<forall>path. prefix_fallback libs aux i path \<longrightarrow> valid path)"

lemma method_loop_ok:
  assumes P: "\<forall>p \<in> P. valid p \<and> matches p p" "\<forall>p \<in> P. \<forall>q \<in> P. conflicts p q \<longrightarrow> p = q"
  shows "\<forall>i \<in> set ids. \<forall>k. handler_key libs aux i = Some k \<longrightarrow> rk_path k \<in> P \<and> map_of assigned i \<noteq> None \<Longrightarrow>
    fst ` set (routes (ms_router st)) \<subseteq> P \<Longrightarrow> \<exists>st'. method_loop mt assigned libs aux ids st = Inr st'"
proof (induction ids arbitrary: st)
  case (Cons i ids)
  have IH: "\<exists>st'. method_loop mt assigned libs aux ids st = Inr st'" if "fst ` set (routes (ms_router st)) \<subseteq> P" for st
    using Cons.IH Cons.prems(1) that by simp
  show ?case
  proof (cases "\<exists>k ms. handler_key libs aux i = Some k \<and> rk_method_guard k = SomeMethods ms")
    case False
    then have "method_loop mt assigned libs aux (i # ids) st = method_loop mt assigned libs aux ids st"
      by (auto split: option.split bp_method_guard.split)
    then show ?thesis using IH Cons.prems(2) by simp
  next
    case True
    then obtain k ms where k: "handler_key libs aux i = Some k" "rk_method_guard k = SomeMethods ms" by blast
    let ?p = "rk_path k"
    have p: "?p \<in> P" "map_of assigned i \<noteq> None" using Cons.prems(1) k by auto
    then obtain f where f: "map_of assigned i = Some f" by blast
    have "\<exists>r st2. route_id_for mt ?p st = Inr (r, st2) \<and> fst ` set (routes (ms_router st2)) \<subseteq> P"
    proof (cases "mt_at mt (ms_router st) ?p")
      case None
      have "\<not> conflicts ?p q" if q: "q \<in> fst ` set (routes (ms_router st))" for q
      proof
        assume c: "conflicts ?p q"
        have "q \<in> P" using Cons.prems(2) q by (rule subsetD)
        from P(2) [rule_format, OF p(1) this c] have "q = ?p" by simp
        then obtain v where "(?p, v) \<in> set (routes (ms_router st))" using q by auto
        then show False using at_finds P(1) p(1) None by blast
      qed
      with insert_ok [of ?p "ms_router st"] P(1) p(1)
      obtain m where m: "mt_insert mt ?p (ms_next_route_id st) (ms_router st) = (None, m)"
          "routes m = routes (ms_router st) @ [(?p, ms_next_route_id st)]" by blast
      then show ?thesis using None p(1) Cons.prems(2) by (simp add: route_id_for_def Let_def)
    qed (use Cons.prems(2) in \<open>simp add: route_id_for_def\<close>)
    then obtain r st2 where st2: "route_id_for mt ?p st = Inr (r, st2)" "fst ` set (routes (ms_router st2)) \<subseteq> P" by blast
    then show ?thesis using k f IH by simp
  qed
qed simp

lemma path_router_new_safe:
  assumes dg: "digraph (lib_graph libs)" "scope_built (lib_graph libs) b" "1 < sb_next_node_id b"
    and sg: "sg = scope_build (lib_graph libs) b"
    and ready: "router_ready libs aux sg (sb_next_node_id b)" and tree: "tree_ready libs aux sg (sb_next_node_id b) tree"
    and ids: "\<forall>i \<in> set ids. component_at libs aux i \<noteq> None" "ids \<noteq> []" and ok: "paths_ok libs aux ids"
  shows "safe (path_router_new mt libs aux sg tree ids)"
proof -
  obtain scopes root f where s: "scopes_of aux ids = Inr scopes"
      "find_common_ancestor (lib_graph libs) sg scopes = Some (Inr root)"
      "find_fallback_id (lib_graph libs) tree sg root = Some f"
    using ancestor_safe [OF dg sg ready tree ids] by blast
  have fb: "\<exists>k. (i, Fallback k) \<in> set (aux_iter libs aux)" if "is_fallback libs aux i" for i
    using that router_readyD(1) [OF ready] by (auto simp: is_fallback_def split: option.splits user_component.splits)
  have check: "safe (check_method_not_allowed_fallbacks mt assigned libs aux ids)"
    if m: "detect_path_conflicts mt libs aux ids = Some (ds, Inr m)"
      and a: "assign_fallbacks mt m tree libs aux sg ids = Some (ds', Inr (assigned, cs))" for m assigned cs ds ds'
  proof -
    note acc = detect_path_conflicts_ok [OF m]
    have asg: "\<forall>i \<in> set ids. handler_key libs aux i \<noteq> None \<longrightarrow> i \<in> fst ` set assigned"
      using assign_fallbacks_ok [OF a] by blast
    let ?P = "fst ` set (routes m)"
    have in_P: "p \<in> ?P \<longleftrightarrow> (\<exists>i \<in> set ids. \<exists>k. handler_key libs aux i = Some k \<and> rk_path k = p)" for p
      using acc by (auto simp: handlers_at_def route_at_def filter_empty_conv)
    have "matches p p" if p: "p \<in> ?P" for p
    proof -
      obtain i k where "i \<in> set ids" "handler_key libs aux i = Some k" "rk_path k = p" using p in_P by blast
      then show ?thesis using ok unfolding paths_ok_def by blast
    qed
    moreover have "\<forall>p \<in> ?P. valid p" using acc by (simp add: coherent_def)
    ultimately have P: "\<forall>p \<in> ?P. valid p \<and> matches p p" by blast
    have Q: "\<forall>p \<in> ?P. \<forall>q \<in> ?P. conflicts p q \<longrightarrow> p = q" using acc by (simp add: coherent_def)
    have "\<forall>i \<in> set ids. \<forall>k. handler_key libs aux i = Some k \<longrightarrow> rk_path k \<in> ?P \<and> map_of assigned i \<noteq> None"
      using asg in_P by (auto simp: map_of_eq_None_iff)
    then obtain st where "method_loop mt assigned libs aux ids
        \<lparr>ms_router = mt_new mt, ms_next_route_id = 0, ms_map = []\<rparr> = Inr st"
      using method_loop_ok [OF P Q, of ids libs aux assigned "\<lparr>ms_router = mt_new mt, ms_next_route_id = 0, ms_map = []\<rparr>"]
      by (auto simp: routes_new)
    then show ?thesis
      unfolding check_method_not_allowed_fallbacks_def by (intro safe_bind) simp_all
  qed
  have assign: "safe (assign_fallbacks mt m tree libs aux sg ids)"
    if m: "detect_path_conflicts mt libs aux ids = Some (ds, Inr m)" for m ds
  proof -
    let ?st = "\<lparr>fs_validation = m, fs_router = mt_new mt, fs_catch_alls = []\<rparr>"
    have start: "fallback_inv libs aux ?st"
      using detect_path_conflicts_ok [OF m] by (simp add: fallback_inv_def routes_new)
    have "\<forall>i \<in> set ids. is_fallback libs aux i \<longrightarrow> fallback_id2path_prefix aux i \<noteq> None"
      using fb router_readyD(4) [OF ready] by blast
    moreover have "\<forall>i \<in> set ids. \<forall>path. prefix_fallback libs aux i path \<longrightarrow> valid path"
      using ok unfolding paths_ok_def by blast
    ultimately obtain st where st: "fallback_loop mt libs aux ids ?st = Inr st" using fallback_loop_ok [OF _ _ start] by blast
    note inv = fallback_loop_inv [OF st start]
    have ids: "\<exists>l. (j, Fallback l) \<in> set (aux_iter libs aux)" if j: "mt_at mt (fs_router st) p = Some j" for p j
    proof -
      obtain q where "(q, j) \<in> set (routes (fs_router st))" using at_matches [OF j] by blast
      then have "prefix_fallback libs aux j q" using inv unfolding fallback_inv_def by fastforce
      then show ?thesis using fb by (simp add: prefix_fallback_def)
    qed
    have "\<exists>ds' r. assign_loop mt (fs_router st) tree libs aux sg ids [] [] = Some (ds', Inr r)"
      by (rule assign_loop_safe [OF ready tree]) (rule ids)
    then obtain ds' r
      where "assign_loop mt (fs_router st) tree libs aux sg ids [] [] = Some (ds', Inr r)" by blast
    then show ?thesis
      unfolding assign_fallbacks_def st silently_def by (intro bind_safe [OF refl]) simp
  qed
  have leaves: "\<exists>l. leaf_loop assigned libs aux ids [] = Inr l"
    if "assign_fallbacks mt m tree libs aux sg ids = Some (ds', Inr (assigned, cs))" for m assigned cs ds'
    by (rule leaf_loop_ok, rule assign_fallbacks_ok [OF that])
  have paths: "safe (detect_path_conflicts mt libs aux ids)"
    by (simp add: detect_path_conflicts_def split_beta)
  have methods: "safe (detect_method_conflicts libs aux ids)" by (simp add: detect_method_conflicts_def)
  show ?thesis
    unfolding path_router_new_def s silently_def [of "Inr scopes"]
    apply (rule bind_safe [OF refl])
    unfolding s loop_value_def option.map
    apply (rule bind_safe [OF refl])
    unfolding silently_def [of "Inr root"]
    apply (rule bind_safe [OF refl])
    unfolding s option.map
    apply (rule bind_safe [OF refl])
    apply (rule safe_bind [OF methods])
    apply (rule safe_bind [OF paths])
    apply (rule safe_bind [OF assign], assumption)
    subgoal for _ _ _ m _ x
      apply (cases x)
      apply (simp only: prod.case)
      apply (rule safe_bind [OF check], assumption, assumption)
      apply (rule safe_bind [OF safe_silently [OF leaves]], assumption)
      apply simp
      done
    done
qed

lemma paths_ok_subset: "paths_ok libs aux ids \<Longrightarrow> set is \<subseteq> set ids \<Longrightarrow> paths_ok libs aux is"
  unfolding paths_ok_def by (meson subsetD)

end

section \<open>The router over domains\<close>

definition guarded :: "user_component list \<Rightarrow> bool" where
  "guarded cs \<longleftrightarrow> (\<exists>s k. RequestHandler s k \<in> set cs \<and> rk_domain_guard k \<noteq> None)"

definition unguarded :: "user_component list \<Rightarrow> bool" where
  "unguarded cs \<longleftrightarrow> (\<exists>s k. RequestHandler s k \<in> set cs \<and> rk_domain_guard k = None)"

lemma domain_based_loop_iff:
  "\<not> (based \<and> agnostic) \<Longrightarrow> domain_based_loop based agnostic cs =
     (if (based \<or> guarded cs) \<and> (agnostic \<or> unguarded cs) then None else Some (based \<or> guarded cs))"
proof (induction cs arbitrary: based agnostic)
  case Nil
  then show ?case by (simp add: guarded_def unguarded_def)
next
  case (Cons c cs)
  show ?case
  proof (cases "\<exists>s k. c = RequestHandler s k")
    case False
    then have "guarded (c # cs) = guarded cs" "unguarded (c # cs) = unguarded cs"
      by (auto simp: guarded_def unguarded_def)
    moreover have "domain_based_loop based agnostic (c # cs) = domain_based_loop based agnostic cs"
      using False by (cases c) simp_all
    ultimately show ?thesis using Cons by simp
  next
    case True
    then obtain s k where c: "c = RequestHandler s k" by blast
    have "guarded (c # cs) \<longleftrightarrow> rk_domain_guard k \<noteq> None \<or> guarded cs"
        "unguarded (c # cs) \<longleftrightarrow> rk_domain_guard k = None \<or> unguarded cs"
      by (auto simp: guarded_def unguarded_def c)
    then show ?thesis using Cons by (simp add: c Let_def) blast
  qed
qed

lemma is_domain_based_iff:
  "is_domain_based libs aux =
     (let cs = map snd (aux_iter libs aux) in if guarded cs \<and> unguarded cs then None else Some (guarded cs))"
  by (simp add: is_domain_based_def domain_based_loop_iff Let_def)

lemma find_handler_found: "(i, RequestHandler s k) \<in> set cs \<Longrightarrow> p k \<Longrightarrow> find_handler p cs \<noteq> None"
  by (induction cs) (auto simp: find_handler_def)

lemma domains_loop_ok:
  assumes ids: "\<forall>(g, is) \<in> set m. is \<noteq> [] \<and> set is \<subseteq> I" "bt_ok m" "\<forall>(i, c) \<in> set cs. (\<exists>s k. c = RequestHandler s k) \<or> (\<exists>s. c = Fallback s) \<longrightarrow> i \<in> I"
    and handlers: "\<not> unguarded (map snd cs)"
    and fallbacks: "\<forall>(i, c) \<in> set cs. (\<exists>s. c = Fallback s) \<longrightarrow> fallback_id2domain_guard aux i \<noteq> None"
  shows "\<exists>m' root'. domains_loop aux cs m root = Inr (m', root')
    \<and> (\<forall>(g, is) \<in> set m'. is \<noteq> [] \<and> set is \<subseteq> I)
    \<and> (root \<noteq> None \<or> (\<exists>i s. (i, Fallback s) \<in> set cs \<and> fallback_id2domain_guard aux i = Some None) \<longrightarrow> root' \<noteq> None)"
  using assms
proof (induction cs arbitrary: m root)
  case Nil
  then show ?case by simp
next
  case (Cons x cs)
  obtain i c where x: "x = (i, c)" by (cases x)
  have un: "\<not> unguarded (map snd cs)" using Cons.prems(4) by (auto simp: unguarded_def)
  have IH: "\<exists>m' root'. domains_loop aux cs m root = Inr (m', root') \<and> (\<forall>(g, is) \<in> set m'. is \<noteq> [] \<and> set is \<subseteq> I)
      \<and> (root \<noteq> None \<or> (\<exists>i s. (i, Fallback s) \<in> set cs \<and> fallback_id2domain_guard aux i = Some None) \<longrightarrow> root' \<noteq> None)"
    if "\<forall>(g, is) \<in> set m. is \<noteq> [] \<and> set is \<subseteq> I" "bt_ok m" for m root
    using Cons.IH [OF that _ un, of root] Cons.prems(3,5) by simp
  let ?m = "\<lambda>g. bt_entry g [] (\<lambda>is'. is' @ [i]) m"
  have entry: "\<forall>(h, is) \<in> set (?m g). is \<noteq> [] \<and> set is \<subseteq> I" if "i \<in> I" for g
  proof -
    have "(case map_of m g of None \<Rightarrow> [] | Some v \<Rightarrow> v) = [] \<or>
        (g, case map_of m g of None \<Rightarrow> [] | Some v \<Rightarrow> v) \<in> set m"
      by (cases "map_of m g") (simp_all add: map_of_SomeD)
    then show ?thesis using Cons.prems(1,2) that by (fastforce simp: bt_entry_def bt_insert_set)
  qed
  have bt: "bt_ok (?m g)" for g using Cons.prems(2) by simp
  show ?case
  proof (cases "(\<exists>s k. c = RequestHandler s k) \<or> (\<exists>s. c = Fallback s)")
    case False
    then have "domains_loop aux (x # cs) m root = domains_loop aux cs m root" by (cases c) (simp_all add: x)
    moreover have "(\<exists>i s. (i, Fallback s) \<in> set (x # cs) \<and> fallback_id2domain_guard aux i = Some None) \<longleftrightarrow>
        (\<exists>i s. (i, Fallback s) \<in> set cs \<and> fallback_id2domain_guard aux i = Some None)"
      using False by (auto simp: x)
    ultimately show ?thesis using IH [OF Cons.prems(1,2), of root] by (simp only:)
  next
    case True
    then have i: "i \<in> I" using Cons.prems(3) by (auto simp: x)
    from True show ?thesis
    proof
      assume "\<exists>s k. c = RequestHandler s k"
      then obtain s k where c: "c = RequestHandler s k" by blast
      then obtain g where "rk_domain_guard k = Some g" using Cons.prems(4) by (auto simp: x unguarded_def)
      then show ?thesis using IH [OF entry [OF i] bt, of g root] by (simp add: x c)
    next
      assume "\<exists>s. c = Fallback s"
      then obtain s where c: "c = Fallback s" by blast
      then obtain o' where o': "fallback_id2domain_guard aux i = Some o'" using Cons.prems(5) by (auto simp: x)
      show ?thesis
      proof (cases o')
        case None
        then show ?thesis using IH [OF Cons.prems(1,2), of "Some i"] o' by (auto simp: x c)
      next
        case (Some g)
        have "(\<exists>j s. (j, Fallback s) \<in> set (x # cs) \<and> fallback_id2domain_guard aux j = Some None) \<longleftrightarrow>
            (\<exists>j s. (j, Fallback s) \<in> set cs \<and> fallback_id2domain_guard aux j = Some None)"
          using o' Some by (auto simp: x)
        moreover have "domains_loop aux (x # cs) m root = domains_loop aux cs (?m g) root"
          using o' Some by (simp add: x c)
        ultimately show ?thesis using IH [OF entry [OF i] bt, of g root] by (simp only:)
      qed
    qed
  qed
qed

context path_matching
begin

lemma domain_conflict_loop_ok:
  "\<forall>g \<in> set gs. valid (matchit_pattern g) \<Longrightarrow>
   \<forall>q \<in> fst ` set (routes m). pattern2guard q \<noteq> None \<Longrightarrow>
   \<not> panicked (snd (domain_conflict_loop mt gs m pattern2guard ds))"
proof (induction gs arbitrary: m pattern2guard ds)
  case (Cons g gs)
  let ?p = "matchit_pattern g"
  obtain e m2 where ins: "mt_insert mt ?p 0 m = (e, m2)" by fastforce
  show ?case
  proof (cases e)
    case None
    then have "routes m2 = routes m @ [(?p, 0)]" using insert_accepted ins by blast
    then have "\<forall>q \<in> fst ` set (routes m2). (pattern2guard(?p \<mapsto> g)) q \<noteq> None" using Cons.prems(2) by auto
    then show ?thesis using Cons.IH Cons.prems(1) ins None by simp
  next
    case (Some e')
    have "valid ?p" using Cons.prems(1) by simp
    then obtain q where q: "e' = Conflict q" "q \<in> fst ` set (routes m)" "routes m2 = routes m"
      using insert_rejected [of ?p 0 m e' m2] ins Some by auto
    then have "pattern2guard q \<noteq> None" using Cons.prems(2) by blast
    then obtain h where h: "(pattern2guard(?p \<mapsto> g)) q = Some h" by (cases "q = ?p") auto
    have "\<forall>q \<in> fst ` set (routes m2). (pattern2guard(?p \<mapsto> g)) q \<noteq> None" using Cons.prems(2) q(3) by simp
    then have "\<not> panicked (snd (domain_conflict_loop mt gs m2 (pattern2guard(?p \<mapsto> g)) ds'))" for ds'
      using Cons.prems(1) by (intro Cons.IH) simp_all
    moreover have "domain_conflict_loop mt (g # gs) m pattern2guard ds =
        domain_conflict_loop mt gs m2 (pattern2guard(?p \<mapsto> g)) (ds @ [DomainConflict g h])"
      using ins Some q(1) h by (simp add: Let_def del: fun_upd_apply)
    ultimately show ?thesis by simp
  qed
qed simp

lemma path_routers_safe:
  "\<forall>(g, ids) \<in> set ds. safe (path_router_new mt libs aux sg tree ids) \<Longrightarrow> safe (path_routers mt libs aux sg tree ds rs)"
proof (induction ds arbitrary: rs)
  case (Cons d ds)
  then show ?case by (cases d) (auto intro!: safe_bind)
qed simp

text \<open>The router of a processed blueprint\<close>

lemma router_new_safe:
  assumes dg: "digraph (lib_graph libs)" "scope_built (lib_graph libs) b" "1 < sb_next_node_id b"
    and sg: "sg = scope_build (lib_graph libs) b" and ready: "router_ready libs aux sg (sb_next_node_id b)"
    and ok: "paths_ok libs aux (endpoint_ids libs aux)"
    and domains: "\<forall>g \<in> fst ` set (domain_guard2locations aux). valid (matchit_pattern g)"
  shows "safe (router_new mt libs aux sg)"
proof (cases "is_domain_based libs aux")
  case None
  then have both: "guarded (map snd (aux_iter libs aux))" "unguarded (map snd (aux_iter libs aux))"
    by (auto simp: is_domain_based_iff Let_def split: if_splits)
  obtain i s k where i: "(i, RequestHandler s k) \<in> set (aux_iter libs aux)" "rk_domain_guard k \<noteq> None"
    using both(1) unfolding guarded_def by force
  obtain j t l where j: "(j, RequestHandler t l) \<in> set (aux_iter libs aux)" "rk_domain_guard l = None"
    using both(2) unfolding unguarded_def by force
  have "find_handler (\<lambda>k. rk_domain_guard k \<noteq> None) (aux_iter libs aux) \<noteq> None"
    by (rule find_handler_found) (rule i)+
  moreover have "find_handler (\<lambda>k. rk_domain_guard k = None) (aux_iter libs aux) \<noteq> None"
    by (rule find_handler_found) (rule j)+
  ultimately show ?thesis
    using None by (auto simp: router_new_def either_all_domain_based_or_all_agnostic_def safe_def)
next
  case (Some based)
  obtain m where m: "fallback_scopes libs aux sg (aux_iter libs aux) [] = Inr m"
      "\<forall>p i. map_of m p = Some i \<longleftrightarrow> (p, i) \<in> fallback_pairs libs aux sg (aux_iter libs aux)"
    using fallback_scopes_ok [OF ready] by blast
  obtain tree where tree: "tree_new (lib_graph libs) m sg = Some (Inr tree)"
      "tree_ready libs aux sg (sb_next_node_id b) tree"
    using tree_new_ready [OF dg(1,2) sg ready m(2)] by blast
  have start: "router_new mt libs aux sg =
      (if based then routing_bind (domain_router_new mt libs aux sg tree) (\<lambda>r. silently (Inr (DomainBased r)))
       else routing_bind (path_router_new mt libs aux sg tree (endpoint_ids libs aux))
              (\<lambda>r. silently (Inr (DomainAgnostic r))))"
    by (simp add: router_new_def Some m(1) tree(1) silently_def loop_value_def routing_bind_def split: option.split)
  have known: "component_at libs aux i \<noteq> None" if "i \<in> set (endpoint_ids libs aux)" for i
    using that router_readyD(1) [OF ready] by (force simp: endpoint_ids_def)
  have path: "safe (path_router_new mt libs aux sg tree ids)"
    if "ids \<noteq> []" "set ids \<subseteq> set (endpoint_ids libs aux)" for ids
    using that known by (intro path_router_new_safe [OF dg sg ready tree(2)] paths_ok_subset [OF ok]) auto
  obtain i k where fb: "(i, Fallback k) \<in> set (aux_iter libs aux)" "fallback_id2domain_guard aux i = Some None"
    using router_readyD(8) [OF ready] by blast
  then have "i \<in> set (endpoint_ids libs aux)" by (force simp: endpoint_ids_def)
  then have agnostic: "safe (path_router_new mt libs aux sg tree (endpoint_ids libs aux))" by (intro path) auto
  have "safe (domain_router_new mt libs aux sg tree)" if "based"
  proof -
    have un: "\<not> unguarded (map snd (aux_iter libs aux))"
      using Some that by (auto simp: is_domain_based_iff Let_def split: if_splits)
    have "\<exists>d root. domains_loop aux (aux_iter libs aux) [] None = Inr (d, root)
        \<and> (\<forall>(g, is) \<in> set d. is \<noteq> [] \<and> set is \<subseteq> set (endpoint_ids libs aux))
        \<and> ((None :: nat option) \<noteq> None \<or> (\<exists>i s. (i, Fallback s) \<in> set (aux_iter libs aux) \<and> fallback_id2domain_guard aux i = Some None)
             \<longrightarrow> root \<noteq> None)"
    proof (rule domains_loop_ok)
      show "\<forall>(i, c) \<in> set (aux_iter libs aux). (\<exists>s k. c = RequestHandler s k) \<or> (\<exists>s. c = Fallback s) \<longrightarrow>
          i \<in> set (endpoint_ids libs aux)" by (force simp: endpoint_ids_def)
      show "\<forall>(i, c) \<in> set (aux_iter libs aux). (\<exists>s. c = Fallback s) \<longrightarrow> fallback_id2domain_guard aux i \<noteq> None"
        using router_readyD(5) [OF ready] by blast
    qed (use un in simp_all)
    then obtain d root where d: "domains_loop aux (aux_iter libs aux) [] None = Inr (d, Some root)"
        "\<forall>(g, is) \<in> set d. is \<noteq> [] \<and> set is \<subseteq> set (endpoint_ids libs aux)" using fb by fastforce
    have "safe (path_routers mt libs aux sg tree d [])"
      by (rule path_routers_safe) (use d(2) path in fastforce)
    moreover have "safe (detect_domain_conflicts mt aux)"
    proof -
      have "\<not> panicked (snd (domain_conflict_loop mt (map fst (domain_guard2locations aux)) (mt_new mt) Map.empty []))"
        by (rule domain_conflict_loop_ok) (use domains in \<open>simp_all add: routes_new\<close>)
      then show ?thesis unfolding detect_domain_conflicts_def safe_def by (metis prod.collapse)
    qed
    ultimately show ?thesis
      unfolding domain_router_new_def d silently_def [of "Inr (d, Some root)"]
      by (intro bind_safe [OF refl]) (auto intro!: safe_bind)
  qed
  then show ?thesis using agnostic by (auto simp: start intro!: safe_bind)
qed

end

end
