(* ===== verification/Router_Properties.thy ===== *)
theory Router_Properties
  imports Router_Totality
begin

text \<open>
  The theorems on routers: which conflicts are reported, that building the router of an application
  ends without a panic, and which handler a request reaches. A request that no handler accepts
  goes to the fallback of the innermost blueprint around the route.
\<close>

section \<open>Innermost fallbacks\<close>

definition fallback_of_scope :: "('a, 'b, 'g) registry_libs \<Rightarrow> ('a, 'b) auxiliary_data
    \<Rightarrow> ('g, location) scope_graph \<Rightarrow> nat \<Rightarrow> scope_id \<Rightarrow> bool" where
  "fallback_of_scope libs aux sg f p \<longleftrightarrow> is_fallback libs aux f \<and> has_parent libs aux sg f p"

text \<open>The fallback that is registered in a scope around the given one, with no other in between.\<close>

definition innermost_fallback :: "('a, 'b, 'g) registry_libs \<Rightarrow> ('a, 'b) auxiliary_data
    \<Rightarrow> ('g, location) scope_graph \<Rightarrow> scope_id \<Rightarrow> nat \<Rightarrow> bool" where
  "innermost_fallback libs aux sg s f \<longleftrightarrow>
     (\<exists>p. fallback_of_scope libs aux sg f p \<and> is_descendant_of (lib_graph libs) s p sg
        \<and> (\<forall>g q. fallback_of_scope libs aux sg g q \<longrightarrow> is_descendant_of (lib_graph libs) s q sg \<longrightarrow>
             is_descendant_of (lib_graph libs) p q sg))"

lemma is_fallback_iter:
  assumes "router_ready libs aux sg n"
  shows "is_fallback libs aux i \<longleftrightarrow> (\<exists>k. (i, Fallback k) \<in> set (aux_iter libs aux))"
  using router_readyD(1) [OF assms] by (auto simp: is_fallback_def split: option.splits user_component.splits)

lemma fallback_pairs_iff:
  assumes "router_ready libs aux sg n"
  shows "(p, i) \<in> fallback_pairs libs aux sg (aux_iter libs aux) \<longleftrightarrow> fallback_of_scope libs aux sg i p"
  by (auto simp: fallback_pairs_def fallback_of_scope_def is_fallback_iter [OF assms])

lemma tree_innermost:
  assumes dg: "digraph (lib_graph libs)" "scope_built (lib_graph libs) b" and sg: "sg = scope_build (lib_graph libs) b"
    and ready: "router_ready libs aux sg (sb_next_node_id b)"
    and m: "fallback_scopes libs aux sg (aux_iter libs aux) [] = Inr m"
    and tree: "tree_new (lib_graph libs) m sg = Some (Inr tree)"
    and s: "scope_index s < sb_next_node_id b" and f: "find_fallback_id (lib_graph libs) tree sg s = Some f"
  shows "innermost_fallback libs aux sg s f"
proof -
  obtain m' where m': "fallback_scopes libs aux sg (aux_iter libs aux) [] = Inr m'"
      "\<forall>p i. map_of m' p = Some i \<longleftrightarrow> (p, i) \<in> fallback_pairs libs aux sg (aux_iter libs aux)"
    using fallback_scopes_ok [OF ready] by blast
  have key: "map_of m p = Some i \<longleftrightarrow> fallback_of_scope libs aux sg i p" for p i
    using m m' fallback_pairs_iff [OF ready] by simp
  have small: "\<forall>x. map_of m (ScopeId x) \<noteq> None \<longrightarrow> x < sb_next_node_id b"
  proof (intro allI impI)
    fix x assume "map_of m (ScopeId x) \<noteq> None"
    then obtain i k where i: "has_parent libs aux sg i (ScopeId x)" "(i, Fallback k) \<in> set (aux_iter libs aux)"
      using key is_fallback_iter [OF ready] by (auto simp: fallback_of_scope_def)
    then obtain p where "has_parent libs aux sg i p" "scope_index p < sb_next_node_id b"
      using router_readyD(3) [OF ready] by blast
    moreover from this(1) i(1) have "p = ScopeId x" by (rule has_parent_unique)
    ultimately show "x < sb_next_node_id b" by simp
  qed
  obtain i k where "(i, Fallback k) \<in> set (aux_iter libs aux)" "has_parent libs aux sg i (sg_root sg)"
    using router_readyD(7) [OF ready] by blast
  then have root: "map_of m (sg_root sg) = Some i"
    using key is_fallback_iter [OF ready] by (auto simp: fallback_of_scope_def)
  obtain p where p: "map_of m p = Some f" "is_descendant_of (lib_graph libs) s p sg"
      "\<forall>q. map_of m q \<noteq> None \<longrightarrow> is_descendant_of (lib_graph libs) s q sg \<longrightarrow> is_descendant_of (lib_graph libs) p q sg"
    using tree_fallbacks [OF dg sg small root] tree s f by (cases s) auto
  show ?thesis
    unfolding innermost_fallback_def
    by (intro exI [of _ p] conjI allI impI) (use p key in auto)
qed

section \<open>The router of an application\<close>

lemma router_new_agnostic:
  assumes new: "router_new mt libs aux sg = Some (ds, Inr (DomainAgnostic r))"
  obtains m tree where "fallback_scopes libs aux sg (aux_iter libs aux) [] = Inr m"
    and "tree_new (lib_graph libs) m sg = Some (Inr tree)"
    and "path_router_new mt libs aux sg tree (endpoint_ids libs aux) = Some (ds, Inr r)"
proof -
  have "either_all_domain_based_or_all_agnostic libs aux \<noteq> Some (ds, Inr (DomainAgnostic r))"
    by (auto simp: either_all_domain_based_or_all_agnostic_def silently_def split: option.splits)
  then obtain based where "is_domain_based libs aux = Some based" using new by (auto simp: router_new_def split: option.splits)
  then show thesis using new that by (auto simp: router_new_def routing_simps split: if_splits)
qed

lemma endpoint_ids_ready:
  assumes "router_ready libs aux sg n"
  shows "(\<forall>i \<in> set (endpoint_ids libs aux). component_at libs aux i \<noteq> None) \<and> endpoint_ids libs aux \<noteq> []"
proof -
  have "component_at libs aux i \<noteq> None" if "i \<in> set (endpoint_ids libs aux)" for i
    using that router_readyD(1) [OF assms] by (force simp: endpoint_ids_def)
  moreover obtain i k where "(i, Fallback k) \<in> set (aux_iter libs aux)"
    using router_readyD(7) [OF assms] by blast
  then have "i \<in> set (endpoint_ids libs aux)" by (force simp: endpoint_ids_def)
  ultimately show ?thesis by (metis empty_iff list.set(1))
qed

lemma path_router_root:
  assumes "path_router_new mt libs aux sg tree ids = Some (ds, Inr r)"
  obtains scopes a where "scopes_of aux ids = Inr scopes"
    and "find_common_ancestor (lib_graph libs) sg scopes = Some (Inr a)"
    and "find_fallback_id (lib_graph libs) tree sg a = Some (pr_root_fallback_id r)"
  using assms that by (auto simp: path_router_new_def routing_simps)

text \<open>
  What a request for a path that the template \<open>p\<close> matches must be answered by: a handler that
  accepts its method, otherwise the fallback of the first handler of the template; for a template
  that stands for the rest of a blueprint's prefix, the fallback of that blueprint.
\<close>

definition answered_by :: "('a, 'b, 'g) registry_libs \<Rightarrow> ('a, 'b) auxiliary_data
    \<Rightarrow> ('g, location) scope_graph \<Rightarrow> nat list \<Rightarrow> string \<Rightarrow> string \<Rightarrow> nat \<Rightarrow> bool" where
  "answered_by libs aux sg ids p m h \<longleftrightarrow>
     (if handlers_at libs aux ids p = [] then prefix_fallback libs aux h p
      else if \<exists>i \<in> set ids. \<exists>g. route_at libs aux i p g \<and> accepts g m
      then \<forall>i \<in> set ids. \<forall>g. route_at libs aux i p g \<and> accepts g m \<longrightarrow>
             handler_identifiers libs aux h = handler_identifiers libs aux i
      else \<exists>s. id2scope_id aux (hd (handlers_at libs aux ids p)) = Some s \<and> innermost_fallback libs aux sg s h)"

context path_matching
begin

lemma router_for_paths:
  assumes r: "router_for libs aux sg tree ids r" and i: "i \<in> set ids" "handler_key libs aux i = Some k"
  shows "rk_path k \<in> fst ` set (pr_path2method_router r)"
proof -
  have "handlers_at libs aux ids (rk_path k) \<noteq> []"
    using i by (auto simp: handlers_at_def filter_empty_conv route_at_def)
  moreover obtain assigned where "\<forall>p. handlers_at libs aux ids p \<noteq> [] \<longrightarrow>
      (\<exists>leaf. map_of (pr_path2method_router r) p = Some leaf \<and> leaf_of libs aux assigned ids p leaf)"
    using r unfolding router_for_def by blast
  ultimately obtain leaf where "map_of (pr_path2method_router r) (rk_path k) = Some leaf" by blast
  from map_of_SomeD [OF this] show ?thesis by force
qed

lemma leaf_answers:
  assumes r: "router_for libs aux sg tree ids r" and leaf: "map_of (pr_path2method_router r) p = Some leaf"
    and m: "m \<in> set well_known_methods"
    and tree: "\<And>i f. component_at libs aux i \<noteq> None \<Longrightarrow> scope_fallback libs aux sg tree i f \<Longrightarrow>
      \<exists>s. id2scope_id aux i = Some s \<and> innermost_fallback libs aux sg s f"
  shows "answered_by libs aux sg ids p m (leaf_handler leaf m)"
proof (cases "handlers_at libs aux ids p = []")
  case True
  then obtain i where "leaf = leaf_new i" "prefix_fallback libs aux i p"
    using r leaf unfolding router_for_def by blast
  then show ?thesis using True by (simp add: answered_by_def leaf_handler_def leaf_new_def)
next
  case False
  obtain assigned where asg: "\<forall>(i, f) \<in> set assigned. scope_fallback libs aux sg tree i f"
      "leaf_of libs aux assigned ids p leaf"
    using r leaf False unfolding router_for_def by (metis option.inject)
  have agree: "agreeing libs aux ids" using r unfolding router_for_def by blast
  show ?thesis
  proof (cases "\<exists>i \<in> set ids. \<exists>g. route_at libs aux i p g \<and> accepts g m")
    case True
    then show ?thesis
      using leaf_handler_accepted [OF asg(2) agree _ _ _ m] False by (auto simp: answered_by_def)
  next
    case none: False
    have "scope_fallback libs aux sg tree (hd (handlers_at libs aux ids p)) (leaf_handler leaf m)"
      by (rule leaf_handler_rejected [OF asg(2) _ asg(1)]) (use none in blast)
    moreover have "hd (handlers_at libs aux ids p) \<in> set (handlers_at libs aux ids p)" using False by simp
    then have "component_at libs aux (hd (handlers_at libs aux ids p)) \<noteq> None"
      by (auto simp: handlers_at_def route_at_def handler_key_def split: option.splits)
    ultimately show ?thesis unfolding answered_by_def using tree False none by (simp only: if_False)
  qed
qed

text \<open>
  A path router that was built serves every request, with a handler that may answer it, or, if
  no template matches, with the fallback of the smallest scope around all of its endpoints.
\<close>

lemma path_router_serves:
  assumes dg: "digraph (lib_graph libs)" "scope_built (lib_graph libs) b" "1 < sb_next_node_id b"
    and sg: "sg = scope_build (lib_graph libs) b" and ready: "router_ready libs aux sg (sb_next_node_id b)"
    and m': "fallback_scopes libs aux sg (aux_iter libs aux) [] = Inr fs"
    and tree: "tree_new (lib_graph libs) fs sg = Some (Inr tree)"
    and new: "path_router_new mt libs aux sg tree ids = Some (ds, Inr r)"
    and pipes: "\<forall>i \<in> set (path_handler_ids r). pipelines i \<noteq> None" and m: "m \<in> set well_known_methods"
  shows "\<exists>h. serve_path mt r pipelines t m = Inr (the (pipelines h)) \<and> h \<in> set (path_handler_ids r)
    \<and> (if \<exists>p \<in> fst ` set (pr_path2method_router r). matches p t
       then \<exists>p \<in> fst ` set (pr_path2method_router r). matches p t \<and> answered_by libs aux sg ids p m h
       else h = pr_root_fallback_id r)"
proof -
  have r: "router_for libs aux sg tree ids r" using path_router_new_correct [OF new] by blast
  have inner: "\<exists>s. id2scope_id aux i = Some s \<and> innermost_fallback libs aux sg s f"
    if i: "component_at libs aux i \<noteq> None" "scope_fallback libs aux sg tree i f" for i f
  proof -
    obtain s where s: "id2scope_id aux i = Some s" "find_fallback_id (lib_graph libs) tree sg s = Some f"
      using i(2) by (auto simp: scope_fallback_def)
    have "scope_index s < sb_next_node_id b"
      using i(1) s(1) router_readyD(1,2) [OF ready] by fastforce
    then show ?thesis using s tree_innermost [OF dg(1,2) sg ready m' tree] by blast
  qed
  obtain h where h: "serve_path mt r pipelines t m = Inr (the (pipelines h))" "h \<in> set (path_handler_ids r)"
      "if \<exists>p \<in> fst ` set (pr_path2method_router r). matches p t
       then \<exists>p leaf. map_of (pr_path2method_router r) p = Some leaf \<and> matches p t \<and> h = leaf_handler leaf m
       else h = pr_root_fallback_id r"
    using serve_path_correct [OF r pipes] by blast
  show ?thesis
  proof (cases "\<exists>p \<in> fst ` set (pr_path2method_router r). matches p t")
    case True
    then obtain p leaf where p: "map_of (pr_path2method_router r) p = Some leaf" "matches p t" "h = leaf_handler leaf m"
      using h(3) by (simp only: if_True) blast
    have "p \<in> fst ` set (pr_path2method_router r)" using map_of_SomeD [OF p(1)] by force
    then show ?thesis using h(1,2) p(2,3) leaf_answers [OF r p(1) m inner] True by auto
  next
    case False
    then show ?thesis using h by auto
  qed
qed

lemma root_fallback_innermost:
  assumes dg: "digraph (lib_graph libs)" "scope_built (lib_graph libs) b" "1 < sb_next_node_id b"
    and sg: "sg = scope_build (lib_graph libs) b" and ready: "router_ready libs aux sg (sb_next_node_id b)"
    and m': "fallback_scopes libs aux sg (aux_iter libs aux) [] = Inr fs"
    and tree: "tree_new (lib_graph libs) fs sg = Some (Inr tree)"
    and new: "path_router_new mt libs aux sg tree ids = Some (ds, Inr r)"
    and ids: "\<forall>i \<in> set ids. component_at libs aux i \<noteq> None" "ids \<noteq> []"
  shows "\<exists>a. (\<forall>i \<in> set ids. \<exists>s. id2scope_id aux i = Some s \<and> is_descendant_of (lib_graph libs) s a sg)
    \<and> (\<forall>c. (\<forall>i \<in> set ids. \<forall>s. id2scope_id aux i = Some s \<longrightarrow> is_descendant_of (lib_graph libs) s c sg)
         \<longrightarrow> is_descendant_of (lib_graph libs) a c sg)
    \<and> innermost_fallback libs aux sg a (pr_root_fallback_id r)"
proof -
  let ?n = "sb_next_node_id b" and ?scopes = "map (\<lambda>i. the (id2scope_id aux i)) ids"
  from path_router_root [OF new] obtain scopes a where a: "scopes_of aux ids = Inr scopes"
      "find_common_ancestor (lib_graph libs) sg scopes = Some (Inr a)"
      "find_fallback_id (lib_graph libs) tree sg a = Some (pr_root_fallback_id r)" by metis
  have scope: "\<exists>s. id2scope_id aux i = Some s \<and> scope_index s < ?n" if "i \<in> set ids" for i
    using ids(1) that router_readyD(1,2) [OF ready] by fastforce
  have scopes: "scopes = ?scopes" using a(1) by (auto simp: scopes_of_def index_panic_def split: if_splits)
  have small: "scope_index s < ?n" if "s \<in> set ?scopes" for s using that scope by force
  have first: "hd ?scopes \<in> set ?scopes" using ids(2) by (intro list.set_sel) simp
  note f = scope_graph_facts [OF dg(1,2)]
  have not_state: "hd ?scopes \<noteq> sg_application_state sg"
  proof
    assume "hd ?scopes = sg_application_state sg"
    then have "scope_index (hd ?scopes) = ?n" by (simp add: sg f(4))
    then show False using small [OF first] by simp
  qed
  have "\<forall>s \<in> set ?scopes. scope_index s \<le> ?n" using small less_imp_le by blast
  moreover have "?scopes \<noteq> []" using ids(2) by simp
  ultimately have anc: "\<forall>s \<in> set ?scopes. is_descendant_of (lib_graph libs) s a sg"
      "\<forall>c. (\<forall>s \<in> set ?scopes. is_descendant_of (lib_graph libs) s c sg) \<longrightarrow> is_descendant_of (lib_graph libs) a c sg"
    using find_common_ancestor_correct [OF dg sg, of ?scopes] a(2) not_state by (auto simp: scopes)
  have "(scope_index a, scope_index (hd ?scopes)) \<in> (with_state (builder_edges (lib_graph libs) b) ?n)\<^sup>*"
    using bspec [OF anc(1) first] by (simp only: sg digraph.descendant_edges [OF dg(1)] f(2))
  then have "scope_index a \<le> scope_index (hd ?scopes)" by (rule with_state_le [OF f(1)])
  then have "scope_index a < ?n" using small [OF first] by simp
  then have inner: "innermost_fallback libs aux sg a (pr_root_fallback_id r)"
    using tree_innermost [OF dg(1,2) sg ready m' tree] a(3) by blast
  show ?thesis
  proof (rule exI [of _ a], intro conjI ballI allI impI inner)
    show "\<exists>s. id2scope_id aux i = Some s \<and> is_descendant_of (lib_graph libs) s a sg" if "i \<in> set ids" for i
      using scope [OF that] anc(1) that by force
    show "is_descendant_of (lib_graph libs) a c sg"
      if h: "\<forall>i \<in> set ids. \<forall>s. id2scope_id aux i = Some s \<longrightarrow> is_descendant_of (lib_graph libs) s c sg" for c
    proof -
      have "\<forall>s \<in> set ?scopes. is_descendant_of (lib_graph libs) s c sg" using h scope by force
      then show ?thesis using anc(2) by blast
    qed
  qed
qed

text \<open>The patterns of domains that were accepted can be inserted again.\<close>

lemma domain_conflict_loop_keeps: "take (length ds) (fst (domain_conflict_loop mt gs m pg ds)) = ds"
proof (induction gs arbitrary: m pg ds)
  case (Cons g gs)
  obtain e m2 where "mt_insert mt (matchit_pattern g) 0 m = (e, m2)" by fastforce
  moreover have "take (length ds) (fst (domain_conflict_loop mt gs m pg (ds @ [x]))) = ds" for m pg x
    using arg_cong [OF Cons.IH [of "ds @ [x]" m pg], of "take (length ds)"] by simp
  ultimately show ?case
    using Cons.IH by (cases e) (simp_all add: Let_def split: insert_error.split option.split)
qed simp

lemma domain_conflict_loop_none:
  "domain_conflict_loop mt gs m pg ds = ([], Inr u) \<Longrightarrow>
     (\<forall>g \<in> set gs. valid (matchit_pattern g) \<and> (\<forall>q \<in> fst ` set (routes m). \<not> conflicts (matchit_pattern g) q))
     \<and> sorted_wrt (\<lambda>g h. \<not> conflicts (matchit_pattern g) (matchit_pattern h)) gs"
proof (induction gs arbitrary: m pg ds)
  case (Cons g gs)
  let ?p = "matchit_pattern g"
  obtain e m2 where ins: "mt_insert mt ?p 0 m = (e, m2)" by fastforce
  show ?case
  proof (cases e)
    case None
    then have "domain_conflict_loop mt gs m2 (pg(?p \<mapsto> g)) ds = ([], Inr u)" using Cons.prems ins by (simp add: Let_def)
    note IH = Cons.IH [OF this]
    have acc: "valid ?p" "\<forall>q \<in> fst ` set (routes m). \<not> conflicts ?p q" "routes m2 = routes m @ [(?p, 0)]"
      using insert_accepted ins None by blast+
    have "\<not> conflicts ?p (matchit_pattern h)" if "h \<in> set gs" for h
      using IH that conflicts_sym by (auto simp: acc(3))
    then show ?thesis using IH acc by auto
  next
    case (Some e')
    have False
    proof (cases "\<exists>w. e' = Conflict w")
      case True
      then obtain w where w: "e' = Conflict w" by blast
      obtain g' where "domain_conflict_loop mt gs m2 (pg(?p \<mapsto> g)) (ds @ [DomainConflict g g']) = ([], Inr u)"
        using Cons.prems ins Some w by (auto simp: Let_def index_panic_def split: option.splits)
      then show False using domain_conflict_loop_keeps [of "ds @ [DomainConflict g g']" gs m2 "pg(?p \<mapsto> g)"] by simp
    next
      case False
      then show False using Cons.prems ins Some by (cases e') (simp_all add: Let_def)
    qed
    then show ?thesis ..
  qed
qed simp

lemma domains_apart:
  assumes "detect_domain_conflicts mt aux = Some ([], Inr u)"
    and "g \<in> fst ` set (domain_guard2locations aux)" "h \<in> fst ` set (domain_guard2locations aux)" "g \<noteq> h"
  shows "valid (matchit_pattern g) \<and> \<not> conflicts (matchit_pattern g) (matchit_pattern h)"
proof -
  let ?gs = "map fst (domain_guard2locations aux)"
  have l: "(\<forall>g \<in> set ?gs. valid (matchit_pattern g))
      \<and> sorted_wrt (\<lambda>g h. \<not> conflicts (matchit_pattern g) (matchit_pattern h)) ?gs"
    using domain_conflict_loop_none assms(1) unfolding detect_domain_conflicts_def by blast
  obtain i j where ij: "i < length ?gs" "?gs ! i = g" "j < length ?gs" "?gs ! j = h"
    using assms(2,3) unfolding list.set_map [symmetric] in_set_conv_nth by blast
  then have "i \<noteq> j" using assms(4) by auto
  then consider "i < j" | "j < i" by linarith
  then have "\<not> conflicts (matchit_pattern g) (matchit_pattern h)"
  proof cases
    case 1
    then show ?thesis using l ij sorted_wrt_nth_less by metis
  next
    case 2
    then show ?thesis using l ij sorted_wrt_nth_less conflicts_sym by metis
  qed
  then show ?thesis using l assms(2) unfolding set_map by blast
qed

end

end
