(* ===== verification/Router_Example.thy ===== *)
theory Router_Example
  imports Router_Totality
begin

text \<open>
  The routers of two small applications, computed stage by stage: one with a single route, one with
  the same route in a blueprint that is nested under a domain. The framework provides the fallback.
\<close>

section \<open>The applications\<close>

definition ex_one_route :: blueprint where
  "ex_one_route = Blueprint ex_location
     [CRoute \<lparr>route_path = ''/a'', route_method_guard = SomeMethods {|''GET''|},
        route_handler = ex_callable ''a'', route_error_handler = None\<rparr>]"

definition ex_one_domain :: blueprint where
  "ex_one_domain = Blueprint ex_location
     [CNestedBlueprint (NestedBlueprint ex_one_route None
        (Some \<lparr>domain_name = ''a'', domain_registered_at = ex_location\<rparr>) ex_location)]"

definition ex_processed :: "(user_component list, raw_identifiers list, list_graph) processing" where
  "ex_processed = process_blueprint list_registry ex_one_route (aux_new list_registry) []"

definition ex_processed_domain :: "(user_component list, raw_identifiers list, list_graph) processing" where
  "ex_processed_domain = process_blueprint list_registry ex_one_domain (aux_new list_registry) []"

abbreviation ex_aux :: "(user_component list, raw_identifiers list) auxiliary_data" where
  "ex_aux \<equiv> ps_aux ex_processed"

abbreviation ex_scopes :: "(list_graph, location) scope_graph" where
  "ex_scopes \<equiv> processed_scope_graph list_registry ex_processed"

abbreviation ex_domain_aux :: "(user_component list, raw_identifiers list) auxiliary_data" where
  "ex_domain_aux \<equiv> ps_aux ex_processed_domain"

abbreviation ex_domain_scopes :: "(list_graph, location) scope_graph" where
  "ex_domain_scopes \<equiv> processed_scope_graph list_registry ex_processed_domain"

text \<open>What the construction of a router reads off a processed blueprint\<close>

definition ex_summary where
  "ex_summary ps =
     ((component_interner (ps_aux ps), map (id2scope_id (ps_aux ps)) [0, 1],
       map (fallback_id2path_prefix (ps_aux ps)) [0, 1], map (fallback_id2domain_guard (ps_aux ps)) [0, 1],
       map fst (domain_guard2locations (ps_aux ps))),
      (\<lambda>sg. (sg_graph sg, sg_root sg, sg_application_state sg)) (processed_scope_graph list_registry ps))"

lemma ex_processed_summary:
  "ex_summary ex_processed =
     (([RequestHandler 0 \<lparr>rk_path = ''/a'', rk_method_guard = SomeMethods {|''GET''|}, rk_domain_guard = None\<rparr>,
        Fallback 1],
       [Some (ScopeId 1), Some (ScopeId 2)], [None, Some None], [None, Some None], []),
      \<lparr>lg_nodes = [3, 2, 1, 0], lg_edges = [(0, 3), (0, 2), (0, 1)]\<rparr>, ScopeId 0, ScopeId 3)"
  by code_simp

lemma ex_processed_domain_summary:
  "ex_summary ex_processed_domain =
     (([Fallback 0,
        RequestHandler 1 \<lparr>rk_path = ''/a'', rk_method_guard = SomeMethods {|''GET''|},
          rk_domain_guard = Some (DomainGuard ''a'')\<rparr>],
       [Some (ScopeId 1), Some (ScopeId 3)], [Some None, None], [Some None, None], [DomainGuard ''a'']),
      \<lparr>lg_nodes = [4, 3, 2, 1, 0], lg_edges = [(2, 4), (0, 4), (2, 3), (0, 2), (0, 1)]\<rparr>, ScopeId 0, ScopeId 4)"
  by code_simp

lemmas ex_facts = ex_processed_summary [unfolded ex_summary_def, simplified]
lemmas ex_domain_facts = ex_processed_domain_summary [unfolded ex_summary_def, simplified]

lemma ex_iter [simp]: "lib_iter list_registry a = zip [0..<length a] a"
  by (simp add: list_registry_def)

lemma ex_at [simp]: "component_at list_registry aux i =
    (if i < length (component_interner aux) then Some (component_interner aux ! i) else None)"
  by (simp add: component_at_def list_registry_def list_arena_def)

lemma ex_graph [simp]: "lib_graph list_registry = list_graph_lib"
  by (simp add: list_registry_def)

declare tree_loop.simps [code] find_loop.simps [code] ancestor_loop.simps [code]

section \<open>Scopes\<close>

definition ex_sg :: "(nat \<rightharpoonup> location) \<Rightarrow> (list_graph, location) scope_graph" where
  "ex_sg l = \<lparr>sg_root = ScopeId 0, sg_application_state = ScopeId 3,
     sg_graph = \<lparr>lg_nodes = [3, 2, 1, 0], lg_edges = [(0, 3), (0, 2), (0, 1)]\<rparr>, sg_id2locations = l\<rparr>"

definition ex_domain_sg :: "(nat \<rightharpoonup> location) \<Rightarrow> (list_graph, location) scope_graph" where
  "ex_domain_sg l = \<lparr>sg_root = ScopeId 0, sg_application_state = ScopeId 4,
     sg_graph = \<lparr>lg_nodes = [4, 3, 2, 1, 0], lg_edges = [(2, 4), (0, 4), (2, 3), (0, 2), (0, 1)]\<rparr>,
     sg_id2locations = l\<rparr>"

lemma ex_scopes_shape: "\<exists>l. ex_scopes = ex_sg l"
  using ex_facts by (intro exI [of _ "sg_id2locations ex_scopes"]) (simp add: ex_sg_def)

lemma ex_domain_scopes_shape: "\<exists>l. ex_domain_scopes = ex_domain_sg l"
  using ex_domain_facts by (intro exI [of _ "sg_id2locations ex_domain_scopes"]) (simp add: ex_domain_sg_def)

definition ex_tree :: "nat \<Rightarrow> fallback_node list" where
  "ex_tree f = [\<lparr>fn_scope_id = ScopeId 0, fn_fallback_id = f, fn_children_ids = []\<rparr>]"

lemma ex_parents:
  "direct_parent_ids list_graph_lib (ScopeId 2) (ex_sg l) = {ScopeId 0}"
  "direct_parent_ids list_graph_lib (ScopeId 1) (ex_domain_sg l) = {ScopeId 0}"
  by code_simp+

lemma ex_trees:
  "tree_new list_graph_lib [(ScopeId 0, f)] (ex_sg l) = Some (Inr (ex_tree f))"
  "tree_new list_graph_lib [(ScopeId 0, f)] (ex_domain_sg l) = Some (Inr (ex_tree f))"
  by code_simp+

lemma ex_ancestors:
  "find_common_ancestor list_graph_lib (ex_sg l) [ScopeId 1, ScopeId 2] = Some (Inr (ScopeId 0))"
  "find_common_ancestor list_graph_lib (ex_domain_sg l) [ScopeId 3] = Some (Inr (ScopeId 3))"
  by code_simp+

lemma ex_find:
  "find_fallback_id list_graph_lib (ex_tree f) (ex_sg l) (ScopeId 0) = Some f"
  "find_fallback_id list_graph_lib (ex_tree f) (ex_sg l) (ScopeId 1) = Some f"
  "find_fallback_id list_graph_lib (ex_tree f) (ex_domain_sg l) (ScopeId 3) = Some f"
  by code_simp+

lemma ex_scopes_facts:
  "direct_parent_ids list_graph_lib (ScopeId 2) ex_scopes = {ScopeId 0}"
  "tree_new list_graph_lib [(ScopeId 0, f)] ex_scopes = Some (Inr (ex_tree f))"
  "find_common_ancestor list_graph_lib ex_scopes [ScopeId 1, ScopeId 2] = Some (Inr (ScopeId 0))"
  "find_fallback_id list_graph_lib (ex_tree f) ex_scopes (ScopeId 0) = Some f"
  "find_fallback_id list_graph_lib (ex_tree f) ex_scopes (ScopeId 1) = Some f"
  using ex_scopes_shape ex_parents ex_trees ex_ancestors ex_find by auto

lemma ex_domain_scopes_facts:
  "direct_parent_ids list_graph_lib (ScopeId 1) ex_domain_scopes = {ScopeId 0}"
  "tree_new list_graph_lib [(ScopeId 0, f)] ex_domain_scopes = Some (Inr (ex_tree f))"
  "find_common_ancestor list_graph_lib ex_domain_scopes [ScopeId 3] = Some (Inr (ScopeId 3))"
  "find_fallback_id list_graph_lib (ex_tree f) ex_domain_scopes (ScopeId 3) = Some f"
  using ex_domain_scopes_shape ex_parents ex_trees ex_ancestors ex_find by auto

lemmas ex_scope_simps = ex_scopes_facts [unfolded One_nat_def] ex_domain_scopes_facts [unfolded One_nat_def]

section \<open>The path matcher\<close>

lemma ex_match:
  "mt_new list_matchit = []" "mt_insert list_matchit ''/a'' v [] = (None, [(''/a'', v)])"
  "mt_at list_matchit [] s = None"
  by (simp add: list_matchit_def, code_simp, simp add: list_matchit_def)

lemma ex_domain_match:
  "matchit_pattern (DomainGuard ''a'') = ''a''" "mt_insert list_matchit ''a'' v [] = (None, [(''a'', v)])"
  by code_simp+

section \<open>The routers\<close>

definition ex_leaves :: "nat \<Rightarrow> nat \<Rightarrow> (string \<times> leaf_router) list" where
  "ex_leaves i f = [(''/a'', \<lparr>lr_handler_id2methods = [(i, {|''GET''|})], lr_fallback_id = f\<rparr>)]"

definition ex_router :: path_router where
  "ex_router = \<lparr>pr_path2method_router = ex_leaves 0 1, pr_root_fallback_id = 1\<rparr>"

definition ex_domain_router :: domain_router where
  "ex_domain_router =
     \<lparr>dr_domain2path_router =
        [(DomainGuard ''a'', \<lparr>pr_path2method_router = ex_leaves 1 0, pr_root_fallback_id = 0\<rparr>)],
      dr_root_fallback_id = 0\<rparr>"

lemma ex_handlers:
  "handler_key list_registry ex_aux 0 = Some \<lparr>rk_path = ''/a'', rk_method_guard = SomeMethods {|''GET''|}, rk_domain_guard = None\<rparr>"
  "handler_key list_registry ex_aux (Suc 0) = None"
  "is_fallback list_registry ex_aux 0 = False" "is_fallback list_registry ex_aux (Suc 0) = True"
  "handler_key list_registry ex_domain_aux (Suc 0) =
     Some \<lparr>rk_path = ''/a'', rk_method_guard = SomeMethods {|''GET''|}, rk_domain_guard = Some (DomainGuard ''a'')\<rparr>"
  "is_fallback list_registry ex_domain_aux (Suc 0) = False"
  by (simp_all add: handler_key_def is_fallback_def ex_facts ex_domain_facts)

lemma ex_agreeing:
  "agreeing list_registry ex_aux [0, Suc 0]" "agreeing list_registry ex_domain_aux [Suc 0]"
  by (simp_all add: agreeing_def route_at_def ex_handlers)

lemmas ex_stages = ex_match ex_handlers scopes_of_def detect_method_conflicts_ok detect_path_conflicts_def
  assign_fallbacks_def check_method_not_allowed_fallbacks_def route_id_for_def method_ambiguities_def
  choose_fallback_def checked_def add_catch_alls_def bt_entry_def routing_simps ex_leaves_def leaf_new_def

lemma ex_path_router:
  "path_router_new list_matchit list_registry ex_aux ex_scopes (ex_tree 1) [0, 1] = Some ([], Inr ex_router)"
  by (simp add: path_router_new_def ex_stages ex_facts ex_scope_simps ex_router_def ex_agreeing)

lemma ex_domain_path_router:
  "path_router_new list_matchit list_registry ex_domain_aux ex_domain_scopes (ex_tree 0) [1] =
     Some ([], Inr \<lparr>pr_path2method_router = ex_leaves 1 0, pr_root_fallback_id = 0\<rparr>)"
  by (simp add: path_router_new_def ex_stages ex_domain_facts ex_scope_simps ex_agreeing)

lemma ex_router_new:
  "router_new list_matchit list_registry ex_aux ex_scopes = Some ([], Inr (DomainAgnostic ex_router))"
  using ex_path_router
  by (simp add: router_new_def routing_simps is_domain_based_def endpoint_ids_def ascending_def bihash_insert_def
      ex_facts ex_scope_simps)

lemma ex_domain_router_new:
  "router_new list_matchit list_registry ex_domain_aux ex_domain_scopes =
     Some ([], Inr (DomainBased ex_domain_router))"
  using ex_domain_path_router
  by (simp add: router_new_def domain_router_new_def detect_domain_conflicts_def routing_simps is_domain_based_def
      ascending_def bihash_insert_def bt_entry_def
      ex_match ex_domain_match Let_def ex_domain_facts ex_scope_simps ex_domain_router_def)

end
