(* ===== verification/Router_Correctness.thy ===== *)
theory Router_Correctness
  imports Router_Properties Router_Example
begin

text \<open>The theorems on routers, with what they say about the routers of an application.\<close>

section \<open>Conflicts\<close>

lemma two_unique:
  "1 < length (unique_handlers libs aux rs m) \<longleftrightarrow>
     (\<exists>i j. {i, j} \<subseteq> set (fold (\<lambda>(guard, i) relevant. if accepts guard m then index_insert i relevant else relevant) rs [])
        \<and> handler_identifiers libs aux i \<noteq> handler_identifiers libs aux j)"
proof -
  have "1 < length (unique_by f [] xs) \<longleftrightarrow> (\<exists>i j. {i, j} \<subseteq> set xs \<and> f i \<noteq> f j)" for f :: "nat \<Rightarrow> nat option" and xs
    using unique_by_length [of f xs] by auto
  then show ?thesis by (simp only: unique_handlers_def)
qed

text \<open>C22: A conflict is reported for a path and a method exactly if the method is one of the
  well-known methods and two handlers for that path accept it that are different items. No
  conflict is reported otherwise.\<close>

theorem method_conflicts_reported:
  "(\<exists>is. MethodConflict p m is \<in> set (method_conflicts libs aux ids)) \<longleftrightarrow>
     m \<in> set well_known_methods \<and>
     (\<exists>i j g h. {i, j} \<subseteq> set ids \<and> route_at libs aux i p g \<and> route_at libs aux j p h
        \<and> accepts g m \<and> accepts h m \<and> handler_identifiers libs aux i \<noteq> handler_identifiers libs aux j)"
proof -
  let ?unique = "\<lambda>rs. unique_handlers libs aux rs m"
  have "(\<exists>is. MethodConflict p m is \<in> set (method_conflicts libs aux ids)) \<longleftrightarrow>
      m \<in> set well_known_methods \<and> (\<exists>rs. (p, rs) \<in> set (group_routes libs aux ids) \<and> 1 < length (?unique rs))"
    by (auto simp: method_conflicts_def Let_def split: if_splits)
  also have "\<dots> \<longleftrightarrow> m \<in> set well_known_methods \<and> 1 < length (?unique (guards_at libs aux ids p))"
  proof -
    have "\<not> 1 < length (?unique [])" by (simp add: unique_handlers_def)
    then show ?thesis unfolding group_routes_set by metis
  qed
  also have "1 < length (?unique (guards_at libs aux ids p)) \<longleftrightarrow>
      (\<exists>i j g h. {i, j} \<subseteq> set ids \<and> route_at libs aux i p g \<and> route_at libs aux j p h
        \<and> accepts g m \<and> accepts h m \<and> handler_identifiers libs aux i \<noteq> handler_identifiers libs aux j)"
    unfolding two_unique relevant_set list.set guards_at_set by (rule iffI) (clarsimp, blast)+
  finally show ?thesis .
qed

section \<open>Requests\<close>



section \<open>Building the router\<close>

text \<open>C13: Building the router of an application ends, with a router or with diagnostics, and
  without a panic, if the path of every route matches itself, and the paths made up for the
  fallbacks and the patterns of the domains are well-formed.\<close>

theorem router_construction_total:
  assumes "registry libs" and pm: "path_matching mt routes valid conflicts matches"
    and ps: "ps = process_blueprint libs bp (aux_new libs) ds'" "aux = ps_aux ps" "sg = processed_scope_graph libs ps"
    and "\<forall>i \<in> set (endpoint_ids libs aux). \<forall>k. handler_key libs aux i = Some k \<longrightarrow> matches (rk_path k) (rk_path k)"
    and "\<forall>i \<in> set (endpoint_ids libs aux). \<forall>path. prefix_fallback libs aux i path \<longrightarrow> valid path"
    and "\<forall>g \<in> fst ` set (domain_guard2locations aux). valid (matchit_pattern g)"
  shows "\<exists>ds r. router_new mt libs aux sg = Some (ds, r) \<and> \<not> panicked r"
proof -
  let ?b = "ps_builder ps"
  have ready: "router_ready libs aux sg (sb_next_node_id ?b)" "scope_built (lib_graph libs) ?b"
      "1 < sb_next_node_id ?b"
    using blueprint_router_ready [OF assms(1) ps(1) ps(3)] by (simp_all add: ps(2))
  have sg: "sg = scope_build (lib_graph libs) ?b" by (simp add: ps(3) processed_scope_graph_def)
  have "path_matching.paths_ok valid matches libs aux (endpoint_ids libs aux)"
    using assms(6,7) by (simp add: path_matching.paths_ok_def [OF pm])
  from path_matching.router_new_safe [OF pm registry.axioms(3) [OF assms(1)] ready(2,3) sg ready(1) this assms(8)]
  show ?thesis by (simp add: safe_def)
qed

theorem router_construction_total_witness:
  "\<exists>ds r. router_new list_matchit list_registry ex_aux ex_scopes = Some (ds, r) \<and> \<not> panicked r"
proof (rule router_construction_total [OF lr.registry_axioms lm.path_matching_axioms ex_processed_def refl refl])
  have match: "template_matches ''/a'' ''/a''" by code_simp
  have ids: "set (endpoint_ids list_registry ex_aux) = {0, Suc 0}"
    by (simp add: endpoint_ids_def ex_facts insert_commute)
  show "\<forall>i \<in> set (endpoint_ids list_registry ex_aux). \<forall>k. handler_key list_registry ex_aux i = Some k \<longrightarrow>
      template_matches (rk_path k) (rk_path k)"
    using match by (simp add: ids ex_handlers)
  show "\<forall>i \<in> set (endpoint_ids list_registry ex_aux). \<forall>path. prefix_fallback list_registry ex_aux i path \<longrightarrow>
      template_valid path"
    by (simp add: ids prefix_fallback_def ex_handlers ex_facts)
  show "\<forall>g \<in> fst ` set (domain_guard2locations ex_aux). template_valid (matchit_pattern g)"
    by (simp add: ex_facts)
qed

end
