(* ===== verification/Blueprint_Domains.thy ===== *)
theory Blueprint_Domains
  imports Blueprint_Correctness
begin

text \<open>
  The table of domains: after the pass over a blueprint its keys are the domains of the blueprints
  that were not skipped, and every domain of a route or fallback is among them.
\<close>

fun blueprint_domains :: "('a, 'b, 'g) registry_libs \<Rightarrow> blueprint \<Rightarrow> domain_guard set"
  and component_domains :: "('a, 'b, 'g) registry_libs \<Rightarrow> bp_component \<Rightarrow> domain_guard set"
  and nested_domains :: "('a, 'b, 'g) registry_libs \<Rightarrow> nested_blueprint \<Rightarrow> domain_guard set" where
  "blueprint_domains libs (Blueprint l cs) = (\<Union>c \<in> set cs. component_domains libs c)"
| "component_domains libs (CNestedBlueprint b) = nested_domains libs b"
| "component_domains libs c = {}"
| "nested_domains libs (NestedBlueprint bp prefix dm l) =
     (if \<exists>p. prefix = Some p \<and> \<not> prefix_valid (prefix_path p) then {}
      else
        (case dm of
           None \<Rightarrow> blueprint_domains libs bp
         | Some d \<Rightarrow>
             (case domain_guard_new (lib_is_ident libs) (domain_name d) of
                Inl e \<Rightarrow> {}
              | Inr g \<Rightarrow> insert g (blueprint_domains libs bp))))"

section \<open>The table\<close>

abbreviation known_domains :: "('a, 'b, 'g) processing \<Rightarrow> domain_guard set" where
  "known_domains ps \<equiv> fst ` set (domain_guard2locations (ps_aux ps))"

lemma entry_push_domains: "fst ` set (entry_push k v m) = insert k (fst ` set m)"
  by (induction k v m rule: entry_push.induct) auto

lemma blueprint_domains_nested:
  "blueprint_domains libs bp = (\<Union>b \<in> set (nested_of (bp_components bp)). nested_domains libs b)"
proof (cases bp)
  case (Blueprint l cs)
  have "component_domains libs c = (\<Union>b \<in> {b. c = CNestedBlueprint b}. nested_domains libs b)" for c
    by (cases c) simp_all
  then show ?thesis unfolding Blueprint blueprint_domains.simps blueprint.sel using nested_of_set by auto
qed

lemma error_handler_domains [simp]:
  "domain_guard2locations (process_error_handler libs eh lc sc i aux) = domain_guard2locations aux"
  by (simp add: process_error_handler_def intern_identifiers_def intern_component_def Let_def
      split: option.split prod.split)

lemma component_step_domains:
  "domain_guard2locations (ps_aux (fst (process_component libs sc g p c (ps, f)))) = domain_guard2locations (ps_aux ps)"
  by (cases c)
    (simp_all add: process_component_def process_constructor_def process_prebuilt_type_def process_config_type_def
      process_middleware_def process_pre_processing_middleware_def process_post_processing_middleware_def
      process_middleware_as_def process_error_observer_def process_route_def intern_identifiers_def intern_component_def
      new_scope_def add_chains_def validate_route_def push_diagnostic_def Let_def split_beta split: option.split)

lemma components_domains:
  "domain_guard2locations (ps_aux (fst (fold (process_component libs sc g p) cs (ps, f)))) =
     domain_guard2locations (ps_aux ps)"
proof (induction cs arbitrary: ps f)
  case (Cons c cs)
  then show ?case
    using Cons.IH [of "fst (process_component libs sc g p c (ps, f))" "snd (process_component libs sc g p c (ps, f))"]
    by (simp add: component_step_domains)
qed simp

lemma process_fallback_domains:
  "domain_guard2locations (ps_aux (process_fallback libs f p g sc ps)) = domain_guard2locations (ps_aux ps)"
  by (simp add: process_fallback_def intern_identifiers_def intern_component_def new_scope_def add_chains_def
      Let_def split: prod.split)

lemma process_one_domains:
  "domain_guard2locations (ps_aux (process_one_blueprint libs bp sc g p root ps)) = domain_guard2locations (ps_aux ps)"
  using components_domains [of libs sc g p "bp_components bp" ps None]
  by (auto simp: process_one_blueprint_def process_fallback_domains split: prod.split option.split)

lemma process_item_domains:
  fixes ps :: "('a, 'b, 'g) processing"
  shows "known_domains (process_queue_item libs q ps)
      \<union> (\<Union>b \<in> set (map qi_nested_bp (ps_queue (process_queue_item libs q ps))). nested_domains libs b) =
    known_domains ps \<union> nested_domains libs (qi_nested_bp q)
      \<union> (\<Union>b \<in> set (map qi_nested_bp (ps_queue ps)). nested_domains libs b)"
proof -
  obtain bp prefix dm l where nb: "qi_nested_bp q = NestedBlueprint bp prefix dm l" by (cases "qi_nested_bp q")
  let ?ps1 = "ps\<lparr>ps_middlewares := qi_middleware_chain q, ps_observers := qi_observer_chain q\<rparr>"
  let ?s = "fst (add_scope (lib_graph libs) (qi_parent_scope_id q) (Some l) (ps_builder ?ps1))"
  let ?ps2 = "?ps1\<lparr>ps_builder := snd (add_scope (lib_graph libs) (qi_parent_scope_id q) (Some l) (ps_builder ?ps1))\<rparr>"
  obtain r ps3 where r: "process_nesting_constraints libs (NestedBlueprint bp prefix dm l) ?ps2 = (r, ps3)" by fastforce
  have q3: "ps_queue ps3 = ps_queue ps"
    using arg_cong [OF r, of "\<lambda>x. ps_queue (snd x)"] by simp
  have aux: "ps_aux (fold push_diagnostic ds p) = ps_aux p" for ds and p :: "('a, 'b, 'g) processing"
    by (induction ds arbitrary: p) (simp_all add: push_diagnostic_def)
  have bad: "(\<exists>p. prefix = Some p \<and> \<not> prefix_valid (prefix_path p)) \<longleftrightarrow>
      (case prefix of None \<Rightarrow> [] | Some p \<Rightarrow> prefix_errors p) \<noteq> []"
    by (simp add: prefix_valid_iff split: option.split)
  have constraints: "known_domains ps3 \<union> (if r = None then {} else blueprint_domains libs bp) =
      known_domains ps \<union> nested_domains libs (NestedBlueprint bp prefix dm l)"
  proof (cases "(case prefix of None \<Rightarrow> [] | Some p \<Rightarrow> prefix_errors p) = []")
    case False
    then show ?thesis
      using r unfolding nested_domains.simps bad by (auto simp: process_nesting_constraints_def Let_def aux)
  next
    case True
    show ?thesis
    proof (cases dm)
      case None
      then show ?thesis
        using r True unfolding nested_domains.simps bad by (auto simp: process_nesting_constraints_def Let_def)
    next
      case (Some d)
      then show ?thesis
        using r True unfolding nested_domains.simps bad
        by (cases "domain_guard_new (lib_is_ident libs) (domain_name d)")
          (clarsimp simp: process_nesting_constraints_def Let_def push_diagnostic_def entry_push_domains)+
    qed
  qed
  show ?thesis
  proof (cases r)
    case None
    then have "process_queue_item libs q ps = ps3"
      using r by (simp add: process_queue_item_def new_scope_eq Let_def nb)
    then show ?thesis using constraints None q3 by (simp add: nb)
  next
    case (Some qd)
    obtain cp d where qd: "qd = (cp, d)" by (cases qd)
    let ?g = "case d of Some d \<Rightarrow> Some d | None \<Rightarrow> qi_parent_domain_guard q"
    let ?p = "nested_prefix (qi_parent_path_prefix q) cp"
    have pq: "process_queue_item libs q ps = process_one_blueprint libs bp ?s ?g ?p False ps3"
      using r by (simp add: process_queue_item_def new_scope_eq Let_def nb Some qd)
    have regroup: "A \<union> (Q \<union> B) = C \<union> Q" if "A \<union> B = C" for A B C Q :: "domain_guard set"
      using that by blast
    have "known_domains ps3 \<union> blueprint_domains libs bp = known_domains ps \<union> nested_domains libs (qi_nested_bp q)"
      using constraints Some by (simp only: nb option.distinct if_False)
    then show ?thesis
      by (simp only: pq process_one_domains process_one_queue q3 set_append UN_Un blueprint_domains_nested [symmetric]
          regroup)
  qed
qed

lemma process_queue_domains:
  "known_domains (process_queue libs ps) =
     known_domains ps \<union> (\<Union>b \<in> set (map qi_nested_bp (ps_queue ps)). nested_domains libs b)"
proof (induction libs ps rule: process_queue.induct)
  case (1 libs ps)
  show ?case
  proof (cases "ps_queue ps = []")
    case True
    then show ?thesis by (simp add: process_queue.simps [of libs ps])
  next
    case False
    let ?q = "last (ps_queue ps)" and ?ps0 = "ps\<lparr>ps_queue := butlast (ps_queue ps)\<rparr>"
    have eq: "process_queue libs ps = process_queue libs (process_queue_item libs ?q ?ps0)"
      using False by (simp add: process_queue.simps [of libs ps])
    have "set (ps_queue ps) = insert ?q (set (butlast (ps_queue ps)))"
      using False by (metis append_butlast_last_id list.set(2) rotate1.simps(2) set_rotate1)
    then show ?thesis
      using "1.IH" [OF False] process_item_domains [of libs ?q ?ps0] by (simp add: eq ac_simps)
  qed
qed

text \<open>Theorem: The domains for which locations are recorded are those of the blueprints that are nested
  with a valid domain and prefix, and inside no blueprint that is skipped.\<close>

theorem recorded_domains:
  "fst ` set (domain_guard2locations (ps_aux (process_blueprint libs bp (aux_new libs) ds))) = blueprint_domains libs bp"
  by (simp add: process_blueprint_def Let_def process_queue_domains process_one_domains process_one_queue
      blueprint_domains_nested [of libs bp] aux_new_def)

section \<open>Domains of endpoints\<close>

fun endpoint_domain :: "endpoint \<Rightarrow> domain_guard option" where
  "endpoint_domain (RouteEndpoint k h ms os) = rk_domain_guard k"
| "endpoint_domain (FallbackEndpoint p g h ms os) = g"

lemma route_endpoints_domain: "e \<in> set (route_endpoints n cs) \<Longrightarrow> endpoint_domain e = nest_domain n"
  by (induction n cs rule: route_endpoints.induct) (auto simp: after_component_def split: bp_component.splits)

lemma own_endpoints_domain: "e \<in> set (own_endpoints libs n root bp) \<Longrightarrow> endpoint_domain e = nest_domain n"
  using route_endpoints_domain [of e n]
  by (auto simp: own_endpoints_def fallback_endpoint_def split: option.splits if_splits)

lemma reference_domains:
  "e \<in> set (ref_blueprint libs n root bp) \<Longrightarrow> endpoint_domain e = Some g \<Longrightarrow>
     nest_domain n = Some g \<or> g \<in> blueprint_domains libs bp"
  "e \<in> set (ref_components libs n cs) \<Longrightarrow> endpoint_domain e = Some g \<Longrightarrow>
     nest_domain n = Some g \<or> (\<exists>c \<in> set cs. g \<in> component_domains libs c)"
  "e \<in> set (ref_nested libs n b) \<Longrightarrow> endpoint_domain e = Some g \<Longrightarrow>
     nest_domain n = Some g \<or> g \<in> nested_domains libs b"
proof (induction libs n root bp and libs n cs and libs n b rule: ref_blueprint_ref_components_ref_nested.induct)
  case (1 libs n is_root l cs)
  then show ?case using own_endpoints_domain [of e libs n is_root "Blueprint l cs"] by auto
next
  case (3 libs n c cs)
  then show ?case by (cases c) (auto simp: after_component_def)
next
  case (4 libs n bp prefix dm l)
  then show ?case
    by (auto simp: enter_def Let_def split: option.splits if_splits sum.splits)
qed simp

lemma endpoint_domains_recorded:
  assumes "registry libs" and "aux = ps_aux (process_blueprint libs bp (aux_new libs) ds)"
    and "e \<in> set (endpoints libs aux)" and "endpoint_domain e = Some g"
  shows "g \<in> fst ` set (domain_guard2locations aux)"
proof -
  have "e \<in> set (ref_blueprint libs top_level True bp)"
    using registry.process_blueprint_correct [OF assms(1), of bp ds] assms(2,3) by simp
  from reference_domains(1) [OF this assms(4)] have "g \<in> blueprint_domains libs bp" by (simp add: top_level_def)
  then show ?thesis
    by (simp add: assms(2) process_blueprint_def Let_def process_queue_domains process_one_domains process_one_queue
        blueprint_domains_nested [of libs bp] aux_new_def)
qed

end
