(* ===== verification/Router_Domains.thy ===== *)
theory Router_Domains
  imports Router_Correctness Blueprint_Domains
begin

text \<open>
  Routers over domains: which endpoints a domain holds, and which of its routers a request
  reaches.
\<close>

section \<open>The endpoints of a domain\<close>

definition domain_ids :: "('a, 'b) auxiliary_data \<Rightarrow> (nat \<times> user_component) list \<Rightarrow> domain_guard \<Rightarrow> nat list" where
  "domain_ids aux cs g =
     map fst (filter (\<lambda>(i, c). case c of
         RequestHandler s k \<Rightarrow> rk_domain_guard k = Some g
       | Fallback s \<Rightarrow> fallback_id2domain_guard aux i = Some (Some g)
       | _ \<Rightarrow> False) cs)"

text \<open>The fallbacks that are registered outside every domain.\<close>

definition domainless_fallbacks :: "('a, 'b) auxiliary_data \<Rightarrow> (nat \<times> user_component) list \<Rightarrow> nat list" where
  "domainless_fallbacks aux cs =
     map fst (filter (\<lambda>(i, c). case c of Fallback s \<Rightarrow> fallback_id2domain_guard aux i = Some None | _ \<Rightarrow> False) cs)"

lemma domains_loop_entries:
  assumes "domains_loop aux cs m root = Inr (m', root')" and "bt_ok m"
  shows "bt_ok m'
    \<and> (\<forall>g. map_of m' g = (if map_of m g = None \<and> domain_ids aux cs g = [] then None
          else Some ((case map_of m g of None \<Rightarrow> [] | Some is' \<Rightarrow> is') @ domain_ids aux cs g)))
    \<and> root' = (if domainless_fallbacks aux cs = [] then root else Some (last (domainless_fallbacks aux cs)))"
  using assms
proof (induction cs arbitrary: m root)
  case Nil
  then show ?case by (auto simp: domain_ids_def domainless_fallbacks_def split: option.split)
next
  case (Cons x cs)
  obtain i c where x: "x = (i, c)" by (cases x)
  let ?m = "\<lambda>g. bt_entry g [] (\<lambda>is'. is' @ [i]) m"
  have bt: "bt_ok (?m g)" for g using Cons.prems(2) by simp
  have lookup: "map_of (?m g) h = (if h = g then Some ((case map_of m g of None \<Rightarrow> [] | Some is' \<Rightarrow> is') @ [i]) else map_of m h)"
    for g h using Cons.prems(2) by simp
  note same = Cons.IH [OF _ Cons.prems(2)]
  note entry = Cons.IH [OF _ bt]
  have skip: ?case
    if "domains_loop aux cs m root1 = Inr (m', root')" "domain_ids aux (x # cs) = domain_ids aux cs"
      "(root1, domainless_fallbacks aux (x # cs)) = (root, domainless_fallbacks aux cs) \<or>
       (root1, domainless_fallbacks aux (x # cs)) = (Some i, i # domainless_fallbacks aux cs)" for root1
    using same [OF that(1)] that(2,3) by auto
  have push: ?case
    if "domains_loop aux cs (?m g) root = Inr (m', root')"
      "\<And>h. domain_ids aux (x # cs) h = (if h = g then i # domain_ids aux cs h else domain_ids aux cs h)"
      "domainless_fallbacks aux (x # cs) = domainless_fallbacks aux cs" for g
    using entry [OF that(1)] unfolding lookup that(2,3) by auto
  have other: ?case
    if "domains_loop aux cs m root = Inr (m', root')" "\<forall>s k. c \<noteq> RequestHandler s k" "\<forall>s. c \<noteq> Fallback s"
  proof (rule skip [OF that(1)])
    show "domain_ids aux (x # cs) = domain_ids aux cs"
      using that(2,3) by (cases c) (simp_all add: domain_ids_def x fun_eq_iff)
    show "(root, domainless_fallbacks aux (x # cs)) = (root, domainless_fallbacks aux cs) \<or>
        (root, domainless_fallbacks aux (x # cs)) = (Some i, i # domainless_fallbacks aux cs)"
      using that(3) by (cases c) (simp_all add: domainless_fallbacks_def x)
  qed
  show ?case
  proof (cases c)
    case (RequestHandler s k)
    then obtain g where g: "rk_domain_guard k = Some g" "domains_loop aux cs (?m g) root = Inr (m', root')"
      using Cons.prems(1) by (auto simp: x split: option.splits)
    show ?thesis by (rule push [OF g(2)]) (auto simp: domain_ids_def domainless_fallbacks_def x RequestHandler g(1))
  next
    case (Fallback s)
    show ?thesis
    proof (cases "fallback_id2domain_guard aux i")
      case None
      then show ?thesis using Cons.prems(1) by (simp add: x Fallback index_panic_def)
    next
      case (Some o')
      show ?thesis
      proof (cases o')
        case None
        then have "domains_loop aux cs m (Some i) = Inr (m', root')" using Cons.prems(1) Some by (simp add: x Fallback)
        then show ?thesis by (rule skip) (simp_all add: domain_ids_def domainless_fallbacks_def x Fallback Some None fun_eq_iff)
      next
        case g: (Some g)
        then have "domains_loop aux cs (?m g) root = Inr (m', root')" using Cons.prems(1) Some by (simp add: x Fallback)
        then show ?thesis by (rule push) (auto simp: domain_ids_def domainless_fallbacks_def x Fallback Some g)
      qed
    qed
  qed ((rule other; use Cons.prems(1) in \<open>simp add: x\<close>)+)
qed

corollary domains_loop_initial:
  assumes "domains_loop aux cs [] None = Inr (m', Some root)"
  shows "(g, ids) \<in> set m' \<Longrightarrow> ids = domain_ids aux cs g \<and> ids \<noteq> []"
    and "root = last (domainless_fallbacks aux cs)"
proof -
  note l = domains_loop_entries [OF assms bt_ok_Nil]
  from l have bt: "bt_ok m'" by (rule conjunct1)
  have at: "map_of m' g = (if domain_ids aux cs g = [] then None else Some (domain_ids aux cs g))"
    using spec [OF conjunct1 [OF conjunct2 [OF l]], of g] by simp
  show "ids = domain_ids aux cs g \<and> ids \<noteq> []" if "(g, ids) \<in> set m'"
    using that at by (simp add: bt_ok_lookup [OF bt, symmetric] split: if_splits)
  show "root = last (domainless_fallbacks aux cs)"
    using conjunct2 [OF conjunct2 [OF l]] by (simp split: if_splits)
qed

lemma path_routers_entries:
  assumes "path_routers mt libs aux sg tree ds rs = Some (d, Inr rs')" and "bt_ok rs"
  shows "bt_ok rs' \<and> fst ` set rs' = fst ` set rs \<union> fst ` set ds \<and>
     (\<forall>g r. map_of rs' g = Some r \<longrightarrow> map_of rs g = Some r \<or>
       (\<exists>ids d'. (g, ids) \<in> set ds \<and> path_router_new mt libs aux sg tree ids = Some (d', Inr r)))"
  using assms
proof (induction ds arbitrary: rs d)
  case Nil
  then show ?case by (auto simp: silently_Inr)
next
  case (Cons x ds)
  obtain g ids where x: "x = (g, ids)" by (cases x)
  obtain d1 r d2 where r: "path_router_new mt libs aux sg tree ids = Some (d1, Inr r)"
      "path_routers mt libs aux sg tree ds (bt_insert g r rs) = Some (d2, Inr rs')"
    using Cons.prems(1) by (auto simp: x routing_simps)
  note IH = Cons.IH [OF r(2) bt_insert_ok [OF Cons.prems(2)]]
  have keys: "fst ` set (bt_insert g r rs) = insert g (fst ` set rs)"
    using bt_insert_keys [of g r rs] by simp
  have "map_of rs h = Some q \<or> (\<exists>ids d'. (h, ids) \<in> set (x # ds) \<and> path_router_new mt libs aux sg tree ids = Some (d', Inr q))"
    if q: "map_of rs' h = Some q" for h q
  proof -
    have "map_of (bt_insert g r rs) h = Some q \<or>
        (\<exists>ids d'. (h, ids) \<in> set ds \<and> path_router_new mt libs aux sg tree ids = Some (d', Inr q))"
      using IH q by blast
    then show ?thesis
    proof
      assume "map_of (bt_insert g r rs) h = Some q"
      then have "map_of rs h = Some q \<or> h = g \<and> q = r" using Cons.prems(2) by (simp split: if_splits)
      then show ?thesis using r(1) x by auto
    qed auto
  qed
  then show ?case using IH keys by (auto simp: x)
qed

section \<open>From hosts to routers\<close>

lemma router_new_domains:
  assumes new: "router_new mt libs aux sg = Some (ds, Inr (DomainBased r))"
  obtains fs tree m d d' u where "fallback_scopes libs aux sg (aux_iter libs aux) [] = Inr fs"
    and "tree_new (lib_graph libs) fs sg = Some (Inr tree)"
    and "domains_loop aux (aux_iter libs aux) [] None = Inr (m, Some (dr_root_fallback_id r))"
    and "path_routers mt libs aux sg tree m [] = Some (d, Inr (dr_domain2path_router r))"
    and "detect_domain_conflicts mt aux = Some (d', Inr u)"
proof -
  have "either_all_domain_based_or_all_agnostic libs aux \<noteq> Some (ds, Inr (DomainBased r))"
    by (auto simp: either_all_domain_based_or_all_agnostic_def silently_def split: option.splits)
  then obtain based where "is_domain_based libs aux = Some based" using new by (auto simp: router_new_def split: option.splits)
  then obtain fs tree d1 where t: "fallback_scopes libs aux sg (aux_iter libs aux) [] = Inr fs"
      "tree_new (lib_graph libs) fs sg = Some (Inr tree)"
      and r: "domain_router_new mt libs aux sg tree = Some (d1, Inr r)"
    using new by (auto simp: router_new_def routing_simps split: if_splits)
  show thesis
    using r that [OF t] by (auto simp: domain_router_new_def routing_simps split: option.splits)
qed

lemma domain_conflict_loop_silent:
  "domain_conflict_loop mt gs m pg ds = (ds', Inr u) \<Longrightarrow> ds' = []"
proof (induction gs arbitrary: m pg ds)
  case (Cons g gs)
  obtain e m2 where "mt_insert mt (matchit_pattern g) 0 m = (e, m2)" by fastforce
  then show ?case
    using Cons by (cases e) (auto simp: Let_def index_panic_def split: insert_error.splits option.splits)
qed (simp split: if_splits)

lemma detect_domain_conflicts_silent:
  "detect_domain_conflicts mt aux = Some (d, Inr u) \<Longrightarrow> d = []"
  using domain_conflict_loop_silent by (simp add: detect_domain_conflicts_def)

context path_matching
begin

lemma domains_valid:
  assumes "detect_domain_conflicts mt aux = Some ([], Inr u)" and "g \<in> fst ` set (domain_guard2locations aux)"
  shows "valid (matchit_pattern g)"
proof -
  have "\<forall>g \<in> set (map fst (domain_guard2locations aux)). valid (matchit_pattern g)"
    using domain_conflict_loop_none assms(1) unfolding detect_domain_conflicts_def by blast
  then show ?thesis using assms(2) by auto
qed

text \<open>Once the domains are known to be apart, the generated server starts and finds the domain of a host.\<close>

lemma serve_domains_correct:
  assumes ok: "bt_ok (dr_domain2path_router r)"
      "\<forall>g \<in> fst ` set (dr_domain2path_router r). valid (matchit_pattern g)"
      "\<forall>g \<in> fst ` set (dr_domain2path_router r). \<forall>h \<in> fst ` set (dr_domain2path_router r).
         g \<noteq> h \<longrightarrow> \<not> conflicts (matchit_pattern g) (matchit_pattern h)"
    and root: "pipelines (dr_root_fallback_id r) \<noteq> None"
  shows "if \<exists>h g. host = Some h \<and> g \<in> fst ` set (dr_domain2path_router r) \<and> matches (matchit_pattern g) (host_key h)
    then \<exists>h g pr. host = Some h \<and> (g, pr) \<in> set (dr_domain2path_router r) \<and> matches (matchit_pattern g) (host_key h)
           \<and> serve_domains mt r pipelines host t m = serve_path mt pr pipelines t m
    else serve_domains mt r pipelines host t m = Inr (the (pipelines (dr_root_fallback_id r)))"
proof -
  let ?rs = "dr_domain2path_router r" and ?pats = "map (matchit_pattern \<circ> fst) (dr_domain2path_router r)"
  have apart: "conflicts (matchit_pattern g) (matchit_pattern h) \<longrightarrow> g = h"
    if "g \<in> fst ` set ?rs" "h \<in> fst ` set ?rs" for g h
    using ok(3) that by blast
  have "inj_on matchit_pattern (set (map fst ?rs))"
  proof (rule inj_onI)
    fix g h assume "g \<in> set (map fst ?rs)" "h \<in> set (map fst ?rs)" "matchit_pattern g = matchit_pattern h"
    then show "g = h" using ok(2) apart [of g h] conflicts_self by (metis set_map)
  qed
  then have dist: "distinct ?pats"
    using bt_ok_distinct [OF ok(1)] by (simp add: distinct_map comp_inj_on)
  have pats: "set ?pats = matchit_pattern ` (fst ` set ?rs)" by (simp add: image_comp)
  have val: "\<forall>p \<in> set ?pats. valid p" unfolding pats using ok(2) by simp
  have sep: "\<forall>p \<in> set ?pats. \<forall>q \<in> set ?pats. conflicts p q \<longrightarrow> p = q"
  proof (intro ballI impI)
    fix p q assume "p \<in> set ?pats" "q \<in> set ?pats" and c: "conflicts p q"
    then have "p \<in> matchit_pattern ` (fst ` set ?rs)" "q \<in> matchit_pattern ` (fst ` set ?rs)" by (simp_all only: pats)
    then obtain g h where g: "g \<in> fst ` set ?rs" "p = matchit_pattern g" and h: "h \<in> fst ` set ?rs" "q = matchit_pattern h"
      by blast
    from apart [OF g(1) h(1)] c g(2) h(2) show "p = q" by simp
  qed
  obtain domains where d: "domain_router_init mt ?rs = Inr domains"
      "set (routes domains) = set (zip ?pats [0..<length ?rs])"
    using insert_all_ok [OF val dist sep, of "mt_new mt" "[0..<length ?rs]"]
    by (auto simp: routes_new domain_router_init_def)
  show ?thesis
  proof (cases "Option.bind host (\<lambda>h. mt_at mt domains (host_key h))")
    case None
    have no: "\<not> matches (matchit_pattern g) (host_key h)" if g: "host = Some h" "g \<in> fst ` set ?rs" for h g
    proof
      assume m: "matches (matchit_pattern g) (host_key h)"
      obtain k where k: "k < length ?rs" "fst (?rs ! k) = g" using g(2) by (auto simp: in_set_conv_nth)
      then have "(matchit_pattern g, k) \<in> set (routes domains)"
        using in_numbered [of "matchit_pattern g" k ?pats] by (simp add: d(2))
      from at_finds [OF this m] show False using None g(1) by simp
    qed
    have "serve_domains mt r pipelines host t m = Inr (the (pipelines (dr_root_fallback_id r)))"
      using root by (auto simp: serve_domains_def d(1) None lookup_def)
    moreover have "\<not> (\<exists>h g. host = Some h \<and> g \<in> fst ` set ?rs \<and> matches (matchit_pattern g) (host_key h))"
      using no by blast
    ultimately show ?thesis by (simp only: if_False)
  next
    case (Some k)
    then obtain h where h: "host = Some h" "mt_at mt domains (host_key h) = Some k" by (cases host) auto
    from at_matches [OF h(2)] obtain p where p: "(p, k) \<in> set (routes domains)" "matches p (host_key h)" by blast
    then have k: "k < length ?rs" "matchit_pattern (fst (?rs ! k)) = p"
      using in_numbered [of p k ?pats] by (auto simp: d(2))
    have entry: "(fst (?rs ! k), snd (?rs ! k)) \<in> set ?rs" using k(1) by simp
    moreover have "serve_domains mt r pipelines host t m = serve_path mt (snd (?rs ! k)) pipelines t m"
      using k(1) by (simp add: serve_domains_def d(1) Some)
    moreover have "fst (?rs ! k) \<in> fst ` set ?rs" using k(1) by simp
    ultimately show ?thesis using h(1) k(2) p(2) by (metis (no_types, lifting))
  qed
qed

end

section \<open>Requests\<close>

text \<open>What answers a request that no template of a router matches: the fallback of the innermost
  scope around all endpoints of the router.\<close>

definition unmatched_answer :: "('a, 'b, 'g) registry_libs \<Rightarrow> ('a, 'b) auxiliary_data
    \<Rightarrow> ('g, location) scope_graph \<Rightarrow> nat list \<Rightarrow> nat \<Rightarrow> bool" where
  "unmatched_answer libs aux sg ids h \<longleftrightarrow>
     (\<exists>a. (\<forall>i \<in> set ids. \<exists>s. id2scope_id aux i = Some s \<and> is_descendant_of (lib_graph libs) s a sg)
        \<and> (\<forall>c. (\<forall>i \<in> set ids. \<forall>s. id2scope_id aux i = Some s \<longrightarrow> is_descendant_of (lib_graph libs) s c sg)
             \<longrightarrow> is_descendant_of (lib_graph libs) a c sg)
        \<and> innermost_fallback libs aux sg a h)"

definition path_answer :: "('a, 'b, 'g) registry_libs \<Rightarrow> ('a, 'b) auxiliary_data \<Rightarrow> ('g, location) scope_graph
    \<Rightarrow> (string \<Rightarrow> string \<Rightarrow> bool) \<Rightarrow> nat list \<Rightarrow> path_router \<Rightarrow> string \<Rightarrow> string \<Rightarrow> nat \<Rightarrow> bool" where
  "path_answer libs aux sg matches ids r t m h \<longleftrightarrow>
     (if \<exists>p \<in> fst ` set (pr_path2method_router r). matches p t
      then \<exists>p \<in> fst ` set (pr_path2method_router r). matches p t \<and> answered_by libs aux sg ids p m h
      else unmatched_answer libs aux sg ids h)"

lemma set_handler_ids:
  "set (handler_ids (DomainBased r)) =
     insert (dr_root_fallback_id r) (set (concat (map (\<lambda>(g, p). path_handler_ids p) (dr_domain2path_router r))))"
  unfolding handler_ids.simps set_sorted_list_of_set [OF List.finite_set] by simp

lemma domain_handler_ids:
  assumes "(g, pr) \<in> set (dr_domain2path_router r)"
  shows "set (path_handler_ids pr) \<subseteq> set (handler_ids (DomainBased r))"
proof -
  have "path_handler_ids pr \<in> set (map (\<lambda>(g, p). path_handler_ids p) (dr_domain2path_router r))"
    using assms by (simp add: image_iff) (rule bexI [of _ "(g, pr)"], simp_all)
  then have "set (path_handler_ids pr) \<subseteq> set (concat (map (\<lambda>(g, p). path_handler_ids p) (dr_domain2path_router r)))"
    unfolding set_concat by (rule Union_upper [OF imageI])
  then show ?thesis unfolding set_handler_ids by (rule subset_insertI2)
qed

lemma domain_ids_ready:
  assumes "router_ready libs aux sg n"
  shows "\<forall>i \<in> set (domain_ids aux (aux_iter libs aux) g). component_at libs aux i \<noteq> None"
  using router_readyD(1) [OF assms] by (force simp: domain_ids_def)

lemma domain_ids_recorded:
  assumes "registry libs" and ps: "aux = ps_aux (process_blueprint libs bp (aux_new libs) ds')"
    and ready: "router_ready libs aux sg n" and g: "domain_ids aux (aux_iter libs aux) g \<noteq> []"
  shows "g \<in> fst ` set (domain_guard2locations aux)"
proof -
  obtain i c where ic: "(i, c) \<in> set (aux_iter libs aux)"
      "case c of RequestHandler s k \<Rightarrow> rk_domain_guard k = Some g
         | Fallback s \<Rightarrow> fallback_id2domain_guard aux i = Some (Some g) | _ \<Rightarrow> False"
    using g by (auto simp: domain_ids_def filter_empty_conv)
  have "\<exists>e \<in> set (endpoint_of libs aux (i, c)). endpoint_domain e = Some g"
  proof (cases c)
    case (Fallback s)
    then have "fallback_id2path_prefix aux i \<noteq> None" using router_readyD(4) [OF ready] ic(1) by blast
    then show ?thesis using ic(2) by (auto simp: endpoint_of_def Fallback)
  qed (use ic(2) in \<open>simp_all add: endpoint_of_def\<close>)
  then have "\<exists>e \<in> set (endpoints libs aux). endpoint_domain e = Some g"
    using ic(1) by (auto simp: endpoints_def)
  then show ?thesis using endpoint_domains_recorded [OF assms(1) ps] by blast
qed



section \<open>Fallbacks outside domains\<close>



end
