(* ===== verification/Router_Edge_Cases.thy ===== *)
theory Router_Edge_Cases
  imports Router_Correctness
begin

text \<open>
  Inputs on which the construction of a router behaves in a way that its checks are meant to rule
  out: methods outside the well-known ones, templates with escaped braces, and prefixes that
  end with a parameter.
\<close>

section \<open>Two handlers for one path\<close>

definition ex_two_handlers :: "string \<Rightarrow> bp_method_guard \<Rightarrow> bp_method_guard
    \<Rightarrow> (user_component list, raw_identifiers list) auxiliary_data" where
  "ex_two_handlers p g h = (aux_new list_registry)
     \<lparr>component_interner :=
        [RequestHandler 0 \<lparr>rk_path = p, rk_method_guard = g, rk_domain_guard = None\<rparr>,
         RequestHandler 1 \<lparr>rk_path = p, rk_method_guard = h, rk_domain_guard = None\<rparr>]\<rparr>"

lemma ex_two_handlers_routes:
  "route_at list_registry (ex_two_handlers p g h) 0 p g" "route_at list_registry (ex_two_handlers p g h) 1 p h"
  by (simp_all add: route_at_def handler_key_def component_at_def ex_two_handlers_def list_registry_def list_arena_def)

lemma route_atD:
  assumes "route_at libs aux i p g"
  obtains k where "handler_key libs aux i = Some k" and "rk_path k = p" and "rk_method_guard k = g"
  using assms by (auto simp: route_at_def)

section \<open>Methods outside the well-known ones\<close>

text \<open>Theorem: A handler for a method of one's own and one for every method, on the same path, are not
  reported as a conflict. Which of them serves the method depends on their order: the one for
  every method, if it is registered last, replaces the leaf of the path and with it the other
  handler.\<close>

theorem later_any_route_hides_own_method:
  assumes i: "route_at libs aux i p (SomeMethods ms)" "\<forall>m \<in> set well_known_methods. m |\<notin>| ms" "m |\<in>| ms"
    and j: "route_at libs aux j p AnyMethod" and f: "map_of assigned i = Some f" and "i \<noteq> j"
  shows "method_conflicts libs aux [i, j] = []
    \<and> (\<exists>leaf. leaf_loop assigned libs aux [i, j] [] = Inr [(p, leaf)] \<and> leaf_handler leaf m = j)
    \<and> (\<exists>leaf. leaf_loop assigned libs aux [j, i] [] = Inr [(p, leaf)] \<and> leaf_handler leaf m = i)"
proof -
  obtain k l where k: "handler_key libs aux i = Some k" "rk_path k = p" "rk_method_guard k = SomeMethods ms"
    and l: "handler_key libs aux j = Some l" "rk_path l = p" "rk_method_guard l = AnyMethod"
    using route_atD [OF i(1)] route_atD [OF j] by metis
  have "agreeing libs aux [i, j]"
    unfolding agreeing_def
  proof (intro ballI allI impI)
    fix a b q g h n
    assume ab: "a \<in> set [i, j]" "b \<in> set [i, j]" and r: "route_at libs aux a q g" "route_at libs aux b q h"
      and n: "n \<in> set well_known_methods" "accepts g n" "accepts h n"
    have "\<not> accepts (SomeMethods ms) n" using i(2) n(1) by simp
    then have "a \<noteq> i" "b \<noteq> i" using route_at_unique [OF r(1)] route_at_unique [OF r(2)] i(1) n by metis+
    then show "handler_identifiers libs aux a = handler_identifiers libs aux b" using ab by simp
  qed
  then have "method_conflicts libs aux [i, j] = []" by (simp add: method_conflicts_none)
  then show ?thesis using k l f i(3) by (simp add: leaf_new_def leaf_handler_def)
qed

theorem later_any_route_hides_own_method_witness:
  "method_conflicts list_registry (ex_two_handlers ''/a'' (SomeMethods {|''PURGE''|}) AnyMethod) [0, 1] = []
    \<and> (\<exists>leaf. leaf_loop [(0, 2)] list_registry (ex_two_handlers ''/a'' (SomeMethods {|''PURGE''|}) AnyMethod) [0, 1] [] =
          Inr [(''/a'', leaf)] \<and> leaf_handler leaf ''PURGE'' = 1)"
  using later_any_route_hides_own_method [OF ex_two_handlers_routes(1) _ _ ex_two_handlers_routes(2),
      where p = "''/a''" and ms = "{|''PURGE''|}" and m = "''PURGE''" and assigned = "[(0, 2)]" and f = 2]
  by (simp add: well_known_methods_def)

section \<open>Escaped braces\<close>

text \<open>
  Templates without parameters, in which doubled braces stand for single ones: two templates
  conflict if they are the same text, and match that text only.
\<close>

fun unescape :: "string \<Rightarrow> string option" where
  "unescape [] = Some []"
| "unescape [c] = (if c = CHR ''{'' \<or> c = CHR ''}'' then None else Some [c])"
| "unescape (c # d # s) =
     (if c = CHR ''{'' \<or> c = CHR ''}'' then (if d = c then map_option ((#) c) (unescape s) else None)
      else map_option ((#) c) (unescape (d # s)))"

definition literal_matchit :: "(string \<times> nat) list matchit_lib" where
  "literal_matchit =
     \<lparr>mt_new = [],
      mt_insert = (\<lambda>p v rs.
        if unescape p = None then (Some InvalidParam, rs)
        else (case find (\<lambda>r. unescape (fst r) = unescape p) rs of
                Some (q, w) \<Rightarrow> (Some (Conflict q), rs)
              | None \<Rightarrow> (None, rs @ [(p, v)]))),
      mt_at = (\<lambda>rs s. map_option snd (find (\<lambda>r. unescape (fst r) = Some s) rs))\<rparr>"

interpretation li: path_matching literal_matchit "\<lambda>rs. rs" "\<lambda>p. unescape p \<noteq> None"
  "\<lambda>p q. unescape p = unescape q" "\<lambda>p s. unescape p = Some s"
proof unfold_locales
  show "mt_new literal_matchit = []" by (simp add: literal_matchit_def)
  show "unescape p \<noteq> None \<and> (\<forall>q \<in> fst ` set m1. unescape p \<noteq> unescape q) \<and> m2 = m1 @ [(p, v)]"
    if "mt_insert literal_matchit p v m1 = (None, m2)" for p v m1 m2
    using that by (auto simp: literal_matchit_def find_None_iff split: if_splits option.splits)
  show "m2 = m1 \<and> (if unescape p \<noteq> None then \<exists>q \<in> fst ` set m1. unescape p = unescape q \<and> e = Conflict q
      else \<forall>q. e \<noteq> Conflict q)"
    if ins: "mt_insert literal_matchit p v m1 = (Some e, m2)" for p v m1 e m2
  proof (cases "unescape p = None")
    case False
    then obtain q w where q: "find (\<lambda>r. unescape (fst r) = unescape p) m1 = Some (q, w)" "e = Conflict q" "m2 = m1"
      using ins by (auto simp: literal_matchit_def split: option.splits)
    from find_in [OF q(1)] have "q \<in> fst ` set m1" "unescape p = unescape q" by force+
    with False q show ?thesis by auto
  qed (use ins in \<open>auto simp: literal_matchit_def\<close>)
  show "\<exists>p. (p, v) \<in> set m \<and> unescape p = Some s" if "mt_at literal_matchit m s = Some v" for m s v
    using that find_in by (fastforce simp: literal_matchit_def)
  show "mt_at literal_matchit m s \<noteq> None" if "(p, v) \<in> set m" "unescape p = Some s" for p v m s
  proof -
    have "find (\<lambda>r. unescape (fst r) = Some s) m \<noteq> None" unfolding find_None_iff using that by force
    then show ?thesis by (simp add: literal_matchit_def)
  qed
qed auto

text \<open>Theorem: The check of the fallbacks for methods uses the template of a route as the path of a
  request. A template that does not match itself, as one with escaped braces, is not found
  again: if two handlers with method guards share it, it is inserted twice, and the compiler panics.\<close>

theorem template_not_matching_itself_panics:
  assumes pm: "path_matching mt routes valid conflicts matches" and p: "valid p" "\<not> matches p p"
    and i: "route_at libs aux i p (SomeMethods ms)" and j: "route_at libs aux j p (SomeMethods ns)"
    and f: "map_of assigned i \<noteq> None"
  shows "check_method_not_allowed_fallbacks mt assigned libs aux [i, j] =
    Some ([], Inl (Panicked ''called `Result::unwrap()` on an `Err` value''))"
proof -
  obtain k l where k: "handler_key libs aux i = Some k" "rk_path k = p" "rk_method_guard k = SomeMethods ms"
    and l: "handler_key libs aux j = Some l" "rk_path l = p" "rk_method_guard l = SomeMethods ns"
    using route_atD [OF i] route_atD [OF j] by metis
  obtain g where g: "map_of assigned i = Some g" using f by blast
  have new: "routes (mt_new mt) = []" by (rule path_matching.routes_new [OF pm])
  have at_new: "mt_at mt (mt_new mt) p = None"
    using path_matching.at_matches [OF pm, of "mt_new mt" p] new by (cases "mt_at mt (mt_new mt) p") auto
  obtain m where m: "mt_insert mt p 0 (mt_new mt) = (None, m)" "routes m = [(p, 0)]"
    using path_matching.insert_ok [OF pm p(1), of "mt_new mt" 0] new by auto
  have at: "mt_at mt m p = None"
    using path_matching.at_matches [OF pm, of m p] p(2) m(2) by (cases "mt_at mt m p") auto
  obtain e m2 where e: "mt_insert mt p 1 m = (e, m2)" by fastforce
  have "e \<noteq> None"
    using path_matching.insert_accepted [OF pm, of p 1 m m2] path_matching.conflicts_self [OF pm p(1)] e m(2) by auto
  then obtain e' where "mt_insert mt p 1 m = (Some e', m2)" using e by blast
  then show ?thesis
    using k l g at_new m(1) at
    by (simp add: check_method_not_allowed_fallbacks_def route_id_for_def silently_def routing_bind_def)
qed

theorem template_not_matching_itself_panics_witness:
  "check_method_not_allowed_fallbacks literal_matchit [(0, 2), (1, 2)] list_registry
     (ex_two_handlers ''/{{a}}'' (SomeMethods {|''GET''|}) (SomeMethods {|''POST''|})) [0, 1] =
   Some ([], Inl (Panicked ''called `Result::unwrap()` on an `Err` value''))"
  by (rule template_not_matching_itself_panics [OF li.path_matching_axioms _ _ ex_two_handlers_routes]) simp_all

section \<open>Prefixes that end with a parameter\<close>

text \<open>Theorem: The template made up for the fallback of a blueprint is the prefix of the blueprint with the
  rest of the path in place of a last parameter. One character too few is dropped: the opening
  brace of the parameter stays and escapes the one that follows. The closing brace is then
  unbalanced, the template is rejected, and the compiler panics.\<close>

theorem parameter_prefix_panics:
  "fallback_path ''/{home_id}'' = Some ''/{{*catch_all}'' \<and> unescape ''/{{*catch_all}'' = None
    \<and> register_fallback literal_matchit ''/{{*catch_all}'' i st =
        Inl (Panicked ''internal error: entered unreachable code'')"
proof -
  have f: "fallback_path ''/{home_id}'' = Some ''/{{*catch_all}''" by code_simp
  have u: "unescape ''/{{*catch_all}'' = None" by simp
  then have "mt_insert literal_matchit ''/{{*catch_all}'' 0 v = (Some InvalidParam, v)" for v
    by (simp add: literal_matchit_def)
  then have "register_fallback literal_matchit ''/{{*catch_all}'' i st =
      Inl (Panicked ''internal error: entered unreachable code'')"
    by (simp add: register_fallback_def)
  with f u show ?thesis by simp
qed

end
