(* ===== verification/Channels.thy ===== *)
theory Channels
  imports Prelude
begin

text \<open>
  Channels between tasks (\<^verbatim>\<open>tokio::sync::mpsc\<close>): the operations the server uses,
  as arguments of the model (\<open>mpsc_lib\<close>), and what is documented of them (locale \<open>mpsc\<close>). A
  channel shows a \<open>channel_view\<close>: the messages in the queue, its capacity if it has one, whether
  the receiver still takes messages, and whether a sender is left. Each operation acts on the view
  as the functions here say.
\<close>

datatype 'm poll = Ready 'm | Pending

datatype try_send_error = Full | Closed

record 'm channel_view =
  queued :: "'m list"
  capacity :: "nat option"
  accepting :: bool
  has_sender :: bool

definition view_new :: "nat option \<Rightarrow> 'm channel_view" where
  "view_new k = \<lparr>queued = [], capacity = k, accepting = True, has_sender = True\<rparr>"

definition has_room :: "'m channel_view \<Rightarrow> bool" where
  "has_room v \<longleftrightarrow> (case capacity v of None \<Rightarrow> True | Some k \<Rightarrow> length (queued v) < k)"

definition view_send :: "'m \<Rightarrow> 'm channel_view \<Rightarrow> try_send_error option \<times> 'm channel_view" where
  "view_send m v =
     (if \<not> accepting v then (Some Closed, v)
      else if has_room v then (None, v\<lparr>queued := queued v @ [m]\<rparr>)
      else (Some Full, v))"

text \<open>A receiver gets the messages that are left in a closed channel, and then nothing.\<close>

definition view_recv :: "'m channel_view \<Rightarrow> 'm option poll \<times> 'm channel_view" where
  "view_recv v =
     (case queued v of
        m # ms \<Rightarrow> (Ready (Some m), v\<lparr>queued := ms\<rparr>)
      | [] \<Rightarrow> (if accepting v \<and> has_sender v then Pending else Ready None, v))"

definition view_close :: "'m channel_view \<Rightarrow> 'm channel_view" where
  "view_close v = v\<lparr>accepting := False\<rparr>"

definition view_drop_receiver :: "'m channel_view \<Rightarrow> 'm channel_view" where
  "view_drop_receiver v = v\<lparr>queued := [], accepting := False\<rparr>"

definition view_drop_senders :: "'m channel_view \<Rightarrow> 'm channel_view" where
  "view_drop_senders v = v\<lparr>has_sender := False\<rparr>"

record ('c, 'm) mpsc_lib =
  mpsc_new :: "nat option \<Rightarrow> 'c"
  mpsc_try_send :: "'m \<Rightarrow> 'c \<Rightarrow> try_send_error option \<times> 'c"
  mpsc_poll_recv :: "'c \<Rightarrow> 'm option poll \<times> 'c"
  mpsc_close :: "'c \<Rightarrow> 'c"
  mpsc_drop_receiver :: "'c \<Rightarrow> 'c"
  mpsc_drop_senders :: "'c \<Rightarrow> 'c"

locale mpsc =
  fixes lib :: "('c, 'm) mpsc_lib" and view :: "'c \<Rightarrow> 'm channel_view"
  assumes new_view: "view (mpsc_new lib k) = view_new k"
    and send_view: "map_prod id view (mpsc_try_send lib m c) = view_send m (view c)"
    and recv_view: "map_prod id view (mpsc_poll_recv lib c) = view_recv (view c)"
    and close_view: "view (mpsc_close lib c) = view_close (view c)"
    and drop_receiver_view: "view (mpsc_drop_receiver lib c) = view_drop_receiver (view c)"
    and drop_senders_view: "view (mpsc_drop_senders lib c) = view_drop_senders (view c)"
begin

lemma send_cases:
  assumes "mpsc_try_send lib m c = (r, c')"
  shows "r = None \<Longrightarrow> accepting (view c) \<and> has_room (view c) \<and> view c' = (view c)\<lparr>queued := queued (view c) @ [m]\<rparr>"
    and "r = Some Full \<Longrightarrow> accepting (view c) \<and> \<not> has_room (view c) \<and> view c' = view c"
    and "r = Some Closed \<Longrightarrow> \<not> accepting (view c) \<and> view c' = view c"
  using send_view [of m c] assms by (auto simp: view_send_def split: if_splits)

lemma send_result:
  "fst (mpsc_try_send lib m c) =
     (if \<not> accepting (view c) then Some Closed else if has_room (view c) then None else Some Full)"
  using arg_cong [OF send_view [of m c], of fst] by (simp add: view_send_def)

lemma recv_cases:
  assumes "mpsc_poll_recv lib c = (r, c')"
  shows "r = Ready (Some m) \<Longrightarrow> \<exists>ms. queued (view c) = m # ms \<and> view c' = (view c)\<lparr>queued := ms\<rparr>"
    and "r = Ready None \<Longrightarrow> queued (view c) = [] \<and> \<not> (accepting (view c) \<and> has_sender (view c)) \<and> view c' = view c"
    and "r = Pending \<Longrightarrow> queued (view c) = [] \<and> accepting (view c) \<and> has_sender (view c) \<and> view c' = view c"
  using recv_view [of c] assms by (auto simp: view_recv_def split: list.splits if_splits)

lemma recv_result:
  "fst (mpsc_poll_recv lib c) =
     (case queued (view c) of m # ms \<Rightarrow> Ready (Some m)
      | [] \<Rightarrow> if accepting (view c) \<and> has_sender (view c) then Pending else Ready None)"
  using arg_cong [OF recv_view [of c], of fst] by (simp add: view_recv_def split: list.split)

end

text \<open>A channel that is its own view\<close>

definition list_mpsc :: "('m channel_view, 'm) mpsc_lib" where
  "list_mpsc =
     \<lparr>mpsc_new = view_new, mpsc_try_send = view_send, mpsc_poll_recv = view_recv, mpsc_close = view_close,
      mpsc_drop_receiver = view_drop_receiver, mpsc_drop_senders = view_drop_senders\<rparr>"

interpretation lc: mpsc list_mpsc id
  by unfold_locales (simp_all add: list_mpsc_def map_prod.id)

end
