(* ===== verification/Server.thy ===== *)
theory Server
  imports Channels
begin

text \<open>
  The server of \<^verbatim>\<open>pavex/src/server\<close>: an acceptor thread that hands connections to
  worker threads, and the sequence that shuts them down.

  \<^item> A connection is a \<open>connection_message\<close>; streams and addresses are numbers.
  \<^item> A worker (\<^verbatim>\<open>worker.rs\<close>) is a \<open>worker_thread\<close>: its inboxes, how far its
    \<^verbatim>\<open>run\<close> is, and the connections it serves. \<open>worker_step\<close> has a rule for every step of
    \<^verbatim>\<open>run\<close> between two points where it waits, and one for a connection that is done;
    \<open>crash_step\<close> is a panic of the thread.
  \<^item> The acceptor (\<^verbatim>\<open>server_handle.rs\<close>) is part of \<open>server\<close>. It holds handles, which refer
    to threads by their position in the list of all threads spawned so far.
    \<open>server_step\<close> composes it with the workers, \<open>client_step\<close> is what the owner of a
    \<^verbatim>\<open>ServerHandle\<close> does.
  \<^item> Threads can always be spawned. A timeout may elapse at any time. Tasks that accept connections, one per listener,
    complete in any order.
  \<^item> Three histories record what happened to connections: which were accepted, which were turned
    down, and which a worker was sent and has handled.
\<close>

section \<open>Data\<close>

record connection_message =
  cm_connection :: nat
  cm_peer_addr :: nat

datatype shutdown_mode = Graceful nat | Forced

fun is_graceful :: "shutdown_mode \<Rightarrow> bool" where
  "is_graceful (Graceful timeout) = True"
| "is_graceful Forced = False"

fun is_forced :: "shutdown_mode \<Rightarrow> bool" where
  "is_forced (Graceful timeout) = False"
| "is_forced Forced = True"

record shutdown_worker_command =
  sw_completion_notifier :: nat
  sw_mode :: shutdown_mode

datatype server_command = ShutdownServer nat shutdown_mode

datatype worker_inbox_message =
    WorkerConnection connection_message
  | WorkerShutdown shutdown_worker_command

text \<open>Where a worker is in \<^verbatim>\<open>run\<close>\<close>

datatype worker_phase =
    Running
  | Draining shutdown_worker_command
  | Waiting shutdown_worker_command
  | Stopped shutdown_worker_command
  | Crashed

record ('c, 'd) worker_thread =
  wt_id :: nat
  wt_connection_inbox :: 'c
  wt_shutdown_inbox :: 'd
  wt_phase :: worker_phase
  wt_live :: "connection_message list"
  wt_dispatched :: "connection_message list"
  wt_handled :: "connection_message list"

record worker_handle =
  wh_thread :: nat
  wh_id :: nat

record ('c, 'd, 'e) channels =
  connection_lib :: "('c, connection_message) mpsc_lib"
  worker_lib :: "('d, shutdown_worker_command) mpsc_lib"
  server_lib :: "('e, server_command) mpsc_lib"

section \<open>Workers\<close>

definition worker_new :: "('c, 'd, 'e) channels \<Rightarrow> nat \<Rightarrow> nat \<Rightarrow> ('c, 'd) worker_thread" where
  "worker_new L i max_queue_length =
     \<lparr>wt_id = i, wt_connection_inbox = mpsc_new (connection_lib L) (Some max_queue_length),
      wt_shutdown_inbox = mpsc_new (worker_lib L) None, wt_phase = Running, wt_live = [],
      wt_dispatched = [], wt_handled = []\<rparr>"

text \<open>\<^verbatim>\<open>handle_connection\<close> spawns a task that the coordinator of the shutdown watches.\<close>

definition handle_connection :: "connection_message \<Rightarrow> ('c, 'd) worker_thread \<Rightarrow> ('c, 'd) worker_thread" where
  "handle_connection c w = w\<lparr>wt_live := wt_live w @ [c], wt_handled := wt_handled w @ [c]\<rparr>"

definition worker_poll_inboxes :: "('c, 'd, 'e) channels \<Rightarrow> ('c, 'd) worker_thread
    \<Rightarrow> worker_inbox_message poll \<times> ('c, 'd) worker_thread" where
  "worker_poll_inboxes L w =
     (case mpsc_poll_recv (worker_lib L) (wt_shutdown_inbox w) of
        (Ready (Some command), inbox) \<Rightarrow> (Ready (WorkerShutdown command), w\<lparr>wt_shutdown_inbox := inbox\<rparr>)
      | (_, inbox) \<Rightarrow>
          (let w = w\<lparr>wt_shutdown_inbox := inbox\<rparr>
           in case mpsc_poll_recv (connection_lib L) (wt_connection_inbox w) of
                (Ready (Some c), inbox) \<Rightarrow> (Ready (WorkerConnection c), w\<lparr>wt_connection_inbox := inbox\<rparr>)
              | (_, inbox) \<Rightarrow> (Pending, w\<lparr>wt_connection_inbox := inbox\<rparr>)))"

text \<open>When the thread ends its inboxes are dropped, with the connections it serves.\<close>

definition worker_exit :: "('c, 'd, 'e) channels \<Rightarrow> worker_phase \<Rightarrow> ('c, 'd) worker_thread \<Rightarrow> ('c, 'd) worker_thread" where
  "worker_exit L phase w =
     w\<lparr>wt_phase := phase, wt_live := [],
       wt_connection_inbox := mpsc_drop_receiver (connection_lib L) (wt_connection_inbox w),
       wt_shutdown_inbox := mpsc_drop_receiver (worker_lib L) (wt_shutdown_inbox w)\<rparr>"

definition worker_on_message :: "('c, 'd, 'e) channels \<Rightarrow> worker_inbox_message
    \<Rightarrow> ('c, 'd) worker_thread \<Rightarrow> ('c, 'd) worker_thread" where
  "worker_on_message L msg w =
     (case msg of
        WorkerConnection c \<Rightarrow> handle_connection c w
      | WorkerShutdown command \<Rightarrow>
          (case sw_mode command of
             Graceful timeout \<Rightarrow>
               w\<lparr>wt_connection_inbox := mpsc_close (connection_lib L) (wt_connection_inbox w),
                 wt_phase := Draining command\<rparr>
           | Forced \<Rightarrow> worker_exit L (Stopped command) w))"

definition ended :: "('c, 'd) worker_thread \<Rightarrow> bool" where
  "ended w \<longleftrightarrow> (case wt_phase w of Stopped command \<Rightarrow> True | Crashed \<Rightarrow> True | _ \<Rightarrow> False)"

inductive worker_step :: "('c, 'd, 'e) channels \<Rightarrow> ('c, 'd) worker_thread \<Rightarrow> ('c, 'd) worker_thread \<Rightarrow> bool"
  for L :: "('c, 'd, 'e) channels" where
  message: "wt_phase w = Running \<Longrightarrow> worker_poll_inboxes L w = (Ready msg, w') \<Longrightarrow>
    worker_step L w (worker_on_message L msg w')"
| drain: "wt_phase w = Draining command \<Longrightarrow>
    mpsc_poll_recv (connection_lib L) (wt_connection_inbox w) = (Ready (Some c), inbox) \<Longrightarrow>
    worker_step L w (handle_connection c (w\<lparr>wt_connection_inbox := inbox\<rparr>))"
| drained: "wt_phase w = Draining command \<Longrightarrow>
    mpsc_poll_recv (connection_lib L) (wt_connection_inbox w) = (Ready None, inbox) \<Longrightarrow>
    worker_step L w (w\<lparr>wt_connection_inbox := inbox, wt_phase := Waiting command\<rparr>)"
| all_closed: "wt_phase w = Waiting command \<Longrightarrow> wt_live w = [] \<Longrightarrow>
    worker_step L w (worker_exit L (Stopped command) w)"
| timeout: "wt_phase w = Waiting command \<Longrightarrow> worker_step L w (worker_exit L (Stopped command) w)"
| connection_done: "c \<in> set (wt_live w) \<Longrightarrow> worker_step L w (w\<lparr>wt_live := remove1 c (wt_live w)\<rparr>)"

text \<open>The thread panics.\<close>

inductive crash_step :: "('c, 'd, 'e) channels \<Rightarrow> ('c, 'd) worker_thread \<Rightarrow> ('c, 'd) worker_thread \<Rightarrow> bool"
  for L :: "('c, 'd, 'e) channels" where
  crash: "\<not> ended w \<Longrightarrow> crash_step L w (worker_exit L Crashed w)"

section \<open>The acceptor\<close>

datatype acceptor_phase =
    Accepting
  | AwaitingWorkers nat
  | AcceptorDone
  | AcceptorFailed
  | AcceptorPanicked string

text \<open>The task of a listener completes with a connection. Otherwise the task panicked or was cancelled.\<close>

datatype join_result =
    Accepted nat nat nat
  | JoinError

datatype acceptor_inbox_message =
    ServerCommand server_command
  | Connection "join_result option"

record ('c, 'd, 'e) server =
  sv_threads :: "('c, 'd) worker_thread list"
  sv_command_inbox :: 'e
  sv_incoming :: "nat list"
  sv_worker_handles :: "worker_handle list"
  sv_next_worker :: nat
  sv_max_queue_length :: nat
  sv_phase :: acceptor_phase
  sv_notified :: "nat set"
  sv_accepted :: "connection_message list"
  sv_rejected :: "connection_message list"

record server_builder =
  sb_n_workers :: nat
  sb_incoming :: "nat list"

definition set_n_workers :: "nat \<Rightarrow> server_builder \<Rightarrow> (unit, server_builder) result" where
  "set_n_workers n b =
     (if 0 < n then Inr (b\<lparr>sb_n_workers := n\<rparr>)
      else Inl (Panicked ''The number of workers must be greater than 0''))"

definition listen :: "nat \<Rightarrow> server_builder \<Rightarrow> server_builder" where
  "listen l b = b\<lparr>sb_incoming := sb_incoming b @ [l]\<rparr>"

definition acceptor_new :: "('c, 'd, 'e) channels \<Rightarrow> nat \<Rightarrow> nat list \<Rightarrow> ('c, 'd, 'e) server" where
  "acceptor_new L n_workers listeners =
     \<lparr>sv_threads = map (\<lambda>i. worker_new L i 15) [0..<n_workers],
      sv_command_inbox = mpsc_new (server_lib L) (Some 32),
      sv_incoming = listeners,
      sv_worker_handles = map (\<lambda>i. \<lparr>wh_thread = i, wh_id = i\<rparr>) [0..<n_workers],
      sv_next_worker = 0, sv_max_queue_length = 15, sv_phase = Accepting, sv_notified = {},
      sv_accepted = [], sv_rejected = []\<rparr>"

definition try_serve :: "('c, 'd, 'e) channels \<Rightarrow> server_builder \<Rightarrow> (string, ('c, 'd, 'e) server) result" where
  "try_serve L b =
     (if sb_incoming b = [] then Inl (Failed ''Cannot serve: there is no source of incoming connections.'')
      else Inr (acceptor_new L (sb_n_workers b) (sb_incoming b)))"

definition acceptor_poll_inboxes :: "('c, 'd, 'e) channels \<Rightarrow> join_result option poll
    \<Rightarrow> ('c, 'd, 'e) server \<Rightarrow> acceptor_inbox_message poll \<times> ('c, 'd, 'e) server" where
  "acceptor_poll_inboxes L joined s =
     (case mpsc_poll_recv (server_lib L) (sv_command_inbox s) of
        (Ready (Some command), inbox) \<Rightarrow> (Ready (ServerCommand command), s\<lparr>sv_command_inbox := inbox\<rparr>)
      | (_, inbox) \<Rightarrow>
          (case joined of
             Ready message \<Rightarrow> (Ready (Connection message), s\<lparr>sv_command_inbox := inbox\<rparr>)
           | Pending \<Rightarrow> (Pending, s\<lparr>sv_command_inbox := inbox\<rparr>)))"

text \<open>What the set of tasks can give: a result of one of them, or nothing if there are none.\<close>

definition join_ready :: "nat list \<Rightarrow> join_result option poll \<Rightarrow> bool" where
  "join_ready listeners joined \<longleftrightarrow>
     (case joined of
        Ready None \<Rightarrow> listeners = []
      | Ready (Some (Accepted l stream peer)) \<Rightarrow> l \<in> set listeners
      | Ready (Some JoinError) \<Rightarrow> listeners \<noteq> []
      | Pending \<Rightarrow> listeners \<noteq> [])"

text \<open>\<^verbatim>\<open>WorkerHandle::dispatch\<close>\<close>

definition worker_dispatch :: "('c, 'd, 'e) channels \<Rightarrow> nat \<Rightarrow> connection_message
    \<Rightarrow> ('c, 'd, 'e) server \<Rightarrow> try_send_error option \<times> ('c, 'd, 'e) server" where
  "worker_dispatch L t c s =
     (let w = sv_threads s ! t;
          (r, outbox) = mpsc_try_send (connection_lib L) c (wt_connection_inbox w)
      in (r, s\<lparr>sv_threads := (sv_threads s)[t := w\<lparr>wt_connection_inbox := outbox,
            wt_dispatched := wt_dispatched w @ (if r = None then [c] else [])\<rparr>]\<rparr>))"

definition restart_worker :: "('c, 'd, 'e) channels \<Rightarrow> nat \<Rightarrow> ('c, 'd, 'e) server
    \<Rightarrow> (unit, ('c, 'd, 'e) server) result" where
  "restart_worker L i s =
     (if i < length (sv_worker_handles s) then
        Inr (s\<lparr>sv_threads := sv_threads s @ [worker_new L i (sv_max_queue_length s)],
               sv_worker_handles := (sv_worker_handles s)[i := \<lparr>wh_thread = length (sv_threads s), wh_id = i\<rparr>]\<rparr>)
      else Inl (Panicked ''index out of bounds''))"

fun dispatch_loop :: "('c, 'd, 'e) channels \<Rightarrow> nat \<Rightarrow> nat \<Rightarrow> connection_message
    \<Rightarrow> ('c, 'd, 'e) server \<Rightarrow> (unit, bool \<times> ('c, 'd, 'e) server) result" where
  "dispatch_loop L n_workers 0 c s = Inr (False, s)"
| "dispatch_loop L n_workers (Suc k) c s =
     (if sv_next_worker s < length (sv_worker_handles s) then
        (let handle = sv_worker_handles s ! sv_next_worker s
         in case worker_dispatch L (wh_thread handle) c s of
              (None, s) \<Rightarrow> Inr (True, s)
            | (Some Full, s) \<Rightarrow>
                dispatch_loop L n_workers k c (s\<lparr>sv_next_worker := (sv_next_worker s + 1) mod n_workers\<rparr>)
            | (Some Closed, s) \<Rightarrow>
                (case restart_worker L (wh_id handle) (s\<lparr>sv_next_worker := (sv_next_worker s + 1) mod n_workers\<rparr>) of
                   Inl e \<Rightarrow> Inl e
                 | Inr s \<Rightarrow> dispatch_loop L n_workers k c s))
      else Inl (Panicked ''index out of bounds''))"

text \<open>\<^verbatim>\<open>WorkerHandle::shutdown\<close> takes the handle, so its outboxes are dropped.\<close>

definition worker_shutdown :: "('c, 'd, 'e) channels \<Rightarrow> shutdown_mode \<Rightarrow> worker_handle
    \<Rightarrow> ('c, 'd, 'e) server \<Rightarrow> ('c, 'd, 'e) server" where
  "worker_shutdown L mode handle s =
     (let t = wh_thread handle; w = sv_threads s ! t;
          command = \<lparr>sw_completion_notifier = t, sw_mode = mode\<rparr>
      in s\<lparr>sv_threads := (sv_threads s)[t := w\<lparr>
            wt_shutdown_inbox :=
              mpsc_drop_senders (worker_lib L) (snd (mpsc_try_send (worker_lib L) command (wt_shutdown_inbox w))),
            wt_connection_inbox := mpsc_drop_senders (connection_lib L) (wt_connection_inbox w)\<rparr>]\<rparr>)"

definition acceptor_done :: "('c, 'd, 'e) channels \<Rightarrow> nat \<Rightarrow> ('c, 'd, 'e) server \<Rightarrow> ('c, 'd, 'e) server" where
  "acceptor_done L notifier s =
     s\<lparr>sv_notified := insert notifier (sv_notified s), sv_phase := AcceptorDone,
       sv_command_inbox := mpsc_drop_receiver (server_lib L) (sv_command_inbox s)\<rparr>"

definition acceptor_shutdown :: "('c, 'd, 'e) channels \<Rightarrow> nat \<Rightarrow> shutdown_mode
    \<Rightarrow> ('c, 'd, 'e) server \<Rightarrow> ('c, 'd, 'e) server" where
  "acceptor_shutdown L notifier mode s =
     (let s = fold (worker_shutdown L mode) (sv_worker_handles s) (s\<lparr>sv_incoming := []\<rparr>)
      in if is_graceful mode then s\<lparr>sv_phase := AwaitingWorkers notifier\<rparr> else acceptor_done L notifier s)"

text \<open>The handles of a thread that is left behind are dropped.\<close>

definition drop_handle :: "('c, 'd, 'e) channels \<Rightarrow> worker_handle \<Rightarrow> ('c, 'd, 'e) server \<Rightarrow> ('c, 'd, 'e) server" where
  "drop_handle L handle s =
     (let t = wh_thread handle; w = sv_threads s ! t
      in s\<lparr>sv_threads := (sv_threads s)[t := w\<lparr>
            wt_shutdown_inbox := mpsc_drop_senders (worker_lib L) (wt_shutdown_inbox w),
            wt_connection_inbox := mpsc_drop_senders (connection_lib L) (wt_connection_inbox w)\<rparr>]\<rparr>)"

definition acceptor_fail :: "('c, 'd, 'e) channels \<Rightarrow> acceptor_phase \<Rightarrow> ('c, 'd, 'e) server \<Rightarrow> ('c, 'd, 'e) server" where
  "acceptor_fail L phase s =
     fold (drop_handle L) (sv_worker_handles s)
       (s\<lparr>sv_incoming := [], sv_phase := phase,
          sv_command_inbox := mpsc_drop_receiver (server_lib L) (sv_command_inbox s)\<rparr>)"

definition acceptor_on_message :: "('c, 'd, 'e) channels \<Rightarrow> acceptor_inbox_message
    \<Rightarrow> ('c, 'd, 'e) server \<Rightarrow> ('c, 'd, 'e) server" where
  "acceptor_on_message L msg s =
     (case msg of
        ServerCommand (ShutdownServer notifier mode) \<Rightarrow> acceptor_shutdown L notifier mode s
      | Connection None \<Rightarrow>
          acceptor_fail L (AcceptorPanicked ''The JoinSet for incoming connections cannot ever be empty'') s
      | Connection (Some JoinError) \<Rightarrow> acceptor_fail L AcceptorFailed s
      | Connection (Some (Accepted l stream peer)) \<Rightarrow>
          (let c = \<lparr>cm_connection = stream, cm_peer_addr = peer\<rparr>;
               n_workers = length (sv_worker_handles s);
               s = s\<lparr>sv_incoming := remove1 l (sv_incoming s) @ [l], sv_accepted := sv_accepted s @ [c]\<rparr>
           in case dispatch_loop L n_workers n_workers c s of
                Inr (True, s) \<Rightarrow> s
              | Inr (False, s) \<Rightarrow> s\<lparr>sv_rejected := sv_rejected s @ [c]\<rparr>
              | Inl (Panicked m) \<Rightarrow> acceptor_fail L (AcceptorPanicked m) s
              | Inl (Failed e) \<Rightarrow> s))"

inductive server_step :: "('c, 'd, 'e) channels \<Rightarrow> ('c, 'd, 'e) server \<Rightarrow> ('c, 'd, 'e) server \<Rightarrow> bool"
  for L :: "('c, 'd, 'e) channels" where
  accept: "sv_phase s = Accepting \<Longrightarrow> join_ready (sv_incoming s) joined \<Longrightarrow>
    acceptor_poll_inboxes L joined s = (Ready msg, s') \<Longrightarrow> server_step L s (acceptor_on_message L msg s')"
| workers_done: "sv_phase s = AwaitingWorkers notifier \<Longrightarrow>
    \<forall>h \<in> set (sv_worker_handles s). ended (sv_threads s ! wh_thread h) \<Longrightarrow>
    server_step L s (acceptor_done L notifier s)"
| shutdown_timeout: "sv_phase s = AwaitingWorkers notifier \<Longrightarrow> server_step L s (acceptor_done L notifier s)"
| worker: "t < length (sv_threads s) \<Longrightarrow> worker_step L (sv_threads s ! t) w \<Longrightarrow>
    server_step L s (s\<lparr>sv_threads := (sv_threads s)[t := w]\<rparr>)"

text \<open>Commands of the clients. One that is refused means that the acceptor is gone.\<close>

inductive client_step :: "('c, 'd, 'e) channels \<Rightarrow> ('c, 'd, 'e) server \<Rightarrow> ('c, 'd, 'e) server \<Rightarrow> bool"
  for L :: "('c, 'd, 'e) channels" where
  handle_shutdown: "mpsc_try_send (server_lib L) (ShutdownServer notifier mode) (sv_command_inbox s) = (None, inbox) \<Longrightarrow>
    client_step L s (s\<lparr>sv_command_inbox := inbox\<rparr>)"
| handles_dropped: "client_step L s (s\<lparr>sv_command_inbox := mpsc_drop_senders (server_lib L) (sv_command_inbox s)\<rparr>)"

text \<open>What can happen at any time: threads run, clients send commands, threads panic.\<close>

inductive reachable :: "('c, 'd, 'e) channels \<Rightarrow> ('c, 'd, 'e) server \<Rightarrow> bool"
  for L :: "('c, 'd, 'e) channels" where
  initial: "try_serve L b = Inr s \<Longrightarrow> 0 < sb_n_workers b \<Longrightarrow> reachable L s"
| server: "reachable L s \<Longrightarrow> server_step L s s' \<Longrightarrow> reachable L s'"
| client: "reachable L s \<Longrightarrow> client_step L s s' \<Longrightarrow> reachable L s'"
| panic: "reachable L s \<Longrightarrow> t < length (sv_threads s) \<Longrightarrow> crash_step L (sv_threads s ! t) w \<Longrightarrow>
    reachable L (s\<lparr>sv_threads := (sv_threads s)[t := w]\<rparr>)"

end
