(* ===== verification/Server_Invariants.thy ===== *)
theory Server_Invariants
  imports Server "HOL-Library.Sublist" "HOL-Library.Multiset"
begin

text \<open>
  What holds of a server at every moment, whatever its threads and clients do: the invariant of a
  worker thread, of the handles of the acceptor, of the phases of the shutdown, and the account of
  the accepted connections.
\<close>

section \<open>Sums over threads\<close>

lemma sum_list_update:
  fixes f :: "'a \<Rightarrow> 'b multiset"
  shows "t < length xs \<Longrightarrow> sum_list (map f (xs[t := x])) + f (xs ! t) = sum_list (map f xs) + f x"
proof (induction xs arbitrary: t)
  case (Cons y xs)
  then show ?case by (cases t) (simp_all add: ac_simps)
qed simp

definition dispatched_connections :: "('c, 'd, 'e) server \<Rightarrow> connection_message multiset" where
  "dispatched_connections s = sum_list (map (\<lambda>w. mset (wt_dispatched w)) (sv_threads s))"

section \<open>Worker threads\<close>

text \<open>
  A worker handles connections in the order in which they were sent. While it runs the rest is in its
  queue. One that is told to stop gracefully first handles what is in its queue.
\<close>

definition thread_ok :: "('c \<Rightarrow> connection_message channel_view) \<Rightarrow> nat \<Rightarrow> ('c, 'd) worker_thread \<Rightarrow> bool" where
  "thread_ok cview k w \<longleftrightarrow>
     (let q = cview (wt_connection_inbox w)
      in capacity q = Some k \<and> length (queued q) \<le> k \<and> set (wt_live w) \<subseteq> set (wt_handled w)
       \<and> prefix (wt_handled w) (wt_dispatched w)
       \<and> (case wt_phase w of
            Running \<Rightarrow> accepting q \<and> wt_dispatched w = wt_handled w @ queued q
          | Draining command \<Rightarrow> \<not> accepting q \<and> wt_dispatched w = wt_handled w @ queued q
              \<and> is_graceful (sw_mode command)
          | Waiting command \<Rightarrow> \<not> accepting q \<and> wt_dispatched w = wt_handled w \<and> queued q = []
              \<and> is_graceful (sw_mode command)
          | Stopped command \<Rightarrow> \<not> accepting q \<and> queued q = [] \<and> wt_live w = []
              \<and> (is_graceful (sw_mode command) \<longrightarrow> wt_dispatched w = wt_handled w)
          | Crashed \<Rightarrow> \<not> accepting q \<and> queued q = [] \<and> wt_live w = []))"

lemma thread_okD:
  assumes "thread_ok cview k w"
  shows "prefix (wt_handled w) (wt_dispatched w)" and "length (queued (cview (wt_connection_inbox w))) \<le> k"
    and "wt_phase w = Running \<Longrightarrow> wt_dispatched w = wt_handled w @ queued (cview (wt_connection_inbox w))"
    and "wt_phase w = Stopped command \<Longrightarrow> is_graceful (sw_mode command) \<Longrightarrow> wt_dispatched w = wt_handled w"
  using assms by (simp_all add: thread_ok_def Let_def)

text \<open>A thread that was not told to stop\<close>

definition untold :: "('d \<Rightarrow> shutdown_worker_command channel_view) \<Rightarrow> ('c, 'd) worker_thread \<Rightarrow> bool" where
  "untold wview w \<longleftrightarrow> wt_phase w \<in> {Running, Crashed} \<and> queued (wview (wt_shutdown_inbox w)) = []"

text \<open>A thread that was, or that has ended\<close>

definition told :: "('d \<Rightarrow> shutdown_worker_command channel_view) \<Rightarrow> ('c, 'd) worker_thread \<Rightarrow> bool" where
  "told wview w \<longleftrightarrow> wt_phase w = Running \<longrightarrow> queued (wview (wt_shutdown_inbox w)) \<noteq> []"

text \<open>A running thread takes commands.\<close>

definition listening :: "('d \<Rightarrow> shutdown_worker_command channel_view) \<Rightarrow> ('c, 'd) worker_thread \<Rightarrow> bool" where
  "listening wview w \<longleftrightarrow> wt_phase w = Running \<longrightarrow>
     accepting (wview (wt_shutdown_inbox w)) \<and> capacity (wview (wt_shutdown_inbox w)) = None"

lemma ended_iff: "ended w \<longleftrightarrow> (\<exists>command. wt_phase w = Stopped command) \<or> wt_phase w = Crashed"
  by (auto simp: ended_def split: worker_phase.splits)

section \<open>The server\<close>

text \<open>
  The handle with index \<open>i\<close> belongs to a thread with identifier \<open>i\<close>, no two to the same thread. Threads
  without a handle were replaced, as they have ended.
\<close>

definition handles_ok :: "('c, 'd, 'e) server \<Rightarrow> bool" where
  "handles_ok s \<longleftrightarrow> sv_max_queue_length s = 15 \<and> sv_worker_handles s \<noteq> [] \<and> sv_next_worker s < length (sv_worker_handles s)
     \<and> distinct (map wh_thread (sv_worker_handles s))
     \<and> (\<forall>i < length (sv_worker_handles s). wh_id (sv_worker_handles s ! i) = i
          \<and> wh_thread (sv_worker_handles s ! i) < length (sv_threads s)
          \<and> wt_id (sv_threads s ! wh_thread (sv_worker_handles s ! i)) = i)
     \<and> (\<forall>t < length (sv_threads s). t \<notin> wh_thread ` set (sv_worker_handles s) \<longrightarrow> ended (sv_threads s ! t))"

definition accounted :: "('c, 'd, 'e) server \<Rightarrow> bool" where
  "accounted s \<longleftrightarrow> mset (sv_accepted s) = mset (sv_rejected s) + dispatched_connections s"

definition phase_ok :: "('d \<Rightarrow> shutdown_worker_command channel_view) \<Rightarrow> ('c, 'd, 'e) server \<Rightarrow> bool" where
  "phase_ok wview s \<longleftrightarrow>
     (case sv_phase s of
        Accepting \<Rightarrow> sv_incoming s \<noteq> [] \<and> (\<forall>w \<in> set (sv_threads s). untold wview w)
      | AcceptorFailed \<Rightarrow> sv_incoming s = [] \<and> (\<forall>w \<in> set (sv_threads s). untold wview w)
      | AcceptorPanicked m \<Rightarrow> False
      | _ \<Rightarrow> sv_incoming s = [] \<and> (\<forall>w \<in> set (sv_threads s). told wview w))"

definition server_inv :: "('c \<Rightarrow> connection_message channel_view) \<Rightarrow> ('d \<Rightarrow> shutdown_worker_command channel_view)
    \<Rightarrow> ('c, 'd, 'e) server \<Rightarrow> bool" where
  "server_inv cview wview s \<longleftrightarrow> handles_ok s
     \<and> (\<forall>w \<in> set (sv_threads s). thread_ok cview (sv_max_queue_length s) w \<and> listening wview w)
     \<and> phase_ok wview s \<and> accounted s"

text \<open>The thread behind a handle\<close>

definition worker_at :: "('c, 'd, 'e) server \<Rightarrow> nat \<Rightarrow> ('c, 'd) worker_thread" where
  "worker_at s i = sv_threads s ! wh_thread (sv_worker_handles s ! i)"

lemma handles_okD:
  assumes "handles_ok s"
  shows "sv_worker_handles s \<noteq> []" and "sv_next_worker s < length (sv_worker_handles s)"
    and "distinct (map wh_thread (sv_worker_handles s))"
    and "i < length (sv_worker_handles s) \<Longrightarrow> wh_id (sv_worker_handles s ! i) = i"
    and "i < length (sv_worker_handles s) \<Longrightarrow> wh_thread (sv_worker_handles s ! i) < length (sv_threads s)"
    and "i < length (sv_worker_handles s) \<Longrightarrow> wt_id (worker_at s i) = i"
    and "t < length (sv_threads s) \<Longrightarrow> t \<notin> wh_thread ` set (sv_worker_handles s) \<Longrightarrow> ended (sv_threads s ! t)"
    and "sv_max_queue_length s = 15"
  using assms unfolding handles_ok_def worker_at_def by blast+

text \<open>Replacing a thread by one that is no less far, with the same connections, keeps the invariant.\<close>

lemma handles_ok_update:
  assumes "handles_ok s" and "wt_id w = wt_id (sv_threads s ! t)" and "ended (sv_threads s ! t) \<Longrightarrow> ended w"
  shows "handles_ok (s\<lparr>sv_threads := (sv_threads s)[t := w]\<rparr>)"
  using assms unfolding handles_ok_def
  by (cases "t < length (sv_threads s)") (auto simp: nth_list_update)

lemma dispatched_update:
  assumes "t < length (sv_threads s)"
  shows "dispatched_connections (s\<lparr>sv_threads := (sv_threads s)[t := w]\<rparr>) + mset (wt_dispatched (sv_threads s ! t)) =
    dispatched_connections s + mset (wt_dispatched w)"
  using sum_list_update [OF assms, of "\<lambda>w. mset (wt_dispatched w)" w] by (simp add: dispatched_connections_def)

lemma dispatched_update_same:
  assumes "wt_dispatched w = wt_dispatched (sv_threads s ! t)"
  shows "dispatched_connections (s\<lparr>sv_threads := (sv_threads s)[t := w]\<rparr>) = dispatched_connections s"
proof (cases "t < length (sv_threads s)")
  case True
  then show ?thesis using dispatched_update [OF True, of w] assms by simp
qed (simp add: dispatched_connections_def not_less list_update_beyond)

section \<open>Steps of threads\<close>

locale server_channels =
  conns: mpsc "connection_lib L" cview + works: mpsc "worker_lib L" wview + servs: mpsc "server_lib L" sview
  for L :: "('c, 'd, 'e) channels"
    and cview :: "'c \<Rightarrow> connection_message channel_view"
    and wview :: "'d \<Rightarrow> shutdown_worker_command channel_view"
    and sview :: "'e \<Rightarrow> server_command channel_view"
begin

lemma worker_new_ok:
  "thread_ok cview k (worker_new L i k)" "untold wview (worker_new L i k)" "listening wview (worker_new L i k)"
  by (simp_all add: thread_ok_def untold_def listening_def worker_new_def conns.new_view works.new_view view_new_def)

lemma worker_exit_ok:
  assumes "thread_ok cview k w"
    and "phase = Crashed \<or> (\<exists>command. phase = Stopped command \<and>
      (is_graceful (sw_mode command) \<longrightarrow> wt_dispatched w = wt_handled w))"
  shows "thread_ok cview k (worker_exit L phase w)"
  using assms
  by (auto simp: thread_ok_def worker_exit_def Let_def conns.drop_receiver_view view_drop_receiver_def)

lemma poll_cases:
  assumes "worker_poll_inboxes L w = (Ready msg, w')"
  obtains command inbox commands where "msg = WorkerShutdown command" "w' = w\<lparr>wt_shutdown_inbox := inbox\<rparr>"
      "queued (wview (wt_shutdown_inbox w)) = command # commands"
      "wview inbox = (wview (wt_shutdown_inbox w))\<lparr>queued := commands\<rparr>"
    | c cs inbox inbox' where "msg = WorkerConnection c"
      "w' = w\<lparr>wt_shutdown_inbox := inbox, wt_connection_inbox := inbox'\<rparr>"
      "queued (wview (wt_shutdown_inbox w)) = []" "wview inbox = wview (wt_shutdown_inbox w)"
      "queued (cview (wt_connection_inbox w)) = c # cs"
      "cview inbox' = (cview (wt_connection_inbox w))\<lparr>queued := cs\<rparr>"
proof -
  obtain r inbox where r: "mpsc_poll_recv (worker_lib L) (wt_shutdown_inbox w) = (r, inbox)" by fastforce
  obtain r' inbox' where r': "mpsc_poll_recv (connection_lib L) (wt_connection_inbox w) = (r', inbox')" by fastforce
  show thesis
  proof (cases "\<exists>command. r = Ready (Some command)")
    case True
    then obtain command where "r = Ready (Some command)" by blast
    then show thesis
      using works.recv_cases(1) [OF r] assms r by (auto simp: worker_poll_inboxes_def intro: that(1))
  next
    case False
    then have "r = Ready None \<or> r = Pending" by (metis not_None_eq poll.exhaust)
    then have view: "queued (wview (wt_shutdown_inbox w)) = []" "wview inbox = wview (wt_shutdown_inbox w)"
      using works.recv_cases(2,3) [OF r] by auto
    have "worker_poll_inboxes L w =
        (case r' of Ready (Some c) \<Rightarrow> (Ready (WorkerConnection c), w\<lparr>wt_shutdown_inbox := inbox, wt_connection_inbox := inbox'\<rparr>)
         | _ \<Rightarrow> (Pending, w\<lparr>wt_shutdown_inbox := inbox, wt_connection_inbox := inbox'\<rparr>))"
      using \<open>r = Ready None \<or> r = Pending\<close> by (auto simp: worker_poll_inboxes_def r r' split: poll.split option.split)
    then obtain c where "r' = Ready (Some c)" "msg = WorkerConnection c"
        "w' = w\<lparr>wt_shutdown_inbox := inbox, wt_connection_inbox := inbox'\<rparr>"
      using assms by (auto split: poll.splits option.splits)
    then show thesis using view conns.recv_cases(1) [OF r'] by (auto intro: that(2))
  qed
qed

text \<open>What a step of a thread keeps, whatever the others do.\<close>

lemma worker_step_ok:
  assumes "worker_step L w w'" and "thread_ok cview k w"
  shows "thread_ok cview k w'"
  using assms
proof (induction rule: worker_step.induct)
  case (message w msg w')
  from message(2) show ?case
  proof (cases rule: poll_cases)
    case (1 command inbox commands)
    show ?thesis
    proof (cases "sw_mode command")
      case (Graceful t)
      then show ?thesis
        using 1 message(1,3)
        by (auto simp: worker_on_message_def thread_ok_def Let_def conns.close_view view_close_def)
    next
      case Forced
      have "thread_ok cview k w'" using 1 message(1,3) by (simp add: thread_ok_def Let_def)
      then show ?thesis using Forced 1 by (auto simp: worker_on_message_def intro!: worker_exit_ok)
    qed
  next
    case (2 c cs inbox inbox')
    then show ?thesis
      using message(1,3) by (auto simp: worker_on_message_def handle_connection_def thread_ok_def Let_def)
  qed
next
  case (drain w command c inbox)
  then show ?case
    using conns.recv_cases(1) [OF drain(2)] by (auto simp: handle_connection_def thread_ok_def Let_def)
next
  case (drained w command inbox)
  then show ?case using conns.recv_cases(2) [OF drained(2)] by (auto simp: thread_ok_def Let_def)
next
  case (all_closed w command)
  then show ?case by (intro worker_exit_ok) (auto simp: thread_ok_def Let_def)
next
  case (timeout w command)
  then show ?case by (intro worker_exit_ok) (auto simp: thread_ok_def Let_def)
next
  case (connection_done c w)
  then show ?case
    by (auto simp: thread_ok_def Let_def split: worker_phase.splits dest: set_remove1_subset [THEN subsetD])
qed

lemma worker_step_keeps:
  assumes "worker_step L w w'"
  shows "wt_dispatched w' = wt_dispatched w" and "wt_id w' = wt_id w" and "ended w \<Longrightarrow> ended w'"
    and "told wview w \<Longrightarrow> told wview w'" and "untold wview w \<Longrightarrow> untold wview w'"
    and "listening wview w \<Longrightarrow> listening wview w'" and "prefix (wt_handled w) (wt_handled w')"
  using assms
proof (induction rule: worker_step.induct)
  case (message w msg w')
  {
    case 1 from message(2) show ?case
      by (cases rule: poll_cases)
        (auto simp: worker_on_message_def worker_exit_def handle_connection_def split: shutdown_mode.split)
  next
    case 2 from message(2) show ?case
      by (cases rule: poll_cases)
        (auto simp: worker_on_message_def worker_exit_def handle_connection_def split: shutdown_mode.split)
  next
    case 3 then show ?case using message(1) by (simp add: ended_def)
  next
    case 4 from message(2) show ?case
    proof (cases rule: poll_cases)
      case (2 c cs inbox inbox')
      with 4 message(1) show ?thesis by (simp add: told_def)
    qed (auto simp: told_def worker_on_message_def worker_exit_def split: shutdown_mode.split)
  next
    case 5 from message(2) show ?case
    proof (cases rule: poll_cases)
      case (1 command inbox commands)
      with 5 message(1) show ?thesis by (simp add: untold_def)
    qed (use 5 message(1) in \<open>auto simp: untold_def worker_on_message_def handle_connection_def\<close>)
  next
    case 6 from message(2) show ?case
      by (cases rule: poll_cases)
        (use 6 message(1) in \<open>auto simp: listening_def worker_on_message_def worker_exit_def handle_connection_def
          split: shutdown_mode.split\<close>)
  next
    case 7 from message(2) show ?case
      by (cases rule: poll_cases)
        (auto simp: worker_on_message_def worker_exit_def handle_connection_def split: shutdown_mode.split)
  }
qed (auto simp: worker_exit_def handle_connection_def ended_def told_def untold_def listening_def
    works.drop_receiver_view view_drop_receiver_def split: worker_phase.splits)

lemma crash_step_ok:
  assumes "crash_step L w w'" and "thread_ok cview k w"
  shows "thread_ok cview k w'"
  using assms by (auto elim!: crash_step.cases intro!: worker_exit_ok)

lemma crash_step_keeps:
  assumes "crash_step L w w'"
  shows "wt_dispatched w' = wt_dispatched w" and "wt_id w' = wt_id w" and "ended w \<Longrightarrow> ended w'"
    and "told wview w \<Longrightarrow> told wview w'" and "untold wview w \<Longrightarrow> untold wview w'"
    and "listening wview w \<Longrightarrow> listening wview w'" and "prefix (wt_handled w) (wt_handled w')"
  using assms
  by (auto elim!: crash_step.cases simp: worker_exit_def ended_def told_def untold_def listening_def
      works.drop_receiver_view view_drop_receiver_def)

lemma thread_step_ok:
  assumes inv: "server_inv cview wview s" and t: "t < length (sv_threads s)"
    and w: "worker_step L (sv_threads s ! t) w \<or> crash_step L (sv_threads s ! t) w"
  shows "server_inv cview wview (s\<lparr>sv_threads := (sv_threads s)[t := w]\<rparr>)"
proof -
  from w have keeps: "wt_dispatched w = wt_dispatched (sv_threads s ! t) \<and> wt_id w = wt_id (sv_threads s ! t)
      \<and> (ended (sv_threads s ! t) \<longrightarrow> ended w) \<and> (told wview (sv_threads s ! t) \<longrightarrow> told wview w)
      \<and> (untold wview (sv_threads s ! t) \<longrightarrow> untold wview w) \<and> (listening wview (sv_threads s ! t) \<longrightarrow> listening wview w)
      \<and> (\<forall>k. thread_ok cview k (sv_threads s ! t) \<longrightarrow> thread_ok cview k w)"
  proof
    assume step: "worker_step L (sv_threads s ! t) w"
    show ?thesis using worker_step_keeps [OF step] worker_step_ok [OF step] by simp
  next
    assume step: "crash_step L (sv_threads s ! t) w"
    show ?thesis using crash_step_keeps [OF step] crash_step_ok [OF step] by simp
  qed
  have mem: "sv_threads s ! t \<in> set (sv_threads s)" using t by simp
  have all: "\<forall>x \<in> set ((sv_threads s)[t := w]). P x" if "\<forall>x \<in> set (sv_threads s). P x" "P w" for P
    using that set_update_subset_insert [of "sv_threads s" t w] by auto
  have "handles_ok (s\<lparr>sv_threads := (sv_threads s)[t := w]\<rparr>)"
    using inv keeps by (intro handles_ok_update) (simp_all add: server_inv_def)
  moreover have "\<forall>x \<in> set ((sv_threads s)[t := w]). thread_ok cview (sv_max_queue_length s) x \<and> listening wview x"
    using inv mem keeps by (intro all) (auto simp: server_inv_def)
  moreover have "phase_ok wview (s\<lparr>sv_threads := (sv_threads s)[t := w]\<rparr>)"
    using inv mem keeps all
    by (auto simp: server_inv_def phase_ok_def simp del: set_update_subset_insert split: acceptor_phase.splits)
  moreover have "accounted (s\<lparr>sv_threads := (sv_threads s)[t := w]\<rparr>)"
    using inv dispatched_update_same [OF conjunct1 [OF keeps]] by (simp add: server_inv_def accounted_def)
  ultimately show ?thesis by (simp add: server_inv_def)
qed

end

end
