(* ===== verification/Server_Dispatch.thy ===== *)
theory Server_Dispatch
  imports Server_Invariants
begin

text \<open>
  How the acceptor hands a connection to a worker: it tries the workers in turn, from the one it
  used last, and replaces those it finds crashed.
\<close>

definition free :: "('c \<Rightarrow> connection_message channel_view) \<Rightarrow> ('c, 'd) worker_thread \<Rightarrow> bool" where
  "free cview w \<longleftrightarrow> accepting (cview (wt_connection_inbox w)) \<and> has_room (cview (wt_connection_inbox w))"

definition pool_ok :: "('c \<Rightarrow> connection_message channel_view) \<Rightarrow> ('d \<Rightarrow> shutdown_worker_command channel_view)
    \<Rightarrow> ('c, 'd, 'e) server \<Rightarrow> bool" where
  "pool_ok cview wview s \<longleftrightarrow> handles_ok s \<and> (\<forall>w \<in> set (sv_threads s).
     thread_ok cview (sv_max_queue_length s) w \<and> listening wview w \<and> untold wview w)"

text \<open>What handing out connections does not touch\<close>

definition same_rest :: "('c, 'd, 'e) server \<Rightarrow> ('c, 'd, 'e) server \<Rightarrow> bool" where
  "same_rest s s' \<longleftrightarrow> sv_phase s' = sv_phase s \<and> sv_incoming s' = sv_incoming s \<and> sv_accepted s' = sv_accepted s
     \<and> sv_rejected s' = sv_rejected s \<and> sv_command_inbox s' = sv_command_inbox s \<and> sv_notified s' = sv_notified s
     \<and> sv_max_queue_length s' = sv_max_queue_length s
     \<and> length (sv_worker_handles s') = length (sv_worker_handles s)"

lemma same_rest_refl [simp]: "same_rest s s"
  by (simp add: same_rest_def)

lemma same_rest_trans: "same_rest s s' \<Longrightarrow> same_rest s' s'' \<Longrightarrow> same_rest s s''"
  by (simp add: same_rest_def)

lemma same_rest_update [simp]:
  "same_rest s (s\<lparr>sv_threads := ts\<rparr>)" "same_rest s (s\<lparr>sv_threads := ts, sv_next_worker := i\<rparr>)"
  by (simp_all add: same_rest_def)

lemma worker_at_update:
  assumes "handles_ok s" and "i < length (sv_worker_handles s)" "j < length (sv_worker_handles s)"
  shows "worker_at (s\<lparr>sv_threads := (sv_threads s)[wh_thread (sv_worker_handles s ! i) := w]\<rparr>) j =
    (if j = i then w else worker_at s j)"
proof -
  have "wh_thread (sv_worker_handles s ! i) = wh_thread (sv_worker_handles s ! j) \<longleftrightarrow> i = j"
    using handles_okD(3) [OF assms(1)] assms(2,3) by (simp add: distinct_conv_nth) metis
  then show ?thesis
    using handles_okD(5) [OF assms(1,3)] by (auto simp: worker_at_def nth_list_update)
qed

lemma worker_at_next [simp]: "worker_at (s\<lparr>sv_next_worker := i\<rparr>) j = worker_at s j"
  by (simp add: worker_at_def)

lemma worker_at_in: "handles_ok s \<Longrightarrow> i < length (sv_worker_handles s) \<Longrightarrow> worker_at s i \<in> set (sv_threads s)"
  unfolding worker_at_def by (rule nth_mem) (rule handles_okD(5))

lemma pool_okD:
  assumes "pool_ok cview wview s"
  shows "handles_ok s" and "w \<in> set (sv_threads s) \<Longrightarrow> thread_ok cview (sv_max_queue_length s) w"
    and "w \<in> set (sv_threads s) \<Longrightarrow> listening wview w" and "w \<in> set (sv_threads s) \<Longrightarrow> untold wview w"
  using assms by (simp_all add: pool_ok_def)

lemma pool_ok_update:
  assumes pool: "pool_ok cview wview s" and w: "thread_ok cview (sv_max_queue_length s) w" "listening wview w" "untold wview w"
    "wt_id w = wt_id (sv_threads s ! t)" "ended (sv_threads s ! t) \<Longrightarrow> ended w"
    and nw: "i < length (sv_worker_handles s)"
  shows "pool_ok cview wview (s\<lparr>sv_threads := (sv_threads s)[t := w], sv_next_worker := i\<rparr>)"
proof -
  have "handles_ok (s\<lparr>sv_threads := (sv_threads s)[t := w]\<rparr>)"
    using handles_ok_update [OF pool_okD(1) [OF pool] w(4,5)] by simp
  then have "handles_ok (s\<lparr>sv_threads := (sv_threads s)[t := w], sv_next_worker := i\<rparr>)"
    using nw by (simp add: handles_ok_def)
  moreover have "x = w \<or> x \<in> set (sv_threads s)" if "x \<in> set ((sv_threads s)[t := w])" for x
    using that set_update_subset_insert [of "sv_threads s" t w] by auto
  ultimately show ?thesis using pool w(1-3) by (auto simp: pool_ok_def)
qed

context server_channels
begin

lemma pool_ok_restart:
  assumes pool: "pool_ok cview wview s" and i: "i < length (sv_worker_handles s)" "ended (worker_at s i)"
  shows "pool_ok cview wview (s\<lparr>sv_threads := sv_threads s @ [worker_new L i (sv_max_queue_length s)],
    sv_worker_handles := (sv_worker_handles s)[i := \<lparr>wh_thread = length (sv_threads s), wh_id = i\<rparr>]\<rparr>)"
    (is "pool_ok cview wview ?s")
proof -
  note h = handles_okD [OF pool_okD(1) [OF pool]]
  let ?hs = "sv_worker_handles s" and ?h = "\<lparr>wh_thread = length (sv_threads s), wh_id = i\<rparr>"
  have fresh: "length (sv_threads s) \<notin> set (map wh_thread ?hs)"
    using h(5) by (auto simp: in_set_conv_nth) (metis less_irrefl)
  have "distinct (map wh_thread (?hs[i := ?h]))"
    using h(3) fresh by (simp add: map_update distinct_list_update)
  moreover have "wh_id (?hs[i := ?h] ! j) = j \<and> wh_thread (?hs[i := ?h] ! j) < length (sv_threads ?s)
      \<and> wt_id (sv_threads ?s ! wh_thread (?hs[i := ?h] ! j)) = j" if j: "j < length ?hs" for j
    using h(4,5,6) [OF j] i(1) j by (cases "j = i") (auto simp: nth_append worker_new_def worker_at_def less_Suc_eq)
  moreover have "ended (sv_threads ?s ! t)"
    if t: "t < length (sv_threads ?s)" "t \<notin> wh_thread ` set (?hs[i := ?h])" for t
  proof -
    have "?h \<in> set (?hs[i := ?h])" using i(1) by (rule set_update_memI)
    then have "t \<noteq> length (sv_threads s)" using t(2) by force
    then have lt: "t < length (sv_threads s)" using t(1) by simp
    have "ended (sv_threads s ! t)"
    proof (cases "t = wh_thread (?hs ! i)")
      case True
      then show ?thesis using i(2) by (simp add: worker_at_def)
    next
      case False
      have "t \<notin> wh_thread ` set ?hs"
      proof
        assume "t \<in> wh_thread ` set ?hs"
        then obtain j where j: "j < length ?hs" "t = wh_thread (?hs ! j)" by (auto simp: in_set_conv_nth)
        then have "j \<noteq> i" using False by auto
        then have "?hs ! j \<in> set (?hs[i := ?h])" using j(1) by (metis length_list_update nth_list_update_neq nth_mem)
        then show False using t(2) j(2) by blast
      qed
      then show ?thesis by (rule h(7) [OF lt])
    qed
    then show ?thesis using lt by (simp add: nth_append)
  qed
  ultimately have "handles_ok ?s"
    using h(1,2,8) i(1) unfolding handles_ok_def by simp
  moreover have "x = worker_new L i (sv_max_queue_length s) \<or> x \<in> set (sv_threads s)" if "x \<in> set (sv_threads ?s)" for x
    using that by auto
  ultimately show ?thesis using pool worker_new_ok by (auto simp: pool_ok_def)
qed

text \<open>One attempt: the worker takes the connection, or the next one is tried and this one is alive.\<close>

lemma dispatch_cases:
  assumes pool: "pool_ok cview wview s"
  defines "n \<equiv> length (sv_worker_handles s)" and "i \<equiv> sv_next_worker s"
  obtains (sent) s' where "free cview (worker_at s i)"
      "\<And>k. dispatch_loop L n (Suc k) c s = Inr (True, s')" "pool_ok cview wview s'" "same_rest s s'"
      "sv_next_worker s' = i" "\<And>j. j < n \<Longrightarrow> j \<noteq> i \<Longrightarrow> worker_at s' j = worker_at s j"
      "wt_dispatched (worker_at s' i) = wt_dispatched (worker_at s i) @ [c]"
      "dispatched_connections s' = dispatched_connections s + {#c#}"
    | (skip) s' where "\<not> free cview (worker_at s i)"
      "\<And>k. dispatch_loop L n (Suc k) c s = dispatch_loop L n k c s'" "pool_ok cview wview s'" "same_rest s s'"
      "sv_next_worker s' = (i + 1) mod n" "\<And>j. j < n \<Longrightarrow> j \<noteq> i \<Longrightarrow> worker_at s' j = worker_at s j"
      "wt_phase (worker_at s' i) = Running"
      "ended (worker_at s i) \<Longrightarrow> worker_at s' i = worker_new L i (sv_max_queue_length s)"
      "dispatched_connections s' = dispatched_connections s"
proof -
  note h = handles_okD [OF pool_okD(1) [OF pool]]
  let ?t = "wh_thread (sv_worker_handles s ! i)" and ?w = "worker_at s i"
  have i: "i < n" and n: "0 < n" using h(1,2) by (simp_all add: i_def n_def)
  then have i': "i < length (sv_worker_handles s)" by (simp add: n_def)
  have t: "?t < length (sv_threads s)" and w: "sv_threads s ! ?t = ?w" using h(5) [OF i'] by (simp_all add: worker_at_def)
  have mem: "?w \<in> set (sv_threads s)" by (rule worker_at_in [OF pool_okD(1) [OF pool] i'])
  note ok = pool_okD(2-4) [OF pool mem]
  obtain r q where r: "mpsc_try_send (connection_lib L) c (wt_connection_inbox ?w) = (r, q)" by fastforce
  let ?w' = "?w\<lparr>wt_connection_inbox := q, wt_dispatched := wt_dispatched ?w @ (if r = None then [c] else [])\<rparr>"
  let ?s = "s\<lparr>sv_threads := (sv_threads s)[?t := ?w']\<rparr>"
  have disp: "worker_dispatch L ?t c s = (r, ?s)" by (simp add: worker_dispatch_def Let_def w r)
  have phase: "wt_phase ?w = Running \<or> wt_phase ?w = Crashed" using ok(3) by (auto simp: untold_def)
  have running: "accepting (cview (wt_connection_inbox ?w)) \<longleftrightarrow> wt_phase ?w = Running"
    using ok(1) phase by (auto simp: thread_ok_def Let_def)
  have others: "worker_at (s\<lparr>sv_threads := (sv_threads s)[?t := x]\<rparr>) j = (if j = i then x else worker_at s j)"
    if "j < n" for j x
    using worker_at_update [OF pool_okD(1) [OF pool] i', of j x] that by (simp add: n_def)
  have pool': "pool_ok cview wview (?s\<lparr>sv_next_worker := j\<rparr>)"
    if "thread_ok cview (sv_max_queue_length s) ?w'" "j < n" for j
    using pool_ok_update [OF pool that(1), of ?t j] ok(2,3) that(2) by (simp add: w listening_def untold_def ended_def n_def)
  have total: "dispatched_connections ?s = dispatched_connections s + (if r = None then {#c#} else {#})"
    using dispatched_update [OF t, of ?w'] by (simp add: w)
  show thesis
  proof (cases r)
    case None
    note v = conns.send_cases(1) [OF r None]
    have k: "\<And>k. dispatch_loop L n (Suc k) c s = Inr (True, ?s)"
      using i' by (simp add: i_def [symmetric] disp None)
    have "thread_ok cview (sv_max_queue_length s) ?w'"
      using ok(1) v running None
      by (auto simp: thread_ok_def Let_def has_room_def prefix_def)
    from pool' [OF this i] have "pool_ok cview wview ?s" by (simp add: i_def)
    then show thesis
      using sent [OF _ k] v others [of _ ?w'] total None i by (simp add: free_def i_def)
  next
    case (Some e)
    have same: "cview q = cview (wt_connection_inbox ?w)" and nf: "\<not> free cview ?w"
      using conns.send_cases(2,3) [OF r] Some by (cases e; simp add: free_def)+
    have ok': "thread_ok cview (sv_max_queue_length s) ?w'"
      using ok(1) same Some phase by (auto simp: thread_ok_def Let_def)
    let ?j = "(i + 1) mod n"
    have j: "?j < n" using n by simp
    note p = pool' [OF ok' j]
    show thesis
    proof (cases e)
      case Full
      have k: "\<And>k. dispatch_loop L n (Suc k) c s = dispatch_loop L n k c (?s\<lparr>sv_next_worker := ?j\<rparr>)"
        using i' by (simp add: i_def [symmetric] disp Some Full)
      have "wt_phase ?w = Running" using conns.send_cases(2) [OF r] Some Full running by simp
      then have "\<not> ended ?w" by (simp add: ended_def)
      then show thesis
        using skip [OF nf k p] others [of _ ?w'] total Some i \<open>wt_phase ?w = Running\<close>
        by (simp add: dispatched_connections_def)
    next
      case Closed
      have crashed: "ended ?w" using conns.send_cases(3) [OF r] Some Closed running phase by (simp add: ended_def)
      let ?s1 = "?s\<lparr>sv_next_worker := ?j\<rparr>"
      let ?s2 = "?s1\<lparr>sv_threads := sv_threads ?s1 @ [worker_new L i (sv_max_queue_length ?s1)],
        sv_worker_handles := (sv_worker_handles ?s1)[i := \<lparr>wh_thread = length (sv_threads ?s1), wh_id = i\<rparr>]\<rparr>"
      have k: "\<And>k. dispatch_loop L n (Suc k) c s = dispatch_loop L n k c ?s2"
        using i' h(4) [OF i'] by (simp add: i_def [symmetric] disp Some Closed restart_worker_def)
      have "ended (worker_at ?s1 i)" using crashed others [OF i, of ?w'] by (simp add: ended_def)
      from pool_ok_restart [OF p _ this] i' have "pool_ok cview wview ?s2" by simp
      moreover have "worker_at ?s2 l = (if l = i then worker_new L i (sv_max_queue_length s) else worker_at s l)" if l: "l < n" for l
      proof -
        have "wh_thread (sv_worker_handles s ! l) < length (sv_threads s)" using h(5) l by (simp add: n_def)
        then show ?thesis
          using others [OF l, of ?w'] i' by (auto simp: worker_at_def nth_append)
      qed
      moreover have "dispatched_connections ?s2 = dispatched_connections s"
        using total Some by (simp add: dispatched_connections_def worker_new_def)
      moreover have "same_rest s ?s2" by (simp add: same_rest_def)
      ultimately show thesis
        using skip [OF nf k] i by (simp add: worker_new_def)
    qed
  qed
qed

lemma dispatch_loop_ok:
  assumes "pool_ok cview wview s" and "n = length (sv_worker_handles s)"
  shows "\<exists>b s'. dispatch_loop L n k c s = Inr (b, s') \<and> pool_ok cview wview s' \<and> same_rest s s'
    \<and> dispatched_connections s' = dispatched_connections s + (if b then {#c#} else {#})"
  using assms
proof (induction k arbitrary: s)
  case (Suc k)
  show ?case
  proof (cases rule: dispatch_cases [OF Suc.prems(1), of c])
    case (1 s')
    then show ?thesis using Suc.prems(2) by auto
  next
    case (2 s')
    have "n = length (sv_worker_handles s')" using 2(4) Suc.prems(2) by (simp add: same_rest_def)
    from Suc.IH [OF 2(3) this] obtain b t where t: "dispatch_loop L n k c s' = Inr (b, t)"
        "pool_ok cview wview t" "same_rest s' t"
        "dispatched_connections t = dispatched_connections s' + (if b then {#c#} else {#})" by blast
    then show ?thesis
      using 2(2) [of k] 2(9) same_rest_trans [OF 2(4) t(3)] unfolding Suc.prems(2) [symmetric] by auto
  qed
qed (auto intro: exI [of _ False])

text \<open>The workers in the order in which they are tried, and what the loop does to them.\<close>

lemma dispatch_loop_finds:
  assumes "pool_ok cview wview s" and "n = length (sv_worker_handles s)" and "k \<le> n"
    and "dispatch_loop L n k c s = Inr (b, s')"
  defines "at \<equiv> \<lambda>s j. worker_at s ((sv_next_worker s + j) mod n)"
  shows "if b then \<exists>j < k. free cview (at s j) \<and> (\<forall>l < j. \<not> free cview (at s l))
        \<and> sv_next_worker s' = (sv_next_worker s + j) mod n
        \<and> wt_dispatched (at s' 0) = wt_dispatched (at s j) @ [c]
      else (\<forall>j < k. \<not> free cview (at s j))
        \<and> (\<forall>j < k. let w = worker_at s' ((sv_next_worker s + j) mod n) in wt_phase w = Running
             \<and> (ended (at s j) \<longrightarrow> w = worker_new L ((sv_next_worker s + j) mod n) (sv_max_queue_length s)))
        \<and> (\<forall>i < n. (\<forall>j < k. i \<noteq> (sv_next_worker s + j) mod n) \<longrightarrow> worker_at s' i = worker_at s i)"
  using assms(1-4) unfolding at_def
proof (induction k arbitrary: s)
  case (Suc k)
  let ?i = "sv_next_worker s"
  have i: "?i < n" using handles_okD(2) [OF pool_okD(1) [OF Suc.prems(1)]] Suc.prems(2) by simp
  have here: "(?i + 0) mod n = ?i" using i by simp
  have all: "(\<forall>j < Suc k. P j) \<longleftrightarrow> P 0 \<and> (\<forall>j < k. P (Suc j))" for P :: "nat \<Rightarrow> bool"
    by (auto simp: less_Suc_eq_0_disj)
  show ?case
  proof (cases rule: dispatch_cases [OF Suc.prems(1), of c])
    case (1 t)
    then have "b" "s' = t" using Suc.prems(2,4) by auto
    then show ?thesis using 1(1,5,7) i Suc.prems(2) by (auto intro!: exI [of _ 0])
  next
    case (2 t)
    have t: "n = length (sv_worker_handles t)" "k \<le> n" "dispatch_loop L n k c t = Inr (b, s')"
        "sv_max_queue_length t = sv_max_queue_length s"
      using 2(2) [of k] 2(4) Suc.prems(2-4) by (simp_all add: same_rest_def)
    have nx: "(sv_next_worker t + j) mod n = (?i + Suc j) mod n" for j
      using mod_add_left_eq [of "Suc ?i" n j] 2(5) Suc.prems(2) by simp
    have far: "(?i + Suc j) mod n \<noteq> ?i" if "j < k" for j
    proof
      assume "(?i + Suc j) mod n = ?i"
      then have "n dvd Suc j" using i by (metis add_diff_cancel_left' mod_eq_dvd_iff_nat mod_less le_add1)
      then show False using that Suc.prems(3) by (auto dest: dvd_imp_le)
    qed
    have same: "worker_at t ((?i + Suc j) mod n) = worker_at s ((?i + Suc j) mod n)" if "j < k" for j
    proof (rule 2(6) [folded Suc.prems(2)])
      show "(?i + Suc j) mod n < n" using i by simp
    qed (rule far [OF that])
    note IH = Suc.IH [OF 2(3) t(1-3), unfolded nx t(4)]
    show ?thesis
    proof (cases b)
      case True
      then obtain j where j: "j < k" "free cview (worker_at t ((?i + Suc j) mod n))"
          "\<forall>l < j. \<not> free cview (worker_at t ((?i + Suc l) mod n))" "sv_next_worker s' = (?i + Suc j) mod n"
          "wt_dispatched (worker_at s' ((sv_next_worker s' + 0) mod n)) = wt_dispatched (worker_at t ((?i + Suc j) mod n)) @ [c]"
        using IH by auto
      have "\<forall>l < Suc j. \<not> free cview (worker_at s ((?i + l) mod n))"
        using j(1,3) same 2(1) here by (auto simp: less_Suc_eq_0_disj)
      then show ?thesis using True j same [OF j(1)] by (auto intro!: exI [of _ "Suc j"])
    next
      case False
      then have later: "\<forall>j < k. \<not> free cview (worker_at s ((?i + Suc j) mod n))"
          "\<forall>j < k. let w = worker_at s' ((?i + Suc j) mod n) in wt_phase w = Running
             \<and> (ended (worker_at s ((?i + Suc j) mod n)) \<longrightarrow> w = worker_new L ((?i + Suc j) mod n) (sv_max_queue_length s))"
          "\<forall>i < n. (\<forall>j < k. i \<noteq> (?i + Suc j) mod n) \<longrightarrow> worker_at s' i = worker_at t i"
        using IH same by simp_all
      have "worker_at s' ?i = worker_at t ?i" using later(3) i far by metis
      then have first: "let w = worker_at s' ((?i + 0) mod n) in wt_phase w = Running
             \<and> (ended (worker_at s ((?i + 0) mod n)) \<longrightarrow> w = worker_new L ((?i + 0) mod n) (sv_max_queue_length s))"
        using 2(7,8) unfolding here Let_def by simp
      have "worker_at s' l = worker_at s l" if "l < n" "\<forall>j < Suc k. l \<noteq> (?i + j) mod n" for l
        using that later(3) 2(6) [of l] here Suc.prems(2) unfolding all by auto
      then show ?thesis using False later(1,2) first 2(1) unfolding all here by simp
    qed
  qed
qed simp

end

end
