(* ===== verification/Server_Correctness.thy ===== *)
theory Server_Correctness
  imports Server_Dispatch
begin

text \<open>
  The invariant of the server holds in every reachable state, and what follows from it.
\<close>

section \<open>All handles at once\<close>

definition same_thread :: "('c, 'd) worker_thread \<Rightarrow> ('c, 'd) worker_thread \<Rightarrow> bool" where
  "same_thread w w' \<longleftrightarrow> wt_id w' = wt_id w \<and> wt_phase w' = wt_phase w \<and> wt_live w' = wt_live w
     \<and> wt_dispatched w' = wt_dispatched w \<and> wt_handled w' = wt_handled w"

lemma same_thread_refl [simp]: "same_thread w w"
  by (simp add: same_thread_def)

lemma same_thread_trans: "same_thread w w' \<Longrightarrow> same_thread w' w'' \<Longrightarrow> same_thread w w''"
  by (simp add: same_thread_def)

lemma same_thread_ended: "same_thread w w' \<Longrightarrow> ended w' = ended w"
  by (simp add: same_thread_def ended_def)

definition update_thread :: "(nat \<Rightarrow> ('c, 'd) worker_thread \<Rightarrow> ('c, 'd) worker_thread) \<Rightarrow> worker_handle
    \<Rightarrow> ('c, 'd, 'e) server \<Rightarrow> ('c, 'd, 'e) server" where
  "update_thread f h s =
     s\<lparr>sv_threads := (sv_threads s)[wh_thread h := f (wh_thread h) (sv_threads s ! wh_thread h)]\<rparr>"

lemma fold_update_thread:
  assumes f: "\<And>t w. I w \<Longrightarrow> I (f t w) \<and> same_thread w (f t w) \<and> T (f t w)"
    and "\<forall>w \<in> set (sv_threads s). I w" and "\<forall>h \<in> set hs. wh_thread h < length (sv_threads s)"
  shows "\<exists>ts. fold (update_thread f) hs s = s\<lparr>sv_threads := ts\<rparr> \<and> length ts = length (sv_threads s)
    \<and> (\<forall>w \<in> set ts. I w) \<and> (\<forall>t < length ts. same_thread (sv_threads s ! t) (ts ! t))
    \<and> (\<forall>t < length ts. t \<in> wh_thread ` set hs \<or> T (sv_threads s ! t) \<longrightarrow> T (ts ! t))"
  using assms(2,3)
proof (induction hs arbitrary: s)
  case Nil
  then show ?case by (intro exI [of _ "sv_threads s"]) simp
next
  case (Cons h hs)
  let ?t = "wh_thread h" and ?s = "update_thread f h s"
  have t: "?t < length (sv_threads s)" using Cons.prems(2) by simp
  then have w: "sv_threads s ! ?t \<in> set (sv_threads s)" by simp
  note fw = f [OF bspec [OF Cons.prems(1) w], of ?t]
  have threads: "sv_threads ?s = (sv_threads s)[?t := f ?t (sv_threads s ! ?t)]" by (simp add: update_thread_def)
  have "\<forall>w \<in> set (sv_threads ?s). I w"
    unfolding threads using fw Cons.prems(1) set_update_subset_insert [of "sv_threads s"] by blast
  moreover have "\<forall>h \<in> set hs. wh_thread h < length (sv_threads ?s)" using Cons.prems(2) by (simp add: threads)
  ultimately obtain ts where ts: "fold (update_thread f) hs ?s = ?s\<lparr>sv_threads := ts\<rparr>"
      "length ts = length (sv_threads ?s)" "\<forall>w \<in> set ts. I w"
      "\<forall>t < length ts. same_thread (sv_threads ?s ! t) (ts ! t)"
      "\<forall>t < length ts. t \<in> wh_thread ` set hs \<or> T (sv_threads ?s ! t) \<longrightarrow> T (ts ! t)"
    using Cons.IH [of ?s] by blast
  have step: "same_thread (sv_threads s ! t) (sv_threads ?s ! t)" if "t < length ts" for t
    using fw that ts(2) by (cases "t = ?t") (simp_all add: threads)
  have reach: "T (sv_threads ?s ! t)" if "t < length ts" "t = ?t \<or> T (sv_threads s ! t)" for t
    using fw that ts(2) by (cases "t = ?t") (simp_all add: threads)
  show ?case
  proof (intro exI [of _ ts] conjI)
    show "fold (update_thread f) (h # hs) s = s\<lparr>sv_threads := ts\<rparr>" using ts(1) by (simp add: update_thread_def)
    show "\<forall>t < length ts. same_thread (sv_threads s ! t) (ts ! t)" using step ts(4) same_thread_trans by blast
    show "\<forall>t < length ts. t \<in> wh_thread ` set (h # hs) \<or> T (sv_threads s ! t) \<longrightarrow> T (ts ! t)"
      using reach ts(5) by auto
  qed (use ts(2,3) in \<open>simp_all add: threads\<close>)
qed

definition shutdown_thread :: "('c, 'd, 'e) channels \<Rightarrow> shutdown_mode \<Rightarrow> nat
    \<Rightarrow> ('c, 'd) worker_thread \<Rightarrow> ('c, 'd) worker_thread" where
  "shutdown_thread L mode t w = w\<lparr>
     wt_shutdown_inbox := mpsc_drop_senders (worker_lib L)
       (snd (mpsc_try_send (worker_lib L) \<lparr>sw_completion_notifier = t, sw_mode = mode\<rparr> (wt_shutdown_inbox w))),
     wt_connection_inbox := mpsc_drop_senders (connection_lib L) (wt_connection_inbox w)\<rparr>"

definition drop_thread :: "('c, 'd, 'e) channels \<Rightarrow> nat \<Rightarrow> ('c, 'd) worker_thread \<Rightarrow> ('c, 'd) worker_thread" where
  "drop_thread L t w = w\<lparr>
     wt_shutdown_inbox := mpsc_drop_senders (worker_lib L) (wt_shutdown_inbox w),
     wt_connection_inbox := mpsc_drop_senders (connection_lib L) (wt_connection_inbox w)\<rparr>"

lemma worker_shutdown_update: "worker_shutdown L mode = update_thread (shutdown_thread L mode)"
  by (simp add: fun_eq_iff worker_shutdown_def update_thread_def shutdown_thread_def Let_def)

lemma drop_handle_update: "drop_handle L = update_thread (drop_thread L)"
  by (simp add: fun_eq_iff drop_handle_def update_thread_def drop_thread_def Let_def)

lemma handles_ok_same:
  assumes "handles_ok s" and "length ts = length (sv_threads s)"
    and same: "\<forall>t < length ts. same_thread (sv_threads s ! t) (ts ! t)"
  shows "handles_ok (s\<lparr>sv_threads := ts\<rparr>)"
proof -
  have "ended (ts ! t) = ended (sv_threads s ! t)" "wt_id (ts ! t) = wt_id (sv_threads s ! t)" if "t < length ts" for t
    using same that same_thread_ended by (blast, simp add: same_thread_def)
  then show ?thesis using assms(1,2) unfolding handles_ok_def by auto
qed

lemma dispatched_same:
  assumes "length ts = length (sv_threads s)" and same: "\<forall>t < length ts. same_thread (sv_threads s ! t) (ts ! t)"
  shows "dispatched_connections (s\<lparr>sv_threads := ts\<rparr>) = dispatched_connections s"
proof -
  have "map (\<lambda>w. mset (wt_dispatched w)) ts = map (\<lambda>w. mset (wt_dispatched w)) (sv_threads s)"
    using assms by (intro nth_equalityI) (simp_all add: same_thread_def)
  then show ?thesis by (simp add: dispatched_connections_def)
qed

lemma server_inv_frame [simp]:
  "server_inv cview wview (s\<lparr>sv_command_inbox := q\<rparr>) = server_inv cview wview s"
  "server_inv cview wview (s\<lparr>sv_notified := ns\<rparr>) = server_inv cview wview s"
  by (simp_all add: server_inv_def handles_ok_def phase_ok_def accounted_def dispatched_connections_def
      cong: acceptor_phase.case_cong)

lemma server_invD:
  assumes "server_inv cview wview s"
  shows "handles_ok s" and "w \<in> set (sv_threads s) \<Longrightarrow> thread_ok cview (sv_max_queue_length s) w"
    and "w \<in> set (sv_threads s) \<Longrightarrow> listening wview w" and "phase_ok wview s" and "accounted s"
  using assms by (simp_all add: server_inv_def)

context server_channels
begin

lemma thread_ok_senders:
  assumes "thread_ok cview k w"
  shows "thread_ok cview k (w\<lparr>wt_shutdown_inbox := d, wt_connection_inbox := mpsc_drop_senders (connection_lib L) (wt_connection_inbox w)\<rparr>)"
  using assms by (cases "wt_phase w") (simp_all add: thread_ok_def Let_def conns.drop_senders_view view_drop_senders_def)

lemma shutdown_thread_ok:
  assumes "thread_ok cview k w \<and> listening wview w"
  shows "(thread_ok cview k (shutdown_thread L mode t w) \<and> listening wview (shutdown_thread L mode t w))
    \<and> same_thread w (shutdown_thread L mode t w) \<and> told wview (shutdown_thread L mode t w)"
proof -
  let ?c = "\<lparr>sw_completion_notifier = t, sw_mode = mode\<rparr>"
  obtain r q where r: "mpsc_try_send (worker_lib L) ?c (wt_shutdown_inbox w) = (r, q)" by fastforce
  have run: "r = None" if "wt_phase w = Running"
    using assms that works.send_result [of ?c "wt_shutdown_inbox w"]
    by (auto simp: r listening_def has_room_def)
  have "listening wview (shutdown_thread L mode t w)" "told wview (shutdown_thread L mode t w)"
    using assms run works.send_cases(1) [OF r]
    by (auto simp: listening_def told_def shutdown_thread_def r works.drop_senders_view view_drop_senders_def)
  then show ?thesis
    using assms thread_ok_senders [of k w] by (simp add: shutdown_thread_def same_thread_def)
qed

lemma drop_thread_ok:
  assumes "thread_ok cview k w \<and> listening wview w \<and> untold wview w"
  shows "(thread_ok cview k (drop_thread L t w) \<and> listening wview (drop_thread L t w) \<and> untold wview (drop_thread L t w))
    \<and> same_thread w (drop_thread L t w) \<and> True"
  using assms thread_ok_senders [of k w]
  by (simp add: drop_thread_def same_thread_def listening_def untold_def works.drop_senders_view view_drop_senders_def)

lemma acceptor_shutdown_ok:
  assumes inv: "server_inv cview wview s" and phase: "sv_phase s = Accepting"
  shows "server_inv cview wview (acceptor_shutdown L notifier mode s)"
proof -
  let ?s = "s\<lparr>sv_incoming := []\<rparr>" and ?hs = "sv_worker_handles s" and ?f = "shutdown_thread L mode"
  note i = server_invD [OF inv] and h = handles_okD [OF server_invD(1) [OF inv]]
  have "\<forall>w \<in> set (sv_threads ?s). thread_ok cview (sv_max_queue_length s) w \<and> listening wview w"
    using i(2,3) by simp
  moreover have "\<forall>h \<in> set ?hs. wh_thread h < length (sv_threads ?s)"
    using h(5) by (auto simp: in_set_conv_nth)
  ultimately obtain ts where ts: "fold (worker_shutdown L mode) ?hs ?s = ?s\<lparr>sv_threads := ts\<rparr>"
      "length ts = length (sv_threads s)" "\<forall>w \<in> set ts. thread_ok cview (sv_max_queue_length s) w \<and> listening wview w"
      "\<forall>t < length ts. same_thread (sv_threads s ! t) (ts ! t)"
      "\<forall>t < length ts. t \<in> wh_thread ` set ?hs \<or> told wview (sv_threads s ! t) \<longrightarrow> told wview (ts ! t)"
    using fold_update_thread [where f = "?f" and I = "\<lambda>w. thread_ok cview (sv_max_queue_length s) w \<and> listening wview w"
        and T = "told wview" and s = ?s and hs = ?hs, OF shutdown_thread_ok]
    unfolding worker_shutdown_update by auto
  have "told wview (ts ! t)" if "t < length ts" for t
  proof (cases "t \<in> wh_thread ` set ?hs")
    case False
    then have "ended (sv_threads s ! t)" using h(7) that ts(2) by simp
    then have "told wview (sv_threads s ! t)" by (auto simp: told_def ended_def)
    then show ?thesis using ts(5) that by blast
  qed (use ts(5) that in blast)
  then have told: "\<forall>w \<in> set ts. told wview w" by (auto simp: in_set_conv_nth)
  have hok: "handles_ok (s\<lparr>sv_threads := ts\<rparr>)" by (rule handles_ok_same [OF i(1) ts(2,4)])
  have acc: "dispatched_connections (s\<lparr>sv_threads := ts\<rparr>) = dispatched_connections s"
    by (rule dispatched_same [OF ts(2,4)])
  show ?thesis
    using ts(1,3) told hok acc i(5) unfolding acceptor_shutdown_def Let_def ts(1)
    by (simp add: server_inv_def handles_ok_def phase_ok_def accounted_def acceptor_done_def dispatched_connections_def)
qed

lemma acceptor_fail_ok:
  assumes inv: "server_inv cview wview s" and phase: "sv_phase s = Accepting"
  shows "server_inv cview wview (acceptor_fail L AcceptorFailed s)"
proof -
  let ?s = "s\<lparr>sv_incoming := [], sv_phase := AcceptorFailed,
      sv_command_inbox := mpsc_drop_receiver (server_lib L) (sv_command_inbox s)\<rparr>"
  let ?I = "\<lambda>w. thread_ok cview (sv_max_queue_length s) w \<and> listening wview w \<and> untold wview w"
  note i = server_invD [OF inv] and h = handles_okD [OF server_invD(1) [OF inv]]
  have "\<forall>w \<in> set (sv_threads ?s). ?I w" using i(2-4) phase by (simp add: phase_ok_def)
  moreover have "\<forall>h \<in> set (sv_worker_handles s). wh_thread h < length (sv_threads ?s)"
    using h(5) by (auto simp: in_set_conv_nth)
  ultimately obtain ts where ts: "fold (drop_handle L) (sv_worker_handles s) ?s = ?s\<lparr>sv_threads := ts\<rparr>"
      "length ts = length (sv_threads s)" "\<forall>w \<in> set ts. ?I w"
      "\<forall>t < length ts. same_thread (sv_threads s ! t) (ts ! t)"
    using fold_update_thread [where f = "drop_thread L" and I = ?I
        and T = "\<lambda>w. True" and s = ?s and hs = "sv_worker_handles s", OF drop_thread_ok]
    unfolding drop_handle_update by auto
  have hok: "handles_ok (s\<lparr>sv_threads := ts\<rparr>)" by (rule handles_ok_same [OF i(1) ts(2,4)])
  have acc: "dispatched_connections (s\<lparr>sv_threads := ts\<rparr>) = dispatched_connections s"
    by (rule dispatched_same [OF ts(2,4)])
  show ?thesis
    using ts(3) hok acc i(5) unfolding acceptor_fail_def ts(1)
    by (simp add: server_inv_def handles_ok_def phase_ok_def accounted_def dispatched_connections_def)
qed

lemma acceptor_accept_ok:
  assumes inv: "server_inv cview wview s" and phase: "sv_phase s = Accepting"
  shows "server_inv cview wview (acceptor_on_message L (Connection (Some (Accepted l stream peer))) s)"
    and "sv_phase (acceptor_on_message L (Connection (Some (Accepted l stream peer))) s) = Accepting"
proof -
  let ?c = "\<lparr>cm_connection = stream, cm_peer_addr = peer\<rparr>" and ?n = "length (sv_worker_handles s)"
  let ?s = "s\<lparr>sv_incoming := remove1 l (sv_incoming s) @ [l], sv_accepted := sv_accepted s @ [?c]\<rparr>"
  note i = server_invD [OF inv]
  have "pool_ok cview wview ?s"
    using i(1-4) phase by (simp add: pool_ok_def phase_ok_def handles_ok_def)
  then obtain b t where t: "dispatch_loop L ?n ?n ?c ?s = Inr (b, t)" "pool_ok cview wview t" "same_rest ?s t"
      "dispatched_connections t = dispatched_connections ?s + (if b then {#?c#} else {#})"
    using dispatch_loop_ok [of ?s ?n ?n ?c] by auto
  let ?t = "if b then t else t\<lparr>sv_rejected := sv_rejected t @ [?c]\<rparr>"
  have result: "acceptor_on_message L (Connection (Some (Accepted l stream peer))) s = ?t"
    using t(1) by (cases b) (simp_all add: acceptor_on_message_def Let_def)
  have "accounted ?t"
    using i(5) t(3,4) by (cases b) (simp_all add: accounted_def same_rest_def dispatched_connections_def)
  then show "server_inv cview wview (acceptor_on_message L (Connection (Some (Accepted l stream peer))) s)"
    unfolding result using t(2,3) phase
    by (cases b) (auto simp: server_inv_def pool_ok_def phase_ok_def same_rest_def handles_ok_def)
  show "sv_phase (acceptor_on_message L (Connection (Some (Accepted l stream peer))) s) = Accepting"
    unfolding result using t(3) phase by (cases b) (simp_all add: same_rest_def)
qed

lemma poll_keeps:
  "acceptor_poll_inboxes L joined s = (r, s') \<Longrightarrow> \<exists>q. s' = s\<lparr>sv_command_inbox := q\<rparr>"
  by (auto simp: acceptor_poll_inboxes_def split: prod.splits poll.splits option.splits)

lemma acceptor_done_ok:
  assumes "sv_phase s = AwaitingWorkers notifier" and "server_inv cview wview s"
  shows "server_inv cview wview (acceptor_done L notifier s)"
  using assms
  by (auto simp: acceptor_done_def server_inv_def handles_ok_def phase_ok_def accounted_def dispatched_connections_def)

lemma server_step_ok:
  assumes "server_step L s s'" and "server_inv cview wview s"
  shows "server_inv cview wview s'"
  using assms
proof (induction rule: server_step.induct)
  case (accept s joined msg s')
  obtain q where q: "s' = s\<lparr>sv_command_inbox := q\<rparr>" using poll_keeps [OF accept(3)] by blast
  have inv: "server_inv cview wview s'" and phase: "sv_phase s' = Accepting" using accept(1,4) by (simp_all add: q)
  have listeners: "sv_incoming s \<noteq> []" using server_invD(4) [OF accept(4)] accept(1) by (simp add: phase_ok_def)
  show ?case
  proof (cases msg)
    case (ServerCommand command)
    then show ?thesis
      using acceptor_shutdown_ok [OF inv phase] by (cases command) (simp add: acceptor_on_message_def)
  next
    case (Connection m)
    then have "joined = Ready m"
      using accept(3) by (auto simp: acceptor_poll_inboxes_def split: prod.splits poll.splits option.splits)
    then obtain j where "m = Some j" using accept(2) listeners by (cases m) (simp_all add: join_ready_def)
    then show ?thesis
      using Connection acceptor_accept_ok(1) [OF inv phase] acceptor_fail_ok [OF inv phase]
      by (cases j) (simp_all add: acceptor_on_message_def)
  qed
next
  case (workers_done s notifier)
  then show ?case by (intro acceptor_done_ok)
next
  case (shutdown_timeout s notifier)
  then show ?case by (intro acceptor_done_ok)
next
  case (worker t s w)
  then show ?case using thread_step_ok by blast
qed

lemma acceptor_new_ok:
  assumes "0 < n" and "ls \<noteq> []"
  shows "server_inv cview wview (acceptor_new L n ls)"
proof -
  have "sum_list (map (\<lambda>w. mset (wt_dispatched w)) (map (\<lambda>i. worker_new L i 15) [0..<n])) = {#}"
    by (induction n) (simp_all add: worker_new_def)
  then show ?thesis
    using assms worker_new_ok
    by (auto simp: server_inv_def acceptor_new_def handles_ok_def phase_ok_def accounted_def dispatched_connections_def
        worker_new_def comp_def distinct_map inj_on_def image_image)
qed

lemma reachable_inv:
  assumes "reachable L s"
  shows "server_inv cview wview s"
  using assms
proof (induction rule: reachable.induct)
  case (initial b s)
  then show ?case using acceptor_new_ok by (auto simp: try_serve_def split: if_splits)
next
  case (server s s')
  then show ?case using server_step_ok by blast
next
  case (client s s')
  from client(2,3) show ?case by (induction rule: client_step.induct) simp_all
next
  case (panic s t w)
  then show ?case using thread_step_ok by blast
qed

end

end
