(* ===== verification/Server_Shutdown.thy ===== *)
theory Server_Shutdown
  imports Server_Correctness
begin

text \<open>
  The shutdown: how much a server can still do once its acceptor has stopped accepting, and the
  state it ends in.
\<close>

section \<open>The work that is left\<close>

fun phase_weight :: "worker_phase \<Rightarrow> nat" where
  "phase_weight Running = 3"
| "phase_weight (Draining command) = 2"
| "phase_weight (Waiting command) = 1"
| "phase_weight (Stopped command) = 0"
| "phase_weight Crashed = 0"

definition thread_weight :: "('c \<Rightarrow> connection_message channel_view) \<Rightarrow> ('c, 'd) worker_thread \<Rightarrow> nat" where
  "thread_weight cview w =
     phase_weight (wt_phase w) + 2 * length (queued (cview (wt_connection_inbox w))) + length (wt_live w)"

definition server_weight :: "('c \<Rightarrow> connection_message channel_view) \<Rightarrow> ('c, 'd, 'e) server \<Rightarrow> nat" where
  "server_weight cview s = sum_list (map (thread_weight cview) (sv_threads s))
     + (case sv_phase s of AwaitingWorkers notifier \<Rightarrow> 1 | _ \<Rightarrow> 0)"

lemma sum_list_decrease:
  fixes f :: "'a \<Rightarrow> nat"
  shows "t < length xs \<Longrightarrow> f x < f (xs ! t) \<Longrightarrow> sum_list (map f (xs[t := x])) < sum_list (map f xs)"
proof (induction xs arbitrary: t)
  case (Cons y xs)
  then show ?case by (cases t) auto
qed simp

context server_channels
begin

lemma worker_exit_weight:
  assumes "phase_weight phase = 0"
  shows "thread_weight cview (worker_exit L phase w) = 0"
  using assms by (simp add: thread_weight_def worker_exit_def conns.drop_receiver_view view_drop_receiver_def)

lemma worker_step_weight:
  assumes "worker_step L w w'"
  shows "thread_weight cview w' < thread_weight cview w"
  using assms
proof (induction rule: worker_step.induct)
  case (message w msg w')
  from message(2) show ?case
  proof (cases rule: poll_cases)
    case (1 command inbox commands)
    then show ?thesis
      using message(1) worker_exit_weight [of "Stopped command"]
      by (simp add: worker_on_message_def split: shutdown_mode.split)
        (simp add: thread_weight_def conns.close_view view_close_def)
  qed (use message(1) in \<open>simp add: worker_on_message_def handle_connection_def thread_weight_def\<close>)
next
  case (drain w command c inbox)
  then show ?case using conns.recv_cases(1) [OF drain(2)] by (auto simp: handle_connection_def thread_weight_def)
next
  case (drained w command inbox)
  then show ?case using conns.recv_cases(2) [OF drained(2)] by (simp add: thread_weight_def)
next
  case (connection_done c w)
  then have "0 < length (wt_live w)" by auto
  then show ?case using connection_done by (simp add: thread_weight_def length_remove1)
qed (simp_all add: worker_exit_weight, simp_all add: thread_weight_def)

lemma server_step_weight:
  assumes "server_step L s s'" and "sv_phase s \<noteq> Accepting"
  shows "server_weight cview s' < server_weight cview s"
  using assms
proof (induction rule: server_step.induct)
  case (worker t s w)
  then show ?case
    using sum_list_decrease [of t "sv_threads s" "thread_weight cview" w] worker_step_weight
    by (simp add: server_weight_def)
qed (simp_all add: server_weight_def acceptor_done_def)

text \<open>A thread that was told to stop and has not yet ended can take a step.\<close>

lemma told_progress:
  assumes ok: "thread_ok cview k w" and told: "told wview w" and alive: "\<not> ended w"
  shows "\<exists>w'. worker_step L w w'"
proof (cases "wt_phase w")
  case Running
  then obtain c cs where q: "queued (wview (wt_shutdown_inbox w)) = c # cs"
    using told by (auto simp: told_def neq_Nil_conv)
  then have "fst (mpsc_poll_recv (worker_lib L) (wt_shutdown_inbox w)) = Ready (Some c)"
    by (simp add: works.recv_result)
  then obtain inbox where "mpsc_poll_recv (worker_lib L) (wt_shutdown_inbox w) = (Ready (Some c), inbox)"
    by (metis prod.collapse)
  then have "worker_poll_inboxes L w = (Ready (WorkerShutdown c), w\<lparr>wt_shutdown_inbox := inbox\<rparr>)"
    by (simp add: worker_poll_inboxes_def)
  from worker_step.message [OF Running this] show ?thesis ..
next
  case (Draining command)
  let ?q = "cview (wt_connection_inbox w)"
  obtain r inbox where r: "mpsc_poll_recv (connection_lib L) (wt_connection_inbox w) = (r, inbox)" by fastforce
  have "\<not> accepting ?q" using ok Draining by (simp add: thread_ok_def Let_def)
  then have "r = Ready None \<or> (\<exists>c. r = Ready (Some c))"
    using arg_cong [OF r, of fst] by (auto simp: conns.recv_result split: list.splits)
  then show ?thesis
    using r worker_step.drain [OF Draining] worker_step.drained [OF Draining] by blast
next
  case (Waiting command)
  from worker_step.timeout [OF this] show ?thesis ..
qed (use alive in \<open>simp_all add: ended_def\<close>)

end

section \<open>What the phases of the acceptor lead to\<close>

lemma server_step_phase:
  assumes "server_step L s s'" and "sv_phase s \<noteq> Accepting"
  shows "sv_accepted s' = sv_accepted s" and "sv_rejected s' = sv_rejected s"
    and "sv_phase s' = sv_phase s \<or> (\<exists>n. sv_phase s = AwaitingWorkers n \<and> sv_phase s' = AcceptorDone
      \<and> sv_notified s' = insert n (sv_notified s))"
    and "sv_notified s \<subseteq> sv_notified s'"
  using assms by (induction rule: server_step.induct) (auto simp: acceptor_done_def)

lemma server_steps_phase:
  assumes "(server_step L)\<^sup>*\<^sup>* s s'" and "sv_phase s = AwaitingWorkers n \<or> sv_phase s = AcceptorDone"
  shows "(sv_phase s' = AwaitingWorkers n \<or> sv_phase s' = AcceptorDone) \<and> sv_accepted s' = sv_accepted s
    \<and> sv_notified s \<subseteq> sv_notified s'
    \<and> (sv_phase s = AwaitingWorkers n \<and> sv_phase s' = AcceptorDone \<longrightarrow> n \<in> sv_notified s')"
  using assms
proof (induction rule: rtranclp_induct)
  case (step s' s'')
  then have IH: "sv_phase s' = AwaitingWorkers n \<or> sv_phase s' = AcceptorDone" "sv_accepted s' = sv_accepted s"
      "sv_notified s \<subseteq> sv_notified s'"
      "sv_phase s = AwaitingWorkers n \<and> sv_phase s' = AcceptorDone \<longrightarrow> n \<in> sv_notified s'" by blast+
  then have "sv_phase s' \<noteq> Accepting" by auto
  from server_step_phase [OF step(2) this] IH show ?case by auto
qed auto

end
