(* ===== verification/Server_Properties.thy ===== *)
theory Server_Properties
  imports Server_Shutdown
begin

text \<open>
  The theorems on the server, for every implementation of channels that does what is documented, and
  every order in which threads and clients take their steps.
\<close>

section \<open>A server with one worker\<close>

definition list_channels :: "(connection_message channel_view, shutdown_worker_command channel_view,
    server_command channel_view) channels" where
  "list_channels = \<lparr>connection_lib = list_mpsc, worker_lib = list_mpsc, server_lib = list_mpsc\<rparr>"

interpretation ls: server_channels list_channels id id id
proof (intro server_channels.intro)
qed (simp_all add: list_channels_def lc.mpsc_axioms)

type_synonym list_server =
  "(connection_message channel_view, shutdown_worker_command channel_view, server_command channel_view) server"

definition ex_server :: list_server where
  "ex_server = acceptor_new list_channels 1 [0]"

definition ex_asked :: list_server where
  "ex_asked = ex_server\<lparr>sv_command_inbox := snd (view_send (ShutdownServer 7 (Graceful 5)) (sv_command_inbox ex_server))\<rparr>"

definition ex_stopping :: list_server where
  "ex_stopping = acceptor_on_message list_channels (ServerCommand (ShutdownServer 7 (Graceful 5))) ex_server"

definition ex_failed :: list_server where
  "ex_failed = acceptor_on_message list_channels (Connection (Some JoinError)) ex_server"

definition ex_crashed :: list_server where
  "ex_crashed = ex_server\<lparr>sv_threads := [worker_exit list_channels Crashed (sv_threads ex_server ! 0)]\<rparr>"

lemma ex_server_reachable: "reachable list_channels ex_server"
  by (rule reachable.initial [where b = "\<lparr>sb_n_workers = 1, sb_incoming = [0]\<rparr>"])
    (simp_all add: try_serve_def ex_server_def)

lemma ex_idle: "acceptor_poll_inboxes list_channels (Ready m) ex_server = (Ready (Connection m), ex_server)"
  by (simp add: acceptor_poll_inboxes_def ex_server_def acceptor_new_def list_channels_def list_mpsc_def view_new_def view_recv_def)

lemma ex_failed_reachable: "reachable list_channels ex_failed"
proof (rule reachable.server [OF ex_server_reachable])
  show "server_step list_channels ex_server ex_failed"
    unfolding ex_failed_def
    by (rule server_step.accept [OF _ _ ex_idle]) (simp_all add: ex_server_def acceptor_new_def join_ready_def)
qed

lemma ex_crashed_reachable: "reachable list_channels ex_crashed"
proof -
  have threads: "sv_threads ex_server = [worker_new list_channels 0 15]" by (simp add: ex_server_def acceptor_new_def)
  have "\<not> ended (sv_threads ex_server ! 0)" by (simp add: threads worker_new_def ended_def)
  from reachable.panic [OF ex_server_reachable _ crash_step.crash [OF this]] show ?thesis
    by (simp add: ex_crashed_def threads)
qed

lemma ex_stopping_reachable: "reachable list_channels ex_stopping"
proof -
  have "mpsc_try_send (server_lib list_channels) (ShutdownServer 7 (Graceful 5)) (sv_command_inbox ex_server) =
      (None, sv_command_inbox ex_asked)"
    by (simp add: ex_asked_def ex_server_def acceptor_new_def list_channels_def list_mpsc_def view_new_def view_send_def has_room_def)
  from client_step.handle_shutdown [OF this] have "client_step list_channels ex_server ex_asked"
    by (simp add: ex_asked_def)
  then have asked: "reachable list_channels ex_asked" by (rule reachable.client [OF ex_server_reachable])
  have "acceptor_poll_inboxes list_channels Pending ex_asked = (Ready (ServerCommand (ShutdownServer 7 (Graceful 5))), ex_server)"
    by (simp add: ex_asked_def acceptor_poll_inboxes_def ex_server_def acceptor_new_def list_channels_def list_mpsc_def
        view_new_def view_recv_def view_send_def has_room_def)
  then have "server_step list_channels ex_asked ex_stopping"
    unfolding ex_stopping_def
    by (intro server_step.accept) (simp_all add: ex_asked_def ex_server_def acceptor_new_def join_ready_def)
  then show ?thesis by (rule reachable.server [OF asked])
qed

section \<open>Workers and their handles\<close>



section \<open>Connections\<close>

text \<open>C6: Every connection that was accepted was either turned down or sent to one worker. A worker handles
  connections in the order in which they were sent. As long as it runs, the ones it has not handled
  are in its queue, which never holds more than fifteen.\<close>

theorem connections_accounted_for:
  assumes channels: "server_channels L cview wview sview" and reach: "reachable L s"
  shows "mset (sv_accepted s) = mset (sv_rejected s) + sum_list (map (\<lambda>w. mset (wt_dispatched w)) (sv_threads s))
    \<and> (\<forall>w \<in> set (sv_threads s). prefix (wt_handled w) (wt_dispatched w)
         \<and> length (queued (cview (wt_connection_inbox w))) \<le> 15
         \<and> (wt_phase w = Running \<longrightarrow> wt_dispatched w = wt_handled w @ queued (cview (wt_connection_inbox w))))"
proof -
  note inv = server_channels.reachable_inv [OF channels reach]
  have "thread_ok cview 15 w" if "w \<in> set (sv_threads s)" for w
    using server_invD(2) [OF inv that] handles_okD(8) [OF server_invD(1) [OF inv]] by simp
  then show ?thesis
    using server_invD(5) [OF inv] thread_okD(1-3) unfolding accounted_def dispatched_connections_def by metis
qed

theorem connections_accounted_for_witness:
  "mset (sv_accepted ex_stopping) = mset (sv_rejected ex_stopping)
     + sum_list (map (\<lambda>w. mset (wt_dispatched w)) (sv_threads ex_stopping))"
  using connections_accounted_for [OF ls.server_channels_axioms ex_stopping_reachable] by blast

text \<open>C15: A worker that was stopped gracefully has handled every connection that was sent to it, also
  those that were waiting in its queue when the command arrived.\<close>

theorem graceful_shutdown_handles_all:
  assumes channels: "server_channels L cview wview sview" and reach: "reachable L s"
    and w: "w \<in> set (sv_threads s)" "wt_phase w = Stopped command" "is_graceful (sw_mode command)"
  shows "wt_handled w = wt_dispatched w"
  using thread_okD(4) [OF server_invD(2) [OF server_channels.reachable_inv [OF channels reach] w(1)] w(2,3)] by simp

definition ex_command :: shutdown_worker_command where
  "ex_command = \<lparr>sw_completion_notifier = 0, sw_mode = Graceful 5\<rparr>"

definition ex_threads :: "worker_phase \<Rightarrow> bool \<Rightarrow> shutdown_worker_command list
    \<Rightarrow> (connection_message channel_view, shutdown_worker_command channel_view) worker_thread list" where
  "ex_threads phase open commands =
     [\<lparr>wt_id = 0, wt_connection_inbox = \<lparr>queued = [], capacity = Some 15, accepting = open, has_sender = False\<rparr>,
       wt_shutdown_inbox = \<lparr>queued = commands, capacity = None, accepting = True, has_sender = False\<rparr>,
       wt_phase = phase, wt_live = [], wt_dispatched = [], wt_handled = []\<rparr>]"

lemmas list_server_defs = list_channels_def list_mpsc_def view_new_def view_send_def view_recv_def has_room_def
  view_close_def view_drop_receiver_def view_drop_senders_def

lemma ex_stopping_eq: "ex_stopping = ex_stopping\<lparr>sv_threads := ex_threads Running True [ex_command]\<rparr>"
  by (simp add: ex_stopping_def acceptor_on_message_def acceptor_shutdown_def worker_shutdown_def ex_server_def
      acceptor_new_def worker_new_def ex_threads_def ex_command_def list_server_defs)

lemma ex_worker_steps:
  "worker_step list_channels (ex_threads Running True [ex_command] ! 0) (ex_threads (Draining ex_command) False [] ! 0)"
  "worker_step list_channels (ex_threads (Draining ex_command) False [] ! 0) (ex_threads (Waiting ex_command) False [] ! 0)"
proof -
  have "worker_poll_inboxes list_channels (ex_threads Running True [ex_command] ! 0) =
      (Ready (WorkerShutdown ex_command), ex_threads Running True [] ! 0)"
    by (simp add: worker_poll_inboxes_def ex_threads_def list_server_defs)
  from worker_step.message [OF _ this]
  show "worker_step list_channels (ex_threads Running True [ex_command] ! 0) (ex_threads (Draining ex_command) False [] ! 0)"
    by (simp add: ex_threads_def worker_on_message_def ex_command_def list_server_defs)
  let ?w = "ex_threads (Draining ex_command) False [] ! 0"
  have "mpsc_poll_recv (connection_lib list_channels) (wt_connection_inbox ?w) = (Ready None, wt_connection_inbox ?w)"
    by (simp add: ex_threads_def list_server_defs)
  from worker_step.drained [OF _ this, of ex_command]
  show "worker_step list_channels ?w (ex_threads (Waiting ex_command) False [] ! 0)"
    by (simp add: ex_threads_def)
qed

definition ex_stopped :: list_server where
  "ex_stopped = ex_stopping\<lparr>sv_threads := [worker_exit list_channels (Stopped ex_command) (ex_threads (Waiting ex_command) False [] ! 0)]\<rparr>"

lemma ex_stopped_reachable: "reachable list_channels ex_stopped"
proof -
  have step: "reachable list_channels (ex_stopping\<lparr>sv_threads := [w']\<rparr>)"
    if "reachable list_channels (ex_stopping\<lparr>sv_threads := [w]\<rparr>)" "worker_step list_channels w w'" for w w'
    using reachable.server [OF that(1) server_step.worker [of 0]] that(2) by simp
  have one: "ex_threads ph op cs = [ex_threads ph op cs ! 0]" for ph op cs by (simp add: ex_threads_def)
  have start: "reachable list_channels (ex_stopping\<lparr>sv_threads := [ex_threads Running True [ex_command] ! 0]\<rparr>)"
    unfolding one [symmetric] using ex_stopping_reachable ex_stopping_eq by simp
  have "worker_step list_channels (ex_threads (Waiting ex_command) False [] ! 0)
      (worker_exit list_channels (Stopped ex_command) (ex_threads (Waiting ex_command) False [] ! 0))"
    by (rule worker_step.all_closed) (simp_all add: ex_threads_def)
  from step [OF step [OF step [OF start ex_worker_steps(1)] ex_worker_steps(2)] this] show ?thesis
    by (simp add: ex_stopped_def)
qed

theorem graceful_shutdown_handles_all_witness:
  "wt_handled (sv_threads ex_stopped ! 0) = wt_dispatched (sv_threads ex_stopped ! 0)"
  by (rule graceful_shutdown_handles_all [OF ls.server_channels_axioms ex_stopped_reachable, where command = ex_command])
    (simp_all add: ex_stopped_def worker_exit_def ex_command_def)

section \<open>Which worker gets a connection\<close>

text \<open>What the acceptor does with a connection\<close>

lemma accept_dispatch:
  assumes channels: "server_channels L cview wview sview" and inv: "server_inv cview wview s" and phase: "sv_phase s = Accepting"
    and s1_def: "s1 = s\<lparr>sv_incoming := remove1 l (sv_incoming s) @ [l], sv_accepted := sv_accepted s @ [c]\<rparr>"
    and c_def: "c = \<lparr>cm_connection = stream, cm_peer_addr = peer\<rparr>" and n_def: "n = length (sv_worker_handles s)"
  obtains b t where "dispatch_loop L n n c s1 = Inr (b, t)" "pool_ok cview wview s1" "pool_ok cview wview t" "same_rest s1 t"
    and "acceptor_on_message L (Connection (Some (Accepted l stream peer))) s =
      (if b then t else t\<lparr>sv_rejected := sv_rejected t @ [c]\<rparr>)"
proof -
  have pool: "pool_ok cview wview s1"
    using server_invD(1-4) [OF inv] phase by (simp add: pool_ok_def phase_ok_def handles_ok_def s1_def)
  then obtain b t where t: "dispatch_loop L n n c s1 = Inr (b, t)" "pool_ok cview wview t" "same_rest s1 t"
    using server_channels.dispatch_loop_ok [OF channels pool, of n n c] by (auto simp: s1_def n_def)
  have "acceptor_on_message L (Connection (Some (Accepted l stream peer))) s =
      (if b then t else t\<lparr>sv_rejected := sv_rejected t @ [c]\<rparr>)"
    using t(1) by (cases b) (simp_all add: acceptor_on_message_def Let_def s1_def n_def c_def)
  with t pool that show thesis by blast
qed

text \<open>C16: A connection goes to the first worker with room in its queue, in the cyclic order that starts at
  the worker that got the previous one. It is turned down exactly if no worker has room, and then
  every worker is running, as crashed ones are replaced.\<close>

theorem first_free_worker_gets_connection:
  assumes channels: "server_channels L cview wview sview" and reach: "reachable L s" and phase: "sv_phase s = Accepting"
    and n: "n = length (sv_worker_handles s)" and c: "c = \<lparr>cm_connection = stream, cm_peer_addr = peer\<rparr>"
    and s': "s' = acceptor_on_message L (Connection (Some (Accepted l stream peer))) s"
  shows "if \<exists>j < n. free cview (worker_at s ((sv_next_worker s + j) mod n))
    then \<exists>j < n. free cview (worker_at s ((sv_next_worker s + j) mod n))
           \<and> (\<forall>i < j. \<not> free cview (worker_at s ((sv_next_worker s + i) mod n)))
           \<and> sv_next_worker s' = (sv_next_worker s + j) mod n
           \<and> wt_dispatched (worker_at s' (sv_next_worker s')) = wt_dispatched (worker_at s (sv_next_worker s')) @ [c]
           \<and> sv_rejected s' = sv_rejected s
    else sv_rejected s' = sv_rejected s @ [c]
           \<and> (\<forall>j < n. wt_phase (worker_at s' ((sv_next_worker s + j) mod n)) = Running)"
proof -
  let ?s1 = "s\<lparr>sv_incoming := remove1 l (sv_incoming s) @ [l], sv_accepted := sv_accepted s @ [c]\<rparr>"
  note inv = server_channels.reachable_inv [OF channels reach]
  obtain b t where t: "dispatch_loop L n n c ?s1 = Inr (b, t)" "pool_ok cview wview ?s1" "same_rest ?s1 t"
      "s' = (if b then t else t\<lparr>sv_rejected := sv_rejected t @ [c]\<rparr>)"
    using accept_dispatch [OF channels inv phase refl c n] unfolding s' by metis
  have at: "worker_at ?s1 i = worker_at s i" for i by (simp add: worker_at_def)
  note found = server_channels.dispatch_loop_finds [OF channels t(2) _ order_refl t(1), simplified, unfolded at, OF n]
  have "sv_next_worker s < n" using handles_okD(2) [OF server_invD(1) [OF inv]] n by simp
  show ?thesis
  proof (cases b)
    case True
    then obtain j where j: "j < n" "free cview (worker_at s ((sv_next_worker s + j) mod n))"
        "\<forall>i < j. \<not> free cview (worker_at s ((sv_next_worker s + i) mod n))" "sv_next_worker t = (sv_next_worker s + j) mod n"
        "wt_dispatched (worker_at t (sv_next_worker t mod n)) = wt_dispatched (worker_at s ((sv_next_worker s + j) mod n)) @ [c]"
      using found by auto
    have "sv_next_worker t mod n = sv_next_worker t" using j(4) by simp
    then show ?thesis
      using True j t(3,4) by (auto simp: same_rest_def intro!: exI [of _ j])
  next
    case False
    then have "worker_at s' i = worker_at t i" for i using t(4) by (simp add: worker_at_def)
    then show ?thesis using False found t(3,4) by (auto simp: same_rest_def Let_def)
  qed
qed

lemma ex_server_facts:
  "sv_phase ex_server = Accepting" "length (sv_worker_handles ex_server) = 1" "sv_next_worker ex_server = 0"
  "free id (worker_at ex_server 0)" "sv_rejected ex_server = []"
  by (simp_all add: ex_server_def acceptor_new_def worker_at_def worker_new_def free_def list_server_defs)

lemma ex_crashed_facts:
  "sv_phase ex_crashed = Accepting" "length (sv_worker_handles ex_crashed) = 1" "sv_next_worker ex_crashed = 0"
  "\<not> free id (worker_at ex_crashed 0)" "ended (worker_at ex_crashed 0)" "sv_rejected ex_crashed = []"
  by (simp_all add: ex_crashed_def ex_server_def acceptor_new_def worker_at_def worker_new_def worker_exit_def free_def
      ended_def list_server_defs)

theorem first_free_worker_gets_connection_witness:
  "sv_rejected (acceptor_on_message list_channels (Connection (Some (Accepted 0 5 6))) ex_server) = []"
  using first_free_worker_gets_connection [OF ls.server_channels_axioms ex_server_reachable ex_server_facts(1) refl refl refl,
      where l = 0 and stream = 5 and peer = 6] ex_server_facts
  by (simp split: if_splits)

text \<open>Theorem: The worker that gets a connection gets the next one too, for as long as it has room: handing
  out a connection does not move on to the next worker.\<close>

theorem next_worker_is_kept:
  assumes channels: "server_channels L cview wview sview" and reach: "reachable L s" and phase: "sv_phase s = Accepting"
    and room: "free cview (worker_at s (sv_next_worker s))"
    and s': "s' = acceptor_on_message L (Connection (Some (Accepted l stream peer))) s"
  shows "sv_next_worker s' = sv_next_worker s
    \<and> wt_dispatched (worker_at s' (sv_next_worker s)) =
        wt_dispatched (worker_at s (sv_next_worker s)) @ [\<lparr>cm_connection = stream, cm_peer_addr = peer\<rparr>]"
proof -
  let ?c = "\<lparr>cm_connection = stream, cm_peer_addr = peer\<rparr>" and ?n = "length (sv_worker_handles s)" and ?i = "sv_next_worker s"
  let ?s1 = "s\<lparr>sv_incoming := remove1 l (sv_incoming s) @ [l], sv_accepted := sv_accepted s @ [?c]\<rparr>"
  note inv = server_channels.reachable_inv [OF channels reach]
  obtain b t where t: "dispatch_loop L ?n ?n ?c ?s1 = Inr (b, t)" "pool_ok cview wview ?s1"
      "s' = (if b then t else t\<lparr>sv_rejected := sv_rejected t @ [?c]\<rparr>)"
    using accept_dispatch [OF channels inv phase refl refl refl] unfolding s' by metis
  have i: "?i < ?n" by (rule handles_okD(2) [OF server_invD(1) [OF inv]])
  have at: "worker_at ?s1 j = worker_at s j" for j by (simp add: worker_at_def)
  note found = server_channels.dispatch_loop_finds [OF channels t(2) _ order_refl t(1), simplified, unfolded at]
  have first: "free cview (worker_at s ((?i + 0) mod ?n))" using i room by simp
  have b using found first i by (cases b) (auto dest!: spec [of _ 0])
  then obtain j where j: "\<forall>l < j. \<not> free cview (worker_at s ((?i + l) mod ?n))" "sv_next_worker t = (?i + j) mod ?n"
      "wt_dispatched (worker_at t (sv_next_worker t mod ?n)) = wt_dispatched (worker_at s ((?i + j) mod ?n)) @ [?c]"
    using found by auto
  have "j = 0" using j(1) first by (metis gr0I)
  then show ?thesis using j(2,3) i t(3) \<open>b\<close> by simp
qed

theorem next_worker_is_kept_witness:
  "sv_next_worker (acceptor_on_message list_channels (Connection (Some (Accepted 0 5 6))) ex_server) = 0"
  using next_worker_is_kept [OF ls.server_channels_axioms ex_server_reachable ex_server_facts(1) _ refl] ex_server_facts
  by simp

text \<open>C37: If no worker has room and one of them has crashed, the connection is turned down, although
  the crashed worker has been replaced by one with an empty queue.\<close>

theorem turned_down_beside_fresh_worker:
  assumes channels: "server_channels L cview wview sview" and reach: "reachable L s" and phase: "sv_phase s = Accepting"
    and busy: "\<forall>i < length (sv_worker_handles s). \<not> free cview (worker_at s i)"
    and crashed: "j < length (sv_worker_handles s)" "ended (worker_at s j)"
    and s': "s' = acceptor_on_message L (Connection (Some (Accepted l stream peer))) s"
  shows "sv_rejected s' = sv_rejected s @ [\<lparr>cm_connection = stream, cm_peer_addr = peer\<rparr>] \<and> free cview (worker_at s' j)"
proof -
  let ?c = "\<lparr>cm_connection = stream, cm_peer_addr = peer\<rparr>" and ?n = "length (sv_worker_handles s)" and ?i = "sv_next_worker s"
  let ?s1 = "s\<lparr>sv_incoming := remove1 l (sv_incoming s) @ [l], sv_accepted := sv_accepted s @ [?c]\<rparr>"
  note inv = server_channels.reachable_inv [OF channels reach]
  obtain b t where t: "dispatch_loop L ?n ?n ?c ?s1 = Inr (b, t)" "pool_ok cview wview ?s1" "same_rest ?s1 t"
      "s' = (if b then t else t\<lparr>sv_rejected := sv_rejected t @ [?c]\<rparr>)"
    using accept_dispatch [OF channels inv phase refl refl refl] unfolding s' by metis
  have i: "?i < ?n" by (rule handles_okD(2) [OF server_invD(1) [OF inv]])
  have at: "worker_at ?s1 j = worker_at s j" for j by (simp add: worker_at_def)
  note found = server_channels.dispatch_loop_finds [OF channels t(2) _ order_refl t(1), simplified, unfolded at]
  have "(?i + k) mod ?n < ?n" for k using i by (intro mod_less_divisor) linarith
  then have "\<not> free cview (worker_at s ((?i + k) mod ?n))" for k using busy by blast
  then have nb: "\<not> b" using found by (cases b) auto
  define k where "k = (j + (?n - ?i)) mod ?n"
  have "k < ?n" unfolding k_def using i by (intro mod_less_divisor) linarith
  moreover have "(?i + k) mod ?n = (?i + (j + (?n - ?i))) mod ?n" by (simp only: k_def mod_add_right_eq)
  then have "(?i + k) mod ?n = j" using crashed(1) i by simp
  ultimately have k: "k < ?n" "(?i + k) mod ?n = j" by blast+
  then have "worker_at t j = worker_new L j 15"
    using found nb crashed(2) handles_okD(8) [OF server_invD(1) [OF inv]] by (auto simp: Let_def)
  then have "free cview (worker_at s' j)"
    using t(4) nb server_channels.worker_new_ok(1) [OF channels, of 15 j]
      mpsc.new_view [OF server_channels.axioms(1) [OF channels]]
    by (simp add: worker_at_def free_def worker_new_def view_new_def has_room_def)
  then show ?thesis using nb t(3,4) by (simp add: same_rest_def)
qed

theorem turned_down_beside_fresh_worker_witness:
  "sv_rejected (acceptor_on_message list_channels (Connection (Some (Accepted 0 5 6))) ex_crashed) =
     [\<lparr>cm_connection = 5, cm_peer_addr = 6\<rparr>]"
  using turned_down_beside_fresh_worker [OF ls.server_channels_axioms ex_crashed_reachable ex_crashed_facts(1) _ _ _ refl,
      of 0] ex_crashed_facts
  by simp

section \<open>Shutting down\<close>

text \<open>C20: Once the acceptor has stopped accepting connections, only finitely many steps are left, whatever
  the order in which the threads take them.\<close>

theorem shutdown_terminates:
  assumes channels: "server_channels L cview wview sview"
  shows "wf {(s', s). sv_phase s \<noteq> Accepting \<and> server_step L s s'}"
proof (rule wf_subset)
  show "wf (measure (server_weight cview))" by simp
  show "{(s', s). sv_phase s \<noteq> Accepting \<and> server_step L s s'} \<subseteq> measure (server_weight cview)"
    using server_channels.server_step_weight [OF channels] by auto
qed

theorem shutdown_terminates_witness:
  "wf {(s', s). sv_phase s \<noteq> Accepting \<and> server_step list_channels s s'}"
  by (rule shutdown_terminates [OF ls.server_channels_axioms])

text \<open>C5: A shutdown that waits for the workers accepts no more connections, and ends with the caller
  notified and every worker stopped or crashed: no other state is left without a next step.\<close>

theorem shutdown_completes:
  assumes channels: "server_channels L cview wview sview" and reach: "reachable L s"
    and phase: "sv_phase s = AwaitingWorkers notifier"
    and steps: "(server_step L)\<^sup>*\<^sup>* s t" and stuck: "\<nexists>t'. server_step L t t'"
  shows "sv_phase t = AcceptorDone \<and> notifier \<in> sv_notified t \<and> sv_accepted t = sv_accepted s
    \<and> (\<forall>w \<in> set (sv_threads t). ended w)"
proof -
  note facts = server_steps_phase [OF steps disjI1 [OF phase]]
  have finished: "sv_phase t = AcceptorDone"
    using facts stuck server_step.shutdown_timeout by blast
  have "reachable L t"
    using steps by (induction rule: rtranclp_induct) (use reach reachable.server in blast)+
  note inv = server_channels.reachable_inv [OF channels this]
  have "ended (sv_threads t ! i)" if i: "i < length (sv_threads t)" for i
  proof (rule ccontr)
    assume alive: "\<not> ended (sv_threads t ! i)"
    have mem: "sv_threads t ! i \<in> set (sv_threads t)" using i by simp
    have "told wview (sv_threads t ! i)" using server_invD(4) [OF inv] finished mem by (simp add: phase_ok_def)
    from server_channels.told_progress [OF channels server_invD(2) [OF inv mem] this alive]
    show False using server_step.worker [OF i] stuck by blast
  qed
  then have "\<forall>w \<in> set (sv_threads t). ended w" by (auto simp: in_set_conv_nth)
  then show ?thesis using facts finished phase by simp
qed

lemma ex_stopping_phase: "sv_phase ex_stopping = AwaitingWorkers 7"
  by (simp add: ex_stopping_def acceptor_on_message_def acceptor_shutdown_def worker_shutdown_def Let_def)

theorem shutdown_completes_witness:
  "\<exists>t. (server_step list_channels)\<^sup>*\<^sup>* ex_stopping t \<and> 7 \<in> sv_notified t \<and> (\<forall>w \<in> set (sv_threads t). ended w)"
proof -
  let ?R = "{(s', s). sv_phase s \<noteq> Accepting \<and> server_step list_channels s s'}"
  have "wf ?R"
    by (rule wf_subset [OF wf_measure [of "server_weight id"]]) (use ls.server_step_weight in auto)
  then obtain t where t: "(server_step list_channels)\<^sup>*\<^sup>* ex_stopping t"
      "\<forall>t'. (t', t) \<in> ?R \<longrightarrow> \<not> (server_step list_channels)\<^sup>*\<^sup>* ex_stopping t'"
    using wfE_min [of ?R ex_stopping "{t. (server_step list_channels)\<^sup>*\<^sup>* ex_stopping t}"] by auto
  have "sv_phase t \<noteq> Accepting" using server_steps_phase [OF t(1) disjI1 [OF ex_stopping_phase]] by auto
  then have "\<nexists>t'. server_step list_channels t t'" using t by (auto dest: rtranclp.rtrancl_into_rtrancl)
  from shutdown_completes [OF ls.server_channels_axioms ex_stopping_reachable ex_stopping_phase t(1) this] t(1)
  show ?thesis by blast
qed

section \<open>When the acceptor fails\<close>

lemma worker_step_not_crashed:
  assumes "worker_step L w w'" and "wt_phase w' = Crashed"
  shows "wt_phase w = Crashed"
proof -
  have poll: "wt_phase w' = wt_phase w" if "worker_poll_inboxes L w = (r, w')" for r and w w' :: "('a, 'b) worker_thread"
    using that by (auto simp: worker_poll_inboxes_def Let_def split: prod.splits poll.splits option.splits)
  from assms show ?thesis
  proof (induction rule: worker_step.induct)
    case (message w msg w')
    then show ?case
      using poll [OF message(2)]
      by (auto simp: worker_on_message_def handle_connection_def worker_exit_def
          split: worker_inbox_message.splits shutdown_mode.splits)
  qed (simp_all add: handle_connection_def worker_exit_def)
qed

text \<open>C38: If the acceptor ends because a task that accepts connections has panicked, nothing tells the
  workers: one that runs never stops, whatever the server does.\<close>

theorem failed_acceptor_strands_workers:
  assumes channels: "server_channels L cview wview sview" and reach: "reachable L s" and phase: "sv_phase s = AcceptorFailed"
    and i: "i < length (sv_threads s)" "wt_phase (sv_threads s ! i) = Running" and steps: "(server_step L)\<^sup>*\<^sup>* s t"
  shows "wt_phase (sv_threads t ! i) = Running \<and> sv_notified t = sv_notified s"
proof -
  have stay: "wt_phase w' = Running"
    if "worker_step L w w'" "untold wview w" "wt_phase w = Running" for w w'
    using server_channels.worker_step_keeps(5) [OF channels that(1,2)] worker_step_not_crashed [OF that(1)] that(3)
    by (auto simp: untold_def)
  have "reachable L t \<and> sv_phase t = AcceptorFailed \<and> i < length (sv_threads t)
      \<and> wt_phase (sv_threads t ! i) = Running \<and> sv_notified t = sv_notified s"
    using steps
  proof (induction rule: rtranclp_induct)
    case (step t t')
    then have IH: "reachable L t" "sv_phase t = AcceptorFailed" "i < length (sv_threads t)"
        "wt_phase (sv_threads t ! i) = Running" "sv_notified t = sv_notified s" by blast+
    note inv = server_channels.reachable_inv [OF channels IH(1)]
    have untold: "untold wview (sv_threads t ! i)" using server_invD(4) [OF inv] IH(2,3) by (simp add: phase_ok_def)
    have reach': "reachable L t'" by (rule reachable.server [OF IH(1) step(2)])
    from step(2) show ?case
    proof cases
      case (worker j w)
      then show ?thesis using IH reach' stay [OF _ untold IH(4)] by (cases "j = i") auto
    qed (use IH(2) in simp_all)
  qed (use reach phase i in simp)
  then show ?thesis by blast
qed

theorem failed_acceptor_strands_workers_witness:
  "wt_phase (sv_threads ex_failed ! 0) = Running"
proof -
  have "sv_phase ex_failed = AcceptorFailed" "0 < length (sv_threads ex_failed)" "wt_phase (sv_threads ex_failed ! 0) = Running"
    by (simp_all add: ex_failed_def ex_server_def acceptor_on_message_def acceptor_fail_def acceptor_new_def drop_handle_def
        worker_new_def Let_def)
  from failed_acceptor_strands_workers [OF ls.server_channels_axioms ex_failed_reachable this rtranclp.rtrancl_refl]
  show ?thesis by blast
qed

end
