(* ===== verification/Spec2Isabelle.thy ===== *)
theory Spec2Isabelle
  imports Session_Witnesses Memory_Properties Method_Guard_Properties Path_Params_Properties
    Domain_Guard_Properties Scope_Graph_Properties Interner Call_Order_Properties Input_Parameters_Properties
    Router_Domains Router_Edge_Cases Server_Properties
begin

text \<open>
  Pavex is a web framework for Rust. An application is described by a \<^emph>\<open>blueprint\<close>, a list
  of routes, constructors, middlewares and nested blueprints; the compiler \<^verbatim>\<open>pavexc\<close>
  analyses it and generates the code of the server; the generated code runs on the library
  \<^verbatim>\<open>pavex\<close> and, for state that outlives a request, on the sessions of
  \<^verbatim>\<open>pavex_session\<close>. This library models parts of all three, with paths relative to
  \<^verbatim>\<open>src/libs\<close>. How they meet:

  \<^item> \<open>Blueprint_Processing\<close> registers the components of a blueprint, and puts each into a scope
    of the graph of \<open>Scope_Graph\<close>; identifiers go through \<open>Interner\<close>, domains through
    \<open>Domain_Guard\<close>. \<open>Router\<close> builds the routers from these tables, with the tree of \<open>Fallback_Tree\<close>,
    and \<open>Request_Routing\<close> says what the generated server does with them for a request.
  \<^item> The types and functions that a component refers to are values of \<open>Resolved_Type\<close> and
    \<open>Callable\<close>. \<open>Ownership\<close> and \<open>Call_Order\<close> check and order the graph of the calls that serve a
    request, and \<open>Input_Parameters\<close> computes the parameters of the generated functions.
  \<^item> At run time, \<open>Server\<close> hands connections to worker threads that run the generated code,
    \<open>Method_Guard\<close> and \<open>Path_Params\<close> decide which requests a route takes and what
    a handler reads off the path, and \<open>Session\<close>, \<open>Session_Sync\<close> with a backend such as
    \<open>Memory_Store\<close> keep the state of a session and turn it into a cookie.

  \<^bold>\<open>Theories.\<close>

  \<^item> \<open>Prelude\<close>: \<open>result\<close> (\<open>Inl\<close> an error or a panic, \<open>Inr\<close> a value) with its combinators, and
    lemmas on lists and maps.
  \<^item> Sessions, \<^verbatim>\<open>pavex_session\<close> and \<^verbatim>\<open>pavex_session_memory_store\<close>:
    \<open>Session_Store\<close> (\<^verbatim>\<open>store_.rs\<close>; the locale \<open>storage_backend\<close> is the contract of a
    backend), \<open>Session_Config\<close> (\<^verbatim>\<open>config/\<close>), \<open>Session\<close> and \<open>Session_Client\<close> (the two
    halves of \<^verbatim>\<open>session_.rs\<close>), \<open>Session_Sync\<close> (\<^verbatim>\<open>sync\<close> and
    \<^verbatim>\<open>finalize\<close>), \<open>Memory_Store\<close> (the in-memory backend, the interpretation of the
    contract). \<open>Session_Laws\<close> and \<open>Session_Contract\<close> hold the step relation of a session, its
    invariant and what synchronisation leaves in any backend; \<open>Session_Properties\<close>,
    \<open>Session_Sync_Properties\<close>, \<open>Memory_Properties\<close> and \<open>Session_Witnesses\<close> the theorems: refinement of
    a key-value map, durability, retirement of cycled and invalidated identifiers, absence of
    panics.
  \<^item> HTTP, \<^verbatim>\<open>pavex\<close>: \<open>Method_Guard\<close> (\<^verbatim>\<open>blueprint/router/\<close>,
    \<^verbatim>\<open>router/\<close>) and \<open>Path_Params\<close> (\<^verbatim>\<open>request/path/\<close>), with theories of
    properties: exactness of guards, round trips of the deserializer, error responses.
  \<^item> Server, \<^verbatim>\<open>pavex/src/server\<close>: \<open>Channels\<close> (the locale \<open>mpsc\<close>, what is relied on
    in the channels of tokio), \<open>Server\<close> (\<^verbatim>\<open>server_handle.rs\<close>, \<^verbatim>\<open>worker.rs\<close> as
    step relations of threads), \<open>Server_Invariants\<close> (what a step of a thread keeps),
    \<open>Server_Dispatch\<close> (the loop over workers), \<open>Server_Correctness\<close> (the invariant holds in every
    reachable state), \<open>Server_Shutdown\<close> (a measure of the work that is left), \<open>Server_Properties\<close>: no
    connection is lost without a reason, a graceful shutdown ends with all workers stopped.
  \<^item> Front end, \<^verbatim>\<open>pavex_reflection\<close>, \<^verbatim>\<open>pavex_bp_schema\<close>, \<^verbatim>\<open>pavexc\<close>:
    \<open>Raw_Identifiers\<close> (import paths), \<open>Blueprint\<close> (the schema and the tables about components;
    the locale \<open>registry\<close>), \<open>Blueprint_Processing\<close> (\<^verbatim>\<open>user_components/blueprint.rs\<close>).
    \<open>Blueprint_Registry\<close> and \<open>Blueprint_Endpoints\<close> state the contract of each operation,
    \<open>Blueprint_Properties\<close> composes them, \<open>Blueprint_Correctness\<close> holds the theorems: the pass with its
    queue registers what a recursive reference function says, places every component in the
    scope graph and reports exactly the invalid blueprints. \<open>Blueprint_Domains\<close> says which domains
    are recorded.
  \<^item> Routing, \<^verbatim>\<open>pavexc/src/compiler/analyses\<close>: \<open>Domain_Guard\<close> (\<^verbatim>\<open>domain.rs\<close>:
    validation is equivalent to a grammar), \<open>Route_Path\<close> (\<^verbatim>\<open>route_path.rs\<close>: a round trip),
    \<open>Scope_Graph\<close> (\<^verbatim>\<open>scope_graph.rs\<close>: common ancestors), \<open>Fallback_Tree\<close>
    (\<^verbatim>\<open>user_components/router.rs\<close>: the innermost fallback is found).
  \<^item> Routers: \<open>Router\<close> (the rest of \<^verbatim>\<open>user_components/router.rs\<close>),
    \<open>Request_Routing\<close> (\<^verbatim>\<open>analyses/router.rs\<close> and what the functions emitted by
    \<^verbatim>\<open>codegen/router.rs\<close> compute), \<open>Path_Matching\<close> (the locale \<open>path_matching\<close>, what is
    relied on in matchit). \<open>Router_Checks\<close> holds the contract of every check, \<open>Router_Dispatch\<close> which
    handler a built router leads to, \<open>Router_Totality\<close> that nothing panics, \<open>Router_Properties\<close> the
    composition; \<open>Router_Example\<close> computes the routers of two applications. \<open>Router_Correctness\<close> and
    \<open>Router_Domains\<close> hold the theorems: every request reaches a handler that accepts it, or the
    innermost fallback. \<open>Router_Edge_Cases\<close> proves where the checks miss something.
  \<^item> Language, \<^verbatim>\<open>pavexc/src/language\<close>: \<open>Resolved_Type\<close>, \<open>Type_Lifetimes\<close>
    (\<^verbatim>\<open>resolved_type.rs\<close>), \<open>Callable\<close> (\<^verbatim>\<open>callable.rs\<close>). \<open>Type_Equivalence\<close> and
    \<open>Templates\<close> relate the matching algorithms to similarity of types and to substitution.
  \<^item> Call graphs: \<open>Ownership\<close> (\<^verbatim>\<open>borrow_checker/ownership_relationship.rs\<close>) refines sets of
    relations, \<open>Call_Order\<close> (\<^verbatim>\<open>assign_order.rs\<close>, \<^verbatim>\<open>ordered_call_graph.rs\<close>)
    finds an order exactly if one exists, \<open>Input_Parameters\<close>
    (\<^verbatim>\<open>processing_pipeline/pipeline.rs\<close>).

  \<^bold>\<open>Conventions.\<close> Definitions keep the names of the source. A struct is a record, an enum a
  datatype, a hash map a finite map or an association list where its order is observed, a vector
  used as a stack a list whose top is the last element. An error is an \<open>Inl\<close>; a panic is an
  \<open>Inl\<close> with the tag \<open>Panicked\<close> and the message. Loops are structural recursion, \<open>function\<close> with a
  measure, or, where the data decide whether they end, \<open>partial_function (option)\<close>: the theorems
  on the search for ancestors, the order of calls and the tree of fallbacks prove that they return.
  Threads are an \<open>inductive\<close> step relation, in which any thread may take the next step.
  No fuel is used. Integers that can wrap are words.

  \<^bold>\<open>What is a parameter.\<close> Code of other crates is an argument, its documented behaviour a locale or a
  hypothesis: graphs (\<open>digraph\<close>, petgraph), arenas (\<open>arena\<close>, la_arena), both in \<open>registry\<close>; the matcher
  of paths (\<open>path_matching\<close>, matchit); channels (\<open>mpsc\<close>, tokio); the storage
  of sessions (\<open>storage_backend\<close>), random identifiers, the clock; identifiers of Rust (syn); parsers of
  numbers (serde). Every locale is interpreted: graphs, arenas, routes and queues on lists, storage on the
  model of the in-memory backend.

  \<^bold>\<open>Not modelled.\<close> PROJECT.json lists the components. In short: what talks to the outside (sockets,
  the SQL stores, command line tools), what reads the JSON of rustdoc (the resolution of
  types and callables, annotations, imports), what prints (diagnostics, the code generator's
  token streams), procedural macros, and the examples.
\<close>

end
